(* ===== verification/Prelude.thy ===== *)
theory Prelude
  imports Main "HOL-Library.Sublist" "HOL-Library.Char_ord" "HOL-Library.List_Lexorder"
begin

text \<open>
  Shared vocabulary of the development.

  \<^item> Effects: an asynchronous service method of the gateway is an action over an explicit world,
    which returns either the exception it throws or its value, together with the world it
    leaves behind. What a method wrote before it throws stays written, as in the program; only
    an SQL transaction (theory Database) takes the writes back.
  \<^item> The collection \<open>keeps_intros\<close> holds the rules that carry an invariant through actions.
  \<^item> Strings: the ECMAScript string operations the sources use. A string is its UTF-8 byte
    sequence, so \<open>length\<close> is \<^verbatim>\<open>Buffer.byteLength(s, 'utf8')\<close>; case conversion and trimming act on
    ASCII, which is where the program applies them (hexadecimal digests, currency codes, keys).
\<close>

named_theorems keeps_intros \<open>rules that carry an invariant through an action\<close>
named_theorems throws_intros \<open>rules that bound the exceptions of an action\<close>
named_theorems action_simps \<open>unfolding rules that run an action on a given world\<close>
named_theorems ascii_simps \<open>facts about the character classes of the sources' patterns\<close>

section \<open>Actions: exceptions and state\<close>

type_synonym ('w, 'e, 'a) action = "'w \<Rightarrow> ('e + 'a) \<times> 'w"

definition ret :: "'a \<Rightarrow> ('w, 'e, 'a) action" where
  "ret a = (\<lambda>w. (Inr a, w))"

definition throw :: "'e \<Rightarrow> ('w, 'e, 'a) action" where
  "throw e = (\<lambda>w. (Inl e, w))"

definition bnd :: "('w, 'e, 'a) action \<Rightarrow> ('a \<Rightarrow> ('w, 'e, 'b) action) \<Rightarrow> ('w, 'e, 'b) action" where
  "bnd m f = (\<lambda>w. case m w of (r, w') \<Rightarrow> (case r of Inl e \<Rightarrow> (Inl e, w') | Inr a \<Rightarrow> f a w'))"

text \<open>\<open>catching\<close> is \<^verbatim>\<open>try { m } catch (e) { h }\<close>.\<close>

definition catching :: "('w, 'e, 'a) action \<Rightarrow> ('e \<Rightarrow> ('w, 'e, 'a) action) \<Rightarrow> ('w, 'e, 'a) action" where
  "catching m h = (\<lambda>w. case m w of (r, w') \<Rightarrow> (case r of Inl e \<Rightarrow> h e w' | Inr a \<Rightarrow> (Inr a, w')))"

text \<open>\<open>attempting\<close> is \<^verbatim>\<open>try { a = m } catch (e) { h } k\<close>: the continuation is outside the guarded region.\<close>

definition attempting ::
  "('w, 'e, 'a) action \<Rightarrow> ('e \<Rightarrow> ('w, 'e, 'b) action) \<Rightarrow> ('a \<Rightarrow> ('w, 'e, 'b) action) \<Rightarrow> ('w, 'e, 'b) action" where
  "attempting m h k = (\<lambda>w. case m w of (r, w') \<Rightarrow> (case r of Inl e \<Rightarrow> h e w' | Inr a \<Rightarrow> k a w'))"

text \<open>\<open>observing\<close> runs an action and hands its outcome, exception or value, to what follows.\<close>

definition observing :: "('w, 'e, 'a) action \<Rightarrow> ('w, 'e, 'e + 'a) action" where
  "observing m = (\<lambda>w. case m w of (r, w') \<Rightarrow> (Inr r, w'))"

definition reads :: "('w \<Rightarrow> 'a) \<Rightarrow> ('w, 'e, 'a) action" where
  "reads f = (\<lambda>w. (Inr (f w), w))"

definition modifies :: "('w \<Rightarrow> 'w) \<Rightarrow> ('w, 'e, unit) action" where
  "modifies f = (\<lambda>w. (Inr (), f w))"

text \<open>A computation that may throw and has no effect.\<close>

definition lift_result :: "'e + 'a \<Rightarrow> ('w, 'e, 'a) action" where
  "lift_result r = (\<lambda>w. (r, w))"

text \<open>\<^verbatim>\<open>for (const x of xs) await f(x)\<close>.\<close>

fun for_each :: "'a list \<Rightarrow> ('a \<Rightarrow> ('w, 'e, unit) action) \<Rightarrow> ('w, 'e, unit) action" where
  "for_each [] f = ret ()"
| "for_each (x # xs) f = bnd (f x) (\<lambda>_. for_each xs f)"

text \<open>A loop over a list that carries an accumulator.\<close>

fun fold_each :: "('a \<Rightarrow> 's \<Rightarrow> ('w, 'e, 's) action) \<Rightarrow> 'a list \<Rightarrow> 's \<Rightarrow> ('w, 'e, 's) action" where
  "fold_each f [] s = ret s"
| "fold_each f (x # xs) s = bnd (f x s) (\<lambda>s'. fold_each f xs s')"

lemma run_action [action_simps]:
  "ret a w = (Inr a, w)"
  "throw e w = (Inl e, w)"
  "reads g w = (Inr (g w), w)"
  "modifies h w = (Inr (), h w)"
  "lift_result r w = (r, w)"
  by (simp_all add: ret_def throw_def reads_def modifies_def lift_result_def)

lemma run_bnd:
  "bnd m f w = (case m w of (Inl e, w') \<Rightarrow> (Inl e, w') | (Inr a, w') \<Rightarrow> f a w')"
  by (auto simp: bnd_def split: prod.splits sum.splits)

lemma run_bnd_Inr: "m w = (Inr a, w') \<Longrightarrow> bnd m f w = f a w'"
  by (simp add: bnd_def)

lemma run_bnd_Inl: "m w = (Inl e, w') \<Longrightarrow> bnd m f w = (Inl e, w')"
  by (simp add: bnd_def)

lemma bnd_Inr_E:
  assumes "bnd m f w = (Inr a, w')"
  obtains b v where "m w = (Inr b, v)" "f b v = (Inr a, w')"
  using assms by (auto simp: bnd_def split: prod.splits sum.splits)

lemma run_catching_Inl: "m w = (Inl e, w') \<Longrightarrow> catching m h w = h e w'"
  by (simp add: catching_def)

lemma run_catching_Inr: "m w = (Inr a, w') \<Longrightarrow> catching m h w = (Inr a, w')"
  by (simp add: catching_def)

lemma bnd_ret [simp]: "bnd (ret a) f = f a"
  by (simp add: bnd_def ret_def)

lemma bnd_throw [simp]: "bnd (throw e) f = throw e"
  by (simp add: bnd_def throw_def fun_eq_iff)

lemma bnd_reads: "bnd (reads g) f w = f (g w) w"
  by (simp add: bnd_def reads_def)

lemma bnd_modifies: "bnd (modifies h) f w = f () (h w)"
  by (simp add: bnd_def modifies_def)

lemma bnd_assoc: "bnd (bnd m f) g = bnd m (\<lambda>a. bnd (f a) g)"
  by (auto simp: bnd_def fun_eq_iff split: prod.split sum.split)

lemma bnd_lift_result: "bnd (lift_result r) f w = (case r of Inl e \<Rightarrow> (Inl e, w) | Inr a \<Rightarrow> f a w)"
  by (simp add: bnd_def lift_result_def split: sum.split)

lemma bnd_observing: "bnd (observing m) f w = (case m w of (r, w') \<Rightarrow> f r w')"
  by (simp add: bnd_def observing_def split: prod.split)

lemmas bnd_run [action_simps] = bnd_reads bnd_modifies bnd_assoc bnd_lift_result

subsection \<open>Invariants of actions\<close>

text \<open>\<open>keeps I m\<close>: whatever \<open>m\<close> does, normally or by throwing, it leads from \<open>I\<close> to \<open>I\<close>.\<close>

definition keeps :: "('w \<Rightarrow> bool) \<Rightarrow> ('w, 'e, 'a) action \<Rightarrow> bool" where
  "keeps I m \<longleftrightarrow> (\<forall>w. I w \<longrightarrow> I (snd (m w)))"

lemma keepsI: "(\<And>w. I w \<Longrightarrow> I (snd (m w))) \<Longrightarrow> keeps I m"
  by (simp add: keeps_def)

lemma keepsD: "keeps I m \<Longrightarrow> I w \<Longrightarrow> I (snd (m w))"
  by (simp add: keeps_def)

lemma keeps_run: "keeps I m \<Longrightarrow> I w \<Longrightarrow> m w = (r, w') \<Longrightarrow> I w'"
  by (metis keepsD snd_conv)

lemma keeps_pure [keeps_intros]:
  "keeps I (ret a)" "keeps I (throw e)" "keeps I (reads g)" "keeps I (lift_result r)"
  by (simp_all add: keeps_def action_simps)

lemma keeps_bnd [keeps_intros]:
  "keeps I m \<Longrightarrow> (\<And>a. keeps I (f a)) \<Longrightarrow> keeps I (bnd m f)"
  by (fastforce simp: keeps_def bnd_def split: prod.splits sum.splits)

lemma keeps_catching [keeps_intros]:
  "keeps I m \<Longrightarrow> (\<And>e. keeps I (h e)) \<Longrightarrow> keeps I (catching m h)"
  by (fastforce simp: keeps_def catching_def split: prod.splits sum.splits)

lemma keeps_attempting [keeps_intros]:
  "keeps I m \<Longrightarrow> (\<And>e. keeps I (h e)) \<Longrightarrow> (\<And>a. keeps I (k a)) \<Longrightarrow> keeps I (attempting m h k)"
  by (fastforce simp: keeps_def attempting_def split: prod.splits sum.splits)

lemma keeps_observing [keeps_intros]: "keeps I m \<Longrightarrow> keeps I (observing m)"
  by (fastforce simp: keeps_def observing_def split: prod.splits)

lemma keeps_case_sum [keeps_intros]:
  "(\<And>a. x = Inl a \<Longrightarrow> keeps I (f a)) \<Longrightarrow> (\<And>b. x = Inr b \<Longrightarrow> keeps I (g b)) \<Longrightarrow>
   keeps I (case x of Inl a \<Rightarrow> f a | Inr b \<Rightarrow> g b)"
  by (cases x) simp_all

lemma keeps_if [keeps_intros]:
  "(b \<Longrightarrow> keeps I m) \<Longrightarrow> (\<not> b \<Longrightarrow> keeps I m') \<Longrightarrow> keeps I (if b then m else m')"
  by simp

lemma keeps_case_option [keeps_intros]:
  "(x = None \<Longrightarrow> keeps I m) \<Longrightarrow> (\<And>a. x = Some a \<Longrightarrow> keeps I (f a)) \<Longrightarrow>
   keeps I (case x of None \<Rightarrow> m | Some a \<Rightarrow> f a)"
  by (cases x) simp_all

lemma keeps_case_prod [keeps_intros]:
  "(\<And>a b. x = (a, b) \<Longrightarrow> keeps I (f a b)) \<Longrightarrow> keeps I (case x of (a, b) \<Rightarrow> f a b)"
  by (cases x) simp

lemma keeps_case_list [keeps_intros]:
  "(xs = [] \<Longrightarrow> keeps I m) \<Longrightarrow> (\<And>y ys. xs = y # ys \<Longrightarrow> keeps I (f y ys)) \<Longrightarrow>
   keeps I (case xs of [] \<Rightarrow> m | y # ys \<Rightarrow> f y ys)"
  by (cases xs) simp_all

lemma keeps_Let [keeps_intros]: "(\<And>a. a = x \<Longrightarrow> keeps I (f a)) \<Longrightarrow> keeps I (Let x f)"
  by simp

lemma keeps_for_each [keeps_intros]: "(\<And>x. keeps I (f x)) \<Longrightarrow> keeps I (for_each xs f)"
  by (induction xs) (auto intro: keeps_intros)

lemma keeps_fold_each [keeps_intros]: "(\<And>x s. keeps I (f x s)) \<Longrightarrow> keeps I (fold_each f xs s)"
  by (induction xs arbitrary: s) (auto intro: keeps_intros)

subsection \<open>Exceptions of actions\<close>

text \<open>\<open>throws P m\<close>: every exception \<open>m\<close> can throw satisfies \<open>P\<close>.\<close>

definition throws :: "('e \<Rightarrow> bool) \<Rightarrow> ('w, 'e, 'a) action \<Rightarrow> bool" where
  "throws P m \<longleftrightarrow> (\<forall>w e w'. m w = (Inl e, w') \<longrightarrow> P e)"

lemma throwsD: "throws P m \<Longrightarrow> m w = (Inl e, w') \<Longrightarrow> P e"
  by (auto simp: throws_def)

lemma throws_pure [throws_intros]:
  "throws P (ret a)" "P e \<Longrightarrow> throws P (throw e)" "throws P (reads g)" "throws P (modifies h)"
  by (simp_all add: throws_def action_simps)

lemma throws_bnd [throws_intros]:
  "throws P m \<Longrightarrow> (\<And>a. throws P (f a)) \<Longrightarrow> throws P (bnd m f)"
  by (fastforce simp: throws_def bnd_def split: prod.splits sum.splits)

lemma throws_branch [throws_intros]:
  "(b \<Longrightarrow> throws P m) \<Longrightarrow> (\<not> b \<Longrightarrow> throws P m') \<Longrightarrow> throws P (if b then m else m')"
  "(x = None \<Longrightarrow> throws P m) \<Longrightarrow> (\<And>a. x = Some a \<Longrightarrow> throws P (g a)) \<Longrightarrow>
   throws P (case x of None \<Rightarrow> m | Some a \<Rightarrow> g a)"
  "(\<And>a b. y = (a, b) \<Longrightarrow> throws P (h a b)) \<Longrightarrow> throws P (case y of (a, b) \<Rightarrow> h a b)"
  "(\<And>a. a = z \<Longrightarrow> throws P (k a)) \<Longrightarrow> throws P (Let z k)"
  by (simp_all split: option.split prod.split)

lemma throws_catching [throws_intros]: "(\<And>e. throws P (h e)) \<Longrightarrow> throws P (catching m h)"
  by (fastforce simp: throws_def catching_def split: prod.splits sum.splits)

text \<open>An action that throws nothing returns.\<close>

lemma throws_nothing: "throws (\<lambda>_. False) m \<Longrightarrow> \<exists>a w'. m w = (Inr a, w')"
  by (cases "m w"; cases "fst (m w)") (auto simp: throws_def)

section \<open>Characters and strings\<close>

definition char_lower :: "char \<Rightarrow> char" where
  "char_lower c = (if CHR ''A'' \<le> c \<and> c \<le> CHR ''Z'' then char_of (of_char c + 32 :: nat) else c)"

definition char_upper :: "char \<Rightarrow> char" where
  "char_upper c = (if CHR ''a'' \<le> c \<and> c \<le> CHR ''z'' then char_of (of_char c - 32 :: nat) else c)"

definition toLowerCase :: "string \<Rightarrow> string" where
  "toLowerCase = map char_lower"

definition toUpperCase :: "string \<Rightarrow> string" where
  "toUpperCase = map char_upper"

definition is_space :: "char \<Rightarrow> bool" where
  "is_space c \<longleftrightarrow> c \<in> {CHR '' '', CHR 0x09, CHR 0x0A, CHR 0x0B, CHR 0x0C, CHR 0x0D}"

definition trim :: "string \<Rightarrow> string" where
  "trim s = rev (dropWhile is_space (rev (dropWhile is_space s)))"

definition is_digit :: "char \<Rightarrow> bool" where
  "is_digit c \<longleftrightarrow> CHR ''0'' \<le> c \<and> c \<le> CHR ''9''"

definition is_upper :: "char \<Rightarrow> bool" where
  "is_upper c \<longleftrightarrow> CHR ''A'' \<le> c \<and> c \<le> CHR ''Z''"

definition is_lower :: "char \<Rightarrow> bool" where
  "is_lower c \<longleftrightarrow> CHR ''a'' \<le> c \<and> c \<le> CHR ''z''"

definition is_hex_digit :: "char \<Rightarrow> bool" where
  "is_hex_digit c \<longleftrightarrow> is_digit c \<or> (CHR ''a'' \<le> c \<and> c \<le> CHR ''f'') \<or> (CHR ''A'' \<le> c \<and> c \<le> CHR ''F'')"

text \<open>\<^verbatim>\<open>xs.join(sep)\<close>.\<close>

fun join :: "string \<Rightarrow> string list \<Rightarrow> string" where
  "join sep [] = []"
| "join sep [x] = x"
| "join sep (x # y # ys) = x @ sep @ join sep (y # ys)"

text \<open>\<^verbatim>\<open>s.replace(/c/g, r)\<close> for a single character.\<close>

definition replace_char :: "char \<Rightarrow> string \<Rightarrow> string \<Rightarrow> string" where
  "replace_char c r s = concat (map (\<lambda>x. if x = c then r else [x]) s)"

text \<open>\<^verbatim>\<open>s.split(c)\<close> for a single character.\<close>

fun split_char :: "char \<Rightarrow> string \<Rightarrow> string list" where
  "split_char c [] = [[]]"
| "split_char c (x # xs) =
     (if x = c then [] # split_char c xs
      else (case split_char c xs of [] \<Rightarrow> [[x]] | w # ws \<Rightarrow> (x # w) # ws))"

text \<open>\<^verbatim>\<open>s.padStart(n, c)\<close>.\<close>

definition padStart :: "nat \<Rightarrow> char \<Rightarrow> string \<Rightarrow> string" where
  "padStart n c s = replicate (n - length s) c @ s"

subsection \<open>Decimal numerals\<close>

definition digit_char :: "nat \<Rightarrow> char" where
  "digit_char n = char_of (48 + n)"

fun nat_dec :: "nat \<Rightarrow> string" where
  "nat_dec n = (if n < 10 then [digit_char n] else nat_dec (n div 10) @ [digit_char (n mod 10)])"

declare nat_dec.simps [simp del]

definition int_dec :: "int \<Rightarrow> string" where
  "int_dec i = (if i < 0 then CHR ''-'' # nat_dec (nat (- i)) else nat_dec (nat i))"

definition dec_value :: "string \<Rightarrow> nat" where
  "dec_value s = foldl (\<lambda>n c. 10 * n + (of_char c - 48)) 0 s"

lemma dec_value_nat_dec: "dec_value (nat_dec n) = n"
proof (induction n rule: nat_dec.induct)
  case (1 n)
  have digit: "of_char (digit_char k) - 48 = (k::nat)" if "k < 10" for k
    using that by (simp add: digit_char_def of_char_of)
  show ?case
  proof (cases "n < 10")
    case True
    then show ?thesis using digit by (subst nat_dec.simps) (simp add: dec_value_def)
  next
    case False
    then have "dec_value (nat_dec n) = 10 * dec_value (nat_dec (n div 10)) + (of_char (digit_char (n mod 10)) - 48)"
      by (subst nat_dec.simps) (simp add: dec_value_def)
    then show ?thesis using False "1.IH" digit [of "n mod 10"] by simp
  qed
qed

lemma nat_dec_inj: "nat_dec m = nat_dec n \<longleftrightarrow> m = n"
  by (metis dec_value_nat_dec)

end
