(* ===== verification/Domain.thy ===== *)
theory Domain
  imports Prelude
begin

text \<open>
  The enumerations of the gateway (\<^verbatim>\<open>*.enum.ts\<close>). Where two enumerations share a member name, the
  constructor carries the name of its dimension (\<open>Prov_PENDING\<close>, \<open>Tx_PENDING\<close>). A TypeScript string
  enumeration is its member names at run time: \<open>text_of_X\<close> gives the member's text where the program
  writes it into a document, and each of these maps is injective.
\<close>

datatype MobileMoneyOperator =
    Op_MPESA
  | Op_AIRTEL_MONEY
  | Op_ORANGE_MONEY

fun text_of_MobileMoneyOperator :: "MobileMoneyOperator \<Rightarrow> string" where
  "text_of_MobileMoneyOperator Op_MPESA = ''MPESA''"
| "text_of_MobileMoneyOperator Op_AIRTEL_MONEY = ''AIRTEL_MONEY''"
| "text_of_MobileMoneyOperator Op_ORANGE_MONEY = ''ORANGE_MONEY''"

datatype ProviderStatus =
    Prov_INITIATED
  | Prov_PENDING
  | Prov_CONFIRMED
  | Prov_FAILED

fun text_of_ProviderStatus :: "ProviderStatus \<Rightarrow> string" where
  "text_of_ProviderStatus Prov_INITIATED = ''INITIATED''"
| "text_of_ProviderStatus Prov_PENDING = ''PENDING''"
| "text_of_ProviderStatus Prov_CONFIRMED = ''CONFIRMED''"
| "text_of_ProviderStatus Prov_FAILED = ''FAILED''"

datatype BankProcessingStatus =
    Bank_NOT_STARTED
  | Bank_PROCESSING
  | Bank_COMPLETED
  | Bank_FAILED
  | Bank_BLOCKED

fun text_of_BankProcessingStatus :: "BankProcessingStatus \<Rightarrow> string" where
  "text_of_BankProcessingStatus Bank_NOT_STARTED = ''NOT_STARTED''"
| "text_of_BankProcessingStatus Bank_PROCESSING = ''PROCESSING''"
| "text_of_BankProcessingStatus Bank_COMPLETED = ''COMPLETED''"
| "text_of_BankProcessingStatus Bank_FAILED = ''FAILED''"
| "text_of_BankProcessingStatus Bank_BLOCKED = ''BLOCKED''"

datatype ReconciliationStatus =
    Recon_PENDING
  | Recon_MATCHED
  | Recon_MISMATCH
  | Recon_AMOUNT_MISMATCH
  | Recon_CURRENCY_MISMATCH
  | Recon_NOT_APPLICABLE
  | Recon_MANUAL_REVIEW

fun text_of_ReconciliationStatus :: "ReconciliationStatus \<Rightarrow> string" where
  "text_of_ReconciliationStatus Recon_PENDING = ''PENDING''"
| "text_of_ReconciliationStatus Recon_MATCHED = ''MATCHED''"
| "text_of_ReconciliationStatus Recon_MISMATCH = ''MISMATCH''"
| "text_of_ReconciliationStatus Recon_AMOUNT_MISMATCH = ''AMOUNT_MISMATCH''"
| "text_of_ReconciliationStatus Recon_CURRENCY_MISMATCH = ''CURRENCY_MISMATCH''"
| "text_of_ReconciliationStatus Recon_NOT_APPLICABLE = ''NOT_APPLICABLE''"
| "text_of_ReconciliationStatus Recon_MANUAL_REVIEW = ''MANUAL_REVIEW''"

datatype RefundStatus =
    Refund_NOT_REQUIRED
  | Refund_REQUIRED
  | Refund_REQUESTED
  | Refund_COMPLETED
  | Refund_FAILED

fun text_of_RefundStatus :: "RefundStatus \<Rightarrow> string" where
  "text_of_RefundStatus Refund_NOT_REQUIRED = ''NOT_REQUIRED''"
| "text_of_RefundStatus Refund_REQUIRED = ''REQUIRED''"
| "text_of_RefundStatus Refund_REQUESTED = ''REQUESTED''"
| "text_of_RefundStatus Refund_COMPLETED = ''COMPLETED''"
| "text_of_RefundStatus Refund_FAILED = ''FAILED''"

datatype CaseStatus =
    Case_NONE
  | Case_MANUAL_REVIEW
  | Case_RESOLVED

fun text_of_CaseStatus :: "CaseStatus \<Rightarrow> string" where
  "text_of_CaseStatus Case_NONE = ''NONE''"
| "text_of_CaseStatus Case_MANUAL_REVIEW = ''MANUAL_REVIEW''"
| "text_of_CaseStatus Case_RESOLVED = ''RESOLVED''"

datatype PaymentChannel =
    LEGACY_TRANSFER
  | MOBILE_MONEY

datatype WebhookProcessingStatus =
    Hook_RECEIVED
  | Hook_PROCESSING
  | Hook_PROCESSED
  | Hook_FAILED

datatype TransactionStatus =
    Tx_PENDING
  | Tx_PROCESSING
  | Tx_COMPLETED
  | Tx_FAILED

fun text_of_TransactionStatus :: "TransactionStatus \<Rightarrow> string" where
  "text_of_TransactionStatus Tx_PENDING = ''PENDING''"
| "text_of_TransactionStatus Tx_PROCESSING = ''PROCESSING''"
| "text_of_TransactionStatus Tx_COMPLETED = ''COMPLETED''"
| "text_of_TransactionStatus Tx_FAILED = ''FAILED''"

datatype TransactionEventType =
    TRANSFER_INITIATED
  | TRANSFER_COMPLETED
  | TRANSFER_FAILED
  | PAYMENT_INITIATED
  | PROVIDER_CONFIRMED
  | PROVIDER_FAILED
  | AMOUNT_MISMATCH_DETECTED
  | BANK_PROCESSING_BLOCKED
  | BANK_PROCESSING_COMPLETED
  | BANK_PROCESSING_FAILED
  | RECONCILIATION_MATCHED
  | RECONCILIATION_MISMATCH
  | CASE_OPENED
  | CASE_RESOLVED
  | CASE_CLOSED
  | REFUND_REQUESTED
  | REFUND_REOPENED
  | REFUND_COMPLETED
  | REFUND_FAILED
  | SETTLEMENT_SWEPT

fun text_of_TransactionEventType :: "TransactionEventType \<Rightarrow> string" where
  "text_of_TransactionEventType TRANSFER_INITIATED = ''TRANSFER_INITIATED''"
| "text_of_TransactionEventType TRANSFER_COMPLETED = ''TRANSFER_COMPLETED''"
| "text_of_TransactionEventType TRANSFER_FAILED = ''TRANSFER_FAILED''"
| "text_of_TransactionEventType PAYMENT_INITIATED = ''PAYMENT_INITIATED''"
| "text_of_TransactionEventType PROVIDER_CONFIRMED = ''PROVIDER_CONFIRMED''"
| "text_of_TransactionEventType PROVIDER_FAILED = ''PROVIDER_FAILED''"
| "text_of_TransactionEventType AMOUNT_MISMATCH_DETECTED = ''AMOUNT_MISMATCH_DETECTED''"
| "text_of_TransactionEventType BANK_PROCESSING_BLOCKED = ''BANK_PROCESSING_BLOCKED''"
| "text_of_TransactionEventType BANK_PROCESSING_COMPLETED = ''BANK_PROCESSING_COMPLETED''"
| "text_of_TransactionEventType BANK_PROCESSING_FAILED = ''BANK_PROCESSING_FAILED''"
| "text_of_TransactionEventType RECONCILIATION_MATCHED = ''RECONCILIATION_MATCHED''"
| "text_of_TransactionEventType RECONCILIATION_MISMATCH = ''RECONCILIATION_MISMATCH''"
| "text_of_TransactionEventType CASE_OPENED = ''CASE_OPENED''"
| "text_of_TransactionEventType CASE_RESOLVED = ''CASE_RESOLVED''"
| "text_of_TransactionEventType CASE_CLOSED = ''CASE_CLOSED''"
| "text_of_TransactionEventType REFUND_REQUESTED = ''REFUND_REQUESTED''"
| "text_of_TransactionEventType REFUND_REOPENED = ''REFUND_REOPENED''"
| "text_of_TransactionEventType REFUND_COMPLETED = ''REFUND_COMPLETED''"
| "text_of_TransactionEventType REFUND_FAILED = ''REFUND_FAILED''"
| "text_of_TransactionEventType SETTLEMENT_SWEPT = ''SETTLEMENT_SWEPT''"

datatype EventActorRole =
    Role_REFUND_OPERATOR
  | Role_REFUND_APPROVER
  | Role_SYSTEM

fun text_of_EventActorRole :: "EventActorRole \<Rightarrow> string" where
  "text_of_EventActorRole Role_REFUND_OPERATOR = ''REFUND_OPERATOR''"
| "text_of_EventActorRole Role_REFUND_APPROVER = ''REFUND_APPROVER''"
| "text_of_EventActorRole Role_SYSTEM = ''SYSTEM''"

datatype EventActionOrigin =
    Origin_API
  | Origin_RETRY_WORKER
  | Origin_SYSTEM

fun text_of_EventActionOrigin :: "EventActionOrigin \<Rightarrow> string" where
  "text_of_EventActionOrigin Origin_API = ''API''"
| "text_of_EventActionOrigin Origin_RETRY_WORKER = ''RETRY_WORKER''"
| "text_of_EventActionOrigin Origin_SYSTEM = ''SYSTEM''"

datatype LedgerAccount =
    PROVIDER_FLOAT
  | SETTLEMENT
  | CREDITOR_PAYABLE
  | PAYER_PAYABLE
  | FEE_REVENUE

datatype AccountKind =
    ASSET
  | LIABILITY
  | REVENUE

datatype EntryDirection =
    DEBIT
  | CREDIT

datatype AnchorStatus =
    Anchor_NOT_SEALED
  | Anchor_PENDING
  | Anchor_ANCHORED
  | Anchor_FAILED

datatype BatchStatus =
    Batch_PENDING
  | Batch_ANCHORING
  | Batch_ANCHORED
  | Batch_FAILED

datatype IntegrityVerdict =
    VERIFIED
  | PENDING_ANCHOR
  | TAMPERED
  | NOT_SEALED
  | CHAIN_UNAVAILABLE

lemma inj_text_of_BankProcessingStatus [simp]: "text_of_BankProcessingStatus a = text_of_BankProcessingStatus b \<longleftrightarrow> a = b"
  by (cases a; cases b) simp_all

lemma inj_text_of_CaseStatus [simp]: "text_of_CaseStatus a = text_of_CaseStatus b \<longleftrightarrow> a = b"
  by (cases a; cases b) simp_all

lemma inj_text_of_EventActionOrigin [simp]: "text_of_EventActionOrigin a = text_of_EventActionOrigin b \<longleftrightarrow> a = b"
  by (cases a; cases b) simp_all

lemma inj_text_of_EventActorRole [simp]: "text_of_EventActorRole a = text_of_EventActorRole b \<longleftrightarrow> a = b"
  by (cases a; cases b) simp_all

lemma inj_text_of_MobileMoneyOperator [simp]: "text_of_MobileMoneyOperator a = text_of_MobileMoneyOperator b \<longleftrightarrow> a = b"
  by (cases a; cases b) simp_all

lemma inj_text_of_ProviderStatus [simp]: "text_of_ProviderStatus a = text_of_ProviderStatus b \<longleftrightarrow> a = b"
  by (cases a; cases b) simp_all

lemma inj_text_of_ReconciliationStatus [simp]: "text_of_ReconciliationStatus a = text_of_ReconciliationStatus b \<longleftrightarrow> a = b"
  by (cases a; cases b) simp_all

lemma inj_text_of_RefundStatus [simp]: "text_of_RefundStatus a = text_of_RefundStatus b \<longleftrightarrow> a = b"
  by (cases a; cases b) simp_all

lemma inj_text_of_TransactionEventType [simp]: "text_of_TransactionEventType a = text_of_TransactionEventType b \<longleftrightarrow> a = b"
  by (cases a; cases b) simp_all

lemma inj_text_of_TransactionStatus [simp]: "text_of_TransactionStatus a = text_of_TransactionStatus b \<longleftrightarrow> a = b"
  by (cases a; cases b) simp_all

definition TERMINAL_STATUSES :: "TransactionStatus list" where
  "TERMINAL_STATUSES = [Tx_COMPLETED, Tx_FAILED]"

definition CLOSING_EVENT_TYPES :: "TransactionEventType list" where
  "CLOSING_EVENT_TYPES = [CASE_CLOSED]"

fun ACCOUNT_KINDS :: "LedgerAccount \<Rightarrow> AccountKind" where
  "ACCOUNT_KINDS PROVIDER_FLOAT = ASSET"
| "ACCOUNT_KINDS SETTLEMENT = ASSET"
| "ACCOUNT_KINDS CREDITOR_PAYABLE = LIABILITY"
| "ACCOUNT_KINDS PAYER_PAYABLE = LIABILITY"
| "ACCOUNT_KINDS FEE_REVENUE = REVENUE"

end
