(* ===== verification/State_Machine.thy ===== *)
theory State_Machine
  imports Domain
begin

text \<open>
  The transaction state machine (\<^verbatim>\<open>transactions/state\<close>) and the CHECK constraints of the table
  \<^verbatim>\<open>transactions\<close> which repeat its invariants (\<^verbatim>\<open>transaction.entity.ts\<close>).

  \<^item> \<open>TransactionState\<close> is the interface of the same name; a nullable dimension is an option.
  \<^item> The table \<^verbatim>\<open>TRANSITIONS\<close> is one function per dimension; a value without an entry has the
    empty list (\<^verbatim>\<open>?? []\<close>), which makes it terminal.
  \<^item> A refusal carries its violations as data, in the order the machine reports them.
  \<^item> A CHECK expression is evaluated in SQL's three-valued logic; a row is refused only when the
    expression is false, so an unknown value passes.
\<close>

record TransactionState =
  st_status :: TransactionStatus
  st_providerStatus :: "ProviderStatus option"
  st_bankStatus :: "BankProcessingStatus option"
  st_reconciliationStatus :: "ReconciliationStatus option"
  st_refundStatus :: "RefundStatus option"
  st_caseStatus :: "CaseStatus option"
  st_paymentChannel :: PaymentChannel

datatype StateDimension =
    Dim_status | Dim_providerStatus | Dim_bankStatus
  | Dim_reconciliationStatus | Dim_refundStatus | Dim_caseStatus

datatype invariant_name =
    bank_requires_provider_confirmation
  | refund_requires_collection
  | resolved_case_requires_extinct_debt
  | matched_requires_both_legs_done
  | blocked_bank_implies_declared_gap

datatype violation =
    TerminalMove StateDimension string string
  | OutsideTable StateDimension string string "string list"
  | BrokenInvariant invariant_name

datatype IllegalTransitionException = IllegalTransitionException string "violation list"

section \<open>Tables of transitions\<close>

fun TRANSITIONS_status :: "TransactionStatus \<Rightarrow> TransactionStatus list" where
  "TRANSITIONS_status Tx_PENDING = [Tx_PROCESSING, Tx_COMPLETED, Tx_FAILED]"
| "TRANSITIONS_status Tx_PROCESSING = [Tx_COMPLETED, Tx_FAILED]"
| "TRANSITIONS_status _ = []"

fun TRANSITIONS_providerStatus :: "ProviderStatus \<Rightarrow> ProviderStatus list" where
  "TRANSITIONS_providerStatus Prov_INITIATED = [Prov_PENDING, Prov_CONFIRMED, Prov_FAILED]"
| "TRANSITIONS_providerStatus Prov_PENDING = [Prov_CONFIRMED, Prov_FAILED]"
| "TRANSITIONS_providerStatus _ = []"

fun TRANSITIONS_bankStatus :: "BankProcessingStatus \<Rightarrow> BankProcessingStatus list" where
  "TRANSITIONS_bankStatus Bank_NOT_STARTED = [Bank_PROCESSING, Bank_BLOCKED]"
| "TRANSITIONS_bankStatus Bank_PROCESSING = [Bank_COMPLETED, Bank_FAILED]"
| "TRANSITIONS_bankStatus _ = []"

fun TRANSITIONS_reconciliationStatus :: "ReconciliationStatus \<Rightarrow> ReconciliationStatus list" where
  "TRANSITIONS_reconciliationStatus Recon_PENDING =
     [Recon_MATCHED, Recon_MISMATCH, Recon_AMOUNT_MISMATCH, Recon_CURRENCY_MISMATCH,
      Recon_NOT_APPLICABLE, Recon_MANUAL_REVIEW]"
| "TRANSITIONS_reconciliationStatus Recon_MANUAL_REVIEW = [Recon_MATCHED, Recon_MISMATCH, Recon_PENDING]"
| "TRANSITIONS_reconciliationStatus Recon_MISMATCH = [Recon_MANUAL_REVIEW]"
| "TRANSITIONS_reconciliationStatus _ = []"

fun TRANSITIONS_refundStatus :: "RefundStatus \<Rightarrow> RefundStatus list" where
  "TRANSITIONS_refundStatus Refund_NOT_REQUIRED = [Refund_REQUIRED]"
| "TRANSITIONS_refundStatus Refund_REQUIRED = [Refund_REQUESTED, Refund_COMPLETED, Refund_FAILED]"
| "TRANSITIONS_refundStatus Refund_REQUESTED = [Refund_COMPLETED, Refund_FAILED]"
| "TRANSITIONS_refundStatus Refund_FAILED = [Refund_REQUESTED, Refund_REQUIRED, Refund_COMPLETED]"
| "TRANSITIONS_refundStatus _ = []"

fun TRANSITIONS_caseStatus :: "CaseStatus \<Rightarrow> CaseStatus list" where
  "TRANSITIONS_caseStatus Case_NONE = [Case_MANUAL_REVIEW]"
| "TRANSITIONS_caseStatus Case_MANUAL_REVIEW = [Case_RESOLVED]"
| "TRANSITIONS_caseStatus _ = []"

section \<open>Invariants between dimensions\<close>

definition REFUND_ENGAGED :: "RefundStatus list" where
  "REFUND_ENGAGED = [Refund_REQUIRED, Refund_REQUESTED, Refund_COMPLETED, Refund_FAILED]"

fun holds :: "invariant_name \<Rightarrow> TransactionState \<Rightarrow> bool" where
  "holds bank_requires_provider_confirmation s \<longleftrightarrow>
     st_paymentChannel s \<noteq> MOBILE_MONEY \<or>
     st_bankStatus s = None \<or>
     st_bankStatus s = Some Bank_NOT_STARTED \<or>
     st_providerStatus s = Some Prov_CONFIRMED"
| "holds refund_requires_collection s \<longleftrightarrow>
     st_paymentChannel s \<noteq> MOBILE_MONEY \<or>
     (case st_refundStatus s of None \<Rightarrow> True | Some r \<Rightarrow> r \<notin> set REFUND_ENGAGED) \<or>
     st_providerStatus s = Some Prov_CONFIRMED"
| "holds resolved_case_requires_extinct_debt s \<longleftrightarrow>
     st_caseStatus s \<noteq> Some Case_RESOLVED \<or>
     st_refundStatus s = Some Refund_COMPLETED \<or>
     st_refundStatus s = Some Refund_NOT_REQUIRED \<or>
     st_refundStatus s = None"
| "holds matched_requires_both_legs_done s \<longleftrightarrow>
     st_reconciliationStatus s \<noteq> Some Recon_MATCHED \<or>
     st_paymentChannel s \<noteq> MOBILE_MONEY \<or>
     (st_providerStatus s = Some Prov_CONFIRMED \<and> st_bankStatus s = Some Bank_COMPLETED)"
| "holds blocked_bank_implies_declared_gap s \<longleftrightarrow>
     st_bankStatus s \<noteq> Some Bank_BLOCKED \<or>
     st_reconciliationStatus s = Some Recon_AMOUNT_MISMATCH \<or>
     st_reconciliationStatus s = Some Recon_CURRENCY_MISMATCH"

definition INVARIANTS :: "invariant_name list" where
  "INVARIANTS =
     [bank_requires_provider_confirmation, refund_requires_collection,
      resolved_case_requires_extinct_debt, matched_requires_both_legs_done,
      blocked_bank_implies_declared_gap]"

section \<open>The machine\<close>

definition brokenInvariants :: "TransactionState \<Rightarrow> violation list" where
  "brokenInvariants s = map BrokenInvariant (filter (\<lambda>i. \<not> holds i s) INVARIANTS)"

text \<open>The body of the loop of \<^verbatim>\<open>illegalMoves\<close>, for one dimension.\<close>

definition illegalMove ::
  "StateDimension \<Rightarrow> ('v \<Rightarrow> 'v list) \<Rightarrow> ('v \<Rightarrow> string) \<Rightarrow> 'v option \<Rightarrow> 'v option \<Rightarrow> violation list" where
  "illegalMove dimension table txt from to =
     (if from = to \<or> to = None then []
      else if from = None then []
      else
        let allowed = table (the from) in
        if the to \<notin> set allowed
        then [if allowed = [] then TerminalMove dimension (txt (the from)) (txt (the to))
              else OutsideTable dimension (txt (the from)) (txt (the to)) (map txt allowed)]
        else [])"

definition illegalMoves :: "TransactionState \<Rightarrow> TransactionState \<Rightarrow> violation list" where
  "illegalMoves before after =
     illegalMove Dim_status TRANSITIONS_status text_of_TransactionStatus
       (Some (st_status before)) (Some (st_status after))
   @ illegalMove Dim_providerStatus TRANSITIONS_providerStatus text_of_ProviderStatus
       (st_providerStatus before) (st_providerStatus after)
   @ illegalMove Dim_bankStatus TRANSITIONS_bankStatus text_of_BankProcessingStatus
       (st_bankStatus before) (st_bankStatus after)
   @ illegalMove Dim_reconciliationStatus TRANSITIONS_reconciliationStatus text_of_ReconciliationStatus
       (st_reconciliationStatus before) (st_reconciliationStatus after)
   @ illegalMove Dim_refundStatus TRANSITIONS_refundStatus text_of_RefundStatus
       (st_refundStatus before) (st_refundStatus after)
   @ illegalMove Dim_caseStatus TRANSITIONS_caseStatus text_of_CaseStatus
       (st_caseStatus before) (st_caseStatus after)"

definition assertTransition ::
  "TransactionState \<Rightarrow> TransactionState \<Rightarrow> string \<Rightarrow> IllegalTransitionException + unit" where
  "assertTransition before after reference =
     (let violations = illegalMoves before after @ brokenInvariants after in
      if violations = [] then Inr () else Inl (IllegalTransitionException reference violations))"

definition assertInitialState :: "TransactionState \<Rightarrow> string \<Rightarrow> IllegalTransitionException + unit" where
  "assertInitialState s reference =
     (let violations = brokenInvariants s in
      if violations = [] then Inr () else Inl (IllegalTransitionException reference violations))"

section \<open>CHECK constraints of the table transactions\<close>

type_synonym sql_bool = "bool option"

definition sql_eq :: "'a option \<Rightarrow> 'a \<Rightarrow> sql_bool" where
  "sql_eq c v = map_option (\<lambda>x. x = v) c"

definition sql_ne :: "'a option \<Rightarrow> 'a \<Rightarrow> sql_bool" where
  "sql_ne c v = map_option (\<lambda>x. x \<noteq> v) c"

definition sql_in :: "'a option \<Rightarrow> 'a list \<Rightarrow> sql_bool" where
  "sql_in c vs = map_option (\<lambda>x. x \<in> set vs) c"

definition sql_is_null :: "'a option \<Rightarrow> sql_bool" where
  "sql_is_null c = Some (c = None)"

fun sql_or :: "sql_bool \<Rightarrow> sql_bool \<Rightarrow> sql_bool" where
  "sql_or (Some True) _ = Some True"
| "sql_or _ (Some True) = Some True"
| "sql_or (Some False) (Some False) = Some False"
| "sql_or _ _ = None"

fun sql_and :: "sql_bool \<Rightarrow> sql_bool \<Rightarrow> sql_bool" where
  "sql_and (Some False) _ = Some False"
| "sql_and _ (Some False) = Some False"
| "sql_and (Some True) (Some True) = Some True"
| "sql_and _ _ = None"

definition CHK_transactions_bank_requires_provider :: "TransactionState \<Rightarrow> sql_bool" where
  "CHK_transactions_bank_requires_provider s =
     sql_or (sql_or (sql_or (sql_ne (Some (st_paymentChannel s)) MOBILE_MONEY)
       (sql_is_null (st_bankStatus s)))
       (sql_eq (st_bankStatus s) Bank_NOT_STARTED))
       (sql_eq (st_providerStatus s) Prov_CONFIRMED)"

definition CHK_transactions_refund_requires_collection :: "TransactionState \<Rightarrow> sql_bool" where
  "CHK_transactions_refund_requires_collection s =
     sql_or (sql_or (sql_or (sql_ne (Some (st_paymentChannel s)) MOBILE_MONEY)
       (sql_is_null (st_refundStatus s)))
       (sql_eq (st_refundStatus s) Refund_NOT_REQUIRED))
       (sql_eq (st_providerStatus s) Prov_CONFIRMED)"

definition CHK_transactions_resolved_case_needs_extinct_debt :: "TransactionState \<Rightarrow> sql_bool" where
  "CHK_transactions_resolved_case_needs_extinct_debt s =
     sql_or (sql_or (sql_ne (st_caseStatus s) Case_RESOLVED)
       (sql_is_null (st_refundStatus s)))
       (sql_in (st_refundStatus s) [Refund_COMPLETED, Refund_NOT_REQUIRED])"

definition CHK_transactions_matched_needs_both_legs :: "TransactionState \<Rightarrow> sql_bool" where
  "CHK_transactions_matched_needs_both_legs s =
     sql_or (sql_or (sql_ne (st_reconciliationStatus s) Recon_MATCHED)
       (sql_ne (Some (st_paymentChannel s)) MOBILE_MONEY))
       (sql_and (sql_eq (st_providerStatus s) Prov_CONFIRMED)
                (sql_eq (st_bankStatus s) Bank_COMPLETED))"

definition CHK_transactions_blocked_bank_needs_gap :: "TransactionState \<Rightarrow> sql_bool" where
  "CHK_transactions_blocked_bank_needs_gap s =
     sql_or (sql_ne (st_bankStatus s) Bank_BLOCKED)
       (sql_in (st_reconciliationStatus s) [Recon_AMOUNT_MISMATCH, Recon_CURRENCY_MISMATCH])"

text \<open>PostgreSQL refuses the row when some constraint evaluates to false.\<close>

definition checks_transactions_state :: "TransactionState \<Rightarrow> bool" where
  "checks_transactions_state s \<longleftrightarrow>
     CHK_transactions_bank_requires_provider s \<noteq> Some False \<and>
     CHK_transactions_refund_requires_collection s \<noteq> Some False \<and>
     CHK_transactions_resolved_case_needs_extinct_debt s \<noteq> Some False \<and>
     CHK_transactions_matched_needs_both_legs s \<noteq> Some False \<and>
     CHK_transactions_blocked_bank_needs_gap s \<noteq> Some False"

lemmas sql_defs = sql_eq_def sql_ne_def sql_in_def sql_is_null_def

lemmas CHK_transactions_defs =
  CHK_transactions_bank_requires_provider_def CHK_transactions_refund_requires_collection_def
  CHK_transactions_resolved_case_needs_extinct_debt_def CHK_transactions_matched_needs_both_legs_def
  CHK_transactions_blocked_bank_needs_gap_def

section \<open>What the machine accepts\<close>

abbreviation machine_accepts :: "TransactionState \<Rightarrow> TransactionState \<Rightarrow> bool" where
  "machine_accepts before after \<equiv> assertTransition before after [] = Inr ()"

abbreviation invariants_hold :: "TransactionState \<Rightarrow> bool" where
  "invariants_hold s \<equiv> (\<forall>i. holds i s)"

text \<open>The contract of one dimension: a value is kept, moves along its table, or crosses null.\<close>

definition may_move :: "('v \<Rightarrow> 'v list) \<Rightarrow> 'v option \<Rightarrow> 'v option \<Rightarrow> bool" where
  "may_move table from to \<longleftrightarrow>
     (case (from, to) of (Some v, Some v') \<Rightarrow> v' = v \<or> v' \<in> set (table v) | _ \<Rightarrow> True)"

lemma INVARIANTS_complete: "i \<in> set INVARIANTS"
  by (cases i) (simp_all add: INVARIANTS_def)

lemma brokenInvariants_empty [simp]: "brokenInvariants s = [] \<longleftrightarrow> invariants_hold s"
  using INVARIANTS_complete by (auto simp: brokenInvariants_def filter_empty_conv)

lemma illegalMove_empty [simp]:
  "illegalMove d table txt x y = [] \<longleftrightarrow> may_move table x y"
  by (cases x; cases y) (auto simp: illegalMove_def may_move_def Let_def)

lemma machine_accepts_iff:
  "assertTransition before after r = Inr () \<longleftrightarrow>
     may_move TRANSITIONS_status (Some (st_status before)) (Some (st_status after)) \<and>
     may_move TRANSITIONS_providerStatus (st_providerStatus before) (st_providerStatus after) \<and>
     may_move TRANSITIONS_bankStatus (st_bankStatus before) (st_bankStatus after) \<and>
     may_move TRANSITIONS_reconciliationStatus
       (st_reconciliationStatus before) (st_reconciliationStatus after) \<and>
     may_move TRANSITIONS_refundStatus (st_refundStatus before) (st_refundStatus after) \<and>
     may_move TRANSITIONS_caseStatus (st_caseStatus before) (st_caseStatus after) \<and>
     invariants_hold after"
  by (simp add: assertTransition_def illegalMoves_def Let_def)

lemma assertInitialState_iff: "assertInitialState s r = Inr () \<longleftrightarrow> invariants_hold s"
  by (simp add: assertInitialState_def Let_def)

lemma assertTransition_Inl:
  "assertTransition before after r = Inl e \<longleftrightarrow>
     e = IllegalTransitionException r (illegalMoves before after @ brokenInvariants after) \<and>
     illegalMoves before after @ brokenInvariants after \<noteq> []"
  by (auto simp: assertTransition_def Let_def)

subsection \<open>Dimensions and runs\<close>

text \<open>
  What every dimension of a guarded state promises its readers. The laws are the machine's; the
  consequences along a run of accepted transitions are proved once, for any dimension.
\<close>

locale guarded_dimension =
  fixes accepts :: "'s \<Rightarrow> 's \<Rightarrow> bool"
    and dim :: "'s \<Rightarrow> 'v option"
    and table :: "'v \<Rightarrow> 'v list"
  assumes moves: "accepts a b \<Longrightarrow> may_move table (dim a) (dim b)"
begin

lemma step_keeps_terminal:
  "accepts a b \<Longrightarrow> dim a = Some v \<Longrightarrow> table v = [] \<Longrightarrow> dim b \<noteq> None \<Longrightarrow> dim b = Some v"
  using moves [of a b] by (auto simp: may_move_def)

lemma run_closed_set:
  assumes "successively accepts (s # ss)" "dim s = Some v" "v \<in> V"
    and "\<And>v. v \<in> V \<Longrightarrow> set (table v) \<subseteq> V"
    and "\<forall>t\<in>set ss. dim t \<noteq> None"
  shows "\<forall>t\<in>set ss. \<exists>v\<in>V. dim t = Some v"
  using assms
proof (induction ss arbitrary: s v)
  case (Cons t ss)
  from Cons.prems obtain w where w: "dim t = Some w" by auto
  have "may_move table (dim s) (dim t)" using Cons.prems(1) by (intro moves) simp
  then have "w \<in> V" using Cons.prems w by (auto simp: may_move_def)
  with Cons.IH [of t w] Cons.prems w show ?case by auto
qed simp

lemma run_keeps_terminal:
  "successively accepts (s # ss) \<Longrightarrow> dim s = Some v \<Longrightarrow> table v = [] \<Longrightarrow>
   \<forall>t\<in>set ss. dim t \<noteq> None \<Longrightarrow> \<forall>t\<in>set ss. dim t = Some v"
  using run_closed_set [of s ss v "{v}"] by simp

end

interpretation status_dim:
  guarded_dimension machine_accepts "\<lambda>s. Some (st_status s)" TRANSITIONS_status
  by unfold_locales (simp add: machine_accepts_iff)

interpretation provider_dim:
  guarded_dimension machine_accepts st_providerStatus TRANSITIONS_providerStatus
  by unfold_locales (simp add: machine_accepts_iff)

interpretation bank_dim:
  guarded_dimension machine_accepts st_bankStatus TRANSITIONS_bankStatus
  by unfold_locales (simp add: machine_accepts_iff)

interpretation reconciliation_dim:
  guarded_dimension machine_accepts st_reconciliationStatus TRANSITIONS_reconciliationStatus
  by unfold_locales (simp add: machine_accepts_iff)

interpretation refund_dim:
  guarded_dimension machine_accepts st_refundStatus TRANSITIONS_refundStatus
  by unfold_locales (simp add: machine_accepts_iff)

interpretation case_dim:
  guarded_dimension machine_accepts st_caseStatus TRANSITIONS_caseStatus
  by unfold_locales (simp add: machine_accepts_iff)

text \<open>A life of a transaction: an accepted initial state, then accepted transitions.\<close>

inductive machine_reaches :: "TransactionState \<Rightarrow> TransactionState \<Rightarrow> bool" where
  start: "assertInitialState s r = Inr () \<Longrightarrow> machine_reaches s s"
| move: "machine_reaches s t \<Longrightarrow> assertTransition t u r = Inr () \<Longrightarrow> machine_reaches s u"

inductive_cases machine_reachesE: "machine_reaches s t"

lemma reached_invariants: "machine_reaches s t \<Longrightarrow> holds i t"
  by (induction rule: machine_reaches.induct)
     (simp_all add: assertInitialState_iff machine_accepts_iff)

lemma sql_or_false [simp]: "sql_or a b = Some False \<longleftrightarrow> a = Some False \<and> b = Some False"
  by (cases "(a, b)" rule: sql_or.cases) auto

lemma sql_and_false [simp]: "sql_and a b = Some False \<longleftrightarrow> a = Some False \<or> b = Some False"
  by (cases "(a, b)" rule: sql_and.cases) auto

lemma not_engaged: "r \<notin> set REFUND_ENGAGED \<longleftrightarrow> r = Refund_NOT_REQUIRED"
  by (cases r) (simp_all add: REFUND_ENGAGED_def)

lemma check_of_invariant:
  "holds bank_requires_provider_confirmation s \<Longrightarrow> CHK_transactions_bank_requires_provider s \<noteq> Some False"
  "holds refund_requires_collection s \<Longrightarrow> CHK_transactions_refund_requires_collection s \<noteq> Some False"
  "holds resolved_case_requires_extinct_debt s \<Longrightarrow>
     CHK_transactions_resolved_case_needs_extinct_debt s \<noteq> Some False"
  "holds matched_requires_both_legs_done s \<Longrightarrow> CHK_transactions_matched_needs_both_legs s \<noteq> Some False"
  "holds blocked_bank_implies_declared_gap s \<Longrightarrow> CHK_transactions_blocked_bank_needs_gap s \<noteq> Some False"
  by (auto simp: CHK_transactions_defs sql_defs not_engaged split: option.splits)

lemma invariants_pass_checks: "invariants_hold s \<Longrightarrow> checks_transactions_state s"
  unfolding checks_transactions_state_def using check_of_invariant by blast

lemma invariant_of_check:
  "CHK_transactions_bank_requires_provider s \<noteq> Some False \<Longrightarrow> st_providerStatus s \<noteq> None \<Longrightarrow>
     holds bank_requires_provider_confirmation s"
  "CHK_transactions_refund_requires_collection s \<noteq> Some False \<Longrightarrow> st_providerStatus s \<noteq> None \<Longrightarrow>
     holds refund_requires_collection s"
  "CHK_transactions_resolved_case_needs_extinct_debt s \<noteq> Some False \<Longrightarrow>
     holds resolved_case_requires_extinct_debt s"
  "CHK_transactions_matched_needs_both_legs s \<noteq> Some False \<Longrightarrow> st_providerStatus s \<noteq> None \<Longrightarrow>
     st_bankStatus s \<noteq> None \<Longrightarrow> holds matched_requires_both_legs_done s"
  "CHK_transactions_blocked_bank_needs_gap s \<noteq> Some False \<Longrightarrow> st_reconciliationStatus s \<noteq> None \<Longrightarrow>
     holds blocked_bank_implies_declared_gap s"
  by (auto simp: CHK_transactions_defs sql_defs not_engaged split: option.splits)

lemma checks_give_invariants:
  assumes "checks_transactions_state s" "st_providerStatus s \<noteq> None" "st_bankStatus s \<noteq> None"
    and "st_reconciliationStatus s \<noteq> None"
  shows "invariants_hold s"
proof
  fix i
  show "holds i s"
    using assms invariant_of_check [of s] unfolding checks_transactions_state_def
    by (cases i) blast+
qed

section \<open>Properties\<close>

text \<open>The moves and states the tables and invariants admit, as one predicate.\<close>

definition lawful :: "TransactionState \<Rightarrow> TransactionState \<Rightarrow> bool" where
  "lawful before after \<longleftrightarrow>
     may_move TRANSITIONS_status (Some (st_status before)) (Some (st_status after)) \<and>
     may_move TRANSITIONS_providerStatus (st_providerStatus before) (st_providerStatus after) \<and>
     may_move TRANSITIONS_bankStatus (st_bankStatus before) (st_bankStatus after) \<and>
     may_move TRANSITIONS_reconciliationStatus
       (st_reconciliationStatus before) (st_reconciliationStatus after) \<and>
     may_move TRANSITIONS_refundStatus (st_refundStatus before) (st_refundStatus after) \<and>
     may_move TRANSITIONS_caseStatus (st_caseStatus before) (st_caseStatus after) \<and>
     invariants_hold after"

lemma illegalMove_no_invariant: "BrokenInvariant i \<notin> set (illegalMove d table f x y)"
  by (simp add: illegalMove_def Let_def)

lemma BrokenInvariant_reported:
  "BrokenInvariant i \<in> set (illegalMoves before after @ brokenInvariants after) \<longleftrightarrow> \<not> holds i after"
proof -
  have "BrokenInvariant i \<notin> set (illegalMoves before after)"
    by (simp add: illegalMoves_def illegalMove_no_invariant)
  then show ?thesis
    using INVARIANTS_complete by (simp add: brokenInvariants_def image_iff)
qed

text \<open>
  C1. The machine refuses exactly what the tables and the invariants exclude: it accepts a move iff the
  move is lawful, and a refusal names the transaction, is never empty and reports precisely the
  invariants the target state breaks.
\<close>

theorem machine_accepts_exactly_lawful:
  "(assertTransition before after reference = Inr () \<longleftrightarrow> lawful before after) \<and>
   (\<forall>e. assertTransition before after reference = Inl e \<longrightarrow>
      (\<exists>vs. e = IllegalTransitionException reference vs \<and> vs \<noteq> [] \<and>
            (\<forall>i. BrokenInvariant i \<in> set vs \<longleftrightarrow> \<not> holds i after)))"
  unfolding machine_accepts_iff lawful_def assertTransition_Inl
  using BrokenInvariant_reported by blast

abbreviation initiated_payment :: TransactionState where
  "initiated_payment \<equiv>
     \<lparr>st_status = Tx_PENDING, st_providerStatus = Some Prov_INITIATED,
      st_bankStatus = Some Bank_NOT_STARTED, st_reconciliationStatus = Some Recon_PENDING,
      st_refundStatus = Some Refund_NOT_REQUIRED, st_caseStatus = Some Case_NONE,
      st_paymentChannel = MOBILE_MONEY\<rparr>"

theorem machine_accepts_exactly_lawful_witness:
  "\<exists>vs. assertTransition initiated_payment
           (initiated_payment\<lparr>st_bankStatus := Some Bank_PROCESSING\<rparr>) ''TRF-1''
         = Inl (IllegalTransitionException ''TRF-1'' vs) \<and>
        BrokenInvariant bank_requires_provider_confirmation \<in> set vs"
proof -
  define a where "a = initiated_payment\<lparr>st_bankStatus := Some Bank_PROCESSING\<rparr>"
  have bad: "\<not> holds bank_requires_provider_confirmation a" by (simp add: a_def)
  then have "\<not> lawful initiated_payment a" unfolding lawful_def by blast
  then obtain e where "assertTransition initiated_payment a ''TRF-1'' = Inl e"
    using machine_accepts_exactly_lawful [of initiated_payment a "''TRF-1''"]
    by (cases "assertTransition initiated_payment a ''TRF-1''") auto
  then show ?thesis
    using machine_accepts_exactly_lawful [of initiated_payment a "''TRF-1''"] bad
    unfolding a_def by blast
qed

lemma reached_state_facts:
  assumes "machine_reaches s t" and "st_paymentChannel t = MOBILE_MONEY"
  shows "st_bankStatus t \<in> {None, Some Bank_NOT_STARTED} \<or> st_providerStatus t = Some Prov_CONFIRMED"
    and "st_refundStatus t \<in> {None, Some Refund_NOT_REQUIRED} \<or> st_providerStatus t = Some Prov_CONFIRMED"
    and "st_caseStatus t = Some Case_RESOLVED \<Longrightarrow>
           st_refundStatus t \<in> {None, Some Refund_NOT_REQUIRED, Some Refund_COMPLETED}"
    and "st_reconciliationStatus t = Some Recon_MATCHED \<Longrightarrow>
           st_providerStatus t = Some Prov_CONFIRMED \<and> st_bankStatus t = Some Bank_COMPLETED"
    and "st_bankStatus t = Some Bank_BLOCKED \<Longrightarrow>
           st_reconciliationStatus t \<in> {Some Recon_AMOUNT_MISMATCH, Some Recon_CURRENCY_MISMATCH}"
    and "checks_transactions_state t"
proof -
  note h = reached_invariants [OF assms(1)]
  show "st_bankStatus t \<in> {None, Some Bank_NOT_STARTED} \<or> st_providerStatus t = Some Prov_CONFIRMED"
    using h [of bank_requires_provider_confirmation] assms(2) by auto
  show "st_refundStatus t \<in> {None, Some Refund_NOT_REQUIRED} \<or> st_providerStatus t = Some Prov_CONFIRMED"
    using h [of refund_requires_collection] assms(2) by (auto simp: not_engaged split: option.splits)
  show "st_caseStatus t = Some Case_RESOLVED \<Longrightarrow>
          st_refundStatus t \<in> {None, Some Refund_NOT_REQUIRED, Some Refund_COMPLETED}"
    using h [of resolved_case_requires_extinct_debt] by auto
  show "st_reconciliationStatus t = Some Recon_MATCHED \<Longrightarrow>
          st_providerStatus t = Some Prov_CONFIRMED \<and> st_bankStatus t = Some Bank_COMPLETED"
    using h [of matched_requires_both_legs_done] assms(2) by auto
  show "st_bankStatus t = Some Bank_BLOCKED \<Longrightarrow>
          st_reconciliationStatus t \<in> {Some Recon_AMOUNT_MISMATCH, Some Recon_CURRENCY_MISMATCH}"
    using h [of blocked_bank_implies_declared_gap] by auto
  show "checks_transactions_state t" using h by (intro invariants_pass_checks) blast
qed

text \<open>
  C2. Safety of funds over a whole life: in every state reached from an accepted initial state through
  accepted transitions of a Mobile Money payment, the bank is engaged and a refund is owed only on a
  confirmed collection, a case is resolved only without a debt, a match has both legs done, a blocked
  bank leg has a declared gap; and the row of every such state passes the CHECK constraints.
\<close>

theorem reached_states_are_safe:
  assumes "machine_reaches s t" and "st_paymentChannel t = MOBILE_MONEY"
  shows "(st_bankStatus t \<in> {None, Some Bank_NOT_STARTED} \<or> st_providerStatus t = Some Prov_CONFIRMED) \<and>
    (st_refundStatus t \<in> {None, Some Refund_NOT_REQUIRED} \<or> st_providerStatus t = Some Prov_CONFIRMED) \<and>
    (st_caseStatus t = Some Case_RESOLVED \<longrightarrow>
       st_refundStatus t \<in> {None, Some Refund_NOT_REQUIRED, Some Refund_COMPLETED}) \<and>
    (st_reconciliationStatus t = Some Recon_MATCHED \<longrightarrow>
       st_providerStatus t = Some Prov_CONFIRMED \<and> st_bankStatus t = Some Bank_COMPLETED) \<and>
    (st_bankStatus t = Some Bank_BLOCKED \<longrightarrow>
       st_reconciliationStatus t \<in> {Some Recon_AMOUNT_MISMATCH, Some Recon_CURRENCY_MISMATCH}) \<and>
    checks_transactions_state t"
  by (intro conjI impI reached_state_facts [OF assms])

abbreviation confirmed_payment :: TransactionState where
  "confirmed_payment \<equiv>
     initiated_payment\<lparr>st_providerStatus := Some Prov_CONFIRMED, st_bankStatus := Some Bank_PROCESSING\<rparr>"

lemma invariants_hold_code: "invariants_hold s \<longleftrightarrow> list_all (\<lambda>i. holds i s) INVARIANTS"
  using INVARIANTS_complete by (auto simp: list_all_iff)

lemma confirmed_payment_reached: "machine_reaches initiated_payment confirmed_payment"
  by (rule machine_reaches.move [OF machine_reaches.start [of _ "[]"], of _ _ "[]"])
     (simp_all add: assertInitialState_iff machine_accepts_iff invariants_hold_code INVARIANTS_def
       may_move_def REFUND_ENGAGED_def)

theorem reached_states_are_safe_witness:
  "machine_reaches initiated_payment confirmed_payment \<and> checks_transactions_state confirmed_payment \<and>
   st_providerStatus confirmed_payment = Some Prov_CONFIRMED"
  using confirmed_payment_reached reached_states_are_safe [OF confirmed_payment_reached] by simp

lemma settled_facts:
  assumes run: "successively machine_accepts (s # ss)" and t: "t \<in> set ss"
    and recorded: "\<forall>u\<in>set ss. st_providerStatus u \<noteq> None \<and> st_bankStatus u \<noteq> None \<and>
                     st_refundStatus u \<noteq> None \<and> st_caseStatus u \<noteq> None"
  shows "st_status s \<in> {Tx_COMPLETED, Tx_FAILED} \<Longrightarrow> st_status t = st_status s"
    and "st_providerStatus s \<in> {Some Prov_CONFIRMED, Some Prov_FAILED} \<Longrightarrow>
           st_providerStatus t = st_providerStatus s"
    and "st_bankStatus s \<in> {Some Bank_COMPLETED, Some Bank_FAILED, Some Bank_BLOCKED} \<Longrightarrow>
           st_bankStatus t = st_bankStatus s"
    and "st_refundStatus s = Some Refund_COMPLETED \<Longrightarrow> st_refundStatus t = Some Refund_COMPLETED"
    and "st_caseStatus s = Some Case_RESOLVED \<Longrightarrow> st_caseStatus t = Some Case_RESOLVED"
proof -
  have legs: "\<forall>u\<in>set ss. st_providerStatus u \<noteq> None" "\<forall>u\<in>set ss. st_bankStatus u \<noteq> None"
    "\<forall>u\<in>set ss. st_refundStatus u \<noteq> None" "\<forall>u\<in>set ss. st_caseStatus u \<noteq> None"
    using recorded by blast+
  show "st_status s \<in> {Tx_COMPLETED, Tx_FAILED} \<Longrightarrow> st_status t = st_status s"
    using status_dim.run_keeps_terminal [OF run refl, rule_format, OF _ _ t] by auto
  show "st_providerStatus s \<in> {Some Prov_CONFIRMED, Some Prov_FAILED} \<Longrightarrow>
          st_providerStatus t = st_providerStatus s"
    using provider_dim.run_keeps_terminal [OF run _ _ legs(1), rule_format, OF _ _ t] by auto
  show "st_bankStatus s \<in> {Some Bank_COMPLETED, Some Bank_FAILED, Some Bank_BLOCKED} \<Longrightarrow>
          st_bankStatus t = st_bankStatus s"
    using bank_dim.run_keeps_terminal [OF run _ _ legs(2), rule_format, OF _ _ t] by auto
  show "st_refundStatus s = Some Refund_COMPLETED \<Longrightarrow> st_refundStatus t = Some Refund_COMPLETED"
    using refund_dim.run_keeps_terminal [OF run _ _ legs(3), rule_format, OF _ _ t] by simp
  show "st_caseStatus s = Some Case_RESOLVED \<Longrightarrow> st_caseStatus t = Some Case_RESOLVED"
    using case_dim.run_keeps_terminal [OF run _ _ legs(4), rule_format, OF _ _ t] by simp
qed

text \<open>
  C3. Settled facts are irrevocable: along any run of accepted transitions in which the legs stay
  recorded, a collection that was confirmed or failed, a bank leg that ended, a debt paid back, a
  resolved case and a final status never change again.
\<close>

theorem settled_facts_irrevocable:
  assumes "successively machine_accepts (s # ss)" and "t \<in> set ss"
    and "\<forall>u\<in>set ss. st_providerStatus u \<noteq> None \<and> st_bankStatus u \<noteq> None \<and>
                     st_refundStatus u \<noteq> None \<and> st_caseStatus u \<noteq> None"
  shows "(st_status s \<in> {Tx_COMPLETED, Tx_FAILED} \<longrightarrow> st_status t = st_status s) \<and>
    (st_providerStatus s \<in> {Some Prov_CONFIRMED, Some Prov_FAILED} \<longrightarrow>
       st_providerStatus t = st_providerStatus s) \<and>
    (st_bankStatus s \<in> {Some Bank_COMPLETED, Some Bank_FAILED, Some Bank_BLOCKED} \<longrightarrow>
       st_bankStatus t = st_bankStatus s) \<and>
    (st_refundStatus s = Some Refund_COMPLETED \<longrightarrow> st_refundStatus t = Some Refund_COMPLETED) \<and>
    (st_caseStatus s = Some Case_RESOLVED \<longrightarrow> st_caseStatus t = Some Case_RESOLVED)"
  by (intro conjI impI settled_facts [OF assms])

theorem settled_facts_irrevocable_witness:
  "successively machine_accepts
     [confirmed_payment, confirmed_payment\<lparr>st_bankStatus := Some Bank_COMPLETED\<rparr>] \<and>
   st_providerStatus (confirmed_payment\<lparr>st_bankStatus := Some Bank_COMPLETED\<rparr>)
     = st_providerStatus confirmed_payment"
proof -
  let ?t = "confirmed_payment\<lparr>st_bankStatus := Some Bank_COMPLETED\<rparr>"
  have run: "successively machine_accepts [confirmed_payment, ?t]"
    by (simp add: machine_accepts_iff invariants_hold_code INVARIANTS_def may_move_def REFUND_ENGAGED_def)
  show ?thesis
    using run settled_facts_irrevocable [OF run, of ?t] by simp
qed

text \<open>
  The table alone does not make a value terminal: null is a way out. Two accepted transitions lead
  from a confirmed collection to a failed one through an unrecorded provider status, although
  CONFIRMED has no successor in the table.
\<close>

theorem terminal_value_escapes_through_null:
  "\<exists>s t u. machine_accepts s t \<and> machine_accepts t u \<and>
      st_providerStatus s = Some Prov_CONFIRMED \<and> TRANSITIONS_providerStatus Prov_CONFIRMED = [] \<and>
      st_providerStatus u = Some Prov_FAILED"
proof -
  let ?s = "initiated_payment\<lparr>st_providerStatus := Some Prov_CONFIRMED\<rparr>"
  let ?t = "initiated_payment\<lparr>st_providerStatus := None\<rparr>"
  let ?u = "initiated_payment\<lparr>st_providerStatus := Some Prov_FAILED\<rparr>"
  have "machine_accepts ?s ?t" "machine_accepts ?t ?u"
    by (simp_all add: machine_accepts_iff invariants_hold_code INVARIANTS_def may_move_def REFUND_ENGAGED_def)
  then show ?thesis by (intro exI [of _ ?s] exI [of _ ?t] exI [of _ ?u]) simp
qed

text \<open>
  The CHECK constraints against the invariants they repeat: an accepted state always passes them, and
  on rows whose provider, bank and reconciliation status are recorded they are equivalent; with a
  null status they are strictly weaker, a MOBILE_MONEY row whose bank leg is in process without any
  provider status passes.
\<close>

theorem checks_against_invariants:
  "(invariants_hold s \<longrightarrow> checks_transactions_state s) \<and>
   (st_providerStatus s \<noteq> None \<and> st_bankStatus s \<noteq> None \<and> st_reconciliationStatus s \<noteq> None \<longrightarrow>
      (checks_transactions_state s \<longleftrightarrow> invariants_hold s)) \<and>
   (\<exists>t. checks_transactions_state t \<and> st_paymentChannel t = MOBILE_MONEY \<and>
        st_bankStatus t = Some Bank_PROCESSING \<and> st_providerStatus t = None \<and>
        \<not> holds bank_requires_provider_confirmation t)"
proof -
  let ?t = "initiated_payment\<lparr>st_providerStatus := None, st_bankStatus := Some Bank_PROCESSING\<rparr>"
  have "checks_transactions_state ?t" "\<not> holds bank_requires_provider_confirmation ?t"
    by (simp_all add: checks_transactions_state_def CHK_transactions_defs sql_defs)
  then have "\<exists>t. checks_transactions_state t \<and> st_paymentChannel t = MOBILE_MONEY \<and>
        st_bankStatus t = Some Bank_PROCESSING \<and> st_providerStatus t = None \<and>
        \<not> holds bank_requires_provider_confirmation t"
    by (intro exI [of _ ?t]) simp
  then show ?thesis using invariants_pass_checks checks_give_invariants by blast
qed

theorem checks_against_invariants_witness:
  "checks_transactions_state initiated_payment \<and> invariants_hold initiated_payment"
proof -
  have "checks_transactions_state initiated_payment"
    by (simp add: checks_transactions_state_def CHK_transactions_defs sql_defs)
  then show ?thesis using checks_against_invariants [of initiated_payment] by simp
qed

end
