(* ===== verification/Js_Number.thy ===== *)
theory Js_Number
  imports Prelude Complex_Main "HOL-Library.Log_Nat"
begin

text \<open>
  The \<^verbatim>\<open>number\<close> type of ECMAScript: IEEE 754 binary64, round to nearest, ties to even. A finite
  number is the rational it denotes, so an operation is the exact one followed by \<open>fl\<close>; the two
  zeros are identified, which no operation of the sources tells apart. Besides the arithmetic this
  theory has \<^verbatim>\<open>Math.round\<close>, \<^verbatim>\<open>toFixed(2)\<close>, the shortest decimal that \<^verbatim>\<open>Number::toString\<close> prints, and
  the column type \<^verbatim>\<open>numeric(18,2)\<close> as it is written and read back by the driver.
\<close>

datatype number = Fin rat | PosInf | NegInf | NaN

section \<open>Rounding\<close>

text \<open>\<open>ilog2 x\<close> is the binary exponent of a positive \<open>x\<close>.\<close>

definition ilog2 :: "rat \<Rightarrow> int" where
  "ilog2 x =
     (let (p, q) = quotient_of x; k = bitlen p - bitlen q in
      if 2 powi k \<le> x then k else k - 1)"

definition round_even :: "rat \<Rightarrow> int" where
  "round_even x =
     (let f = \<lfloor>x\<rfloor>; d = x - of_int f in
      if d < 1 / 2 then f else if 1 / 2 < d then f + 1 else if even f then f else f + 1)"

definition fl_exp :: "rat \<Rightarrow> int" where
  "fl_exp x = max (ilog2 \<bar>x\<bar> - 52) (- 1074)"

definition fl_rat :: "rat \<Rightarrow> rat" where
  "fl_rat x = (if x = 0 then 0 else of_int (round_even (x / 2 powi fl_exp x)) * 2 powi fl_exp x)"

definition fl :: "rat \<Rightarrow> number" where
  "fl x = (let y = fl_rat x in
           if 2 ^ 1024 \<le> y then PosInf else if y \<le> - (2 ^ 1024) then NegInf else Fin y)"

definition is_double :: "rat \<Rightarrow> bool" where
  "is_double x \<longleftrightarrow> fl x = Fin x"

section \<open>Operations\<close>

fun isFinite :: "number \<Rightarrow> bool" where
  "isFinite (Fin _) = True"
| "isFinite _ = False"

fun js_neg :: "number \<Rightarrow> number" where
  "js_neg (Fin x) = Fin (- x)"
| "js_neg PosInf = NegInf"
| "js_neg NegInf = PosInf"
| "js_neg NaN = NaN"

fun js_add :: "number \<Rightarrow> number \<Rightarrow> number" where
  "js_add (Fin x) (Fin y) = fl (x + y)"
| "js_add NaN _ = NaN"
| "js_add _ NaN = NaN"
| "js_add PosInf NegInf = NaN"
| "js_add NegInf PosInf = NaN"
| "js_add PosInf _ = PosInf"
| "js_add NegInf _ = NegInf"
| "js_add (Fin _) y = y"

definition js_sub :: "number \<Rightarrow> number \<Rightarrow> number" where
  "js_sub a b = js_add a (js_neg b)"

fun signed_inf :: "rat \<Rightarrow> number" where
  "signed_inf x = (if 0 < x then PosInf else if x < 0 then NegInf else NaN)"

fun js_mul :: "number \<Rightarrow> number \<Rightarrow> number" where
  "js_mul (Fin x) (Fin y) = fl (x * y)"
| "js_mul NaN _ = NaN"
| "js_mul _ NaN = NaN"
| "js_mul (Fin x) PosInf = signed_inf x"
| "js_mul (Fin x) NegInf = signed_inf (- x)"
| "js_mul PosInf (Fin y) = signed_inf y"
| "js_mul NegInf (Fin y) = signed_inf (- y)"
| "js_mul PosInf PosInf = PosInf"
| "js_mul NegInf NegInf = PosInf"
| "js_mul _ _ = NegInf"

text \<open>Division by a finite divisor different from zero, the only one the sources use.\<close>

fun js_div :: "number \<Rightarrow> rat \<Rightarrow> number" where
  "js_div (Fin x) y = fl (x / y)"
| "js_div PosInf y = signed_inf y"
| "js_div NegInf y = signed_inf (- y)"
| "js_div NaN y = NaN"

fun Math_round :: "number \<Rightarrow> number" where
  "Math_round (Fin x) = Fin (of_int \<lfloor>x + 1 / 2\<rfloor>)"
| "Math_round n = n"

fun js_lt :: "number \<Rightarrow> number \<Rightarrow> bool" where
  "js_lt (Fin x) (Fin y) \<longleftrightarrow> x < y"
| "js_lt NaN _ \<longleftrightarrow> False"
| "js_lt _ NaN \<longleftrightarrow> False"
| "js_lt PosInf _ \<longleftrightarrow> False"
| "js_lt NegInf y \<longleftrightarrow> y \<noteq> NegInf"
| "js_lt (Fin _) y \<longleftrightarrow> y = PosInf"

text \<open>Strict equality \<^verbatim>\<open>===\<close>: \<^verbatim>\<open>NaN\<close> differs from itself.\<close>

definition js_eq :: "number \<Rightarrow> number \<Rightarrow> bool" where
  "js_eq a b \<longleftrightarrow> a \<noteq> NaN \<and> a = b"

section \<open>Decimal texts\<close>

text \<open>
  \<open>shortest_from d k x\<close> looks for the fewest decimals, from \<open>d\<close> on, with which some decimal
  denotes the positive double \<open>x\<close>; of the two neighbours of \<open>x\<close> the closer one is taken when both do.
\<close>

definition pick_decimal :: "int \<Rightarrow> rat \<Rightarrow> rat option" where
  "pick_decimal d x =
     (let lo = of_int \<lfloor>x * 10 powi d\<rfloor> / 10 powi d; hi = of_int \<lceil>x * 10 powi d\<rceil> / 10 powi d in
      if fl lo = Fin x \<and> fl hi = Fin x then Some (if hi - x < x - lo then hi else lo)
      else if fl lo = Fin x then Some lo
      else if fl hi = Fin x then Some hi
      else None)"

fun shortest_from :: "nat \<Rightarrow> int \<Rightarrow> rat \<Rightarrow> int \<times> rat" where
  "shortest_from 0 d x = (d, x)"
| "shortest_from (Suc k) d x =
     (case pick_decimal d x of Some v \<Rightarrow> (d, v) | None \<Rightarrow> shortest_from k (d + 1) x)"

definition int_digits :: "rat \<Rightarrow> nat" where
  "int_digits x = length (nat_dec (nat \<lfloor>x\<rfloor>))"

text \<open>
  Decimals and value of the text \<^verbatim>\<open>Number::toString\<close> prints for a positive double. The search starts
  at one significant digit and every double has an exact decimal of at most 1074 decimals, so the
  steps allowed are enough (\<open>shortest_decimal_fl\<close>).
\<close>

definition shortest_decimal :: "rat \<Rightarrow> int \<times> rat" where
  "shortest_decimal x = shortest_from (1075 + int_digits x) (1 - int (int_digits x)) x"

text \<open>\<^verbatim>\<open>x.toFixed(2)\<close>; from \<open>10\<^sup>2\<^sup>1\<close> on and for the special values it is \<^verbatim>\<open>toString\<close>, left out here.\<close>

definition fixed2_digits :: "nat \<Rightarrow> string" where
  "fixed2_digits n = nat_dec (n div 100) @ ''.'' @ [digit_char (n div 10 mod 10), digit_char (n mod 10)]"

fun toFixed2 :: "number \<Rightarrow> string" where
  "toFixed2 (Fin x) =
     (if x < 0 then ''-'' @ fixed2_digits (nat \<lfloor>- x * 100 + 1 / 2\<rfloor>)
      else fixed2_digits (nat \<lfloor>x * 100 + 1 / 2\<rfloor>))"
| "toFixed2 PosInf = ''Infinity''"
| "toFixed2 NegInf = ''-Infinity''"
| "toFixed2 NaN = ''NaN''"

text \<open>
  A \<^verbatim>\<open>numeric(18,2)\<close> column holds a whole number of hundredths. On the way in, the driver sends the
  decimal text and PostgreSQL rounds it half away from zero to two decimals, refusing what needs more
  than sixteen integer digits; \<^verbatim>\<open>Number.parseFloat\<close> on the way out is \<open>of_cents\<close>. Of the special
  values the column has \<^verbatim>\<open>NaN\<close> only, which no amount of money is: \<open>store_numeric\<close> gives the cents.
\<close>

definition pg_cents :: "rat \<Rightarrow> int" where
  "pg_cents x =
     (if x = 0 then 0
      else let c = \<lfloor>snd (shortest_decimal \<bar>x\<bar>) * 100 + 1 / 2\<rfloor> in if x < 0 then - c else c)"

fun store_numeric :: "number \<Rightarrow> int option" where
  "store_numeric (Fin x) = (let c = pg_cents x in if \<bar>c\<bar> < 10 ^ 18 then Some c else None)"
| "store_numeric _ = None"

text \<open>What the type of the column accepts; \<^verbatim>\<open>NaN\<close> is a value of it.\<close>

fun in_numeric :: "number \<Rightarrow> bool" where
  "in_numeric (Fin x) \<longleftrightarrow> \<bar>pg_cents x\<bar> < 10 ^ 18"
| "in_numeric n \<longleftrightarrow> n = NaN"

lemma stored_in_numeric: "store_numeric n = Some c \<Longrightarrow> in_numeric n"
  by (cases n) (auto simp: Let_def split: if_splits)

definition of_cents :: "int \<Rightarrow> number" where
  "of_cents c = fl (of_int c / 100)"

section \<open>Accuracy of rounding\<close>

lemma powi_less_imp_less: "(2::rat) powi m < 2 powi n \<Longrightarrow> m < n"
  using power_int_increasing [of n m "2::rat"] by (cases "m < n") auto

lemma powi_bitlen:
  assumes "0 < n"
  shows "(2::rat) powi (bitlen n - 1) \<le> of_int n" and "of_int n < (2::rat) powi bitlen n"
proof -
  have pos: "0 < bitlen n" using assms bitlen_nonneg [of n] bitlen_eq_zero_iff [of n] by linarith
  have b: "2 ^ nat (bitlen n - 1) \<le> n" "n < 2 ^ nat (bitlen n)"
    using bitlen_bounds [OF assms] by auto
  have "(2::rat) powi (bitlen n - 1) = of_int (2 ^ nat (bitlen n - 1))"
    using pos by (simp add: power_int_def)
  also have "\<dots> \<le> of_int n" using b(1) by (simp only: of_int_le_iff)
  finally show "(2::rat) powi (bitlen n - 1) \<le> of_int n" .
  have "of_int n < (of_int (2 ^ nat (bitlen n)) :: rat)" using b(2) by (simp only: of_int_less_iff)
  also have "\<dots> = 2 powi bitlen n" using pos by (simp add: power_int_def)
  finally show "of_int n < (2::rat) powi bitlen n" .
qed

lemma ilog2_bounds:
  assumes "0 < x"
  shows "2 powi ilog2 x \<le> x" and "x < 2 powi (ilog2 x + 1)"
proof -
  obtain p q where pq: "quotient_of x = (p, q)" by (cases "quotient_of x")
  have x: "x = of_int p / of_int q" by (rule quotient_of_div [OF pq])
  have q: "0 < q" by (rule quotient_of_denom_pos [OF pq])
  have p: "0 < p" using assms x q by (simp add: zero_less_divide_iff)
  define k where "k = bitlen p - bitlen q"
  note b = powi_bitlen [OF p] powi_bitlen [OF q]
  have q': "0 < rat_of_int q" using q by simp
  have "(2::rat) powi (k - 1) * of_int q \<le> 2 powi (k - 1) * 2 powi bitlen q"
    using b(4) by (intro mult_left_mono) auto
  also have "\<dots> = 2 powi (bitlen p - 1)" by (simp add: k_def power_int_diff power_int_add)
  also have "\<dots> \<le> of_int p" by (rule b(1))
  finally have lo: "2 powi (k - 1) \<le> x" using q' by (simp add: x pos_le_divide_eq)
  have "of_int p < (2::rat) powi bitlen p" by (rule b(2))
  also have "\<dots> = 2 powi (k + 1) * 2 powi (bitlen q - 1)"
    by (simp add: k_def power_int_diff power_int_add)
  also have "\<dots> \<le> 2 powi (k + 1) * of_int q"
    using b(3) by (intro mult_left_mono) auto
  finally have hi: "x < 2 powi (k + 1)" using q' by (simp add: x pos_divide_less_eq)
  have e: "ilog2 x = (if 2 powi k \<le> x then k else k - 1)"
    by (simp add: ilog2_def pq k_def)
  show "2 powi ilog2 x \<le> x" using lo by (simp add: e)
  show "x < 2 powi (ilog2 x + 1)" using hi by (simp add: e)
qed

lemma round_even_error: "\<bar>of_int (round_even x) - x\<bar> \<le> (1 / 2 :: rat)"
proof -
  have "of_int \<lfloor>x\<rfloor> \<le> x" "x < of_int \<lfloor>x\<rfloor> + 1" by linarith+
  then show ?thesis unfolding round_even_def Let_def abs_if by (simp split: if_split) linarith
qed

lemma round_even_of_int [simp]: "round_even (of_int i) = i"
  by (simp add: round_even_def)

text \<open>The relative error of rounding in the normal range is half a unit of the 53rd bit.\<close>

lemma fl_rat_error:
  assumes "2 powi (- 1022) \<le> \<bar>x\<bar>"
  shows "\<bar>fl_rat x - x\<bar> \<le> \<bar>x\<bar> / 2 ^ 53"
proof -
  have pos: "0 < \<bar>x\<bar>" using assms zero_less_power_int [of "2::rat" "- 1022"] by linarith
  define e where "e = ilog2 \<bar>x\<bar>"
  note b = ilog2_bounds [OF pos, folded e_def]
  have "(2::rat) powi (- 1022) < 2 powi (e + 1)" using assms b(2) by linarith
  then have "- 1022 < e + 1" by (rule powi_less_imp_less)
  then have q: "fl_exp x = e - 52" by (simp add: fl_exp_def e_def)
  define u where "u = (2::rat) powi (e - 52)"
  have u: "0 < u" by (simp add: u_def)
  have "fl_rat x - x = (of_int (round_even (x / u)) - x / u) * u"
    using pos u by (simp add: fl_rat_def q u_def [symmetric] left_diff_distrib)
  then have "\<bar>fl_rat x - x\<bar> = \<bar>of_int (round_even (x / u)) - x / u\<bar> * u"
    using u by (simp add: abs_mult)
  also have "\<dots> \<le> 1 / 2 * u"
    using round_even_error [of "x / u"] u by (intro mult_right_mono) auto
  also have "\<dots> = 2 powi e / 2 ^ 53"
    by (simp add: u_def power_int_diff)
  also have "\<dots> \<le> \<bar>x\<bar> / 2 ^ 53" using b(1) by (intro divide_right_mono) auto
  finally show ?thesis .
qed

lemma fl_rat_subnormal_error:
  assumes "\<bar>x\<bar> < 2 powi (- 1022)"
  shows "\<bar>fl_rat x - x\<bar> \<le> 2 powi (- 1074)"
proof (cases "x = 0")
  case False
  have "2 powi ilog2 \<bar>x\<bar> < (2::rat) powi (- 1022)" using ilog2_bounds(1) [of "\<bar>x\<bar>"] assms False by simp
  then have "ilog2 \<bar>x\<bar> < - 1022" by (rule powi_less_imp_less)
  then have e: "fl_exp x = - 1074" by (simp add: fl_exp_def)
  define u where "u = (2::rat) powi (- 1074)"
  have u: "0 < u" by (simp add: u_def)
  have "fl_rat x = of_int (round_even (x / u)) * u" using False by (simp add: fl_rat_def e u_def)
  then have "fl_rat x - x = (of_int (round_even (x / u)) - x / u) * u" using u by (simp add: left_diff_distrib)
  then have "\<bar>fl_rat x - x\<bar> = \<bar>of_int (round_even (x / u)) - x / u\<bar> * u" using u by (simp add: abs_mult)
  also have "\<dots> \<le> 1 / 2 * u" using round_even_error [of "x / u"] u by (intro mult_right_mono) auto
  also have "\<dots> \<le> u" using u by simp
  finally show ?thesis unfolding u_def .
next
  case True
  then have "\<bar>fl_rat x - x\<bar> = 0" by (simp add: fl_rat_def)
  also have "0 \<le> (2::rat) powi (- 1074)" by (rule zero_le_power_int) simp
  finally show ?thesis .
qed

text \<open>In either range the error is at most that of a moderate number plus a negligible constant.\<close>

lemma fl_rat_general_error: "\<bar>fl_rat x - x\<bar> \<le> \<bar>x\<bar> / 2 ^ 53 + 1 / 2 ^ 20"
proof (cases "\<bar>x\<bar> < 2 powi (- 1022)")
  case True
  have "(2::rat) powi (- 1074) \<le> 2 powi (- 20)" by (intro power_int_increasing) auto
  also have "\<dots> \<le> 1 / 2 ^ 20" by (simp add: power_int_minus)
  finally have u: "(2::rat) powi (- 1074) \<le> 1 / 2 ^ 20" .
  have "\<bar>fl_rat x - x\<bar> \<le> 1 / 2 ^ 20"
    by (rule order_trans [OF fl_rat_subnormal_error [OF True] u])
  also have "\<dots> \<le> \<bar>x\<bar> / 2 ^ 53 + 1 / 2 ^ 20" by (rule add_increasing) (rule divide_nonneg_nonneg, simp_all)
  finally show ?thesis .
next
  case False
  then have "\<bar>fl_rat x - x\<bar> \<le> \<bar>x\<bar> / 2 ^ 53" by (intro fl_rat_error) simp
  moreover have "0 \<le> (1::rat) / 2 ^ 20" by simp
  ultimately show ?thesis by linarith
qed

lemma fl_rat_nonneg: "0 \<le> x \<Longrightarrow> 0 \<le> fl_rat x"
proof -
  assume "0 \<le> x"
  then have "0 \<le> \<lfloor>x / 2 powi fl_exp x\<rfloor>" by simp
  then have "0 \<le> round_even (x / 2 powi fl_exp x)" by (simp add: round_even_def Let_def)
  then show ?thesis by (simp add: fl_rat_def)
qed

lemma clamped: "\<bar>y\<bar> < B \<Longrightarrow> (if B \<le> y then p else if y \<le> - B then n else r) = r" for y :: rat
  by auto

lemma fl_bounded: "\<bar>fl_rat x\<bar> < 2 ^ 1024 \<Longrightarrow> fl x = Fin (fl_rat x)"
  unfolding fl_def Let_def by (rule clamped)

lemma fl_normal:
  assumes "2 powi (- 1022) \<le> \<bar>x\<bar>" and "\<bar>x\<bar> < 2 ^ 1023"
  obtains y where "fl x = Fin y" and "\<bar>y - x\<bar> \<le> \<bar>x\<bar> / 2 ^ 53"
proof
  have e: "\<bar>fl_rat x - x\<bar> \<le> \<bar>x\<bar> / 2 ^ 53" by (rule fl_rat_error [OF assms(1)])
  have "\<bar>x\<bar> / 2 ^ 53 \<le> \<bar>x\<bar>" by simp
  with e have "\<bar>fl_rat x\<bar> \<le> 2 * \<bar>x\<bar>" by linarith
  also have "\<dots> < 2 ^ 1024" using assms(2) by simp
  finally have "\<bar>fl_rat x\<bar> < 2 ^ 1024" .
  then show "fl x = Fin (fl_rat x)" by (rule fl_bounded)
  show "\<bar>fl_rat x - x\<bar> \<le> \<bar>x\<bar> / 2 ^ 53" by (rule e)
qed

text \<open>Amounts are at least a cent and far below the overflow threshold.\<close>

lemma fl_moderate:
  assumes "1 / 1000 \<le> \<bar>x\<bar>" and "\<bar>x\<bar> \<le> 2 ^ 60"
  obtains y where "fl x = Fin y" and "\<bar>y - x\<bar> \<le> \<bar>x\<bar> / 2 ^ 53"
proof (rule fl_normal)
  have "(2::rat) powi (- 1022) \<le> 2 powi (- 10)" by (intro power_int_increasing) auto
  also have "\<dots> \<le> 1 / 1000" by (simp add: power_int_minus)
  also have "\<dots> \<le> \<bar>x\<bar>" by (rule assms(1))
  finally show "2 powi (- 1022) \<le> \<bar>x\<bar>" .
  have "\<bar>x\<bar> \<le> 2 ^ 60" by (rule assms(2))
  also have "\<dots> < (2::rat) ^ 1023" by (intro power_strict_increasing) auto
  finally show "\<bar>x\<bar> < 2 ^ 1023" .
qed (use that in blast)

lemma fl_0 [simp]: "fl 0 = Fin 0"
  by (simp add: fl_def fl_rat_def)

text \<open>A number of at most 53 bits on the grid of the subnormals is its own rounding.\<close>

lemma fl_rat_grid:
  assumes "fl_exp x \<le> q" and x: "x = of_int n * 2 powi q"
  shows "fl_rat x = x"
proof (cases "x = 0")
  case False
  define r where "r = fl_exp x"
  obtain k where k: "q - r = int k" using assms(1) nonneg_int_cases [of "q - r"] by (auto simp: r_def)
  have "(2::rat) powi q = 2 ^ k * 2 powi r"
    by (metis diff_add_cancel k power_int_add power_int_of_nat zero_neq_numeral)
  then have e: "x / 2 powi r = of_int (n * 2 ^ k)" by (simp add: x)
  then have "fl_rat x = of_int (n * 2 ^ k) * 2 powi r"
    using False by (simp add: fl_rat_def r_def [symmetric] del: of_int_mult)
  also have "\<dots> = x" by (simp only: e [symmetric]) simp
  finally show ?thesis .
qed (simp add: fl_rat_def)

lemma fl_rat_dyadic:
  assumes n: "\<bar>n\<bar> \<le> 2 ^ 53" and q: "- 1074 \<le> q"
  shows "fl_rat (of_int n * 2 powi q) = of_int n * 2 powi q" (is "fl_rat ?x = ?x")
proof (cases "n = 0 \<or> \<bar>n\<bar> = 2 ^ 53")
  case True
  moreover have ?thesis if "n = 0" using that by (simp add: fl_rat_def)
  moreover have ?thesis if m: "\<bar>n\<bar> = 2 ^ 53"
  proof -
    have x: "\<bar>?x\<bar> = 2 powi (q + 53)"
      using m by (simp add: abs_mult power_int_add flip: of_int_abs)
    then have pos: "0 < \<bar>?x\<bar>" by simp
    have "(2::rat) powi ilog2 \<bar>?x\<bar> < 2 powi (q + 54)"
    proof -
      have "(2::rat) powi ilog2 \<bar>?x\<bar> \<le> 2 powi (q + 53)" using ilog2_bounds(1) [OF pos] x by simp
      also have "\<dots> < 2 powi (q + 54)" by (intro power_int_strict_increasing) auto
      finally show ?thesis .
    qed
    then have "ilog2 \<bar>?x\<bar> < q + 54" by (rule powi_less_imp_less)
    then have "fl_exp ?x \<le> q + 1" using q by (simp add: fl_exp_def)
    moreover have "?x = of_int (n div 2) * 2 powi (q + 1)"
    proof -
      have "2 dvd \<bar>n\<bar>" by (simp add: m)
      then have "n = 2 * (n div 2)" by simp
      then have "rat_of_int n = 2 * of_int (n div 2)" by (metis of_int_mult of_int_numeral)
      then show ?thesis by (simp add: power_int_add)
    qed
    ultimately show ?thesis by (rule fl_rat_grid)
  qed
  ultimately show ?thesis by blast
next
  case False
  then have lt: "\<bar>n\<bar> < 2 ^ 53" and n0: "n \<noteq> 0" using n by auto
  have pos: "0 < \<bar>?x\<bar>" using n0 by simp
  have "rat_of_int \<bar>n\<bar> < of_int (2 ^ 53)" using lt by (simp only: of_int_less_iff)
  then have "\<bar>?x\<bar> < 2 ^ 53 * 2 powi q" by (simp add: abs_mult)
  also have "\<dots> = 2 powi (q + 53)" by (simp add: power_int_add)
  finally have "2 powi ilog2 \<bar>?x\<bar> < (2::rat) powi (q + 53)" using ilog2_bounds(1) [OF pos] by linarith
  then have "ilog2 \<bar>?x\<bar> < q + 53" by (rule powi_less_imp_less)
  then have "fl_exp ?x \<le> q" using q by (simp add: fl_exp_def)
  then show ?thesis by (rule fl_rat_grid) simp
qed

lemma fl_rat_form:
  obtains n q where "fl_rat x = of_int n * 2 powi q" "\<bar>n\<bar> \<le> 2 ^ 53" "- 1074 \<le> q"
proof (cases "x = 0")
  case True
  then show ?thesis using that [of 0 0] by (simp add: fl_rat_def)
next
  case False
  define q where "q = fl_exp x"
  have q: "ilog2 \<bar>x\<bar> - 52 \<le> q" "- 1074 \<le> q" by (simp_all add: q_def fl_exp_def)
  have "\<bar>x\<bar> < 2 powi (ilog2 \<bar>x\<bar> + 1)" using False ilog2_bounds(2) [of "\<bar>x\<bar>"] by simp
  also have "\<dots> \<le> 2 powi (q + 53)" using q by (intro power_int_increasing) auto
  finally have "\<bar>x\<bar> < 2 ^ 53 * 2 powi q" by (simp add: power_int_add)
  then have "\<bar>x / 2 powi q\<bar> < 2 ^ 53" by (simp add: abs_divide divide_less_eq)
  moreover have "\<bar>of_int (round_even (x / 2 powi q)) - x / 2 powi q\<bar> \<le> 1 / 2"
    by (rule round_even_error)
  ultimately have "\<bar>rat_of_int (round_even (x / 2 powi q))\<bar> < 2 ^ 53 + 1" by linarith
  then have "\<bar>rat_of_int (round_even (x / 2 powi q))\<bar> < of_int (2 ^ 53 + 1)" by simp
  then have "\<bar>round_even (x / 2 powi q)\<bar> \<le> 2 ^ 53"
    by (simp only: of_int_abs [symmetric] of_int_less_iff)
  with q(2) False show ?thesis
    by (intro that [of "round_even (x / 2 powi q)" q]) (simp_all add: fl_rat_def q_def)
qed

lemma fl_rat_idem [simp]: "fl_rat (fl_rat x) = fl_rat x"
  by (metis fl_rat_form fl_rat_dyadic)

lemma fl_FinD: "fl x = Fin y \<Longrightarrow> y = fl_rat x"
  by (auto simp: fl_def Let_def split: if_splits)

lemma fl_fl_rat: "fl (fl_rat x) = fl x"
  by (simp only: fl_def fl_rat_idem)

lemma fl_is_double: "fl x = Fin y \<Longrightarrow> is_double y"
  using fl_FinD [of x y] fl_fl_rat [of x] by (simp add: is_double_def)

lemma fl_of_int:
  assumes "\<bar>i\<bar> < 2 ^ 53"
  shows "fl (of_int i) = Fin (of_int i)"
proof -
  have "\<bar>rat_of_int i\<bar> < 2 ^ 53" using assms
    by (metis of_int_abs of_int_less_iff of_int_numeral of_int_power)
  also have "\<dots> < 2 ^ 1024" by (intro power_strict_increasing) auto
  finally have "\<bar>rat_of_int i\<bar> < 2 ^ 1024" .
  moreover have "fl_rat (of_int i) = of_int i" using fl_rat_dyadic [of i 0] assms by simp
  ultimately show ?thesis using fl_bounded [of "of_int i"] by metis
qed

section \<open>The shortest decimal\<close>

lemma pick_decimal_fl: "pick_decimal d x = Some v \<Longrightarrow> fl v = Fin x"
  by (auto simp: pick_decimal_def Let_def split: if_splits)

lemma pick_decimal_scaled:
  assumes "pick_decimal d x = Some v" "0 \<le> x"
  obtains s where "v = of_int s / 10 powi d" "0 \<le> s"
proof -
  have "0 \<le> x * 10 powi d" using assms(2) by simp
  then have "0 \<le> \<lfloor>x * 10 powi d\<rfloor>" "0 \<le> \<lceil>x * 10 powi d\<rceil>" by linarith+
  then show ?thesis using assms(1) that
    unfolding pick_decimal_def Let_def by (auto split: if_splits)
qed

lemma pick_decimal_hit:
  "fl (of_int \<lfloor>x * 10 powi d\<rfloor> / 10 powi d) = Fin x \<or> fl (of_int \<lceil>x * 10 powi d\<rceil> / 10 powi d) = Fin x \<Longrightarrow>
   pick_decimal d x \<noteq> None"
  by (auto simp: pick_decimal_def Let_def)

lemma shortest_from_hit:
  assumes "pick_decimal (d + int j) x \<noteq> None" and "j < k"
  obtains d' v where "shortest_from k d x = (d', v)" "pick_decimal d' x = Some v" "d \<le> d'" "d' \<le> d + int j"
  using assms
proof (induction k arbitrary: d j thesis)
  case (Suc k)
  show ?case
  proof (cases "pick_decimal d x")
    case (Some v)
    then show ?thesis using Suc.prems(1) [of d v] by simp
  next
    case None
    then obtain i where j: "j = Suc i" using Suc.prems(2) by (cases j) auto
    have "pick_decimal (d + 1 + int i) x \<noteq> None" "i < k" using Suc.prems j by (simp_all add: add_ac)
    from Suc.IH [OF _ this] obtain d' v where
      "shortest_from k (d + 1) x = (d', v)" "pick_decimal d' x = Some v" "d + 1 \<le> d'" "d' \<le> d + 1 + int i" .
    then show ?thesis using Suc.prems(1) [of d' v] None j by simp
  qed
qed simp

lemma dyadic_scaled:
  assumes "- int K \<le> q"
  shows "of_int n * 2 powi q * 10 powi int K = (of_int (n * 2 ^ nat (q + int K) * 5 ^ K) :: rat)"
proof -
  obtain k where k: "q + int K = int k" using assms nonneg_int_cases [of "q + int K"] by auto
  have "(10::rat) ^ K = 2 ^ K * 5 ^ K" by (simp add: power_mult_distrib [symmetric])
  moreover have "(2::rat) powi q * 2 ^ K = 2 ^ k"
    using power_int_add [of "2::rat" q "int K"] by (simp add: k)
  ultimately show ?thesis by (simp add: k mult.assoc)
qed

lemma pick_decimal_exact:
  assumes "is_double x" and K: "int K = 1074"
  shows "pick_decimal (int K) x \<noteq> None"
proof -
  obtain n q where x: "x = of_int n * 2 powi q" and q: "- 1074 \<le> q"
    using assms fl_FinD [of x x] fl_rat_form [of x] by (metis is_double_def)
  have "- int K \<le> q" using q K by simp
  from dyadic_scaled [OF this, of n] obtain s where s: "x * 10 powi int K = of_int s"
    unfolding x by blast
  have "of_int \<lfloor>x * 10 powi int K\<rfloor> / 10 powi int K = x"
    unfolding s floor_of_int by (simp only: s [symmetric]) simp
  then show ?thesis using assms(1) unfolding is_double_def by (metis pick_decimal_hit)
qed

lemma int_digits_pos: "0 < int_digits x"
  unfolding int_digits_def by (subst nat_dec.simps) simp

lemma shortest_decimal_hit:
  assumes "pick_decimal e x \<noteq> None" and "0 \<le> e" "e \<le> 1074"
  obtains d v where "shortest_decimal x = (d, v)" "pick_decimal d x = Some v" "d \<le> e"
proof -
  define j where "j = nat (e - 1 + int (int_digits x))"
  have j: "1 - int (int_digits x) + int j = e" "j < 1075 + int_digits x"
    using assms(2,3) int_digits_pos [of x] by (simp_all add: j_def)
  have "pick_decimal (1 - int (int_digits x) + int j) x \<noteq> None" using assms(1) j(1) by metis
  from shortest_from_hit [OF this j(2)] j(1) show ?thesis
    using that unfolding shortest_decimal_def by metis
qed

lemma shortest_decimal_fl:
  assumes "is_double x"
  shows "fl (snd (shortest_decimal x)) = Fin x"
proof -
  obtain K where K: "int K = 1074" by (metis nonneg_int_cases zero_le_numeral)
  have "0 \<le> int K" "int K \<le> 1074" using K by simp_all
  from shortest_decimal_hit [OF pick_decimal_exact [OF assms K] this]
  obtain d v where "shortest_decimal x = (d, v)" "pick_decimal d x = Some v" .
  then show ?thesis using pick_decimal_fl by simp
qed

section \<open>Cents\<close>

text \<open>\<open>of_cents c\<close> is the double nearest to \<open>c\<close> cents; \<open>max_cents\<close> bounds the amounts considered.\<close>

abbreviation max_cents :: int where
  "max_cents \<equiv> 2 ^ 48"

lemma of_cents_near:
  assumes "\<bar>c\<bar> \<le> max_cents"
  obtains x where "of_cents c = Fin x" and "\<bar>x - of_int c / 100\<bar> \<le> \<bar>of_int c / 100\<bar> / 2 ^ 53"
proof (cases "c = 0")
  case True
  then show ?thesis using that [of 0] by (simp add: of_cents_def)
next
  case False
  have c: "rat_of_int \<bar>c\<bar> \<le> rat_of_int max_cents" using assms by (simp only: of_int_le_iff)
  have "1 \<le> rat_of_int \<bar>c\<bar>" using False by linarith
  then have "1 / 1000 \<le> \<bar>rat_of_int c / 100\<bar>" by simp
  moreover have "\<bar>rat_of_int c / 100\<bar> \<le> 2 ^ 60" using c by simp
  ultimately show ?thesis using that unfolding of_cents_def by (rule fl_moderate) blast
qed

text \<open>Multiplying the stored double by 100 and rounding gives the cents back.\<close>

lemma cents_times_100:
  assumes "\<bar>c\<bar> \<le> max_cents" and x: "of_cents c = Fin x"
  obtains y where "js_mul (of_cents c) (Fin 100) = Fin y" and "\<bar>y - of_int c\<bar> < 1 / 2"
    and "\<bar>x * 100 - of_int c\<bar> \<le> 1 / 32"
proof (cases "c = 0")
  case True
  then show ?thesis using that [of 0] x by (simp add: of_cents_def)
next
  case False
  define d where "d = \<bar>rat_of_int c\<bar>"
  have d: "1 \<le> d" "d \<le> 2 ^ 48" using False assms(1) unfolding d_def
    by (linarith, metis of_int_abs of_int_le_iff of_int_numeral of_int_power)
  obtain x' where x': "of_cents c = Fin x'" "\<bar>x' - of_int c / 100\<bar> \<le> \<bar>of_int c / 100\<bar> / 2 ^ 53"
    using of_cents_near [OF assms(1)] .
  then have "\<bar>x - of_int c / 100\<bar> \<le> d / 100 / 2 ^ 53" using x by (simp add: d_def)
  then have near: "\<bar>x * 100 - of_int c\<bar> \<le> d / 2 ^ 53" by (auto simp: abs_le_iff field_simps)
  have small: "d / 2 ^ 53 \<le> 1 / 32" using d by simp
  have "\<bar>x * 100 - of_int c\<bar> \<le> 1 / 8" using near small by linarith
  then have x100: "\<bar>x * 100\<bar> \<le> d + 1 / 8" "d - 1 / 8 \<le> \<bar>x * 100\<bar>"
    unfolding d_def by linarith+
  have "1 / 1000 \<le> \<bar>x * 100\<bar>" "\<bar>x * 100\<bar> \<le> 2 ^ 60" using x100 d by simp_all
  then obtain y where y: "fl (x * 100) = Fin y" "\<bar>y - x * 100\<bar> \<le> \<bar>x * 100\<bar> / 2 ^ 53"
    by (rule fl_moderate)
  have "\<bar>x * 100\<bar> / 2 ^ 53 \<le> (2 ^ 48 + 1 / 8) / 2 ^ 53"
    using x100 d by (intro divide_right_mono) auto
  then have "\<bar>x * 100\<bar> / 2 ^ 53 \<le> 1 / 4" by simp
  then have "\<bar>y - of_int c\<bar> < 1 / 2" using y(2) near small by linarith
  with y(1) x near small show ?thesis by (intro that [of y]) auto
qed

lemma floor_near:
  assumes "\<bar>y - of_int c\<bar> < (1 / 2 :: rat)"
  shows "\<lfloor>y + 1 / 2\<rfloor> = c"
proof (rule floor_unique)
  show "of_int c \<le> y + 1 / 2" "y + 1 / 2 < of_int c + 1" using assms by linarith+
qed


text \<open>A decimal that denotes a double of moderate size is close to it.\<close>

lemma decimal_near:
  assumes "fl v = Fin x" and "1 / 1000 \<le> \<bar>x\<bar>"
  shows "\<bar>v - x\<bar> \<le> \<bar>v\<bar> / 2 ^ 53"
proof -
  have x: "x = fl_rat v" by (rule fl_FinD [OF assms(1)])
  have "2 powi (- 1022) \<le> \<bar>v\<bar>"
  proof (rule ccontr)
    assume "\<not> 2 powi (- 1022) \<le> \<bar>v\<bar>"
    then have v: "\<bar>v\<bar> < 2 powi (- 1022)" by simp
    from fl_rat_subnormal_error [OF this] have "\<bar>x - v\<bar> \<le> 2 powi (- 1074)" by (simp add: x)
    moreover have "(2::rat) powi (- 1074) \<le> 2 powi (- 20)" "(2::rat) powi (- 1022) \<le> 2 powi (- 20)"
      by (intro power_int_increasing; simp)+
    moreover have "(2::rat) powi (- 20) < 1 / 4000" by (simp add: power_int_minus)
    ultimately show False using assms(2) v by linarith
  qed
  from fl_rat_error [OF this] show ?thesis by (simp add: x abs_minus_commute)
qed

lemma decimal_bound:
  assumes "fl v = Fin x" and "1 / 1000 \<le> \<bar>x\<bar>"
  shows "\<bar>v\<bar> \<le> 16 / 15 * \<bar>x\<bar>"
proof -
  have "\<bar>v\<bar> / 2 ^ 53 \<le> \<bar>v\<bar> / 16" by simp
  then show ?thesis using decimal_near [OF assms] by linarith
qed

lemma pg_cents_near:
  assumes "is_double x" and "0 < x" and c: "1 \<le> c" "c \<le> max_cents"
    and near: "\<bar>x * 100 - of_int c\<bar> \<le> 1 / 4"
  shows "pg_cents x = c"
proof -
  define v where "v = snd (shortest_decimal x)"
  have fl: "fl v = Fin x" unfolding v_def by (rule shortest_decimal_fl [OF assms(1)])
  have c1: "1 \<le> rat_of_int c" "rat_of_int c \<le> 2 ^ 48"
    using c of_int_le_iff [of c max_cents, where 'a = rat] by simp_all
  have "1 / 1000 \<le> \<bar>x\<bar>" using near c1 assms(2) by linarith
  with decimal_near [OF fl this] decimal_bound [OF fl this]
  have d: "\<bar>v - x\<bar> \<le> \<bar>v\<bar> / 2 ^ 53" "\<bar>v\<bar> \<le> 16 / 15 * x" using assms(2) by simp_all
  have "x * 100 \<le> 2 ^ 48 + 1 / 4" using near c1 by linarith
  with d(2) have "\<bar>v\<bar> * 100 \<le> 2 ^ 49" by (simp; linarith)
  then have "\<bar>v\<bar> / 2 ^ 53 * 100 < 1 / 4" by simp
  then have "\<bar>v * 100 - of_int c\<bar> < 1 / 2" using d(1) near by linarith
  then have "\<lfloor>v * 100 + 1 / 2\<rfloor> = c" by (rule floor_near)
  then show ?thesis using assms(2) by (simp add: pg_cents_def v_def Let_def)
qed

lemma of_cents_pos:
  assumes "1 \<le> c" "c \<le> max_cents" "of_cents c = Fin x"
  shows "0 < x"
proof -
  have "\<bar>c\<bar> \<le> max_cents" using assms by simp
  from cents_times_100 [OF this assms(3)] have "\<bar>x * 100 - of_int c\<bar> \<le> 1 / 32" by blast
  moreover have "1 \<le> rat_of_int c" using assms(1) by simp
  ultimately show ?thesis by linarith
qed

end
