(* ===== verification/Money.thy ===== *)
theory Money
  imports Js_Number
begin

text \<open>
  Monetary amounts: \<^verbatim>\<open>mobile-money/amount.util.ts\<close>, \<^verbatim>\<open>common/validators/is-monetary-amount.validator.ts\<close>
  and the two rounding helpers of the services. An amount the API admits is the double nearest to a
  whole number of cents; on those, comparison, storage in a \<^verbatim>\<open>numeric(18,2)\<close> column and printing are
  exact, and so is the storage of a difference of two of them.
\<close>

section \<open>Operations\<close>

fun toMinorUnits :: "number option \<Rightarrow> number option" where
  "toMinorUnits None = None"
| "toMinorUnits (Some amount) =
     (if isFinite amount then Some (Math_round (js_mul amount (Fin 100))) else None)"

definition amountsMatch :: "number option \<Rightarrow> number option \<Rightarrow> bool" where
  "amountsMatch left right =
     (case (toMinorUnits left, toMinorUnits right) of (Some a, Some b) \<Rightarrow> js_eq a b | _ \<Rightarrow> False)"

text \<open>An absent or empty currency is falsy.\<close>

definition currenciesMatch :: "string option \<Rightarrow> string option \<Rightarrow> bool" where
  "currenciesMatch left right =
     (case (left, right) of
        (Some l, Some r) \<Rightarrow> l \<noteq> [] \<and> r \<noteq> [] \<and> toUpperCase (trim l) = toUpperCase (trim r)
      | _ \<Rightarrow> False)"

definition roundToCent :: "number \<Rightarrow> number" where
  "roundToCent v = js_div (Math_round (js_mul v (Fin 100))) 100"

text \<open>
  \<^verbatim>\<open>value.toString().split('.')[1]?.length ?? 0\<close> for a positive double: the decimals of the shortest
  decimal, and from \<open>10\<^sup>2\<^sup>1\<close> on what follows the point of the exponential notation.
\<close>

definition printed_decimals :: "rat \<Rightarrow> int" where
  "printed_decimals x =
     (case shortest_decimal x of (d, v) \<Rightarrow>
        if v < 10 ^ 21 then max 0 d
        else let n = int (int_digits v); k = n + d in
             if k \<le> 1 then 0 else k - 1 + (if n \<le> 100 then 4 else 5))"

text \<open>\<open>None\<close> stands for a value whose \<^verbatim>\<open>typeof\<close> is not \<^verbatim>\<open>number\<close>.\<close>

definition isMonetaryAmount :: "number option \<Rightarrow> int \<Rightarrow> number \<Rightarrow> bool" where
  "isMonetaryAmount val maxDecimals mn =
     (case val of
        Some (Fin x) \<Rightarrow> \<not> js_lt (Fin x) mn \<and> printed_decimals x \<le> maxDecimals
      | _ \<Rightarrow> False)"

section \<open>Exactness on cents\<close>

lemma of_cents_Fin:
  assumes "\<bar>c\<bar> \<le> max_cents"
  obtains x where "of_cents c = Fin x" "is_double x" "\<bar>x * 100 - of_int c\<bar> \<le> 1 / 32"
proof -
  obtain x where x: "of_cents c = Fin x" using of_cents_near [OF assms] by blast
  then have "is_double x" unfolding of_cents_def by (rule fl_is_double)
  then show ?thesis using that [OF x] cents_times_100 [OF assms x] by blast
qed

lemma toMinorUnits_cents [simp]:
  assumes "\<bar>c\<bar> \<le> max_cents"
  shows "toMinorUnits (Some (of_cents c)) = Some (Fin (of_int c))"
proof -
  obtain x where x: "of_cents c = Fin x" using of_cents_near [OF assms] by blast
  obtain y where "js_mul (of_cents c) (Fin 100) = Fin y" "\<bar>y - of_int c\<bar> < 1 / 2"
    by (rule cents_times_100 [OF assms x])
  then show ?thesis using floor_near x by simp
qed

lemma amountsMatch_cents:
  "\<bar>a\<bar> \<le> max_cents \<Longrightarrow> \<bar>b\<bar> \<le> max_cents \<Longrightarrow>
   amountsMatch (Some (of_cents a)) (Some (of_cents b)) \<longleftrightarrow> a = b"
  by (simp add: amountsMatch_def js_eq_def del: toMinorUnits.simps)

lemma of_cents_inj:
  "\<bar>a\<bar> \<le> max_cents \<Longrightarrow> \<bar>b\<bar> \<le> max_cents \<Longrightarrow> of_cents a = of_cents b \<longleftrightarrow> a = b"
  using toMinorUnits_cents [of a] toMinorUnits_cents [of b] by (metis number.inject of_int_eq_iff option.inject)

lemma roundToCent_near:
  assumes "js_mul v (Fin 100) = Fin y"
  shows "roundToCent v = of_cents \<lfloor>y + 1 / 2\<rfloor>"
  using assms by (simp add: roundToCent_def of_cents_def)

lemma roundToCent_cents:
  assumes "\<bar>c\<bar> \<le> max_cents"
  shows "roundToCent (of_cents c) = of_cents c"
proof -
  obtain x where x: "of_cents c = Fin x" using of_cents_near [OF assms] by blast
  obtain y where "js_mul (of_cents c) (Fin 100) = Fin y" "\<bar>y - of_int c\<bar> < 1 / 2"
    by (rule cents_times_100 [OF assms x])
  then show ?thesis using roundToCent_near floor_near by simp
qed

lemma of_cents_0 [simp]: "of_cents 0 = Fin 0"
  by (simp add: of_cents_def)

lemma store_numeric_cents:
  assumes "0 \<le> c" "c \<le> max_cents"
  shows "store_numeric (of_cents c) = Some c"
proof (cases "c = 0")
  case True
  then show ?thesis by (simp add: pg_cents_def)
next
  case False
  then have c: "1 \<le> c" "\<bar>c\<bar> \<le> max_cents" using assms by auto
  obtain x where x: "of_cents c = Fin x" "is_double x" "\<bar>x * 100 - of_int c\<bar> \<le> 1 / 32"
    by (rule of_cents_Fin [OF c(2)])
  have "0 < x" using of_cents_pos [OF c(1) assms(2) x(1)] .
  then have "pg_cents x = c" using x c assms by (intro pg_cents_near) auto
  then show ?thesis using assms x(1) by (simp add: Let_def)
qed

text \<open>
  Two amounts in cents and their difference in floating point: the column rounds the residue of the
  binary subtraction away.
\<close>

lemma js_sub_near:
  assumes "0 \<le> b" "b \<le> a" "a \<le> max_cents"
  obtains z where "js_sub (of_cents a) (of_cents b) = Fin z" "is_double z"
    "\<bar>z * 100 - of_int (a - b)\<bar> \<le> 1 / 8" "a = b \<longrightarrow> z = 0"
proof (cases "a = b")
  case True
  obtain x where "of_cents a = Fin x" using of_cents_near [of a] assms by auto
  then show ?thesis using True by (intro that [of 0]) (simp_all add: js_sub_def is_double_def)
next
  case False
  define c where "c = a - b"
  have c: "1 \<le> c" "c \<le> max_cents" using False assms by (auto simp: c_def)
  obtain x where x: "of_cents a = Fin x" "\<bar>x * 100 - of_int a\<bar> \<le> 1 / 32"
    using of_cents_Fin [of a] assms by auto
  obtain y where y: "of_cents b = Fin y" "\<bar>y * 100 - of_int b\<bar> \<le> 1 / 32"
    using of_cents_Fin [of b] assms by auto
  define w where "w = x - y"
  have near: "\<bar>w * 100 - of_int c\<bar> \<le> 1 / 16"
    using x(2) y(2) unfolding w_def c_def of_int_diff left_diff_distrib by linarith
  have c1: "1 \<le> rat_of_int c" "rat_of_int c \<le> 2 ^ 48"
    using c of_int_le_iff [of c max_cents, where 'a = rat] by simp_all
  have "1 / 1000 \<le> \<bar>w\<bar>" using near c1(1) by linarith
  moreover have "\<bar>w\<bar> \<le> 2 ^ 60" using near c1 by (simp; linarith)
  ultimately obtain z where z: "fl w = Fin z" "\<bar>z - w\<bar> \<le> \<bar>w\<bar> / 2 ^ 53" by (rule fl_moderate)
  have "\<bar>w\<bar> * 100 / 2 ^ 53 \<le> (2 ^ 48 + 1) / 2 ^ 53" using near c1
    by (intro divide_right_mono) (linarith, simp)
  then have "\<bar>w\<bar> / 2 ^ 53 * 100 \<le> 1 / 16" by simp
  then have "\<bar>z * 100 - of_int c\<bar> \<le> 1 / 8" using z(2) near by linarith
  then show ?thesis
    using that [of z] fl_is_double [OF z(1)] z(1) x(1) y(1) False by (simp add: js_sub_def c_def w_def)
qed

lemma js_sub_pos:
  assumes "0 \<le> b" "b < a" "a \<le> max_cents" "js_sub (of_cents a) (of_cents b) = Fin z"
  shows "0 < z"
proof -
  have "b \<le> a" using assms(2) by simp
  from js_sub_near [OF assms(1) this assms(3)] assms(4) have "\<bar>z * 100 - of_int (a - b)\<bar> \<le> 1 / 8" by auto
  moreover have "1 \<le> rat_of_int (a - b)" using assms(2) by simp
  ultimately show ?thesis by linarith
qed

lemma store_numeric_sub:
  assumes "0 \<le> b" "b \<le> a" "a \<le> max_cents"
  shows "store_numeric (js_sub (of_cents a) (of_cents b)) = Some (a - b)"
proof -
  obtain z where z: "js_sub (of_cents a) (of_cents b) = Fin z" "is_double z"
    "\<bar>z * 100 - of_int (a - b)\<bar> \<le> 1 / 8" "a = b \<longrightarrow> z = 0" by (rule js_sub_near [OF assms])
  have "pg_cents z = a - b"
  proof (cases "a = b")
    case False
    then have "0 < z" using js_sub_pos [OF assms(1) _ assms(3) z(1)] assms by simp
    then show ?thesis using z assms False by (intro pg_cents_near) auto
  qed (use z in \<open>simp add: pg_cents_def\<close>)
  then show ?thesis using z(1) assms by (simp add: Let_def)
qed

section \<open>What the validator admits\<close>

lemma pick_decimal_cents:
  assumes "1 \<le> c" "c \<le> max_cents" and x: "of_cents c = Fin x"
  shows "pick_decimal 2 x \<noteq> None"
proof (rule pick_decimal_hit)
  have "\<bar>c\<bar> \<le> max_cents" using assms by simp
  from cents_times_100 [OF this x] have n: "\<bar>x * 100 - of_int c\<bar> \<le> 1 / 32" by blast
  have "\<lfloor>x * 100\<rfloor> = c \<or> \<lceil>x * 100\<rceil> = c"
  proof (cases "of_int c \<le> x * 100")
    case True
    then have "\<lfloor>x * 100\<rfloor> = c" by (intro floor_unique) (use n in linarith)+
    then show ?thesis ..
  next
    case False
    then have "\<lceil>x * 100\<rceil> = c" by (intro ceiling_unique) (use n in linarith)+
    then show ?thesis ..
  qed
  then show "fl (of_int \<lfloor>x * 10 powi 2\<rfloor> / 10 powi 2) = Fin x \<or> fl (of_int \<lceil>x * 10 powi 2\<rceil> / 10 powi 2) = Fin x"
    using x by (auto simp: of_cents_def)
qed

lemma of_cents_least:
  assumes "1 \<le> c" "c \<le> max_cents"
  shows "\<not> js_lt (of_cents c) (of_cents 1)"
proof (cases "c = 1")
  case True
  obtain x where "of_cents 1 = Fin x" by (rule of_cents_Fin [of 1]) auto
  then show ?thesis using True by simp
next
  case False
  obtain y where y: "of_cents 1 = Fin y" "\<bar>y * 100 - 1\<bar> \<le> 1 / 32" by (rule of_cents_Fin [of 1]) auto
  obtain x where x: "of_cents c = Fin x" "\<bar>x * 100 - of_int c\<bar> \<le> 1 / 32"
    using of_cents_Fin [of c] assms by auto
  have "2 \<le> rat_of_int c" using False assms by simp
  then have "y \<le> x" using x(2) y(2) by linarith
  then show ?thesis using x(1) y(1) by simp
qed

lemma isMonetaryAmount_cents:
  assumes "1 \<le> c" "c \<le> max_cents"
  shows "isMonetaryAmount (Some (of_cents c)) 2 (of_cents 1)"
proof -
  obtain x where x: "of_cents c = Fin x" "\<bar>x * 100 - of_int c\<bar> \<le> 1 / 32"
    using of_cents_Fin [of c] assms by auto
  obtain d v where v: "shortest_decimal x = (d, v)" "pick_decimal d x = Some v" "d \<le> 2"
    using shortest_decimal_hit [OF pick_decimal_cents [OF assms x(1)]] by auto
  have c1: "1 \<le> rat_of_int c" "rat_of_int c \<le> 2 ^ 48"
    using assms of_int_le_iff [of c max_cents, where 'a = rat] by simp_all
  have "1 / 1000 \<le> \<bar>x\<bar>" using x(2) c1 by linarith
  from decimal_bound [OF pick_decimal_fl [OF v(2)] this]
  have "v \<le> 16 / 15 * \<bar>x\<bar>" by linarith
  moreover have "\<bar>x\<bar> \<le> 2 ^ 48" using x(2) c1 by linarith
  ultimately have "v < 10 ^ 21" by simp
  then have "printed_decimals x \<le> 2" using v by (simp add: printed_decimals_def)
  then show ?thesis using of_cents_least [OF assms] x(1) by (simp add: isMonetaryAmount_def)
qed

lemma scaled_cents:
  assumes "d \<le> 2" "0 \<le> s"
  obtains c where "of_int s / 10 powi d = (of_int c / 100 :: rat)" "0 \<le> c"
proof -
  obtain k where k: "2 - d = int k" using assms(1) nonneg_int_cases [of "2 - d"] by auto
  have "(10::rat) powi d * 10 ^ k = 10 powi 2"
  proof -
    have "d + int k = 2" using k by simp
    with power_int_add [of "10::rat" d "int k"] show ?thesis by simp
  qed
  then have "of_int s / (10::rat) powi d = of_int (s * 10 ^ k) / 100"
    by (simp add: field_simps)
  then show ?thesis using that assms(2) by (metis mult_nonneg_nonneg zero_le_numeral zero_le_power)
qed

lemma isMonetaryAmount_sound:
  assumes ok: "isMonetaryAmount (Some n) 2 (of_cents 1)" and "n = Fin x" "is_double x" "x \<le> 10 ^ 12"
  obtains c where "n = of_cents c" "1 \<le> c" "c \<le> max_cents"
proof -
  obtain y where y: "of_cents 1 = Fin y" "\<bar>y * 100 - 1\<bar> \<le> 1 / 32" by (rule of_cents_Fin [of 1]) auto
  have x: "y \<le> x" "printed_decimals x \<le> 2"
    using ok y(1) assms(2) by (simp_all add: isMonetaryAmount_def)
  then have big: "1 / 1000 \<le> \<bar>x\<bar>" "0 < x" using y(2) by linarith+
  obtain K where K: "int K = 1074" by (metis nonneg_int_cases zero_le_numeral)
  have "0 \<le> int K" "int K \<le> 1074" using K by simp_all
  from shortest_decimal_hit [OF pick_decimal_exact [OF assms(3) K] this]
  obtain d v where v: "shortest_decimal x = (d, v)" "pick_decimal d x = Some v" .
  have fl: "fl v = Fin x" by (rule pick_decimal_fl [OF v(2)])
  from decimal_bound [OF fl big(1)] have vb: "v \<le> 16 / 15 * x" using big(2) by linarith
  then have "v < 10 ^ 21" using assms(4) by simp
  then have "d \<le> 2" using x(2) v(1) by (simp add: printed_decimals_def)
  moreover obtain s where "v = of_int s / 10 powi d" "0 \<le> s"
    using pick_decimal_scaled [OF v(2)] big(2) by auto
  ultimately obtain c where c: "v = of_int c / 100" "0 \<le> c" using scaled_cents by metis
  have "c \<noteq> 0" using fl c big(2) by auto
  moreover have "rat_of_int c \<le> 16 / 15 * 10 ^ 14" using vb c(1) assms(4) by simp
  then have "rat_of_int c \<le> of_int max_cents" by simp
  then have "c \<le> max_cents" by (simp only: of_int_le_iff)
  ultimately show ?thesis using that [of c] fl c assms(2) by (simp add: of_cents_def)
qed

section \<open>The commission\<close>

text \<open>\<^verbatim>\<open>roundToCent(webhook.amount * this.config.feeRate)\<close> for a rate below one.\<close>

lemma fl_of_bounded:
  assumes "\<bar>x\<bar> \<le> 2 ^ 60"
  shows "fl x = Fin (fl_rat x)"
proof (rule fl_bounded)
  have "\<bar>fl_rat x - x\<bar> \<le> \<bar>x\<bar> / 2 ^ 53 + 1 / 2 ^ 20" by (rule fl_rat_general_error)
  then have "\<bar>fl_rat x\<bar> < 2 ^ 62" using assms by (simp; linarith)
  also have "\<dots> < (2::rat) ^ 1024" by (intro power_strict_increasing) auto
  finally show "\<bar>fl_rat x\<bar> < 2 ^ 1024" .
qed

lemma fee_in_cents:
  assumes "0 \<le> a" "a \<le> max_cents" and "0 \<le> r" "r \<le> 1"
  obtains f where "roundToCent (js_mul (of_cents a) (Fin r)) = of_cents f" "0 \<le> f" "f \<le> a"
proof -
  obtain x where x: "of_cents a = Fin x" "\<bar>x * 100 - of_int a\<bar> \<le> 1 / 32"
    using of_cents_Fin [of a] assms by auto
  have a: "0 \<le> rat_of_int a" "rat_of_int a \<le> 2 ^ 48"
    using assms of_int_le_iff [of a max_cents, where 'a = rat] by simp_all
  have x0: "0 \<le> x"
  proof (cases "a = 0")
    case False
    then have "1 \<le> rat_of_int a" using assms by simp
    then show ?thesis using x(2) by linarith
  qed (use x in simp)
  define p where "p = fl_rat (x * r)"
  define y where "y = fl_rat (p * 100)"
  have xr: "0 \<le> x * r" "x * r \<le> x" using x0 assms by (simp_all add: mult_left_le)
  have x100: "x * 100 \<le> of_int a + 1 / 32" using x(2) by linarith
  then have xb: "x \<le> 2 ^ 42" using a by simp
  have pe: "\<bar>p - x * r\<bar> \<le> \<bar>x * r\<bar> / 2 ^ 53 + 1 / 2 ^ 20" unfolding p_def by (rule fl_rat_general_error)
  have p0: "0 \<le> p" unfolding p_def by (rule fl_rat_nonneg [OF xr(1)])
  have "\<bar>x * r\<bar> / 2 ^ 53 \<le> 2 ^ 42 / 2 ^ 53" using xr xb by (intro divide_right_mono) auto
  also have "\<dots> \<le> (1 / 2000 :: rat)" by simp
  finally have "\<bar>x * r\<bar> / 2 ^ 53 \<le> 1 / 2000" .
  moreover have "(1::rat) / 2 ^ 20 \<le> 1 / 2000" by simp
  ultimately have pb: "p \<le> x + 1 / 1000" using pe xr by linarith
  have ye: "\<bar>y - p * 100\<bar> \<le> \<bar>p * 100\<bar> / 2 ^ 53 + 1 / 2 ^ 20" unfolding y_def by (rule fl_rat_general_error)
  have y0: "0 \<le> y" unfolding y_def using p0 by (intro fl_rat_nonneg) simp
  have p100: "p * 100 \<le> of_int a + 1 / 32 + 1 / 10" using pb x100 by simp
  then have "\<bar>p * 100\<bar> / 2 ^ 53 \<le> (2 ^ 48 + 1) / 2 ^ 53" using p0 a by (intro divide_right_mono) auto
  then have yb: "y < of_int a + 1 / 2" using ye p100 by simp
  have "fl (x * r) = Fin p" unfolding p_def using xr xb by (intro fl_of_bounded) simp
  moreover have "fl (p * 100) = Fin y" unfolding y_def using p100 p0 a by (intro fl_of_bounded) simp
  ultimately have "js_mul (js_mul (of_cents a) (Fin r)) (Fin 100) = Fin y" using x(1) by simp
  then have "roundToCent (js_mul (of_cents a) (Fin r)) = of_cents \<lfloor>y + 1 / 2\<rfloor>" by (rule roundToCent_near)
  moreover have "0 \<le> \<lfloor>y + 1 / 2\<rfloor>" using y0 by simp
  moreover have "\<lfloor>y + 1 / 2\<rfloor> \<le> a" using yb by (simp add: floor_le_iff)
  ultimately show ?thesis by (rule that)
qed

lemma toFixed2_cents:
  assumes "0 \<le> c" "c \<le> max_cents"
  shows "toFixed2 (of_cents c) = fixed2_digits (nat c)"
proof -
  obtain x where x: "of_cents c = Fin x" "\<bar>x * 100 - of_int c\<bar> \<le> 1 / 32"
    using of_cents_Fin [of c] assms by auto
  have "\<lfloor>x * 100 + 1 / 2\<rfloor> = c" using x(2) by (intro floor_near) linarith
  moreover have "\<not> x < 0"
  proof (cases "c = 0")
    case False
    then have "1 \<le> rat_of_int c" using assms by simp
    then show ?thesis using x(2) by linarith
  qed (use x in simp)
  ultimately show ?thesis using x(1) by simp
qed

section \<open>Sums\<close>

text \<open>A number within three eighths of a cent of \<open>c\<close> cents rounds to \<open>c\<close> cents.\<close>

lemma roundToCent_close:
  assumes "0 \<le> c" "c \<le> max_cents" and near: "\<bar>s * 100 - of_int c\<bar> \<le> 3 / 8"
  shows "roundToCent (Fin s) = of_cents c"
proof -
  define u where "u = s * 100"
  have c: "0 \<le> rat_of_int c" "rat_of_int c \<le> 2 ^ 48"
    using assms of_int_le_iff [of c max_cents, where 'a = rat] by simp_all
  have u: "\<bar>u - of_int c\<bar> \<le> 3 / 8" using near by (simp add: u_def)
  then have ub: "\<bar>u\<bar> \<le> 2 ^ 48 + 1" using c by linarith
  then have "fl u = Fin (fl_rat u)" by (intro fl_of_bounded) (simp; linarith)
  then have mul: "js_mul (Fin s) (Fin 100) = Fin (fl_rat u)" by (simp add: u_def)
  have e: "\<bar>fl_rat u - u\<bar> \<le> \<bar>u\<bar> / 2 ^ 53 + 1 / 2 ^ 20" by (rule fl_rat_general_error)
  have "\<bar>u\<bar> / 2 ^ 53 \<le> (2 ^ 48 + 1) / 2 ^ 53" using ub by (intro divide_right_mono) auto
  also have "\<dots> \<le> (1 / 16 :: rat)" by simp
  finally have "\<bar>u\<bar> / 2 ^ 53 \<le> 1 / 16" .
  moreover have "(1::rat) / 2 ^ 20 \<le> 1 / 32" by simp
  ultimately have "\<bar>fl_rat u - of_int c\<bar> < 1 / 2" using e u by linarith
  then show ?thesis using roundToCent_near [OF mul] floor_near by simp
qed

lemma add_cents_close:
  assumes "0 \<le> a" "0 \<le> b" "a + b \<le> max_cents" and near: "\<bar>s * 100 - of_int a\<bar> \<le> e" "e \<le> 1 / 2"
  obtains t where "js_add (Fin s) (of_cents b) = Fin t" "\<bar>t * 100 - of_int (a + b)\<bar> \<le> e + 1 / 15"
proof -
  have "\<bar>b\<bar> \<le> max_cents" using assms by simp
  then obtain y where y: "of_cents b = Fin y" "\<bar>y * 100 - of_int b\<bar> \<le> 1 / 32" by (rule of_cents_Fin) auto
  define w where "w = s + y"
  have ab: "0 \<le> rat_of_int (a + b)" "rat_of_int (a + b) \<le> 2 ^ 48"
    using assms of_int_le_iff [of "a + b" max_cents, where 'a = rat] by simp_all
  have w: "\<bar>w * 100 - of_int (a + b)\<bar> \<le> e + 1 / 32"
    using near(1) y(2) unfolding w_def of_int_add distrib_right by linarith
  then have wb: "\<bar>w\<bar> * 100 \<le> 2 ^ 48 + 1" using ab near(2) by linarith
  have "fl w = Fin (fl_rat w)" using wb by (intro fl_of_bounded) (simp; linarith)
  then have add: "js_add (Fin s) (of_cents b) = Fin (fl_rat w)" using y(1) by (simp add: w_def)
  have err: "\<bar>fl_rat w - w\<bar> \<le> \<bar>w\<bar> / 2 ^ 53 + 1 / 2 ^ 20" by (rule fl_rat_general_error)
  have "\<bar>w\<bar> * 100 / 2 ^ 53 \<le> (2 ^ 48 + 1) / 2 ^ 53" using wb by (intro divide_right_mono) auto
  also have "\<dots> \<le> (1 / 31 :: rat)" by simp
  finally have q: "\<bar>w\<bar> * 100 / 2 ^ 53 \<le> 1 / 31" .
  define v where "v = \<bar>fl_rat w - w\<bar>"
  have "v * 100 \<le> (\<bar>w\<bar> / 2 ^ 53 + 1 / 2 ^ 20) * 100" using err by (intro mult_right_mono) (simp_all add: v_def)
  then have "v * 100 \<le> \<bar>w\<bar> * 100 / 2 ^ 53 + 100 / 2 ^ 20" by (simp add: distrib_right)
  moreover have "(100::rat) / 2 ^ 20 \<le> 1 / 2000" by simp
  ultimately have v: "v * 100 \<le> 1 / 31 + 1 / 2000" using q by linarith
  have "\<bar>fl_rat w * 100 - w * 100\<bar> = v * 100" by (metis v_def left_diff_distrib abs_mult abs_numeral)
  then have "\<bar>fl_rat w * 100 - of_int (a + b)\<bar> \<le> e + 1 / 32 + (1 / 31 + 1 / 2000)" using v w by linarith
  then have "\<bar>fl_rat w * 100 - of_int (a + b)\<bar> \<le> e + 1 / 15" by simp
  then show ?thesis using that add by blast
qed

section \<open>Properties\<close>

text \<open>
  C4. The validator of the API admits exactly whole numbers of cents: a double up to a million million
  that passes is the double of some number of cents, at least one, and every such double passes.
\<close>

theorem validator_admits_cents:
  assumes "is_double x" "x \<le> 10 ^ 12"
  shows "isMonetaryAmount (Some (Fin x)) 2 (of_cents 1) \<longleftrightarrow>
         (\<exists>c. 1 \<le> c \<and> c \<le> max_cents \<and> Fin x = of_cents c)"
proof
  assume ok: "isMonetaryAmount (Some (Fin x)) 2 (of_cents 1)"
  obtain c where "Fin x = of_cents c" "1 \<le> c" "c \<le> max_cents"
    by (rule isMonetaryAmount_sound [OF ok refl assms])
  then show "\<exists>c. 1 \<le> c \<and> c \<le> max_cents \<and> Fin x = of_cents c" by blast
qed (use isMonetaryAmount_cents in force)

theorem validator_admits_cents_witness:
  "is_double 5 \<and> isMonetaryAmount (Some (Fin 5)) 2 (of_cents 1)"
proof -
  have five: "fl 5 = Fin 5" using fl_of_int [of 5] by simp
  then have d: "is_double 5" by (simp add: is_double_def)
  have "Fin 5 = of_cents 500" by (simp add: of_cents_def five)
  then have "\<exists>c. 1 \<le> c \<and> c \<le> max_cents \<and> Fin 5 = of_cents c" by (intro exI [of _ 500]) simp
  then show ?thesis using validator_admits_cents [OF d] d by simp
qed

text \<open>
  C5. Money is exact where the program compares, stores and prints it: on amounts of whole cents up to
  two to the 48 the comparison decides equality of cents, the column \<^verbatim>\<open>numeric(18,2)\<close> stores exactly
  those cents, the printed text shows them, and the difference of two amounts, computed in binary
  floating point, is stored as the exact difference in cents.
\<close>

theorem cents_exact:
  assumes "0 \<le> a" "a \<le> max_cents" "0 \<le> b" "b \<le> max_cents"
  shows "(amountsMatch (Some (of_cents a)) (Some (of_cents b)) \<longleftrightarrow> a = b) \<and>
    store_numeric (of_cents a) = Some a \<and>
    toFixed2 (of_cents a) = fixed2_digits (nat a) \<and>
    (b \<le> a \<longrightarrow> store_numeric (js_sub (of_cents a) (of_cents b)) = Some (a - b))"
  using amountsMatch_cents [of a b] store_numeric_cents [of a] toFixed2_cents [of a]
    store_numeric_sub [of b a] assms
  by simp

theorem cents_exact_witness:
  "store_numeric (js_sub (of_cents 30) (of_cents 10)) = Some 20 \<and>
   \<not> amountsMatch (Some (of_cents 125075)) (Some (of_cents 125076))"
  using cents_exact [of 30 10] cents_exact [of 125075 125076] by simp

text \<open>
  The commission frozen at the confirmation is a whole number of cents between nothing and the
  amount collected, for every rate between zero and one, so what is left for the creditor is never
  negative.
\<close>

theorem commission_within_amount:
  assumes "0 \<le> a" "a \<le> max_cents" "0 \<le> r" "r \<le> 1"
  shows "\<exists>f. roundToCent (js_mul (of_cents a) (Fin r)) = of_cents f \<and> 0 \<le> f \<and> f \<le> a"
  using fee_in_cents [OF assms] by blast

theorem commission_within_amount_witness:
  "\<exists>f. roundToCent (js_mul (of_cents 125075) (Fin (15 / 1000))) = of_cents f \<and> 0 \<le> f \<and> f \<le> 125075"
  using commission_within_amount [of 125075 "15 / 1000"] by simp

end
