(* ===== verification/Entities.thy ===== *)
theory Entities
  imports State_Machine Money
begin

text \<open>
  The rows of the database, one record per TypeORM entity, field by field; a nullable column is an
  option. Party names and account numbers are the texts the application sees: the columns encrypt
  and decrypt them. Dates are milliseconds since the epoch. Amounts of transactions, events and
  refunds are kept as the numbers the program wrote: on whole cents, the only amounts the validators
  admit, a \<^verbatim>\<open>numeric(18,2)\<close> column returns the number it was given (theory Money).
\<close>

type_synonym date = int

datatype BankInstructionStatus =
    Instr_PENDING | Instr_IN_FLIGHT | Instr_COMPLETED | Instr_DEAD_LETTER

record Transaction =
  tx_id :: string
  tx_encryptionVersion :: int
  tx_reference :: string
  tx_idempotencyKey :: "string option"
  tx_status :: TransactionStatus
  tx_paymentChannel :: PaymentChannel
  tx_debtorIban :: string
  tx_debtorName :: "string option"
  tx_creditorIban :: string
  tx_creditorName :: string
  tx_amount :: number
  tx_currency :: string
  tx_endToEndLabel :: "string option"
  tx_amountInWords :: "string option"
  tx_soapOperation :: "string option"
  tx_soapDurationMs :: "int option"
  tx_soapAttempts :: "int option"
  tx_faultCode :: "string option"
  tx_faultString :: "string option"
  tx_failureReason :: "string option"
  tx_correlationId :: string
  tx_processedAt :: "date option"
  tx_mobileMoneyOperator :: "MobileMoneyOperator option"
  tx_payerMsisdn :: "string option"
  tx_aggregatorReference :: "string option"
  tx_providerStatus :: "ProviderStatus option"
  tx_bankStatus :: "BankProcessingStatus option"
  tx_reconciliationStatus :: "ReconciliationStatus option"
  tx_aggregatorAmount :: "number option"
  tx_aggregatorCurrency :: "string option"
  tx_feeAmount :: number
  tx_mobileMoneyConfirmedAt :: "date option"
  tx_reconciledAt :: "date option"
  tx_reconciliationReason :: "string option"
  tx_refundStatus :: RefundStatus
  tx_caseStatus :: CaseStatus
  tx_caseReason :: "string option"
  tx_createdAt :: date
  tx_updatedAt :: date
  tx_fingerprint :: "string option"
  tx_anchorStatus :: AnchorStatus
  tx_batchId :: "string option"
  tx_leafIndex :: "nat option"
  tx_version :: nat

record TransactionEvent =
  ev_id :: string
  ev_encryptionVersion :: int
  ev_eventType :: TransactionEventType
  ev_sequence :: nat
  ev_transactionReference :: string
  ev_providerReference :: "string option"
  ev_bankReference :: "string option"
  ev_providerStatus :: "ProviderStatus option"
  ev_bankStatus :: "BankProcessingStatus option"
  ev_reconciliationStatus :: "ReconciliationStatus option"
  ev_refundStatus :: "RefundStatus option"
  ev_caseStatus :: "CaseStatus option"
  ev_expectedAmount :: number
  ev_observedAmount :: "number option"
  ev_currency :: string
  ev_observedCurrency :: "string option"
  ev_occurredAt :: date
  ev_correlationId :: string
  ev_detail :: "string option"
  ev_actorId :: "string option"
  ev_actorRole :: "EventActorRole option"
  ev_actionOrigin :: "EventActionOrigin option"
  ev_previousFingerprint :: "string option"
  ev_closureEventCount :: "nat option"
  ev_closureChainHead :: "string option"
  ev_debtorIban :: "string option"
  ev_debtorName :: "string option"
  ev_creditorIban :: "string option"
  ev_creditorName :: "string option"
  ev_endToEndLabel :: "string option"
  ev_fingerprint :: string
  ev_fingerprintSalt :: string
  ev_recordFormatVersion :: string
  ev_anchorStatus :: AnchorStatus
  ev_batchId :: "string option"
  ev_leafIndex :: "nat option"
  ev_merkleProof :: "string list option"
  ev_createdAt :: date

text \<open>A journal line row holds its amount as the column does, in hundredths.\<close>

record JournalLine =
  jl_account :: LedgerAccount
  jl_direction :: EntryDirection
  jl_amount :: int

record JournalEntry =
  je_id :: string
  je_transactionReference :: string
  je_eventId :: string
  je_eventType :: TransactionEventType
  je_narration :: string
  je_currency :: string
  je_lines :: "JournalLine list"
  je_correlationId :: string
  je_occurredAt :: date
  je_createdAt :: date

record Refund =
  rf_id :: string
  rf_transactionReference :: string
  rf_status :: RefundStatus
  rf_amount :: number
  rf_currency :: string
  rf_reason :: "string option"
  rf_providerIdempotencyKey :: string
  rf_providerRefundReference :: "string option"
  rf_attempts :: nat
  rf_lastError :: "string option"
  rf_retryable :: bool
  rf_requestedAt :: "date option"
  rf_completedAt :: "date option"
  rf_createdBy :: "string option"
  rf_lastRequestedBy :: "string option"
  rf_lastApprovedBy :: "string option"
  rf_correlationId :: string
  rf_createdAt :: date
  rf_updatedAt :: date

record BankInstruction =
  bi_id :: string
  bi_transactionReference :: string
  bi_status :: BankInstructionStatus
  bi_attempts :: nat
  bi_nextAttemptAt :: date
  bi_lastError :: "string option"
  bi_retryable :: bool
  bi_correlationId :: string
  bi_createdAt :: date
  bi_updatedAt :: date

record AnchorBatch =
  ab_id :: string
  ab_status :: BatchStatus
  ab_merkleRoot :: string
  ab_leafCount :: nat
  ab_chainId :: "string option"
  ab_contractAddress :: "string option"
  ab_txHash :: "string option"
  ab_blockNumber :: "string option"
  ab_gasUsed :: "string option"
  ab_anchoredAt :: "date option"
  ab_attempts :: nat
  ab_lastError :: "string option"
  ab_createdAt :: date
  ab_updatedAt :: date

text \<open>The reduction of a row to its status dimensions.\<close>

definition stateOf :: "Transaction \<Rightarrow> TransactionState" where
  "stateOf transaction =
     \<lparr>st_status = tx_status transaction,
      st_providerStatus = tx_providerStatus transaction,
      st_bankStatus = tx_bankStatus transaction,
      st_reconciliationStatus = tx_reconciliationStatus transaction,
      st_refundStatus = Some (tx_refundStatus transaction),
      st_caseStatus = Some (tx_caseStatus transaction),
      st_paymentChannel = tx_paymentChannel transaction\<rparr>"

section \<open>Dates\<close>

text \<open>
  The civil date of a day count, in the proleptic Gregorian calendar of ECMAScript, counted from the
  first of March so that the leap day comes last.
\<close>

definition civil_of_days :: "int \<Rightarrow> int \<times> int \<times> int" where
  "civil_of_days days =
     (let z = days + 719468; era = z div 146097; doe = z mod 146097;
          yoe = (doe - doe div 1460 + doe div 36524 - doe div 146096) div 365;
          doy = doe - (365 * yoe + yoe div 4 - yoe div 100);
          mp = (5 * doy + 2) div 153;
          d = doy - (153 * mp + 2) div 5 + 1;
          m = (if mp < 10 then mp + 3 else mp - 9)
      in (yoe + era * 400 + (if m \<le> 2 then 1 else 0), m, d))"

definition dec_pad :: "nat \<Rightarrow> int \<Rightarrow> string" where
  "dec_pad n i = padStart n (CHR ''0'') (nat_dec (nat i))"

text \<open>\<^verbatim>\<open>Date.prototype.toISOString\<close>.\<close>

definition toISOString :: "date \<Rightarrow> string" where
  "toISOString t =
     (case civil_of_days (t div 86400000) of (y, m, d) \<Rightarrow>
        let ms = t mod 86400000;
            year = (if 0 \<le> y \<and> y \<le> 9999 then dec_pad 4 y
                    else if y < 0 then ''-'' @ dec_pad 6 (- y) else ''+'' @ dec_pad 6 y)
        in year @ ''-'' @ dec_pad 2 m @ ''-'' @ dec_pad 2 d @ ''T''
           @ dec_pad 2 (ms div 3600000) @ '':'' @ dec_pad 2 (ms div 60000 mod 60) @ '':''
           @ dec_pad 2 (ms div 1000 mod 60) @ ''.'' @ dec_pad 3 (ms mod 1000) @ ''Z'')"

end
