(* ===== verification/Merkle.thy ===== *)
theory Merkle
  imports Js_Number "HOL-Library.Word"
begin

text \<open>
  Fingerprints and Merkle trees (\<^verbatim>\<open>blockchain/fingerprint.util.ts\<close>, \<^verbatim>\<open>blockchain/merkle.util.ts\<close>).

  The hash and the byte helpers come from the package \<^verbatim>\<open>ethers\<close>: they are the fields of a record of
  functions that every definition receives. \<open>ethers_ok\<close> states what the package documents of them;
  nothing is assumed about the digest beyond its format. Collision resistance is never assumed as
  such (a hash has collisions): the statements speak of the inputs that were actually hashed.
\<close>

unbundle bit_operations_syntax

section \<open>The interface of ethers\<close>

text \<open>A \<^verbatim>\<open>BytesLike\<close>: a hexadecimal text, or the bytes \<^verbatim>\<open>toUtf8Bytes\<close> makes of a string.\<close>

datatype bytes_like = Hex string | Utf8 string

record ethers =
  keccak256 :: "bytes_like \<Rightarrow> string"
  ethers_concat :: "bytes_like list \<Rightarrow> string"
  zeroPadValue :: "string \<Rightarrow> nat \<Rightarrow> string"

text \<open>The pattern \<^verbatim>\<open>^0x[0-9a-fA-F]{64}$\<close>.\<close>

definition is_bytes32 :: "string \<Rightarrow> bool" where
  "is_bytes32 s \<longleftrightarrow> length s = 66 \<and> take 2 s = ''0x'' \<and> list_all is_hex_digit (drop 2 s)"

definition hex_digit :: "nat \<Rightarrow> char" where
  "hex_digit n = (if n < 10 then char_of (48 + n) else char_of (87 + n))"

definition hex_byte :: "char \<Rightarrow> string" where
  "hex_byte c = [hex_digit (of_char c div 16), hex_digit (of_char c mod 16)]"

definition hex_bytes :: "string \<Rightarrow> string" where
  "hex_bytes s = concat (map hex_byte s)"

text \<open>Digits of a hexadecimal text, in lower case and without the prefix.\<close>

definition digits :: "string \<Rightarrow> string" where
  "digits s = toLowerCase (drop 2 s)"

definition ethers_ok :: "ethers \<Rightarrow> bool" where
  "ethers_ok X \<longleftrightarrow>
     (\<forall>v. is_bytes32 (keccak256 X v) \<and> toLowerCase (keccak256 X v) = keccak256 X v) \<and>
     (\<forall>s. is_bytes32 s \<longrightarrow> keccak256 X (Hex s) = keccak256 X (Hex (toLowerCase s))) \<and>
     (\<forall>a b. is_bytes32 a \<longrightarrow> is_bytes32 b \<longrightarrow>
        ethers_concat X [Hex a, Hex b] = ''0x'' @ digits a @ digits b) \<and>
     (\<forall>a s. is_bytes32 a \<longrightarrow> ethers_concat X [Hex a, Utf8 s] = ''0x'' @ digits a @ hex_bytes s)"

section \<open>Fingerprints\<close>

datatype hash_error =
    BadSalt | BadFingerprint | BadBatchId string
  | EmptyTree | NotBytes32 string | IndexOutOfRange number nat

definition computeFingerprint :: "ethers \<Rightarrow> string \<Rightarrow> string \<Rightarrow> hash_error + string" where
  "computeFingerprint X salt canonicalXml =
     (if \<not> is_bytes32 salt then Inl BadSalt
      else Inr (keccak256 X (Hex (ethers_concat X [Hex salt, Utf8 canonicalXml]))))"

definition toLeaf :: "ethers \<Rightarrow> string \<Rightarrow> hash_error + string" where
  "toLeaf X fingerprint =
     (if \<not> is_bytes32 fingerprint then Inl BadFingerprint else Inr (keccak256 X (Hex fingerprint)))"

definition uuidToBytes32 :: "ethers \<Rightarrow> string \<Rightarrow> hash_error + string" where
  "uuidToBytes32 X uuid =
     (let hex = replace_char (CHR ''-'') [] uuid in
      if \<not> (length hex = 32 \<and> list_all is_hex_digit hex) then Inl (BadBatchId uuid)
      else Inr (zeroPadValue X (''0x'' @ hex) 32))"

section \<open>Trees\<close>

record MerkleTree =
  mt_root :: string
  mt_leaves :: "string list"
  mt_layers :: "string list list"

definition hashPair :: "ethers \<Rightarrow> string \<Rightarrow> string \<Rightarrow> string" where
  "hashPair X a b =
     (let (left, right) = (if toLowerCase a \<le> toLowerCase b then (a, b) else (b, a)) in
      keccak256 X (Hex (ethers_concat X [Hex left, Hex right])))"

text \<open>One turn of the loop of \<^verbatim>\<open>buildMerkleTree\<close>: an orphan at the end of a level goes up unchanged.\<close>

fun next_layer :: "('a \<Rightarrow> 'a \<Rightarrow> 'a) \<Rightarrow> 'a list \<Rightarrow> 'a list" where
  "next_layer pair (a # b # rest) = pair a b # next_layer pair rest"
| "next_layer pair rest = rest"

lemma length_next_layer: "length (next_layer pair xs) = (length xs + 1) div 2"
  by (induction pair xs rule: next_layer.induct) auto

function build_layers :: "('a \<Rightarrow> 'a \<Rightarrow> 'a) \<Rightarrow> 'a list \<Rightarrow> 'a list list" where
  "build_layers pair current =
     (if length current \<le> 1 then [current]
      else current # build_layers pair (next_layer pair current))"
  by pat_completeness auto
termination
  by (relation "measure (\<lambda>(pair, current). length current)") (auto simp: length_next_layer)

declare build_layers.simps [simp del]

definition buildMerkleTree :: "ethers \<Rightarrow> string list \<Rightarrow> hash_error + MerkleTree" where
  "buildMerkleTree X leaves =
     (if leaves = [] then Inl EmptyTree
      else case filter (\<lambda>l. \<not> is_bytes32 l) leaves of
        bad # _ \<Rightarrow> Inl (NotBytes32 bad)
      | [] \<Rightarrow> let layers = build_layers (hashPair X) leaves in
          Inr \<lparr>mt_root = hd (last layers), mt_leaves = leaves, mt_layers = layers\<rparr>)"

text \<open>
  The operator \<^verbatim>\<open>^\<close> of JavaScript works on the 32-bit integer of its operand: from two to the 31 on
  the result is negative or names another node.
\<close>

definition sibling_index :: "nat \<Rightarrow> int" where
  "sibling_index index = sint ((of_nat index :: 32 word) XOR 1)"

text \<open>
  The loop of \<^verbatim>\<open>getProof\<close> over all levels but the last. A negative index passes the test of the
  source and reads \<^verbatim>\<open>undefined\<close>, the first argument.
\<close>

fun proof_path :: "'a \<Rightarrow> 'a list list \<Rightarrow> nat \<Rightarrow> 'a list" where
  "proof_path undef (layer # upper # rest) index =
     (let siblingIndex = sibling_index index in
      (if siblingIndex < int (length layer)
       then [if siblingIndex < 0 then undef else layer ! nat siblingIndex] else [])
      @ proof_path undef (upper # rest) (index div 2))"
| "proof_path undef _ index = []"

fun isInteger :: "number \<Rightarrow> bool" where
  "isInteger (Fin x) \<longleftrightarrow> of_int \<lfloor>x\<rfloor> = x"
| "isInteger _ \<longleftrightarrow> False"

text \<open>
  An \<^verbatim>\<open>undefined\<close> in the path is the text the checks of \<^verbatim>\<open>processProof\<close> read of it.
\<close>

fun getProof :: "MerkleTree \<Rightarrow> number \<Rightarrow> hash_error + string list" where
  "getProof tree (Fin leafIndex) =
     (if \<not> isInteger (Fin leafIndex) \<or> leafIndex < 0 \<or> of_nat (length (mt_leaves tree)) \<le> leafIndex
      then Inl (IndexOutOfRange (Fin leafIndex) (length (mt_leaves tree)))
      else Inr (proof_path ''undefined'' (mt_layers tree) (nat \<lfloor>leafIndex\<rfloor>)))"
| "getProof tree leafIndex = Inl (IndexOutOfRange leafIndex (length (mt_leaves tree)))"

fun process_from :: "ethers \<Rightarrow> string \<Rightarrow> string list \<Rightarrow> hash_error + string" where
  "process_from X computed [] = Inr computed"
| "process_from X computed (sibling # rest) =
     (if \<not> is_bytes32 sibling then Inl (NotBytes32 sibling)
      else process_from X (hashPair X computed sibling) rest)"

definition processProof :: "ethers \<Rightarrow> string \<Rightarrow> string list \<Rightarrow> hash_error + string" where
  "processProof X leaf proof_list =
     (if \<not> is_bytes32 leaf then Inl (NotBytes32 leaf) else process_from X leaf proof_list)"

definition verifyProof :: "ethers \<Rightarrow> string \<Rightarrow> string list \<Rightarrow> string \<Rightarrow> bool" where
  "verifyProof X leaf proof_list expectedRoot =
     (case processProof X leaf proof_list of
        Inl _ \<Rightarrow> False
      | Inr computed \<Rightarrow> toLowerCase computed = toLowerCase expectedRoot)"

section \<open>Pairing nodes\<close>

lemma xor_one_nat: "i XOR Suc 0 = (if even i then Suc i else i - 1)"
  using xor_one_eq [of i] by (simp split: if_splits)

text \<open>Up to two to the 31 the 32-bit operator is the exact one.\<close>

lemma sibling_index_exact:
  assumes "i < 2 ^ 31"
  shows "sibling_index i = int (i XOR 1)"
proof -
  have small: "int (i XOR 1) < 2 ^ 31"
    using assms by (auto simp: xor_one_nat elim!: evenE)
  have word: "(of_nat i :: 32 word) XOR 1 = of_nat (i XOR 1)"
    by (metis of_nat_1 of_nat_xor_eq)
  have "signed_take_bit 31 (int (i XOR 1)) = int (i XOR 1)"
    by (rule signed_take_bit_int_eq_self) (use small in simp_all)
  then show ?thesis unfolding sibling_index_def word by (simp only: signed_of_nat) simp
qed

lemma build_layers_Cons: "\<exists>us. build_layers pair xs = xs # us"
  by (subst build_layers.simps) simp

text \<open>
  What a tree needs of its pairing function: on the values that occur as nodes the order of the two
  children does not matter, so the sibling path alone leads back to the root.
\<close>

locale node_pairing =
  fixes pair :: "'a \<Rightarrow> 'a \<Rightarrow> 'a" and node :: "'a \<Rightarrow> bool"
  assumes pair_commute: "node a \<Longrightarrow> node b \<Longrightarrow> pair a b = pair b a"
begin

lemma next_layer_nth:
  assumes "i < length xs" "list_all node xs"
  shows "next_layer pair xs ! (i div 2) =
           (if i XOR 1 < length xs then pair (xs ! i) (xs ! (i XOR 1)) else xs ! i)"
  using assms
proof (induction xs arbitrary: i rule: induct_list012)
  case (3 a b rest)
  show ?case
  proof (cases "i < 2")
    case True
    then have "i = 0 \<or> i = 1" by auto
    then show ?thesis using 3(4) pair_commute [of a b] by (auto simp: xor_one_nat)
  next
    case False
    then obtain j where j: "i = Suc (Suc j)" by (metis One_nat_def Suc_1 add_2_eq_Suc le_Suc_ex not_less)
    have x: "Suc (Suc j) XOR Suc 0 = Suc (Suc (j XOR Suc 0))" by (auto simp: xor_one_nat elim: oddE)
    show ?thesis using 3(1) [of j] 3(3,4) by (simp add: j x)
  qed
qed (auto simp: xor_one_nat)

lemma path_leads_to_root:
  assumes "i < length xs" "length xs \<le> 2 ^ 31" "\<forall>layer\<in>set (build_layers pair xs). list_all node layer"
  shows "foldl pair (xs ! i) (proof_path undef (build_layers pair xs) i) = hd (last (build_layers pair xs))"
  using assms
proof (induction "length xs" arbitrary: xs i rule: less_induct)
  case less
  show ?case
  proof (cases "length xs \<le> 1")
    case True
    then show ?thesis using less.prems(1) by (cases xs) (simp_all add: build_layers.simps)
  next
    case False
    let ?up = "next_layer pair xs"
    have b: "build_layers pair xs = xs # build_layers pair ?up" using False by (simp add: build_layers.simps)
    obtain u us where u: "build_layers pair ?up = u # us" by (metis build_layers_Cons)
    have len: "length ?up < length xs" "i div 2 < length ?up" "length ?up \<le> 2 ^ 31"
      using False less.prems(1,2) by (auto simp: length_next_layer)
    have sibling: "sibling_index i = int (i XOR 1)"
      by (rule sibling_index_exact) (use less.prems(1,2) in simp)
    have nodes: "list_all node xs" "\<forall>layer\<in>set (build_layers pair ?up). list_all node layer"
      using less.prems(3) by (auto simp: b)
    have "proof_path undef (build_layers pair xs) i =
            (if i XOR 1 < length xs then [xs ! (i XOR 1)] else [])
            @ proof_path undef (build_layers pair ?up) (i div 2)"
      by (simp add: b u sibling)
    then have "foldl pair (xs ! i) (proof_path undef (build_layers pair xs) i)
                 = foldl pair (?up ! (i div 2)) (proof_path undef (build_layers pair ?up) (i div 2))"
      using next_layer_nth [OF less.prems(1) nodes(1)] by simp
    also have "\<dots> = hd (last (build_layers pair ?up))" using less.hyps [OF len nodes(2)] .
    finally show ?thesis using u by (simp add: b)
  qed
qed

end

text \<open>On texts in lower case the program's pairing is commutative, whatever the hash.\<close>

definition lower_case :: "string \<Rightarrow> bool" where
  "lower_case s \<longleftrightarrow> toLowerCase s = s"

interpretation hex_pairing: node_pairing "hashPair X" lower_case for X
  by unfold_locales (auto simp: hashPair_def lower_case_def)

section \<open>Digests\<close>

definition is_digest :: "string \<Rightarrow> bool" where
  "is_digest s \<longleftrightarrow> is_bytes32 s \<and> lower_case s"

lemma keccak256_digest: "ethers_ok X \<Longrightarrow> is_digest (keccak256 X v)"
  by (simp add: ethers_ok_def is_digest_def lower_case_def)

lemma hashPair_digest: "ethers_ok X \<Longrightarrow> is_digest (hashPair X a b)"
  by (simp add: hashPair_def keccak256_digest split: prod.split)

lemma next_layer_all: "(\<And>a b. P (pair a b)) \<Longrightarrow> list_all P xs \<Longrightarrow> list_all P (next_layer pair xs)"
  by (induction pair xs rule: next_layer.induct) auto

lemma build_layers_all:
  "(\<And>a b. P (pair a b)) \<Longrightarrow> list_all P xs \<Longrightarrow> layer \<in> set (build_layers pair xs) \<Longrightarrow> list_all P layer"
proof (induction pair xs rule: build_layers.induct)
  case (1 pr xs)
  then show ?case using next_layer_all [of P pr xs]
    by (auto simp: build_layers.simps [of pr xs] split: if_splits)
qed

lemma proof_path_all:
  "\<forall>layer\<in>set layers. list_all P layer \<Longrightarrow> i < 2 ^ 31 \<Longrightarrow> list_all P (proof_path undef layers i)"
  by (induction undef layers i rule: proof_path.induct) (auto simp: Let_def list_all_iff sibling_index_exact)

lemma process_from_foldl:
  "list_all is_bytes32 ps \<Longrightarrow> process_from X c ps = Inr (foldl (hashPair X) c ps)"
  by (induction ps arbitrary: c) auto

lemma process_from_Inr: "process_from X c ps = Inr r \<Longrightarrow> list_all is_bytes32 ps"
  by (induction ps arbitrary: c) (auto split: if_splits)

lemma buildMerkleTree_digests:
  assumes "leaves \<noteq> []" "list_all is_digest leaves"
  shows "buildMerkleTree X leaves =
    Inr \<lparr>mt_root = hd (last (build_layers (hashPair X) leaves)), mt_leaves = leaves,
         mt_layers = build_layers (hashPair X) leaves\<rparr>"
proof -
  have none: "filter (\<lambda>l. \<not> is_bytes32 l) leaves = []"
    using assms(2) by (auto simp: filter_empty_conv is_digest_def list_all_iff)
  show ?thesis unfolding buildMerkleTree_def none using assms(1) by (simp add: Let_def)
qed

text \<open>
  Every leaf of a tree can be proved: the path \<^verbatim>\<open>getProof\<close> extracts for an index verifies against the
  root, and its elements are well-formed.
\<close>

lemma tree_complete:
  assumes X: "ethers_ok X" and leaves: "leaves \<noteq> []" "list_all is_digest leaves" and i: "i < length leaves"
    and size: "length leaves \<le> 2 ^ 31"
  obtains tree ps where "buildMerkleTree X leaves = Inr tree" "getProof tree (Fin (of_nat i)) = Inr ps"
    "verifyProof X (leaves ! i) ps (mt_root tree)" "list_all is_digest ps"
proof -
  let ?layers = "build_layers (hashPair X) leaves"
  let ?ps = "proof_path ''undefined'' ?layers i"
  have layers: "\<forall>layer\<in>set ?layers. list_all is_digest layer"
    using build_layers_all [of is_digest "hashPair X" leaves] hashPair_digest [OF X] leaves(2) by blast
  then have low: "\<forall>layer\<in>set ?layers. list_all lower_case layer"
    by (auto simp: is_digest_def list_all_iff)
  have ps: "list_all is_digest ?ps"
    by (rule proof_path_all [OF layers]) (use i size in simp)
  then have "list_all is_bytes32 ?ps" by (auto simp: is_digest_def list_all_iff)
  moreover have "is_bytes32 (leaves ! i)" using leaves(2) i by (auto simp: list_all_length is_digest_def)
  ultimately have "verifyProof X (leaves ! i) ?ps (hd (last ?layers))"
    using hex_pairing.path_leads_to_root [OF i size low]
    by (simp add: verifyProof_def processProof_def process_from_foldl)
  then show ?thesis
    using that [OF buildMerkleTree_digests [OF leaves]] i ps by simp
qed

lemma getProof_refuses:
  assumes "\<forall>i<length (mt_leaves tree). n \<noteq> Fin (of_nat i)"
  shows "getProof tree n = Inl (IndexOutOfRange n (length (mt_leaves tree)))"
proof (cases n)
  case (Fin x)
  have "x < 0 \<or> of_nat (length (mt_leaves tree)) \<le> x" if "of_int \<lfloor>x\<rfloor> = x"
  proof (rule ccontr)
    assume no: "\<not> (x < 0 \<or> of_nat (length (mt_leaves tree)) \<le> x)"
    then have nn: "0 \<le> \<lfloor>x\<rfloor>" by simp
    then have x: "x = of_nat (nat \<lfloor>x\<rfloor>)" using that by (simp only: of_nat_nat)
    then have "nat \<lfloor>x\<rfloor> < length (mt_leaves tree)" using no by (metis not_le of_nat_le_iff)
    then show False using assms x Fin by blast
  qed
  then show ?thesis by (auto simp: Fin)
qed simp_all

section \<open>What is hashed\<close>

text \<open>The text whose hash a pair of nodes is, and the texts hashed by a tree and along a path.\<close>

definition pair_input :: "ethers \<Rightarrow> string \<Rightarrow> string \<Rightarrow> string" where
  "pair_input X a b =
     (if toLowerCase a \<le> toLowerCase b then ethers_concat X [Hex a, Hex b]
      else ethers_concat X [Hex b, Hex a])"

fun layer_inputs :: "ethers \<Rightarrow> string list \<Rightarrow> string list" where
  "layer_inputs X (a # b # rest) = pair_input X a b # layer_inputs X rest"
| "layer_inputs X _ = []"

definition tree_inputs :: "ethers \<Rightarrow> string list \<Rightarrow> string list" where
  "tree_inputs X leaves = concat (map (layer_inputs X) (build_layers (hashPair X) leaves))"

fun path_inputs :: "ethers \<Rightarrow> string \<Rightarrow> string list \<Rightarrow> string list" where
  "path_inputs X c [] = []"
| "path_inputs X c (sibling # rest) = pair_input X c sibling # path_inputs X (hashPair X c sibling) rest"

lemma hashPair_input: "hashPair X a b = keccak256 X (Hex (pair_input X a b))"
  by (simp add: hashPair_def pair_input_def)

lemma path_inputs_snoc:
  "path_inputs X c (ps @ [s]) = path_inputs X c ps @ [pair_input X (foldl (hashPair X) c ps) s]"
  by (induction ps arbitrary: c) auto

lemma lower_digits: "is_bytes32 a \<Longrightarrow> toLowerCase a = ''0x'' @ digits a"
proof -
  assume "is_bytes32 a"
  then have "a = ''0x'' @ drop 2 a" by (metis append_take_drop_id is_bytes32_def)
  then have "toLowerCase a = toLowerCase ''0x'' @ toLowerCase (drop 2 a)"
    unfolding toLowerCase_def by (metis map_append)
  then show ?thesis by (simp add: digits_def toLowerCase_def char_lower_def)
qed

lemma length_digits: "is_bytes32 a \<Longrightarrow> length (digits a) = 64"
  by (simp add: is_bytes32_def digits_def toLowerCase_def)

lemma digest_by_digits: "is_digest a \<Longrightarrow> is_digest b \<Longrightarrow> digits a = digits b \<Longrightarrow> a = b"
  using lower_digits [of a] lower_digits [of b] by (simp add: is_digest_def lower_case_def)

lemma pair_input_digits:
  assumes "ethers_ok X" "is_bytes32 a" "is_bytes32 b"
  shows "pair_input X a b =
    ''0x'' @ (if digits a \<le> digits b then digits a @ digits b else digits b @ digits a)"
  using assms lower_digits [of a] lower_digits [of b] by (simp add: pair_input_def ethers_ok_def)

lemma length_pair_input:
  "ethers_ok X \<Longrightarrow> is_bytes32 a \<Longrightarrow> is_bytes32 b \<Longrightarrow> length (pair_input X a b) = 130"
  by (simp add: pair_input_digits length_digits)

lemma pair_input_eq:
  assumes "ethers_ok X" "is_bytes32 a" "is_bytes32 b" "is_bytes32 c" "is_bytes32 d"
    and "pair_input X a b = pair_input X c d"
  shows "digits a = digits c \<or> digits a = digits d"
  using assms by (auto simp: pair_input_digits length_digits split: if_splits)

lemma layer_inputs_origin:
  "n \<in> set (next_layer (hashPair X) xs) \<Longrightarrow>
   n \<in> set xs \<or> (\<exists>a\<in>set xs. \<exists>b\<in>set xs. n = hashPair X a b \<and> pair_input X a b \<in> set (layer_inputs X xs))"
  by (induction X xs rule: layer_inputs.induct) auto

lemma node_origin:
  assumes "layer \<in> set (build_layers (hashPair X) leaves)" "n \<in> set layer"
  shows "n \<in> set leaves \<or>
    (\<exists>l\<in>set (build_layers (hashPair X) leaves). \<exists>a\<in>set l. \<exists>b\<in>set l.
        n = hashPair X a b \<and> pair_input X a b \<in> set (tree_inputs X leaves))"
  using assms
proof (induction "length leaves" arbitrary: leaves rule: less_induct)
  case less
  let ?up = "next_layer (hashPair X) leaves"
  show ?case
  proof (cases "length leaves \<le> 1 \<or> layer = leaves")
    case True
    then show ?thesis using less.prems by (auto simp: build_layers.simps [of _ leaves] split: if_splits)
  next
    case False
    then have b: "build_layers (hashPair X) leaves = leaves # build_layers (hashPair X) ?up"
      by (simp add: build_layers.simps [of _ leaves])
    then have t: "tree_inputs X leaves = layer_inputs X leaves @ tree_inputs X ?up"
      by (simp add: tree_inputs_def)
    have "length ?up < length leaves" using False by (auto simp: length_next_layer)
    moreover have "layer \<in> set (build_layers (hashPair X) ?up)" using less.prems(1) False b by auto
    ultimately have "n \<in> set ?up \<or> (\<exists>l\<in>set (build_layers (hashPair X) ?up). \<exists>a\<in>set l. \<exists>b\<in>set l.
        n = hashPair X a b \<and> pair_input X a b \<in> set (tree_inputs X ?up))"
      by (rule less.hyps) (rule less.prems(2))
    then show ?thesis using layer_inputs_origin [of n X leaves] unfolding b t by auto
  qed
qed

section \<open>Soundness of inclusion proofs\<close>

text \<open>The leaf the program derives from a fingerprint.\<close>

abbreviation leaf_of :: "ethers \<Rightarrow> string \<Rightarrow> string" where
  "leaf_of X fingerprint \<equiv> keccak256 X (Hex fingerprint)"

text \<open>Everything hashed when \<open>ps\<close> is checked for \<open>fp\<close> against the tree over the fingerprints \<open>fps\<close>.\<close>

definition hashed_inputs :: "ethers \<Rightarrow> string list \<Rightarrow> string \<Rightarrow> string list \<Rightarrow> string set" where
  "hashed_inputs X fps fp ps =
     insert fp (set fps \<union> set (path_inputs X (leaf_of X fp) ps) \<union> set (tree_inputs X (map (leaf_of X) fps)))"

lemma path_stays_in_tree:
  fixes X :: ethers and fps :: "string list"
  defines "nodes \<equiv> \<Union> (set ` set (build_layers (hashPair X) (map (leaf_of X) fps)))"
  assumes X: "ethers_ok X" and fps: "list_all is_digest fps" and fp: "is_digest fp"
    and ps: "list_all is_bytes32 ps"
    and inj: "inj_on (leaf_of X) (hashed_inputs X fps fp ps)"
    and root: "foldl (hashPair X) (leaf_of X fp) ps \<in> nodes"
  shows "leaf_of X fp \<in> nodes"
  using ps inj root
proof (induction ps rule: rev_induct)
  case (snoc s ps)
  let ?c = "foldl (hashPair X) (leaf_of X fp) ps"
  let ?leaves = "map (leaf_of X) fps"
  have nodes: "is_digest n" if "n \<in> nodes" for n
  proof -
    have "list_all is_digest ?leaves" using keccak256_digest [OF X] by (simp add: list_all_iff)
    then show ?thesis
      using that build_layers_all [of is_digest "hashPair X" ?leaves] hashPair_digest [OF X]
      unfolding nodes_def by (fastforce simp: list_all_iff)
  qed
  have c: "is_digest ?c"
    by (cases ps rule: rev_cases) (simp_all add: keccak256_digest [OF X] hashPair_digest [OF X])
  then have cs: "is_bytes32 ?c" "is_bytes32 s" using snoc.prems(1) by (simp_all add: is_digest_def)
  have in_c: "pair_input X ?c s \<in> hashed_inputs X fps fp (ps @ [s])"
    by (simp add: hashed_inputs_def path_inputs_snoc)
  from snoc.prems(3) obtain layer where
    "layer \<in> set (build_layers (hashPair X) ?leaves)" "hashPair X ?c s \<in> set layer"
    unfolding nodes_def by auto
  from node_origin [OF this] have "?c \<in> nodes"
  proof
    assume "hashPair X ?c s \<in> set ?leaves"
    then obtain f where f: "f \<in> set fps" "leaf_of X (pair_input X ?c s) = leaf_of X f"
      by (auto simp: hashPair_input)
    then have "pair_input X ?c s = f"
      using snoc.prems(2) in_c by (auto dest: inj_onD simp: hashed_inputs_def)
    moreover have "length f = 66" using f(1) fps by (auto simp: list_all_iff is_digest_def is_bytes32_def)
    ultimately show ?thesis using length_pair_input [OF X cs] by simp
  next
    assume "\<exists>l\<in>set (build_layers (hashPair X) ?leaves). \<exists>a\<in>set l. \<exists>b\<in>set l.
      hashPair X ?c s = hashPair X a b \<and> pair_input X a b \<in> set (tree_inputs X ?leaves)"
    then obtain a b where ab: "a \<in> nodes" "b \<in> nodes"
      "leaf_of X (pair_input X ?c s) = leaf_of X (pair_input X a b)"
      "pair_input X a b \<in> hashed_inputs X fps fp (ps @ [s])"
      unfolding nodes_def hashed_inputs_def by (auto simp: hashPair_input)
    then have "pair_input X ?c s = pair_input X a b"
      using snoc.prems(2) in_c by (auto dest: inj_onD)
    then have "digits ?c = digits a \<or> digits ?c = digits b"
      using pair_input_eq [OF X cs] nodes ab(1,2) by (simp add: is_digest_def)
    then show ?thesis using digest_by_digits c nodes ab(1,2) by metis
  qed
  moreover have "inj_on (leaf_of X) (hashed_inputs X fps fp ps)"
    by (rule inj_on_subset [OF snoc.prems(2)]) (auto simp: hashed_inputs_def path_inputs_snoc)
  ultimately show ?case using snoc.IH snoc.prems(1) by simp
qed simp

lemma last_layer: "xs \<noteq> [] \<Longrightarrow> \<exists>n. last (build_layers pair xs) = [n]"
proof (induction pair xs rule: build_layers.induct)
  case (1 pr xs)
  show ?case
  proof (cases "length xs \<le> 1")
    case True
    then show ?thesis using 1(2) by (cases xs) (auto simp: build_layers.simps)
  next
    case False
    then have "next_layer pr xs \<noteq> []" using length_next_layer [of pr xs] by auto
    then obtain n where n: "last (build_layers pr (next_layer pr xs)) = [n]" using 1(1) False by blast
    then show ?thesis using build_layers_Cons [of pr "next_layer pr xs"] False
      by (auto simp: build_layers.simps [of pr xs])
  qed
qed

lemma proved_leaf_is_in_tree:
  assumes X: "ethers_ok X" and fps: "fps \<noteq> []" "list_all is_digest fps" and fp: "is_digest fp"
    and tree: "buildMerkleTree X (map (leaf_of X) fps) = Inr tree"
    and ok: "verifyProof X (leaf_of X fp) ps (mt_root tree)"
    and inj: "inj_on (leaf_of X) (hashed_inputs X fps fp ps)"
  shows "fp \<in> set fps"
proof -
  let ?leaves = "map (leaf_of X) fps"
  let ?layers = "build_layers (hashPair X) ?leaves"
  have dig: "list_all is_digest ?leaves" using keccak256_digest [OF X] by (simp add: list_all_iff)
  have root: "mt_root tree = hd (last ?layers)"
    using tree buildMerkleTree_digests [of ?leaves X] dig fps(1) by auto
  obtain r where r: "process_from X (leaf_of X fp) ps = Inr r" "toLowerCase r = toLowerCase (mt_root tree)"
    using ok by (auto simp: verifyProof_def processProof_def split: sum.splits if_splits)
  have ps: "list_all is_bytes32 ps" by (rule process_from_Inr [OF r(1)])
  then have rf: "r = foldl (hashPair X) (leaf_of X fp) ps" using r(1) by (simp add: process_from_foldl)
  obtain n where n: "last ?layers = [n]" using last_layer [of ?leaves "hashPair X"] fps(1) by auto
  have top: "last ?layers \<in> set ?layers" using build_layers_Cons [of "hashPair X" ?leaves] by auto
  then have nd: "is_digest n"
    using build_layers_all [of is_digest "hashPair X" ?leaves] hashPair_digest [OF X] dig n by fastforce
  have rd: "is_digest r" unfolding rf
    by (cases ps rule: rev_cases) (simp_all add: keccak256_digest [OF X] hashPair_digest [OF X])
  have "r = n" using r(2) nd rd n root by (simp add: is_digest_def lower_case_def)
  then have "foldl (hashPair X) (leaf_of X fp) ps \<in> \<Union> (set ` set ?layers)"
    using top n rf by force
  from path_stays_in_tree [OF X fps(2) fp ps inj this]
  obtain layer where "layer \<in> set ?layers" "leaf_of X fp \<in> set layer" by auto
  from node_origin [OF this] show ?thesis
  proof
    assume "leaf_of X fp \<in> set ?leaves"
    then obtain f where "f \<in> set fps" "leaf_of X fp = leaf_of X f" by auto
    then show ?thesis using inj by (auto dest: inj_onD simp: hashed_inputs_def)
  next
    assume "\<exists>l\<in>set ?layers. \<exists>a\<in>set l. \<exists>b\<in>set l.
      leaf_of X fp = hashPair X a b \<and> pair_input X a b \<in> set (tree_inputs X ?leaves)"
    then obtain l a b where ab: "l \<in> set ?layers" "a \<in> set l" "b \<in> set l"
      "leaf_of X fp = leaf_of X (pair_input X a b)" "pair_input X a b \<in> set (tree_inputs X ?leaves)"
      by (auto simp: hashPair_input)
    then have "fp = pair_input X a b" using inj by (auto dest: inj_onD simp: hashed_inputs_def)
    moreover have "list_all is_digest l"
      using build_layers_all [of is_digest "hashPair X" ?leaves] hashPair_digest [OF X] dig ab(1) by blast
    then have "is_bytes32 a" "is_bytes32 b" using ab(2,3) by (auto simp: list_all_iff is_digest_def)
    ultimately have "length fp = 130" using length_pair_input [OF X] by simp
    then show ?thesis using fp by (simp add: is_digest_def is_bytes32_def)
  qed
qed

end
