(* ===== verification/Contract.thy ===== *)
theory Contract
  imports Merkle
begin

text \<open>
  The contract \<^verbatim>\<open>contracts/AuditAnchor.sol\<close>: its storage, its functions with their reverts, and the
  inclusion check it performs on 256-bit words. The instruction \<^verbatim>\<open>keccak256\<close> of the machine on two words
  is an argument. A call that reverts leaves the storage as it was.
\<close>

type_synonym bytes32 = "256 word"
type_synonym address = "160 word"
type_synonym uint64 = "64 word"

section \<open>Storage and functions\<close>

record Batch =
  bt_merkleRoot :: bytes32
  bt_leafCount :: uint64
  bt_anchoredAt :: uint64
  bt_submitter :: address

datatype contract_event =
    BatchAnchored bytes32 bytes32 uint64 uint64 address
  | SubmitterUpdated address bool
  | OwnershipTransferred address address

datatype contract_error =
    NotAuthorized address | BatchAlreadyAnchored bytes32 | UnknownBatch bytes32
  | EmptyBatch | ZeroRoot | ZeroAddress

record AuditAnchor =
  aa_owner :: address
  aa_submitters :: "address \<Rightarrow> bool"
  aa_batches :: "bytes32 \<Rightarrow> Batch"
  aa_batchIds :: "bytes32 list"
  aa_log :: "contract_event list"

definition zero_batch :: Batch where
  "zero_batch = \<lparr>bt_merkleRoot = 0, bt_leafCount = 0, bt_anchoredAt = 0, bt_submitter = 0\<rparr>"

definition deploy :: "address \<Rightarrow> AuditAnchor" where
  "deploy sender =
     \<lparr>aa_owner = sender, aa_submitters = (\<lambda>_. False)(sender := True),
      aa_batches = (\<lambda>_. zero_batch), aa_batchIds = [],
      aa_log = [OwnershipTransferred 0 sender, SubmitterUpdated sender True]\<rparr>"

definition setSubmitter :: "address \<Rightarrow> address \<Rightarrow> bool \<Rightarrow> AuditAnchor \<Rightarrow> contract_error + AuditAnchor" where
  "setSubmitter sender account allowed s =
     (if sender \<noteq> aa_owner s then Inl (NotAuthorized sender)
      else if account = 0 then Inl ZeroAddress
      else Inr (s\<lparr>aa_submitters := (aa_submitters s)(account := allowed),
                  aa_log := aa_log s @ [SubmitterUpdated account allowed]\<rparr>))"

definition transferOwnership :: "address \<Rightarrow> address \<Rightarrow> AuditAnchor \<Rightarrow> contract_error + AuditAnchor" where
  "transferOwnership sender newOwner s =
     (if sender \<noteq> aa_owner s then Inl (NotAuthorized sender)
      else if newOwner = 0 then Inl ZeroAddress
      else Inr (s\<lparr>aa_owner := newOwner,
                  aa_log := aa_log s @ [OwnershipTransferred (aa_owner s) newOwner]\<rparr>))"

definition anchorBatch ::
  "address \<Rightarrow> 256 word \<Rightarrow> bytes32 \<Rightarrow> bytes32 \<Rightarrow> uint64 \<Rightarrow> AuditAnchor \<Rightarrow> contract_error + AuditAnchor" where
  "anchorBatch sender timestamp batchId merkleRoot leafCount s =
     (if \<not> aa_submitters s sender then Inl (NotAuthorized sender)
      else if leafCount = 0 then Inl EmptyBatch
      else if merkleRoot = 0 then Inl ZeroRoot
      else if bt_anchoredAt (aa_batches s batchId) \<noteq> 0 then Inl (BatchAlreadyAnchored batchId)
      else
        let batch = \<lparr>bt_merkleRoot = merkleRoot, bt_leafCount = leafCount,
                     bt_anchoredAt = ucast timestamp, bt_submitter = sender\<rparr> in
        Inr (s\<lparr>aa_batches := (aa_batches s)(batchId := batch),
               aa_batchIds := aa_batchIds s @ [batchId],
               aa_log := aa_log s @ [BatchAnchored batchId merkleRoot leafCount (ucast timestamp) sender]\<rparr>))"

definition getBatch :: "AuditAnchor \<Rightarrow> bytes32 \<Rightarrow> contract_error + Batch" where
  "getBatch s batchId =
     (let batch = aa_batches s batchId in
      if bt_anchoredAt batch = 0 then Inl (UnknownBatch batchId) else Inr batch)"

definition isAnchored :: "AuditAnchor \<Rightarrow> bytes32 \<Rightarrow> bool" where
  "isAnchored s batchId \<longleftrightarrow> bt_anchoredAt (aa_batches s batchId) \<noteq> 0"

definition contract_hashPair :: "(bytes32 \<Rightarrow> bytes32 \<Rightarrow> bytes32) \<Rightarrow> bytes32 \<Rightarrow> bytes32 \<Rightarrow> bytes32" where
  "contract_hashPair efficientHash a b = (if a < b then efficientHash a b else efficientHash b a)"

fun contract_processProof :: "(bytes32 \<Rightarrow> bytes32 \<Rightarrow> bytes32) \<Rightarrow> bytes32 list \<Rightarrow> bytes32 \<Rightarrow> bytes32" where
  "contract_processProof efficientHash [] computed = computed"
| "contract_processProof efficientHash (p # ps) computed =
     contract_processProof efficientHash ps (contract_hashPair efficientHash computed p)"

definition verifyInclusion ::
  "(bytes32 \<Rightarrow> bytes32 \<Rightarrow> bytes32) \<Rightarrow> AuditAnchor \<Rightarrow> bytes32 \<Rightarrow> bytes32 \<Rightarrow> bytes32 list \<Rightarrow> contract_error + bool" where
  "verifyInclusion efficientHash s batchId leaf ps =
     (let batch = aa_batches s batchId in
      if bt_anchoredAt batch = 0 then Inl (UnknownBatch batchId)
      else Inr (contract_processProof efficientHash ps leaf = bt_merkleRoot batch))"

interpretation word_pairing: node_pairing "contract_hashPair h" "\<lambda>_. True" for h
  by unfold_locales (auto simp: contract_hashPair_def)

section \<open>Histories of calls\<close>

datatype contract_call =
    SetSubmitter address address bool
  | TransferOwnership address address
  | AnchorBatch address "256 word" bytes32 bytes32 uint64

fun call :: "contract_call \<Rightarrow> AuditAnchor \<Rightarrow> contract_error + AuditAnchor" where
  "call (SetSubmitter sender account allowed) s = setSubmitter sender account allowed s"
| "call (TransferOwnership sender newOwner) s = transferOwnership sender newOwner s"
| "call (AnchorBatch sender timestamp batchId merkleRoot count) s = anchorBatch sender timestamp batchId merkleRoot count s"

inductive contract_reaches :: "AuditAnchor \<Rightarrow> AuditAnchor \<Rightarrow> bool" where
  here: "contract_reaches s s"
| success: "contract_reaches s t \<Longrightarrow> call c t = Inr u \<Longrightarrow> contract_reaches s u"

lemma call_keeps_anchored:
  "call c s = Inr t \<Longrightarrow> isAnchored s i \<Longrightarrow> aa_batches t i = aa_batches s i"
  by (cases c) (auto simp: setSubmitter_def transferOwnership_def anchorBatch_def isAnchored_def Let_def
      split: if_splits)

lemma reaches_keeps_anchored:
  "contract_reaches s t \<Longrightarrow> isAnchored s i \<Longrightarrow> aa_batches t i = aa_batches s i"
proof (induction rule: contract_reaches.induct)
  case (success s t c u)
  then have "isAnchored t i" by (simp add: isAnchored_def)
  with success show ?case using call_keeps_anchored [OF success.hyps(2)] by simp
qed simp

text \<open>What is anchored is listed, once, with a root and a count, and what is listed was logged.\<close>

definition contract_inv :: "AuditAnchor \<Rightarrow> bool" where
  "contract_inv s \<longleftrightarrow>
     (\<forall>i. isAnchored s i \<longrightarrow> i \<in> set (aa_batchIds s) \<and>
          bt_merkleRoot (aa_batches s i) \<noteq> 0 \<and> bt_leafCount (aa_batches s i) \<noteq> 0 \<and>
          BatchAnchored i (bt_merkleRoot (aa_batches s i)) (bt_leafCount (aa_batches s i))
            (bt_anchoredAt (aa_batches s i)) (bt_submitter (aa_batches s i)) \<in> set (aa_log s))"

lemma call_keeps_inv: "contract_inv s \<Longrightarrow> call c s = Inr t \<Longrightarrow> contract_inv t"
  by (cases c) (auto simp: contract_inv_def setSubmitter_def transferOwnership_def anchorBatch_def
      isAnchored_def Let_def split: if_splits)

lemma reaches_inv: "contract_reaches (deploy a) s \<Longrightarrow> contract_inv s"
proof (induction "deploy a" s rule: contract_reaches.induct)
  case here
  show ?case by (simp add: contract_inv_def deploy_def isAnchored_def zero_batch_def)
next
  case (success t c u)
  then show ?case by (blast intro: call_keeps_inv)
qed

section \<open>Words and their texts\<close>

fun hex_fixed :: "nat \<Rightarrow> nat \<Rightarrow> string" where
  "hex_fixed 0 n = []"
| "hex_fixed (Suc k) n = hex_digit (n div 16 ^ k) # hex_fixed k (n mod 16 ^ k)"

definition bytes32_text :: "bytes32 \<Rightarrow> string" where
  "bytes32_text w = ''0x'' @ hex_fixed 64 (unat w)"

lemma hex_digit_props:
  assumes "n < 16"
  shows "is_hex_digit (hex_digit n)" and "char_lower (hex_digit n) = hex_digit n"
proof -
  have "n \<in> set [0..<16]" using assms by simp
  then have "n \<in> {0,1,2,3,4,5,6,7,8,9,10,11,12,13,14,15}" by (simp add: upt_rec) auto
  then show "is_hex_digit (hex_digit n)" "char_lower (hex_digit n) = hex_digit n"
    by (auto simp: hex_digit_def is_hex_digit_def is_digit_def char_lower_def less_eq_char_def)
qed

lemma hex_digit_mono:
  assumes "m < 16" "n < 16"
  shows "hex_digit m < hex_digit n \<longleftrightarrow> m < n" and "hex_digit m = hex_digit n \<longleftrightarrow> m = n"
  using assms by (auto simp: hex_digit_def less_char_def)

lemma hex_fixed_props:
  assumes "n < 16 ^ k"
  shows "length (hex_fixed k n) = k" "list_all is_hex_digit (hex_fixed k n)"
    "toLowerCase (hex_fixed k n) = hex_fixed k n"
  using assms
  by (induction k arbitrary: n) (auto simp: hex_digit_props toLowerCase_def less_mult_imp_div_less mult.commute)

lemma hex_fixed_mono:
  "m < 16 ^ k \<Longrightarrow> n < 16 ^ k \<Longrightarrow> hex_fixed k m \<le> hex_fixed k n \<longleftrightarrow> m \<le> n"
proof (induction k arbitrary: m n)
  case (Suc k)
  define B :: nat where "B = 16 ^ k"
  have B: "0 < B" by (simp add: B_def)
  have lt: "m div B < 16" "n div B < 16"
    using Suc.prems by (simp_all add: B_def less_mult_imp_div_less mult.commute)
  have IH: "hex_fixed k (m mod B) \<le> hex_fixed k (n mod B) \<longleftrightarrow> m mod B \<le> n mod B"
    using Suc.IH [of "m mod B" "n mod B"] B by (simp add: B_def)
  have "m \<le> n \<longleftrightarrow> m div B < n div B \<or> (m div B = n div B \<and> m mod B \<le> n mod B)"
  proof -
    have m: "m = m div B * B + m mod B" and n: "n = n div B * B + n mod B" by simp_all
    have r: "m mod B < B" "n mod B < B" using B by simp_all
    show ?thesis
    proof (cases "m div B" "n div B" rule: linorder_cases)
      case less
      then have "(m div B + 1) * B \<le> n div B * B" by (intro mult_le_mono1) simp
      then have "m div B * B + B \<le> n div B * B" by (simp add: algebra_simps)
      then have "m \<le> n" using m n r by linarith
      then show ?thesis using less by simp
    next
      case equal
      then show ?thesis using m n by (metis less_irrefl nat_add_left_cancel_le)
    next
      case greater
      then have "(n div B + 1) * B \<le> m div B * B" by (intro mult_le_mono1) simp
      then have "n div B * B + B \<le> m div B * B" by (simp add: algebra_simps)
      then have "\<not> m \<le> n" using m n r by linarith
      then show ?thesis using greater by simp
    qed
  qed
  then show ?case using IH hex_digit_mono [OF lt] by (simp add: B_def [symmetric])
qed simp

lemma unat_bytes32: "unat (w :: bytes32) < 16 ^ 64"
  using unsigned_less [of w, where 'a = nat] by simp

lemma bytes32_text_digest: "is_digest (bytes32_text w)"
  using hex_fixed_props [OF unat_bytes32 [of w]]
  by (simp add: is_digest_def is_bytes32_def lower_case_def bytes32_text_def toLowerCase_def char_lower_def)

lemma digits_bytes32_text: "digits (bytes32_text w) = hex_fixed 64 (unat w)"
  using hex_fixed_props(3) [OF unat_bytes32 [of w]] by (simp add: digits_def bytes32_text_def)

lemma hex_fixed_le: "hex_fixed 64 (unat (a :: bytes32)) \<le> hex_fixed 64 (unat (b :: bytes32)) \<longleftrightarrow> a \<le> b"
  by (simp add: hex_fixed_mono [OF unat_bytes32 unat_bytes32] word_le_nat_alt)

lemma bytes32_text_inj: "bytes32_text a = bytes32_text b \<longleftrightarrow> a = b"
  using hex_fixed_le [of a b] hex_fixed_le [of b a] unfolding bytes32_text_def
  by (metis append_same_eq order_antisym order_refl same_append_eq)

section \<open>The same verdict on and off the chain\<close>

text \<open>Both sides hash with keccak-256: the package on a text of 64 bytes, the machine on two words.\<close>

definition evm_agrees :: "ethers \<Rightarrow> (bytes32 \<Rightarrow> bytes32 \<Rightarrow> bytes32) \<Rightarrow> bool" where
  "evm_agrees X efficientHash \<longleftrightarrow>
     (\<forall>a b. keccak256 X (Hex (''0x'' @ hex_fixed 64 (unat a) @ hex_fixed 64 (unat b)))
              = bytes32_text (efficientHash a b))"

lemma hashPair_on_chain:
  assumes "ethers_ok X" "evm_agrees X h"
  shows "hashPair X (bytes32_text a) (bytes32_text b) = bytes32_text (contract_hashPair h a b)"
proof -
  have "is_bytes32 (bytes32_text a)" "is_bytes32 (bytes32_text b)"
    using bytes32_text_digest by (simp_all add: is_digest_def)
  then have "pair_input X (bytes32_text a) (bytes32_text b) =
      ''0x'' @ (if a \<le> b then hex_fixed 64 (unat a) @ hex_fixed 64 (unat b)
               else hex_fixed 64 (unat b) @ hex_fixed 64 (unat a))"
    using pair_input_digits [OF assms(1)] by (simp add: hex_fixed_le digits_bytes32_text)
  then have "hashPair X (bytes32_text a) (bytes32_text b) = bytes32_text (if a \<le> b then h a b else h b a)"
    using assms(2) by (simp add: hashPair_input evm_agrees_def)
  then show ?thesis by (auto simp: contract_hashPair_def)
qed

lemma processProof_on_chain:
  assumes "ethers_ok X" "evm_agrees X h"
  shows "processProof X (bytes32_text leaf) (map bytes32_text ps)
           = Inr (bytes32_text (contract_processProof h ps leaf))"
proof -
  have "process_from X (bytes32_text leaf) (map bytes32_text ps)
          = Inr (bytes32_text (contract_processProof h ps leaf))"
    using hashPair_on_chain [OF assms] bytes32_text_digest
    by (induction ps arbitrary: leaf) (simp_all add: is_digest_def)
  then show ?thesis using bytes32_text_digest by (simp add: processProof_def is_digest_def)
qed

section \<open>An instance of the interface\<close>

text \<open>
  Functions with the documented formats of the package, used to show that the hypotheses of the
  properties can hold: the digest is a polynomial of the hashed text modulo two to the 256.
\<close>

definition poly_hash :: "string \<Rightarrow> bytes32" where
  "poly_hash s = foldl (\<lambda>h c. h * 65599 + word_of_nat (of_char c)) 1 s"

fun bytes_text :: "bytes_like \<Rightarrow> string" where
  "bytes_text (Hex s) = digits s"
| "bytes_text (Utf8 s) = hex_bytes s"

definition sample_ethers :: ethers where
  "sample_ethers =
     \<lparr>keccak256 = (\<lambda>v. bytes32_text (poly_hash (bytes_text v))),
      ethers_concat = (\<lambda>vs. ''0x'' @ concat (map bytes_text vs)),
      zeroPadValue = (\<lambda>s n. ''0x'' @ padStart (2 * n) (CHR ''0'') (drop 2 s))\<rparr>"

lemma char_lower_idem [simp]: "char_lower (char_lower c) = char_lower c"
proof (cases "CHR ''A'' \<le> c \<and> c \<le> CHR ''Z''")
  case True
  then have "\<not> char_of (of_char c + 32 :: nat) \<le> CHR ''Z''"
    by (auto simp: less_eq_char_def)
  with True show ?thesis by (simp add: char_lower_def)
next
  case False
  then have "char_lower c = c" unfolding char_lower_def by (rule if_not_P)
  then show ?thesis by simp
qed

lemma digits_toLowerCase: "digits (toLowerCase s) = digits s"
  by (simp add: digits_def toLowerCase_def drop_map)

lemma sample_ethers_ok: "ethers_ok sample_ethers"
  using bytes32_text_digest
  by (simp add: ethers_ok_def sample_ethers_def digits_toLowerCase is_digest_def lower_case_def)

definition sample_evm :: "bytes32 \<Rightarrow> bytes32 \<Rightarrow> bytes32" where
  "sample_evm a b = poly_hash (hex_fixed 64 (unat a) @ hex_fixed 64 (unat b))"

lemma sample_evm_agrees: "evm_agrees sample_ethers sample_evm"
  using hex_fixed_props(3) [OF unat_bytes32]
  by (simp add: evm_agrees_def sample_ethers_def sample_evm_def digits_def toLowerCase_def)

section \<open>Properties\<close>

text \<open>
  C6. Completeness of inclusion proofs: over any non-empty list of at most two to the 31 leaves (the
  range of the 32-bit operator that finds a sibling) the tree is built, \<^verbatim>\<open>getProof\<close> returns a path for
  every index, and \<^verbatim>\<open>verifyProof\<close> accepts it against the root; every other number, fractional, negative,
  too large, infinite or \<^verbatim>\<open>NaN\<close>, is refused.
\<close>

theorem every_leaf_is_provable:
  assumes "ethers_ok X" and "leaves \<noteq> []" and "list_all is_digest leaves" and "length leaves \<le> 2 ^ 31"
  shows "\<exists>tree. buildMerkleTree X leaves = Inr tree \<and>
    (\<forall>i<length leaves. \<exists>ps. getProof tree (Fin (of_nat i)) = Inr ps \<and>
        verifyProof X (leaves ! i) ps (mt_root tree)) \<and>
    (\<forall>n. (\<forall>i<length leaves. n \<noteq> Fin (of_nat i)) \<longrightarrow>
        getProof tree n = Inl (IndexOutOfRange n (length leaves)))"
proof -
  obtain tree where t: "buildMerkleTree X leaves = Inr tree" "mt_leaves tree = leaves"
    using buildMerkleTree_digests [OF assms(2,3)] by auto
  have "\<exists>ps. getProof tree (Fin (of_nat i)) = Inr ps \<and> verifyProof X (leaves ! i) ps (mt_root tree)"
    if "i < length leaves" for i
    using tree_complete [OF assms(1-3) that assms(4)] t(1) by (metis sum.inject(2))
  with t show ?thesis using getProof_refuses [of tree] by auto
qed

theorem every_leaf_is_provable_witness:
  "\<exists>tree ps. buildMerkleTree sample_ethers (map bytes32_text [7, 5, 9]) = Inr tree \<and>
     getProof tree (Fin 2) = Inr ps \<and> verifyProof sample_ethers (bytes32_text 9) ps (mt_root tree) \<and>
     getProof tree (Fin (3 / 2)) = Inl (IndexOutOfRange (Fin (3 / 2)) 3)"
proof -
  have d: "list_all is_digest (map bytes32_text [7, 5, 9])" by (simp add: bytes32_text_digest)
  have half: "Fin (3 / 2) \<noteq> Fin (of_nat i)" for i
  proof
    assume "Fin (3 / 2) = Fin (of_nat i)"
    then have "of_nat 3 = (of_nat (2 * i) :: rat)" by simp
    then have "3 = 2 * i" by (simp only: of_nat_eq_iff)
    then show False by presburger
  qed
  obtain tree where t: "buildMerkleTree sample_ethers (map bytes32_text [7, 5, 9]) = Inr tree"
    "\<forall>i<3. \<exists>ps. getProof tree (Fin (of_nat i)) = Inr ps \<and>
       verifyProof sample_ethers (map bytes32_text [7, 5, 9] ! i) ps (mt_root tree)"
    "\<forall>n. (\<forall>i<3. n \<noteq> Fin (of_nat i)) \<longrightarrow> getProof tree n = Inl (IndexOutOfRange n 3)"
    using every_leaf_is_provable [OF sample_ethers_ok _ d] by auto
  from t(2) [rule_format, of 2] t(3) [rule_format, of "Fin (3 / 2)"] half t(1) show ?thesis by auto
qed

text \<open>
  C7. Soundness of inclusion proofs: over the tree of the leaves of a list of fingerprints, a path
  accepted for the leaf of some fingerprint shows that this fingerprint is in the list, unless two
  different texts among those hashed while building the tree and following the path collide. The
  second hash of the leaves is what excludes an inner node taken for a leaf.
\<close>

theorem accepted_path_proves_membership:
  assumes "ethers_ok X" and "fps \<noteq> []" and "list_all is_digest fps" and "is_digest fp"
    and "buildMerkleTree X (map (leaf_of X) fps) = Inr tree"
    and "verifyProof X (leaf_of X fp) ps (mt_root tree)"
  shows "fp \<in> set fps \<or>
    (\<exists>u\<in>hashed_inputs X fps fp ps. \<exists>v\<in>hashed_inputs X fps fp ps.
        u \<noteq> v \<and> keccak256 X (Hex u) = keccak256 X (Hex v))"
  using proved_leaf_is_in_tree [OF assms] unfolding inj_on_def by blast

theorem accepted_path_proves_membership_witness:
  "\<exists>tree ps fps fp. buildMerkleTree sample_ethers (map (leaf_of sample_ethers) fps) = Inr tree \<and>
     verifyProof sample_ethers (leaf_of sample_ethers fp) ps (mt_root tree) \<and>
     (fp \<in> set fps \<or>
      (\<exists>u\<in>hashed_inputs sample_ethers fps fp ps. \<exists>v\<in>hashed_inputs sample_ethers fps fp ps.
          u \<noteq> v \<and> keccak256 sample_ethers (Hex u) = keccak256 sample_ethers (Hex v)))"
proof -
  let ?fps = "map bytes32_text [1, 2]"
  let ?leaves = "map (leaf_of sample_ethers) ?fps"
  have d: "list_all is_digest ?fps" "list_all is_digest ?leaves" "is_digest (bytes32_text 2)"
    using keccak256_digest [OF sample_ethers_ok] by (simp_all add: bytes32_text_digest)
  have l: "?leaves \<noteq> []" "1 < length ?leaves" "length ?leaves \<le> 2 ^ 31" by simp_all
  obtain tree ps where t: "buildMerkleTree sample_ethers ?leaves = Inr tree"
    "verifyProof sample_ethers (?leaves ! 1) ps (mt_root tree)"
    by (rule tree_complete [OF sample_ethers_ok l(1) d(2) l(2,3)])
  then have ok: "verifyProof sample_ethers (leaf_of sample_ethers (bytes32_text 2)) ps (mt_root tree)"
    by simp
  show ?thesis
    using t(1) ok accepted_path_proves_membership [OF sample_ethers_ok _ d(1,3) t(1) ok] by blast
qed

text \<open>
  C8. The contract and the gateway agree: for a batch anchored with a root, \<^verbatim>\<open>verifyInclusion\<close> on 256-bit
  words gives exactly the verdict \<^verbatim>\<open>verifyProof\<close> gives on the hexadecimal texts.
\<close>

theorem on_chain_verdict_equals_off_chain:
  assumes "ethers_ok X" and "evm_agrees X h" and "isAnchored s batchId"
  shows "verifyInclusion h s batchId leaf ps
    = Inr (verifyProof X (bytes32_text leaf) (map bytes32_text ps)
             (bytes32_text (bt_merkleRoot (aa_batches s batchId))))"
proof -
  have low: "toLowerCase (bytes32_text w) = bytes32_text w" for w
    using bytes32_text_digest [of w] by (simp add: is_digest_def lower_case_def)
  show ?thesis
    using assms(3) processProof_on_chain [OF assms(1,2), of leaf ps]
    by (simp add: verifyInclusion_def verifyProof_def isAnchored_def low bytes32_text_inj)
qed

text \<open>A contract where one batch was anchored by the deployer.\<close>

definition anchored_once :: "bytes32 \<Rightarrow> AuditAnchor" where
  "anchored_once merkleRoot =
     (case anchorBatch 1 1700000000 42 merkleRoot 1 (deploy 1) of Inl _ \<Rightarrow> deploy 1 | Inr s \<Rightarrow> s)"

lemma anchored_once_call: "call (AnchorBatch 1 1700000000 42 5 1) (deploy 1) = Inr (anchored_once 5)"
  by (simp add: anchored_once_def anchorBatch_def deploy_def zero_batch_def)

lemma anchored_once_anchored: "isAnchored (anchored_once 5) 42"
  by (simp add: anchored_once_def anchorBatch_def deploy_def zero_batch_def isAnchored_def)

theorem on_chain_verdict_equals_off_chain_witness:
  "verifyInclusion sample_evm (anchored_once 5) 42 5 []
     = Inr (verifyProof sample_ethers (bytes32_text 5) []
              (bytes32_text (bt_merkleRoot (aa_batches (anchored_once 5) 42))))"
  using on_chain_verdict_equals_off_chain
    [OF sample_ethers_ok sample_evm_agrees anchored_once_anchored, of 5 "[]"] by simp

text \<open>
  C9. An anchored batch is never rewritten: whatever calls follow, its root, count, date and submitter
  stay, a second anchoring under the same identifier reverts, and every anchored batch of a deployed
  contract has a root, a count and its log entry.
\<close>

theorem anchored_batches_immutable:
  assumes "contract_reaches (deploy a) s" and "contract_reaches s t" and "isAnchored s batchId"
  shows "aa_batches t batchId = aa_batches s batchId \<and>
    (\<forall>sender timestamp root count. \<exists>e. anchorBatch sender timestamp batchId root count t = Inl e) \<and>
    bt_merkleRoot (aa_batches t batchId) \<noteq> 0 \<and> bt_leafCount (aa_batches t batchId) \<noteq> 0 \<and>
    batchId \<in> set (aa_batchIds s)"
proof -
  have b: "aa_batches t batchId = aa_batches s batchId" by (rule reaches_keeps_anchored [OF assms(2,3)])
  have "\<exists>e. anchorBatch sender timestamp batchId root count t = Inl e" for sender timestamp root count
    using assms(3) b by (simp add: anchorBatch_def isAnchored_def)
  moreover have "contract_inv s" by (rule reaches_inv [OF assms(1)])
  ultimately show ?thesis using assms(3) b by (auto simp: contract_inv_def)
qed

theorem anchored_batches_immutable_witness:
  "isAnchored (anchored_once 5) 42 \<and>
   (\<exists>e. anchorBatch 1 1700000001 42 6 2 (anchored_once 5) = Inl e)"
proof -
  have "contract_reaches (deploy 1) (anchored_once 5)"
    by (rule contract_reaches.success [OF contract_reaches.here anchored_once_call])
  then show ?thesis
    using anchored_batches_immutable [OF _ contract_reaches.here anchored_once_anchored] anchored_once_anchored
    by blast
qed

end
