(* ===== verification/Js_Text.thy ===== *)
theory Js_Text
  imports Prelude
begin

text \<open>
  The values and the text operations of the language that the validators, the masking rules and the SOAP layer use:
  a value of unknown type, white space and capitals beyond ASCII, slices counted in characters, the words that
  \<^verbatim>\<open>\b\<close> delimits, and \<^verbatim>\<open>JSON.stringify\<close>. A string is its UTF-8 byte sequence and its characters are those of the
  basic plane, one UTF-16 unit each.
\<close>

section \<open>Values of unknown type\<close>

text \<open>
  An \<^verbatim>\<open>unknown\<close>: \<open>JNumber\<close> holds the text \<^verbatim>\<open>String(n)\<close> of a finite number, \<open>JDate\<close> its \<^verbatim>\<open>toISOString()\<close>, \<open>JObject\<close>
  its own enumerable entries in order, and \<open>JOther\<close> is a function, a symbol or a big integer.
\<close>

datatype js =
    JUndefined
  | JNull
  | JBool bool
  | JNumber string
  | JString string
  | JDate string
  | JArray "js list"
  | JObject "(string \<times> js) list"
  | JOther

section \<open>Characters of a text\<close>

definition is_continuation :: "char \<Rightarrow> bool" where
  "is_continuation c \<longleftrightarrow> 128 \<le> (of_char c :: nat) \<and> (of_char c :: nat) < 192"

text \<open>\<^verbatim>\<open>s.length\<close>.\<close>

definition char_length :: "string \<Rightarrow> nat" where
  "char_length s = length (filter (\<lambda>c. \<not> is_continuation c) s)"

lemma char_length_le: "char_length s \<le> length s"
  by (simp add: char_length_def)

text \<open>\<^verbatim>\<open>s.slice(0, n)\<close>, \<^verbatim>\<open>s.slice(n)\<close> and \<^verbatim>\<open>s.slice(-n)\<close>.\<close>

fun js_slice :: "nat \<Rightarrow> string \<Rightarrow> string" where
  "js_slice n [] = []"
| "js_slice n (c # cs) =
     (if is_continuation c then c # js_slice n cs else if n = 0 then [] else c # js_slice (n - 1) cs)"

fun js_drop :: "nat \<Rightarrow> string \<Rightarrow> string" where
  "js_drop n [] = []"
| "js_drop n (c # cs) =
     (if is_continuation c then js_drop n cs else if n = 0 then c # cs else js_drop (n - 1) cs)"

definition js_last :: "nat \<Rightarrow> string \<Rightarrow> string" where
  "js_last n s = js_drop (char_length s - n) s"

lemma slice_length: "char_length (js_slice n s) \<le> n"
  by (induction n s rule: js_slice.induct) (auto simp: char_length_def)

lemma slice_short: "char_length s \<le> n \<Longrightarrow> js_slice n s = s"
  by (induction n s rule: js_slice.induct) (auto simp: char_length_def split: if_splits)

lemma drop_length: "char_length (js_drop n s) \<le> char_length s - n"
  by (induction n s rule: js_drop.induct) (auto simp: char_length_def)

lemma last_length: "char_length (js_last n s) \<le> n"
  using drop_length [of "char_length s - n" s] by (simp add: js_last_def)

text \<open>ASCII texts are their own sequences of characters.\<close>

definition is_ascii :: "char \<Rightarrow> bool" where
  "is_ascii c \<longleftrightarrow> (of_char c :: nat) < 128"

lemma ascii_not_continuation: "is_ascii c \<Longrightarrow> \<not> is_continuation c"
  by (simp add: is_ascii_def is_continuation_def)

lemma ascii_length: "list_all is_ascii s \<Longrightarrow> char_length s = length s"
  by (induction s) (auto simp: char_length_def ascii_not_continuation)

lemma ascii_slice: "list_all is_ascii s \<Longrightarrow> js_slice n s = take n s"
  by (induction n s rule: js_slice.induct) (auto simp: ascii_not_continuation take_Cons')

lemma ascii_drop: "list_all is_ascii s \<Longrightarrow> js_drop n s = drop n s"
  by (induction n s rule: js_drop.induct) (auto simp: ascii_not_continuation drop_Cons')

lemma ascii_last: "list_all is_ascii s \<Longrightarrow> js_last n s = drop (length s - n) s"
  by (simp add: js_last_def ascii_drop ascii_length)

section \<open>White space and capitals\<close>

text \<open>The bytes of the white space character (\<^verbatim>\<open>\s\<close>) a text begins with; none when it begins with another.\<close>

definition wide_spaces :: "string list" where
  "wide_spaces =
     [[CHR 0xE1, CHR 0x9A, CHR 0x80], [CHR 0xE2, CHR 0x80, CHR 0xA8], [CHR 0xE2, CHR 0x80, CHR 0xA9],
      [CHR 0xE2, CHR 0x80, CHR 0xAF], [CHR 0xE2, CHR 0x81, CHR 0x9F], [CHR 0xE3, CHR 0x80, CHR 0x80],
      [CHR 0xEF, CHR 0xBB, CHR 0xBF]] @
     map (\<lambda>n. [CHR 0xE2, CHR 0x80, char_of (0x80 + n)]) [0..<11]"

definition space_width :: "string \<Rightarrow> nat" where
  "space_width s =
     (case s of
        [] \<Rightarrow> 0
      | c # _ \<Rightarrow>
          if is_space c then 1
          else if take 2 s = [CHR 0xC2, CHR 0xA0] then 2
          else if take 3 s \<in> set wide_spaces then 3 else 0)"

text \<open>\<^verbatim>\<open>s.replace(/\s/g, '')\<close>, which is also \<^verbatim>\<open>s.replace(/\s+/g, '')\<close>.\<close>

function remove_spaces :: "string \<Rightarrow> string" where
  "remove_spaces s =
     (case s of
        [] \<Rightarrow> []
      | c # cs \<Rightarrow> if space_width s = 0 then c # remove_spaces cs else remove_spaces (drop (space_width s) s))"
  by pat_completeness auto
termination by (relation "measure length") auto

declare remove_spaces.simps [simp del]

lemma space_width_pos: "0 < space_width s \<Longrightarrow> s \<noteq> []"
  by (auto simp: space_width_def)

text \<open>\<^verbatim>\<open>s.trim()\<close>.\<close>

function trim_start :: "string \<Rightarrow> string" where
  "trim_start s = (if space_width s = 0 then s else trim_start (drop (space_width s) s))"
  by pat_completeness auto
termination
proof (relation "measure length")
  fix s assume "space_width s \<noteq> 0"
  then show "(drop (space_width s) s, s) \<in> measure length" using space_width_pos [of s] by simp
qed simp

declare trim_start.simps [simp del]

fun trim_end :: "string \<Rightarrow> string" where
  "trim_end [] = []"
| "trim_end (c # cs) = (if remove_spaces (c # cs) = [] then [] else c # trim_end cs)"

definition js_trim :: "string \<Rightarrow> string" where
  "js_trim s = trim_end (trim_start s)"

text \<open>
  The characters beyond ASCII whose capitals are ASCII: the sharp s, the dotless i, the long s and the Latin
  ligatures. The capital of any other character beyond ASCII has one beyond ASCII, which stands for it here.
\<close>

definition wide_capitals :: "(string \<times> string) list" where
  "wide_capitals =
     [([CHR 0xC3, CHR 0x9F], ''SS''), ([CHR 0xC4, CHR 0xB1], ''I''), ([CHR 0xC5, CHR 0xBF], ''S''),
      ([CHR 0xEF, CHR 0xAC, CHR 0x80], ''FF''), ([CHR 0xEF, CHR 0xAC, CHR 0x81], ''FI''),
      ([CHR 0xEF, CHR 0xAC, CHR 0x82], ''FL''), ([CHR 0xEF, CHR 0xAC, CHR 0x83], ''FFI''),
      ([CHR 0xEF, CHR 0xAC, CHR 0x84], ''FFL''), ([CHR 0xEF, CHR 0xAC, CHR 0x85], ''ST''),
      ([CHR 0xEF, CHR 0xAC, CHR 0x86], ''ST'')]"

function wide_upper :: "string \<Rightarrow> string" where
  "wide_upper s =
     (case s of
        [] \<Rightarrow> []
      | c # cs \<Rightarrow>
          (case map_of wide_capitals (take 2 s) of
             Some u \<Rightarrow> u @ wide_upper (drop 2 s)
           | None \<Rightarrow>
               (case map_of wide_capitals (take 3 s) of
                  Some u \<Rightarrow> u @ wide_upper (drop 3 s)
                | None \<Rightarrow> char_upper c # wide_upper cs)))"
  by pat_completeness auto
termination by (relation "measure length") auto

declare wide_upper.simps [simp del]

lemma wide_heads:
  "k \<in> fst ` set wide_capitals \<Longrightarrow> \<not> is_ascii (hd k)" "k \<in> set wide_spaces \<Longrightarrow> \<not> is_ascii (hd k)"
  by (auto simp: wide_capitals_def wide_spaces_def is_ascii_def)

lemma ascii_heads:
  assumes "is_ascii c"
  shows "map_of wide_capitals (c # cs) = None" "space_width (c # cs) = (if is_space c then 1 else 0)"
proof -
  show "map_of wide_capitals (c # cs) = None"
    using wide_heads(1) [of "c # cs"] assms by (auto simp: map_of_eq_None_iff)
  have "c \<noteq> CHR 0xC2" using assms by (auto simp: is_ascii_def)
  moreover have "take 3 (c # cs) \<notin> set wide_spaces"
    using wide_heads(2) [of "take 3 (c # cs)"] assms by (auto simp: take_Cons')
  ultimately show "space_width (c # cs) = (if is_space c then 1 else 0)" by (auto simp: space_width_def take_Cons')
qed

lemma ascii_remove_spaces: "list_all is_ascii s \<Longrightarrow> remove_spaces s = filter (\<lambda>c. \<not> is_space c) s"
proof (induction s)
  case (Cons c cs)
  then show ?case by (subst remove_spaces.simps) (simp add: ascii_heads)
qed (simp add: remove_spaces.simps)

lemma ascii_wide_upper: "list_all is_ascii s \<Longrightarrow> wide_upper s = toUpperCase s"
proof (induction s)
  case (Cons c cs)
  then show ?case by (subst wide_upper.simps) (simp add: ascii_heads toUpperCase_def take_Cons')
qed (simp add: wide_upper.simps toUpperCase_def)

lemma plain_ascii: "is_digit c \<Longrightarrow> is_ascii c" "is_upper c \<Longrightarrow> is_ascii c" "is_lower c \<Longrightarrow> is_ascii c"
  by (auto simp: is_digit_def is_upper_def is_lower_def is_ascii_def less_eq_char_def)

lemma plain_not_space: "is_digit c \<Longrightarrow> \<not> is_space c" "is_upper c \<Longrightarrow> \<not> is_space c" "is_lower c \<Longrightarrow> \<not> is_space c"
  by (auto simp: is_digit_def is_upper_def is_lower_def is_space_def less_eq_char_def)

lemma plain_upper: "is_digit c \<Longrightarrow> char_upper c = c" "is_upper c \<Longrightarrow> char_upper c = c"
  by (auto simp: is_digit_def is_upper_def char_upper_def less_eq_char_def)

section \<open>Words\<close>

text \<open>The word characters of \<^verbatim>\<open>\w\<close> and \<^verbatim>\<open>\b\<close>.\<close>

definition is_word :: "char \<Rightarrow> bool" where
  "is_word c \<longleftrightarrow> is_digit c \<or> is_upper c \<or> is_lower c \<or> c = CHR ''_''"

text \<open>
  The replacement of every maximal run of word characters by \<open>f\<close>. A pattern of the form \<^verbatim>\<open>\bP\b\<close> whose \<^verbatim>\<open>P\<close> matches
  word characters only begins and ends at the ends of such a run, so it matches a run or nothing.
\<close>

function map_words :: "(string \<Rightarrow> string) \<Rightarrow> string \<Rightarrow> string" where
  "map_words f s =
     (case s of
        [] \<Rightarrow> []
      | c # cs \<Rightarrow>
          if is_word c then f (takeWhile is_word s) @ map_words f (dropWhile is_word s)
          else c # map_words f cs)"
  by pat_completeness auto
termination by (relation "measure (length \<circ> snd)") (auto simp: le_imp_less_Suc length_dropWhile_le)

declare map_words.simps [simp del]

lemma map_words_simps [simp]:
  "map_words f [] = []"
  "\<not> is_word c \<Longrightarrow> map_words f (c # cs) = c # map_words f cs"
  "is_word c \<Longrightarrow> map_words f (c # cs) = f (c # takeWhile is_word cs) @ map_words f (dropWhile is_word cs)"
  by (simp_all add: map_words.simps)

text \<open>The words of a text.\<close>

function words_of :: "string \<Rightarrow> string list" where
  "words_of s =
     (case s of
        [] \<Rightarrow> []
      | c # cs \<Rightarrow> if is_word c then takeWhile is_word s # words_of (dropWhile is_word s) else words_of cs)"
  by pat_completeness auto
termination by (relation "measure length") (auto simp: le_imp_less_Suc length_dropWhile_le)

declare words_of.simps [simp del]

lemma words_simps [simp]:
  "words_of [] = []"
  "\<not> is_word c \<Longrightarrow> words_of (c # cs) = words_of cs"
  "is_word c \<Longrightarrow> words_of (c # cs) = (c # takeWhile is_word cs) # words_of (dropWhile is_word cs)"
  by (simp_all add: words_of.simps)

section \<open>JSON\<close>

definition json_char :: "char \<Rightarrow> string" where
  "json_char c =
     (if c = CHR 0x22 then [CHR 0x5C, CHR 0x22]
      else if c = CHR 0x5C then [CHR 0x5C, CHR 0x5C]
      else if c = CHR 0x08 then CHR 0x5C # ''b''
      else if c = CHR 0x0C then CHR 0x5C # ''f''
      else if c = CHR 0x0A then CHR 0x5C # ''n''
      else if c = CHR 0x0D then CHR 0x5C # ''r''
      else if c = CHR 0x09 then CHR 0x5C # ''t''
      else if (of_char c :: nat) < 32
        then CHR 0x5C # ''u00'' @ [digit_char (of_char c div 16),
          (if (of_char c :: nat) mod 16 < 10 then digit_char (of_char c mod 16) else char_of (87 + (of_char c :: nat) mod 16))]
      else [c])"

definition json_string :: "string \<Rightarrow> string" where
  "json_string s = CHR 0x22 # concat (map json_char s) @ [CHR 0x22]"

text \<open>\<^verbatim>\<open>JSON.stringify(v)\<close>: \<open>None\<close> is \<^verbatim>\<open>undefined\<close>, which an object omits and an array prints as \<^verbatim>\<open>null\<close>.\<close>

fun json_stringify :: "js \<Rightarrow> string option" where
  "json_stringify JUndefined = None"
| "json_stringify JOther = None"
| "json_stringify JNull = Some ''null''"
| "json_stringify (JBool b) = Some (if b then ''true'' else ''false'')"
| "json_stringify (JNumber t) = Some t"
| "json_stringify (JString s) = Some (json_string s)"
| "json_stringify (JDate s) = Some (json_string s)"
| "json_stringify (JArray vs) =
     Some (''['' @ join '','' (map (\<lambda>v. case json_stringify v of None \<Rightarrow> ''null'' | Some t \<Rightarrow> t) vs) @ '']'')"
| "json_stringify (JObject kvs) =
     Some (''{'' @ join '','' (List.map_filter (\<lambda>(k, t). map_option (\<lambda>t. json_string k @ '':'' @ t) t)
       (map (\<lambda>(k, v). (k, json_stringify v)) kvs)) @ ''}'')"

end
