(* ===== verification/Database.thy ===== *)
theory Database
  imports Entities Contract Js_Text
begin

text \<open>
  The store the services work on and the effects they have: the tables with the constraints the
  entities declare, SQL transactions, the clock and the random sources, and the exceptions.

  \<^item> An action that writes through the connection leaves its writes behind even when it throws;
    \<open>transaction\<close> is \<^verbatim>\<open>dataSource.transaction\<close> and takes them back, and it runs the deferred trigger
    that requires every journal entry it inserted to balance before the commit.
  \<^item> Actions are executed one after the other, so row locks have no effect of their own; the races
    the code defends against are given explicitly where it does (theory Event_Ledger).
  \<^item> A row is found by scanning its table; a table holds its rows in insertion order.
  \<^item> What is not under the sources is a field of \<open>externals\<close>; every draw from the clock or from a random
    source has its own index.
\<close>

section \<open>Payloads and exceptions\<close>

datatype MobileMoneyWebhookStatus = Webhook_CONFIRMED | Webhook_FAILED

record MobileMoneyWebhookDto =
  wh_eventId :: string
  wh_aggregatorReference :: string
  wh_status :: MobileMoneyWebhookStatus
  wh_amount :: number
  wh_currency :: string
  wh_occurredAt :: string
  wh_failureReason :: "string option"

record MobileMoneyWebhookEvent =
  we_id :: string
  we_eventId :: string
  we_aggregatorReference :: string
  we_processingStatus :: WebhookProcessingStatus
  we_payload :: MobileMoneyWebhookDto
  we_failureReason :: "string option"
  we_processedAt :: "date option"
  we_createdAt :: date
  we_updatedAt :: date

datatype http_status =
    BadRequest | Unauthorized | Forbidden | NotFound | Conflict | UnprocessableEntity
  | InternalServerError | BadGateway | GatewayTimeout

datatype exn =
    IllegalTransition IllegalTransitionException
  | QueryFailed string string
  | EntityNotFound
  | XsdValidation string "string list"
  | HashFailure hash_error
  | HttpException http_status string
  | SoapFault string string string
  | SoapCommunication string bool nat
  | SoapParsing string
  | ProviderRefundRejected string
  | ProviderRefundUnavailable string
  | BlockchainUnavailable string
  | JsError string

section \<open>What the program calls\<close>

text \<open>
  \<open>party_key_id\<close> is the identifier of the encryption key in force, which the environment gives; it is part
  of what the encrypted columns hold.
\<close>

record exchange =
  ex_operation :: string
  ex_durationMs :: int
  ex_attempts :: int

record ProviderRefundRequest =
  pr_idempotencyKey :: string
  pr_providerReference :: "string option"
  pr_amount :: number
  pr_currency :: string

record externals =
  ethers_of :: ethers
  randomUUID :: "nat \<Rightarrow> string"
  random_salt :: "nat \<Rightarrow> string"
  random_bytes :: "nat \<Rightarrow> nat \<Rightarrow> nat list"
  clock :: "nat \<Rightarrow> date"
  parse_date :: "string \<Rightarrow> date"
  validateXML :: "string \<Rightarrow> string \<Rightarrow> string list"
  hmac_sha256 :: "string \<Rightarrow> string \<Rightarrow> string"
  convertAmountToWords :: "nat \<Rightarrow> number \<Rightarrow> exn + (string \<times> exchange)"
  party_key_id :: string
  provider_refund :: "nat \<Rightarrow> ProviderRefundRequest \<Rightarrow> exn + (string \<times> bool)"
  message_of :: "exn \<Rightarrow> string"

section \<open>The store\<close>

record db =
  db_transactions :: "Transaction list"
  db_events :: "TransactionEvent list"
  db_entries :: "JournalEntry list"
  db_refunds :: "Refund list"
  db_instructions :: "BankInstruction list"
  db_webhooks :: "MobileMoneyWebhookEvent list"
  db_batches :: "AnchorBatch list"

definition empty_db :: db where
  "empty_db = \<lparr>db_transactions = [], db_events = [], db_entries = [], db_refunds = [],
     db_instructions = [], db_webhooks = [], db_batches = []\<rparr>"

text \<open>
  The world of the services: the store, the number of draws made from the clock and the random sources,
  the guards against overlapping runs of the three workers, the correlation identifier of the request, the
  contract on the chain, and what was asked of the bank and of the provider, newest last.
\<close>

record world =
  wd_db :: db
  wd_draws :: nat
  wd_draining :: bool
  wd_retrying :: bool
  wd_anchoring :: bool
  wd_correlationId :: string
  wd_chain :: AuditAnchor
  wd_bank_calls :: "(string \<times> number) list"
  wd_refund_calls :: "ProviderRefundRequest list"

type_synonym 'a io = "(world, exn, 'a) action"

definition on_db :: "(db \<Rightarrow> db) \<Rightarrow> world \<Rightarrow> world" where
  "on_db f w = w\<lparr>wd_db := f (wd_db w)\<rparr>"

text \<open>One draw from an indexed source: the clock, an identifier, a salt, an answer of a remote service.\<close>

definition draw :: "(nat \<Rightarrow> 'a) \<Rightarrow> 'a io" where
  "draw source = (\<lambda>w. (Inr (source (wd_draws w)), w\<lparr>wd_draws := Suc (wd_draws w)\<rparr>))"

definition get_db :: "db io" where
  "get_db = reads wd_db"

subsection \<open>SQL transactions\<close>

definition debits_of :: "JournalLine list \<Rightarrow> int" where
  "debits_of ls = sum_list (map jl_amount (filter (\<lambda>l. jl_direction l = DEBIT) ls))"

definition credits_of :: "JournalLine list \<Rightarrow> int" where
  "credits_of ls = sum_list (map jl_amount (filter (\<lambda>l. jl_direction l = CREDIT) ls))"

text \<open>The trigger function \<^verbatim>\<open>journal_entries_balanced\<close>.\<close>

definition journal_entries_balanced :: "JournalEntry \<Rightarrow> bool" where
  "journal_entries_balanced e \<longleftrightarrow>
     \<not> (debits_of (je_lines e) = 0 \<and> credits_of (je_lines e) = 0) \<and>
     debits_of (je_lines e) = credits_of (je_lines e)"

text \<open>The entries inserted since \<open>d\<close>: the table is append-only, so they are a suffix.\<close>

definition new_entries :: "db \<Rightarrow> db \<Rightarrow> JournalEntry list" where
  "new_entries d d' = drop (length (db_entries d)) (db_entries d')"

definition transaction :: "'a io \<Rightarrow> 'a io" where
  "transaction m =
     (\<lambda>w. case m w of
        (Inl e, w') \<Rightarrow> (Inl e, w'\<lparr>wd_db := wd_db w\<rparr>)
      | (Inr a, w') \<Rightarrow>
          if list_all journal_entries_balanced (new_entries (wd_db w) (wd_db w')) then (Inr a, w')
          else (Inl (QueryFailed ''23001'' ''trg_journal_entries_balanced''), w'\<lparr>wd_db := wd_db w\<rparr>))"

subsection \<open>The table transactions\<close>

definition unique_violation :: "string \<Rightarrow> exn" where
  "unique_violation constraint = QueryFailed ''23505'' constraint"

definition check_violation :: "string \<Rightarrow> exn" where
  "check_violation constraint = QueryFailed ''23514'' constraint"

text \<open>
  A \<^verbatim>\<open>varchar(n)\<close> column counts characters: in UTF-8, the bytes that are not continuation bytes; a longer text is
  refused (an excess of blanks alone, which PostgreSQL cuts off, counts as too long here). The widths of this
  table kept here are those of the columns that receive texts the services compose from errors.
\<close>

definition fits :: "nat \<Rightarrow> string option \<Rightarrow> bool" where
  "fits n v \<longleftrightarrow> (case v of None \<Rightarrow> True | Some s \<Rightarrow> char_length s \<le> n)"

lemma short_fits: "length s \<le> n \<Longrightarrow> fits n (Some s)" "fits n None"
  using char_length_le [of s] by (simp_all add: fits_def)

definition transaction_widths :: "Transaction \<Rightarrow> bool" where
  "transaction_widths t \<longleftrightarrow>
     fits 64 (tx_soapOperation t) \<and> fits 128 (tx_faultCode t) \<and> fits 1024 (tx_faultString t) \<and>
     fits 512 (tx_failureReason t) \<and> fits 512 (tx_reconciliationReason t) \<and> fits 512 (tx_caseReason t)"

text \<open>The constraints a row meets among the other rows; the first one violated is reported.\<close>

definition transaction_constraints :: "Transaction \<Rightarrow> Transaction list \<Rightarrow> exn option" where
  "transaction_constraints t others =
     (if \<not> transaction_widths t then Some (QueryFailed ''22001'' [])
      else if \<not> checks_transactions_state (stateOf t) then Some (check_violation ''CHK_transactions'')
      else if list_ex (\<lambda>r. tx_id r = tx_id t) others
        then Some (unique_violation ''PK_transactions'')
      else if list_ex (\<lambda>r. tx_reference r = tx_reference t) others
        then Some (unique_violation ''UQ_transactions_reference'')
      else if tx_idempotencyKey t \<noteq> None \<and> list_ex (\<lambda>r. tx_idempotencyKey r = tx_idempotencyKey t) others
        then Some (unique_violation ''UQ_transactions_idempotency_key'')
      else if tx_aggregatorReference t \<noteq> None \<and>
              list_ex (\<lambda>r. tx_aggregatorReference r = tx_aggregatorReference t) others
        then Some (unique_violation ''UQ_transactions_aggregator_reference'')
      else None)"

definition put_transaction :: "Transaction \<Rightarrow> db \<Rightarrow> db" where
  "put_transaction t d =
     d\<lparr>db_transactions := map (\<lambda>r. if tx_id r = tx_id t then t else r) (db_transactions d)\<rparr>"

text \<open>\<^verbatim>\<open>save\<close> of an entity: an update when its key is stored, an insertion otherwise.\<close>

definition save_transaction :: "externals \<Rightarrow> Transaction \<Rightarrow> Transaction io" where
  "save_transaction X t =
     bnd (draw (clock X)) (\<lambda>now.
     bnd get_db (\<lambda>d.
       let others = filter (\<lambda>r. tx_id r \<noteq> tx_id t) (db_transactions d);
           stored = length others < length (db_transactions d);
           t' = (if stored then t\<lparr>tx_updatedAt := now, tx_version := tx_version t + 1\<rparr>
                 else t\<lparr>tx_createdAt := now, tx_updatedAt := now, tx_version := 1\<rparr>)
       in case transaction_constraints t' others of
            Some e \<Rightarrow> throw e
          | None \<Rightarrow>
              bnd (modifies (on_db (if stored then put_transaction t'
                     else (\<lambda>d. d\<lparr>db_transactions := db_transactions d @ [t']\<rparr>))))
                (\<lambda>_. ret t')))"

text \<open>
  \<^verbatim>\<open>createQueryBuilder().update(Transaction).set(..).where(id = ..).andWhere(..)\<close>: the number of rows
  affected, which the key bounds by one. No \<^verbatim>\<open>set\<close> clause of the sources names the key.
\<close>

definition update_transaction ::
  "externals \<Rightarrow> string \<Rightarrow> (Transaction \<Rightarrow> bool) \<Rightarrow> (Transaction \<Rightarrow> Transaction) \<Rightarrow> nat io" where
  "update_transaction X tid cond set_clause =
     bnd (draw (clock X)) (\<lambda>now.
     bnd get_db (\<lambda>d.
       case find (\<lambda>r. tx_id r = tid \<and> cond r) (db_transactions d) of
         None \<Rightarrow> ret 0
       | Some r \<Rightarrow>
           let t' = (set_clause r)\<lparr>tx_id := tid, tx_updatedAt := now, tx_version := tx_version r + 1\<rparr>
           in case transaction_constraints t' (filter (\<lambda>r. tx_id r \<noteq> tid) (db_transactions d)) of
                Some e \<Rightarrow> throw e
              | None \<Rightarrow> bnd (modifies (on_db (put_transaction t'))) (\<lambda>_. ret 1)))"

definition findOneBy_id :: "string \<Rightarrow> Transaction option io" where
  "findOneBy_id tid = bnd get_db (\<lambda>d. ret (find (\<lambda>r. tx_id r = tid) (db_transactions d)))"

definition findOneByOrFail_id :: "string \<Rightarrow> Transaction io" where
  "findOneByOrFail_id tid =
     bnd (findOneBy_id tid) (\<lambda>r. case r of None \<Rightarrow> throw EntityNotFound | Some t \<Rightarrow> ret t)"

definition repo_findByReference :: "string \<Rightarrow> Transaction option io" where
  "repo_findByReference reference =
     bnd get_db (\<lambda>d. ret (find (\<lambda>r. tx_reference r = reference) (db_transactions d)))"

definition repo_findByIdempotencyKey :: "string \<Rightarrow> Transaction option io" where
  "repo_findByIdempotencyKey key =
     bnd get_db (\<lambda>d. ret (find (\<lambda>r. tx_idempotencyKey r = Some key) (db_transactions d)))"

definition repo_findByAggregatorReference :: "string \<Rightarrow> Transaction option io" where
  "repo_findByAggregatorReference aggregatorReference =
     bnd get_db (\<lambda>d. ret (find (\<lambda>r. tx_aggregatorReference r = Some aggregatorReference) (db_transactions d)))"

text \<open>\<^verbatim>\<open>haystack.includes(hint)\<close> on the name of the constraint.\<close>

definition str_includes :: "string \<Rightarrow> string \<Rightarrow> bool" where
  "str_includes haystack needle \<longleftrightarrow> sublist needle haystack"

definition repo_isUniqueViolation :: "exn \<Rightarrow> string option \<Rightarrow> bool" where
  "repo_isUniqueViolation error hint =
     (case error of
        QueryFailed code constraint \<Rightarrow>
          code = ''23505'' \<and>
          (case hint of None \<Rightarrow> True
           | Some h \<Rightarrow> h = [] \<or> str_includes (toLowerCase constraint) (toLowerCase h))
      | _ \<Rightarrow> False)"

text \<open>The state machine inside an action.\<close>

definition assert_transition :: "TransactionState \<Rightarrow> Transaction \<Rightarrow> unit io" where
  "assert_transition before t =
     (case assertTransition before (stateOf t) (tx_reference t) of
        Inl e \<Rightarrow> throw (IllegalTransition e) | Inr _ \<Rightarrow> ret ())"

definition assert_initial :: "Transaction \<Rightarrow> unit io" where
  "assert_initial t =
     (case assertInitialState (stateOf t) (tx_reference t) of
        Inl e \<Rightarrow> throw (IllegalTransition e) | Inr _ \<Rightarrow> ret ())"

definition lift_hash :: "hash_error + 'a \<Rightarrow> 'a io" where
  "lift_hash r = (case r of Inl e \<Rightarrow> throw (HashFailure e) | Inr a \<Rightarrow> ret a)"

section \<open>Laws of the primitives\<close>

lemma keeps_draw [keeps_intros]: "(\<And>w. I w \<Longrightarrow> I (w\<lparr>wd_draws := Suc (wd_draws w)\<rparr>)) \<Longrightarrow> keeps I (draw source)"
  by (simp add: keeps_def draw_def)

lemma keeps_get_db [keeps_intros]: "keeps I get_db"
  by (simp add: get_db_def keeps_pure)

lemma keeps_modifies [keeps_intros]: "(\<And>w. I w \<Longrightarrow> I (f w)) \<Longrightarrow> keeps I (modifies f)"
  by (simp add: keeps_def modifies_def)

lemma run_draw [action_simps]: "bnd (draw source) f w = f (source (wd_draws w)) (w\<lparr>wd_draws := Suc (wd_draws w)\<rparr>)"
  by (simp add: bnd_def draw_def)

lemma run_get_db [action_simps]: "bnd get_db f w = f (wd_db w) w"
  by (simp add: bnd_def get_db_def reads_def)

text \<open>
  An invariant of the database alone is kept by an SQL transaction as soon as it is kept by what
  happens inside, and so is any relation to a fixed earlier state that holds at its start.
\<close>

definition db_inv :: "(db \<Rightarrow> bool) \<Rightarrow> world \<Rightarrow> bool" where
  "db_inv P w \<longleftrightarrow> P (wd_db w)"

lemma db_inv_draws [simp]: "db_inv P (w\<lparr>wd_draws := n\<rparr>) = db_inv P w"
  by (simp add: db_inv_def)

lemma db_inv_on_db [simp]: "db_inv P (on_db f w) = P (f (wd_db w))"
  by (simp add: db_inv_def on_db_def)

lemma keeps_db_draw [keeps_intros]: "keeps (db_inv P) (draw source)"
  by (simp add: keeps_def draw_def)

text \<open>An action that keeps every invariant of the database does not write.\<close>

lemma keeps_all_reads:
  assumes "\<And>P. keeps (db_inv P) m" "m w = (r, w')"
  shows "wd_db w' = wd_db w"
proof -
  have "db_inv (\<lambda>d. d = wd_db w) w" by (simp add: db_inv_def)
  from keeps_run [OF assms(1) this assms(2)] show ?thesis by (simp add: db_inv_def)
qed

lemma keeps_transaction [keeps_intros]:
  assumes "keeps (db_inv P) m"
  shows "keeps (db_inv P) (transaction m)"
proof (rule keepsI)
  fix w assume w: "db_inv P w"
  obtain r w' where m: "m w = (r, w')" by (cases "m w")
  have "db_inv P w'" using keeps_run [OF assms w m] .
  then show "db_inv P (snd (transaction m w))"
    using w m by (cases r) (simp_all add: transaction_def db_inv_def)
qed

lemma keeps_db_modifies [keeps_intros]:
  "(\<And>d. P d \<Longrightarrow> P (f d)) \<Longrightarrow> keeps (db_inv P) (modifies (on_db f))"
  by (simp add: keeps_def modifies_def db_inv_def on_db_def)

lemma keeps_assert [keeps_intros]:
  "keeps I (assert_transition before t)" "keeps I (assert_initial t)" "keeps I (lift_hash r)"
  by (simp_all add: assert_transition_def assert_initial_def lift_hash_def keeps_pure split: sum.split)

lemma keeps_find [keeps_intros]:
  "keeps I (findOneBy_id tid)" "keeps I (findOneByOrFail_id tid)"
  "keeps I (repo_findByReference reference)" "keeps I (repo_findByIdempotencyKey key)"
  "keeps I (repo_findByAggregatorReference aggregatorReference)"
  unfolding findOneBy_id_def findOneByOrFail_id_def repo_findByReference_def
    repo_findByIdempotencyKey_def repo_findByAggregatorReference_def
  by (intro keeps_intros)+

lemma throws_primitives [throws_intros]: "throws P (draw source)" "throws P get_db"
  by (simp_all add: throws_def draw_def get_db_def reads_def)

lemma throws_transaction [throws_intros]:
  "throws P m \<Longrightarrow> P (QueryFailed ''23001'' ''trg_journal_entries_balanced'') \<Longrightarrow> throws P (transaction m)"
  by (fastforce simp: throws_def transaction_def split: prod.splits sum.splits if_splits)

text \<open>A committed transaction adds balanced entries only.\<close>

lemma transaction_commit:
  "transaction m w = (Inr a, w') \<Longrightarrow>
   m w = (Inr a, w') \<and> list_all journal_entries_balanced (new_entries (wd_db w) (wd_db w'))"
  by (auto simp: transaction_def split: prod.splits sum.splits if_splits)

lemma transaction_abort: "transaction m w = (Inl e, w') \<Longrightarrow> wd_db w' = wd_db w"
  by (auto simp: transaction_def split: prod.splits sum.splits if_splits)

end
