(* ===== verification/Posting.thy ===== *)
theory Posting
  imports Database
begin

text \<open>
  Double-entry accounting: \<^verbatim>\<open>accounting/posting-rules.ts\<close>, \<^verbatim>\<open>accounting/ledger-posting.service.ts\<close>, the
  triggers of \<^verbatim>\<open>accounting/ledger-guards.ts\<close>. A rule computes its lines in floating point; the column
  turns each amount into cents, and balance is a statement about the stored cents.
\<close>

section \<open>Posting rules\<close>

record PostingLine =
  pl_account :: LedgerAccount
  pl_direction :: EntryDirection
  pl_amount :: number

record PostingContext =
  pc_ordered :: number
  pc_observed :: "number option"
  pc_fee :: number

definition debit :: "LedgerAccount \<Rightarrow> number \<Rightarrow> PostingLine" where
  "debit account amount = \<lparr>pl_account = account, pl_direction = DEBIT, pl_amount = amount\<rparr>"

definition credit :: "LedgerAccount \<Rightarrow> number \<Rightarrow> PostingLine" where
  "credit account amount = \<lparr>pl_account = account, pl_direction = CREDIT, pl_amount = amount\<rparr>"

definition withoutZeros :: "PostingLine list \<Rightarrow> PostingLine list" where
  "withoutZeros ls = filter (\<lambda>l. js_lt (Fin 0) (pl_amount l)) ls"

definition observed_or_ordered :: "PostingContext \<Rightarrow> number" where
  "observed_or_ordered c = (case pc_observed c of Some a \<Rightarrow> a | None \<Rightarrow> pc_ordered c)"

fun POSTING_RULES :: "TransactionEventType \<Rightarrow> (string \<times> (PostingContext \<Rightarrow> PostingLine list)) option" where
  "POSTING_RULES PROVIDER_CONFIRMED =
     Some (''Encaissement fournisseur, commission retenue'', \<lambda>c.
       let collected = observed_or_ordered c in
       withoutZeros [debit PROVIDER_FLOAT collected,
                     credit CREDITOR_PAYABLE (js_sub collected (pc_fee c)),
                     credit FEE_REVENUE (pc_fee c)])"
| "POSTING_RULES AMOUNT_MISMATCH_DETECTED =
     Some (''Encaissement non conforme : dette envers le payeur'', \<lambda>c.
       let collected = observed_or_ordered c in
       withoutZeros [debit PROVIDER_FLOAT collected, credit PAYER_PAYABLE collected])"
| "POSTING_RULES SETTLEMENT_SWEPT =
     Some (''Rapatriement agregateur vers compte de reglement'', \<lambda>c.
       let swept = observed_or_ordered c in
       withoutZeros [debit SETTLEMENT swept, credit PROVIDER_FLOAT swept])"
| "POSTING_RULES BANK_PROCESSING_COMPLETED =
     Some (''Reglement du beneficiaire'', \<lambda>c.
       withoutZeros [debit CREDITOR_PAYABLE (js_sub (pc_ordered c) (pc_fee c)),
                     credit SETTLEMENT (js_sub (pc_ordered c) (pc_fee c))])"
| "POSTING_RULES BANK_PROCESSING_FAILED =
     Some (''Echec bancaire : la dette passe du beneficiaire au payeur'', \<lambda>c.
       withoutZeros [debit CREDITOR_PAYABLE (js_sub (pc_ordered c) (pc_fee c)),
                     debit FEE_REVENUE (pc_fee c),
                     credit PAYER_PAYABLE (pc_ordered c)])"
| "POSTING_RULES REFUND_COMPLETED =
     Some (''Remboursement du payeur'', \<lambda>c.
       let refunded = observed_or_ordered c in
       withoutZeros [debit PAYER_PAYABLE refunded, credit PROVIDER_FLOAT refunded])"
| "POSTING_RULES _ = None"

section \<open>Posting an event\<close>

text \<open>A line as the table holds it.\<close>

definition store_line :: "PostingLine \<Rightarrow> JournalLine option" where
  "store_line l =
     map_option (\<lambda>c. \<lparr>jl_account = pl_account l, jl_direction = pl_direction l, jl_amount = c\<rparr>)
       (store_numeric (pl_amount l))"

definition store_lines :: "PostingLine list \<Rightarrow> JournalLine list option" where
  "store_lines ls = those (map store_line ls)"

text \<open>Insertion of an entry with its lines.\<close>

definition insert_entry :: "JournalEntry \<Rightarrow> PostingLine list \<Rightarrow> JournalEntry io" where
  "insert_entry entry ls =
     bnd get_db (\<lambda>d.
       case store_lines ls of
         None \<Rightarrow> throw (QueryFailed ''22003'' ''journal_lines'')
       | Some rows \<Rightarrow>
           if list_ex (\<lambda>e. je_eventId e = je_eventId entry) (db_entries d)
             then throw (unique_violation ''uq_journal_entries_event'')
           else if \<not> list_ex (\<lambda>e. ev_id e = je_eventId entry) (db_events d)
             then throw (QueryFailed ''23503'' ''FK_journal_entries_event'')
           else if \<not> list_all (\<lambda>l. 0 < jl_amount l) rows
             then throw (check_violation ''CHK_journal_lines_amount_positive'')
           else
             let entry' = entry\<lparr>je_lines := rows\<rparr> in
             bnd (modifies (on_db (\<lambda>d. d\<lparr>db_entries := db_entries d @ [entry']\<rparr>))) (\<lambda>_. ret entry'))"

definition post :: "externals \<Rightarrow> TransactionEvent \<Rightarrow> Transaction \<Rightarrow> JournalEntry option io" where
  "post X event t =
     (if tx_paymentChannel t \<noteq> MOBILE_MONEY then ret None
      else case POSTING_RULES (ev_eventType event) of
        None \<Rightarrow> ret None
      | Some (narration, rule) \<Rightarrow>
          let ls = rule \<lparr>pc_ordered = ev_expectedAmount event, pc_observed = ev_observedAmount event,
                         pc_fee = tx_feeAmount t\<rparr> in
          if ls = [] then ret None
          else
            bnd (draw (randomUUID X)) (\<lambda>entry_id.
            bnd (draw (clock X)) (\<lambda>now.
            bnd (insert_entry
                  \<lparr>je_id = entry_id, je_transactionReference = ev_transactionReference event,
                   je_eventId = ev_id event, je_eventType = ev_eventType event,
                   je_narration = narration, je_currency = ev_currency event, je_lines = [],
                   je_correlationId = ev_correlationId event, je_occurredAt = ev_occurredAt event,
                   je_createdAt = now\<rparr> ls) (\<lambda>saved.
            ret (Some saved)))))"

text \<open>
  The accounting consequence of an event, as a relation: the lines its rule gives, stored in one entry that refers
  to the event; none when no rule applies or its lines are all zero.
\<close>

definition posted_lines :: "TransactionEvent \<Rightarrow> Transaction \<Rightarrow> PostingLine list" where
  "posted_lines event t =
     (if tx_paymentChannel t \<noteq> MOBILE_MONEY then []
      else case POSTING_RULES (ev_eventType event) of
        None \<Rightarrow> []
      | Some (narration, rule) \<Rightarrow>
          rule \<lparr>pc_ordered = ev_expectedAmount event, pc_observed = ev_observedAmount event, pc_fee = tx_feeAmount t\<rparr>)"

definition accounted :: "TransactionEvent \<Rightarrow> Transaction \<Rightarrow> JournalEntry list \<Rightarrow> bool" where
  "accounted event t entries \<longleftrightarrow>
     (if posted_lines event t = [] then entries = []
      else \<exists>en. entries = [en] \<and> je_eventId en = ev_id event \<and>
        je_transactionReference en = ev_transactionReference event \<and> je_eventType en = ev_eventType event \<and>
        je_currency en = ev_currency event \<and> store_lines (posted_lines event t) = Some (je_lines en) \<and>
        list_all (\<lambda>l. 0 < jl_amount l) (je_lines en))"

lemma post_accounts:
  assumes "post X event t w = (r, w')"
  shows "case r of Inl _ \<Rightarrow> wd_db w' = wd_db w
    | Inr _ \<Rightarrow> \<exists>es. wd_db w' = (wd_db w)\<lparr>db_entries := db_entries (wd_db w) @ es\<rparr> \<and> accounted event t es"
  using assms
  by (auto simp: post_def insert_entry_def posted_lines_def accounted_def action_simps Let_def on_db_def
      split: if_splits option.splits prod.splits)
     (rule exI, rule conjI, rule refl, simp)+

definition findByTransaction :: "db \<Rightarrow> string \<Rightarrow> JournalEntry list" where
  "findByTransaction d reference =
     sort_key je_occurredAt (sort_key je_createdAt
       (filter (\<lambda>e. je_transactionReference e = reference) (db_entries d)))"

section \<open>Trial balance\<close>

definition balanceOf :: "LedgerAccount \<Rightarrow> number \<Rightarrow> number \<Rightarrow> number" where
  "balanceOf account debits credits =
     (if ACCOUNT_KINDS account = ASSET then js_sub debits credits else js_sub credits debits)"

record AccountBalance =
  bal_account :: LedgerAccount
  bal_debits :: number
  bal_credits :: number
  bal_balance :: number

record TrialBalance =
  tb_accounts :: "AccountBalance list"
  tb_totalDebits :: number
  tb_totalCredits :: number
  tb_difference :: number
  tb_currency :: "string option"
  tb_entryCount :: nat

text \<open>
  The rows \<^verbatim>\<open>SUM(line.amount) GROUP BY line.account, line.direction\<close> as a function: the exact sum in
  cents, and nothing for a group without a line. The accounts come in the order of their names.
\<close>

definition group_total :: "JournalLine list \<Rightarrow> LedgerAccount \<Rightarrow> EntryDirection \<Rightarrow> int option" where
  "group_total ls account direction =
     (let g = filter (\<lambda>l. jl_account l = account \<and> jl_direction l = direction) ls in
      if g = [] then None else Some (sum_list (map jl_amount g)))"

definition bucket_total :: "JournalLine list \<Rightarrow> LedgerAccount \<Rightarrow> EntryDirection \<Rightarrow> number" where
  "bucket_total ls account direction =
     (case group_total ls account direction of
        None \<Rightarrow> Fin 0 | Some cents \<Rightarrow> js_add (Fin 0) (of_cents cents))"

definition accounts_by_name :: "LedgerAccount list" where
  "accounts_by_name = [CREDITOR_PAYABLE, FEE_REVENUE, PAYER_PAYABLE, PROVIDER_FLOAT, SETTLEMENT]"

definition account_balances :: "JournalLine list \<Rightarrow> AccountBalance list" where
  "account_balances ls =
     map (\<lambda>account.
            let debits = bucket_total ls account DEBIT; credits = bucket_total ls account CREDIT in
            \<lparr>bal_account = account, bal_debits = roundToCent debits, bal_credits = roundToCent credits,
             bal_balance = roundToCent (balanceOf account debits credits)\<rparr>)
       (filter (\<lambda>account. list_ex (\<lambda>l. jl_account l = account) ls) accounts_by_name)"

definition sum_numbers :: "number list \<Rightarrow> number" where
  "sum_numbers ns = foldl js_add (Fin 0) ns"

definition trialBalance :: "db \<Rightarrow> string option \<Rightarrow> string option \<Rightarrow> exn + TrialBalance" where
  "trialBalance d transactionReference requestedCurrency =
     (let reference = (case transactionReference of Some r \<Rightarrow> if r = [] then None else Some r | None \<Rightarrow> None);
          currency = (case requestedCurrency of
                        Some c \<Rightarrow> if toUpperCase (trim c) = [] then None else Some (toUpperCase (trim c))
                      | None \<Rightarrow> None);
          entries = filter (\<lambda>e. (case reference of Some r \<Rightarrow> je_transactionReference e = r | None \<Rightarrow> True) \<and>
                                (case currency of Some c \<Rightarrow> je_currency e = c | None \<Rightarrow> True)) (db_entries d);
          currencies = remdups (map je_currency entries)
      in if currency = None \<and> reference = None \<and> 1 < length currencies
         then Inl (HttpException BadRequest ''balance'')
         else
           let accounts = account_balances (concat (map je_lines entries));
               totalDebits = roundToCent (sum_numbers (map bal_debits accounts));
               totalCredits = roundToCent (sum_numbers (map bal_credits accounts))
           in Inr \<lparr>tb_accounts = accounts, tb_totalDebits = totalDebits, tb_totalCredits = totalCredits,
                   tb_difference = roundToCent (js_sub totalDebits totalCredits),
                   tb_currency = (case currency of Some c \<Rightarrow> Some c
                                  | None \<Rightarrow> if currencies = [] then None else Some (hd currencies)),
                   tb_entryCount = length entries\<rparr>)"

section \<open>Stored lines of a rule\<close>

lemma js_lt_0_cents:
  assumes "0 \<le> c" "c \<le> max_cents"
  shows "js_lt (Fin 0) (of_cents c) \<longleftrightarrow> 0 < c"
proof (cases "c = 0")
  case False
  then have "1 \<le> c" using assms by simp
  moreover obtain x where x: "of_cents c = Fin x" using of_cents_near [of c] assms by auto
  ultimately show ?thesis using of_cents_pos [OF _ assms(2) x] x by simp
qed simp

lemma js_lt_0_sub:
  assumes "0 \<le> b" "b \<le> a" "a \<le> max_cents"
  shows "js_lt (Fin 0) (js_sub (of_cents a) (of_cents b)) \<longleftrightarrow> b < a"
proof -
  obtain z where z: "js_sub (of_cents a) (of_cents b) = Fin z" "a = b \<longrightarrow> z = 0"
    by (rule js_sub_near [OF assms])
  then show ?thesis using js_sub_pos [OF assms(1) _ assms(3) z(1)] assms by (cases "a = b") simp_all
qed

text \<open>The lines of an event whose amounts are whole cents, in cents.\<close>

definition cents_line :: "LedgerAccount \<Rightarrow> EntryDirection \<Rightarrow> int \<Rightarrow> JournalLine list" where
  "cents_line account direction c =
     (if 0 < c then [\<lparr>jl_account = account, jl_direction = direction, jl_amount = c\<rparr>] else [])"

fun cents_lines :: "TransactionEventType \<Rightarrow> int \<Rightarrow> int option \<Rightarrow> int \<Rightarrow> JournalLine list" where
  "cents_lines PROVIDER_CONFIRMED ordered observed fee =
     (let collected = (case observed of Some a \<Rightarrow> a | None \<Rightarrow> ordered) in
      cents_line PROVIDER_FLOAT DEBIT collected @ cents_line CREDITOR_PAYABLE CREDIT (collected - fee)
      @ cents_line FEE_REVENUE CREDIT fee)"
| "cents_lines AMOUNT_MISMATCH_DETECTED ordered observed fee =
     (let collected = (case observed of Some a \<Rightarrow> a | None \<Rightarrow> ordered) in
      cents_line PROVIDER_FLOAT DEBIT collected @ cents_line PAYER_PAYABLE CREDIT collected)"
| "cents_lines SETTLEMENT_SWEPT ordered observed fee =
     (let swept = (case observed of Some a \<Rightarrow> a | None \<Rightarrow> ordered) in
      cents_line SETTLEMENT DEBIT swept @ cents_line PROVIDER_FLOAT CREDIT swept)"
| "cents_lines BANK_PROCESSING_COMPLETED ordered observed fee =
     cents_line CREDITOR_PAYABLE DEBIT (ordered - fee) @ cents_line SETTLEMENT CREDIT (ordered - fee)"
| "cents_lines BANK_PROCESSING_FAILED ordered observed fee =
     cents_line CREDITOR_PAYABLE DEBIT (ordered - fee) @ cents_line FEE_REVENUE DEBIT fee
     @ cents_line PAYER_PAYABLE CREDIT ordered"
| "cents_lines REFUND_COMPLETED ordered observed fee =
     (let refunded = (case observed of Some a \<Rightarrow> a | None \<Rightarrow> ordered) in
      cents_line PAYER_PAYABLE DEBIT refunded @ cents_line PROVIDER_FLOAT CREDIT refunded)"
| "cents_lines _ ordered observed fee = []"

text \<open>The bounds under which amounts are exact and no line would be negative.\<close>

definition cents_ok :: "int \<Rightarrow> int option \<Rightarrow> int \<Rightarrow> bool" where
  "cents_ok ordered observed fee \<longleftrightarrow>
     0 \<le> fee \<and> fee \<le> ordered \<and> ordered \<le> max_cents \<and>
     (case observed of None \<Rightarrow> True | Some a \<Rightarrow> fee \<le> a \<and> a \<le> max_cents)"

definition cents_context :: "int \<Rightarrow> int option \<Rightarrow> int \<Rightarrow> PostingContext" where
  "cents_context ordered observed fee =
     \<lparr>pc_ordered = of_cents ordered, pc_observed = map_option of_cents observed, pc_fee = of_cents fee\<rparr>"

lemma store_lines_append:
  "store_lines xs = Some a \<Longrightarrow> store_lines ys = Some b \<Longrightarrow> store_lines (xs @ ys) = Some (a @ b)"
  by (induction xs arbitrary: a) (auto simp: store_lines_def split: option.splits)

lemma store_one:
  assumes "store_numeric n = Some c" "js_lt (Fin 0) n \<longleftrightarrow> 0 < c"
  shows "store_lines (withoutZeros [\<lparr>pl_account = a, pl_direction = dir, pl_amount = n\<rparr>]) = Some (cents_line a dir c)"
  using assms by (simp add: store_lines_def withoutZeros_def store_line_def cents_line_def)

lemma withoutZeros_Cons: "withoutZeros (l # ls) = withoutZeros [l] @ withoutZeros ls"
  by (simp add: withoutZeros_def)

lemma store_debit_credit:
  assumes "0 \<le> c" "c \<le> max_cents"
  shows "store_lines (withoutZeros [debit a (of_cents c)]) = Some (cents_line a DEBIT c)"
    "store_lines (withoutZeros [credit a (of_cents c)]) = Some (cents_line a CREDIT c)"
  using store_one [OF store_numeric_cents [OF assms] js_lt_0_cents [OF assms]]
  by (simp_all add: debit_def credit_def)

lemma store_debit_credit_sub:
  assumes "0 \<le> f" "f \<le> c" "c \<le> max_cents"
  shows "store_lines (withoutZeros [debit a (js_sub (of_cents c) (of_cents f))]) = Some (cents_line a DEBIT (c - f))"
    "store_lines (withoutZeros [credit a (js_sub (of_cents c) (of_cents f))]) = Some (cents_line a CREDIT (c - f))"
  using store_one [OF store_numeric_sub [OF assms]] js_lt_0_sub [OF assms]
  by (simp_all add: debit_def credit_def)

lemma store_two:
  "store_lines (withoutZeros [x]) = Some a \<Longrightarrow> store_lines (withoutZeros [y]) = Some b \<Longrightarrow>
   store_lines (withoutZeros [x, y]) = Some (a @ b)"
  using store_lines_append by (metis withoutZeros_Cons)

lemma store_three:
  "store_lines (withoutZeros [x]) = Some a \<Longrightarrow> store_lines (withoutZeros [y]) = Some b \<Longrightarrow>
   store_lines (withoutZeros [z]) = Some c \<Longrightarrow> store_lines (withoutZeros [x, y, z]) = Some (a @ b @ c)"
  using store_lines_append store_two by (metis withoutZeros_Cons)

lemma rule_stores_cents:
  assumes ok: "cents_ok ordered observed fee" and rule: "POSTING_RULES ty = Some (narration, rule)"
  shows "store_lines (rule (cents_context ordered observed fee)) = Some (cents_lines ty ordered observed fee)"
proof -
  define collected where "collected = (case observed of Some a \<Rightarrow> a | None \<Rightarrow> ordered)"
  have obs: "observed_or_ordered (cents_context ordered observed fee) = of_cents collected"
    by (cases observed) (simp_all add: observed_or_ordered_def cents_context_def collected_def)
  have c: "0 \<le> fee" "fee \<le> collected" "collected \<le> max_cents" "fee \<le> ordered" "ordered \<le> max_cents"
    "0 \<le> collected" "0 \<le> ordered" "fee \<le> max_cents"
    using ok by (cases observed; simp add: cents_ok_def collected_def)+
  note one = store_debit_credit [OF c(6,3)] store_debit_credit [OF c(7,5)] store_debit_credit [OF c(1,8)]
    store_debit_credit_sub [OF c(1,2,3)] store_debit_credit_sub [OF c(1,4,5)]
  have ctx: "pc_ordered (cents_context ordered observed fee) = of_cents ordered"
    "pc_fee (cents_context ordered observed fee) = of_cents fee" by (simp_all add: cents_context_def)
  show ?thesis
    using rule by (cases ty) (auto simp: obs ctx Let_def collected_def [symmetric] intro!: store_two store_three one)
qed

section \<open>Balance\<close>

lemma debits_simps [simp]:
  "debits_of [] = 0" "credits_of [] = 0"
  "debits_of (xs @ ys) = debits_of xs + debits_of ys" "credits_of (xs @ ys) = credits_of xs + credits_of ys"
  by (simp_all add: debits_of_def credits_of_def)

lemma cents_line_totals [simp]:
  "0 \<le> c \<Longrightarrow> debits_of (cents_line a DEBIT c) = c" "credits_of (cents_line a DEBIT c) = 0"
  "0 \<le> c \<Longrightarrow> credits_of (cents_line a CREDIT c) = c" "debits_of (cents_line a CREDIT c) = 0"
  by (simp_all add: cents_line_def debits_of_def credits_of_def)

lemma cents_lines_balanced:
  "cents_ok ordered observed fee \<Longrightarrow>
   debits_of (cents_lines ty ordered observed fee) = credits_of (cents_lines ty ordered observed fee)"
  by (cases ty; cases observed) (simp_all add: cents_ok_def Let_def)

lemma cents_lines_positive: "l \<in> set (cents_lines ty ordered observed fee) \<Longrightarrow> 0 < jl_amount l"
  by (cases ty) (auto simp: cents_line_def Let_def split: if_splits option.splits)


definition account_net :: "LedgerAccount \<Rightarrow> JournalLine list \<Rightarrow> int" where
  "account_net account ls =
     debits_of (filter (\<lambda>l. jl_account l = account) ls) - credits_of (filter (\<lambda>l. jl_account l = account) ls)"

lemma account_net_append [simp]: "account_net a (xs @ ys) = account_net a xs + account_net a ys"
  by (simp add: account_net_def)

lemma account_net_cents_line [simp]:
  "0 \<le> c \<Longrightarrow> account_net a (cents_line b DEBIT c) = (if a = b then c else 0)"
  "0 \<le> c \<Longrightarrow> account_net a (cents_line b CREDIT c) = (if a = b then - c else 0)"
  "account_net a [] = 0"
  by (auto simp: account_net_def cents_line_def debits_of_def credits_of_def)

text \<open>The lines stored for a list of events of one transaction, each with the amount it observed.\<close>

fun posted :: "int \<Rightarrow> int \<Rightarrow> (TransactionEventType \<times> int option) list \<Rightarrow> JournalLine list option" where
  "posted ordered fee [] = Some []"
| "posted ordered fee ((ty, observed) # rest) =
     (case POSTING_RULES ty of
        None \<Rightarrow> posted ordered fee rest
      | Some (narration, rule) \<Rightarrow>
          (case store_lines (rule (cents_context ordered observed fee)) of
             None \<Rightarrow> None
           | Some ls \<Rightarrow> map_option ((@) ls) (posted ordered fee rest)))"

lemma posted_step:
  assumes "cents_ok ordered observed fee" "POSTING_RULES ty \<noteq> None" "posted ordered fee rest = Some ls"
  shows "posted ordered fee ((ty, observed) # rest) = Some (cents_lines ty ordered observed fee @ ls)"
proof -
  obtain narration rule where r: "POSTING_RULES ty = Some (narration, rule)" using assms(2) by auto
  then show ?thesis using rule_stores_cents [OF assms(1) r] assms(3) by simp
qed

subsection \<open>The trial balance\<close>

lemma sum_cents_close:
  assumes "0 \<le> a" "list_all (\<lambda>c. 0 \<le> c) cs" "a + sum_list cs \<le> max_cents"
    "\<bar>s * 100 - of_int a\<bar> \<le> e" "e + of_nat (length cs) / 15 \<le> 1 / 2"
  shows "\<exists>t. foldl js_add (Fin s) (map of_cents cs) = Fin t \<and>
             \<bar>t * 100 - of_int (a + sum_list cs)\<bar> \<le> e + of_nat (length cs) / 15"
  using assms
proof (induction cs arbitrary: a s e)
  case (Cons c cs)
  have c: "0 \<le> c" "list_all (\<lambda>c. 0 \<le> c) cs" using Cons.prems by simp_all
  have pos: "0 \<le> sum_list cs" using c(2) by (induction cs) simp_all
  have n: "of_nat (length (c # cs)) / 15 = 1 / 15 + of_nat (length cs) / (15 :: rat)"
    by (simp add: add_divide_distrib)
  have e: "e + (1 / 15 + of_nat (length cs) / 15) \<le> 1 / 2" using Cons.prems(5) unfolding n .
  moreover have "0 \<le> of_nat (length cs) / (15 :: rat)" by simp
  ultimately have "e \<le> 1 / 2" by linarith
  moreover have "a + c \<le> max_cents" using Cons.prems(3) pos by simp
  ultimately obtain t where t: "js_add (Fin s) (of_cents c) = Fin t" "\<bar>t * 100 - of_int (a + c)\<bar> \<le> e + 1 / 15"
    using add_cents_close [OF Cons.prems(1) c(1) _ Cons.prems(4)] by blast
  have "\<exists>t'. foldl js_add (Fin t) (map of_cents cs) = Fin t' \<and>
          \<bar>t' * 100 - of_int (a + c + sum_list cs)\<bar> \<le> (e + 1 / 15) + of_nat (length cs) / 15"
    using Cons.prems c t(2) e by (intro Cons.IH) (simp_all add: add.assoc)
  then show ?case using t(1) by (simp add: add.assoc add_divide_distrib)
qed auto

lemma round_sum_cents:
  assumes "list_all (\<lambda>c. 0 \<le> c) cs" "sum_list cs \<le> max_cents" "length cs \<le> 5"
  shows "roundToCent (sum_numbers (map of_cents cs)) = of_cents (sum_list cs)"
proof -
  have n: "of_nat (length cs) / (15 :: rat) \<le> 1 / 3" using assms(3) by simp
  then have "\<exists>t. foldl js_add (Fin 0) (map of_cents cs) = Fin t \<and>
      \<bar>t * 100 - of_int (0 + sum_list cs)\<bar> \<le> 0 + of_nat (length cs) / 15"
    using assms by (intro sum_cents_close) auto
  then obtain t where t: "sum_numbers (map of_cents cs) = Fin t" "\<bar>t * 100 - of_int (sum_list cs)\<bar> \<le> 1 / 3"
    using n unfolding sum_numbers_def by fastforce
  have "0 \<le> sum_list cs" using assms(1) by (induction cs) simp_all
  then show ?thesis using roundToCent_close [of "sum_list cs" t] assms(2) t by simp
qed


definition group_sum :: "JournalLine list \<Rightarrow> EntryDirection \<Rightarrow> LedgerAccount \<Rightarrow> int" where
  "group_sum ls dir account =
     sum_list (map jl_amount (filter (\<lambda>l. jl_account l = account \<and> jl_direction l = dir) ls))"

lemma group_sum_nonneg: "\<forall>l\<in>set ls. 0 < jl_amount l \<Longrightarrow> 0 \<le> group_sum ls dir account"
  by (fastforce simp: group_sum_def intro: sum_list_nonneg)

definition side_sum :: "JournalLine list \<Rightarrow> EntryDirection \<Rightarrow> int" where
  "side_sum ls dir = sum_list (map jl_amount (filter (\<lambda>l. jl_direction l = dir) ls))"

lemma group_sums:
  "sum_list (map (group_sum ls dir) (filter (\<lambda>a. list_ex (\<lambda>l. jl_account l = a) ls) accounts_by_name)) =
   side_sum ls dir"
proof -
  define p where "p a = list_ex (\<lambda>l. jl_account l = a) ls" for a
  have "\<not> p a \<Longrightarrow> group_sum ls dir a = 0" for a
    by (auto simp: p_def group_sum_def list_ex_iff filter_empty_conv intro!: arg_cong [where f = sum_list])
  then have "sum_list (map (group_sum ls dir) (filter p accounts_by_name)) =
      sum_list (map (group_sum ls dir) accounts_by_name)"
    by (simp add: accounts_by_name_def)
  also have "\<dots> = side_sum ls dir"
  proof (induction ls)
    case (Cons l ls)
    then show ?case by (cases "jl_account l") (simp_all add: group_sum_def side_sum_def accounts_by_name_def)
  qed (simp add: group_sum_def side_sum_def accounts_by_name_def)
  finally show ?thesis unfolding p_def .
qed

lemma add_zero_cents:
  assumes "0 \<le> c" "c \<le> max_cents"
  shows "roundToCent (js_add (Fin 0) (of_cents c)) = of_cents c"
  using round_sum_cents [of "[c]"] assms by (simp add: sum_numbers_def)

lemma round_bucket_total:
  assumes "\<forall>l\<in>set ls. 0 < jl_amount l" "group_sum ls dir account \<le> max_cents"
  shows "roundToCent (bucket_total ls account dir) = of_cents (group_sum ls dir account)"
proof -
  have g: "0 \<le> group_sum ls dir account" by (rule group_sum_nonneg [OF assms(1)])
  show ?thesis
  proof (cases "filter (\<lambda>l. jl_account l = account \<and> jl_direction l = dir) ls = []")
    case True
    then have "group_sum ls dir account = 0" by (simp add: group_sum_def)
    moreover have "roundToCent (of_cents 0) = of_cents 0" using roundToCent_close [of 0 0] by simp
    ultimately show ?thesis using True by (simp add: bucket_total_def group_total_def)
  next
    case False
    then have "bucket_total ls account dir = js_add (Fin 0) (of_cents (group_sum ls dir account))"
      by (simp add: bucket_total_def group_total_def group_sum_def Let_def)
    then show ?thesis using add_zero_cents [OF g assms(2)] by simp
  qed
qed

lemma group_le_side:
  assumes "\<forall>l\<in>set ls. 0 < jl_amount l"
  shows "group_sum ls dir account \<le> side_sum ls dir"
  using assms by (induction ls) (auto simp: group_sum_def side_sum_def)

lemma trial_totals:
  assumes pos: "\<forall>l\<in>set ls. 0 < jl_amount l" and bound: "side_sum ls dir \<le> max_cents"
  shows "roundToCent (sum_numbers (map (\<lambda>a. roundToCent (bucket_total ls a dir))
           (filter (\<lambda>a. list_ex (\<lambda>l. jl_account l = a) ls) accounts_by_name))) = of_cents (side_sum ls dir)"
proof -
  define as where "as = filter (\<lambda>a. list_ex (\<lambda>l. jl_account l = a) ls) accounts_by_name"
  have "roundToCent (bucket_total ls a dir) = of_cents (group_sum ls dir a)" for a
    using round_bucket_total [OF pos] order_trans [OF group_le_side [OF pos] bound] .
  then have eq: "map (\<lambda>a. roundToCent (bucket_total ls a dir)) as = map of_cents (map (group_sum ls dir) as)"
    by simp
  have "sum_list (map (group_sum ls dir) as) = side_sum ls dir" unfolding as_def by (rule group_sums)
  moreover have "length as \<le> 5"
    unfolding as_def by (rule order_trans [OF length_filter_le]) (simp add: accounts_by_name_def)
  moreover have "list_all (\<lambda>c. 0 \<le> c) (map (group_sum ls dir) as)"
    using group_sum_nonneg [OF pos] by (simp add: list_all_iff)
  ultimately show ?thesis
    using round_sum_cents [of "map (group_sum ls dir) as"] bound
    unfolding as_def [symmetric] eq by simp
qed

lemma side_sums: "side_sum ls DEBIT = debits_of ls" "side_sum ls CREDIT = credits_of ls"
  by (simp_all add: side_sum_def debits_of_def credits_of_def)

lemma balanced_concat:
  "list_all journal_entries_balanced es \<Longrightarrow>
   debits_of (concat (map je_lines es)) = credits_of (concat (map je_lines es))"
  by (induction es) (simp_all add: journal_entries_balanced_def)

text \<open>The entries the report ranges over.\<close>

definition selected_entries :: "db \<Rightarrow> string option \<Rightarrow> string option \<Rightarrow> JournalEntry list" where
  "selected_entries d reference currency =
     filter (\<lambda>e. (reference \<in> {None, Some []} \<or> reference = Some (je_transactionReference e)) \<and>
                 (case currency of
                    None \<Rightarrow> True
                  | Some c \<Rightarrow> toUpperCase (trim c) = [] \<or> je_currency e = toUpperCase (trim c))) (db_entries d)"

lemma trialBalance_runs:
  assumes "trialBalance d reference currency = Inr tb"
  shows "let ls = concat (map je_lines (selected_entries d reference currency)) in
    tb_totalDebits tb = roundToCent (sum_numbers (map bal_debits (account_balances ls))) \<and>
    tb_totalCredits tb = roundToCent (sum_numbers (map bal_credits (account_balances ls))) \<and>
    tb_difference tb = roundToCent (js_sub (tb_totalDebits tb) (tb_totalCredits tb)) \<and>
    tb_entryCount tb = length (selected_entries d reference currency)"
proof -
  have sel: "filter (\<lambda>e. (case (case reference of Some r \<Rightarrow> if r = [] then None else Some r | None \<Rightarrow> None) of
                 Some r \<Rightarrow> je_transactionReference e = r | None \<Rightarrow> True) \<and>
               (case (case currency of
                        Some c \<Rightarrow> if toUpperCase (trim c) = [] then None else Some (toUpperCase (trim c))
                      | None \<Rightarrow> None) of Some c \<Rightarrow> je_currency e = c | None \<Rightarrow> True)) (db_entries d)
        = selected_entries d reference currency"
    unfolding selected_entries_def by (rule filter_cong) (auto split: option.split)
  show ?thesis
    using assms unfolding trialBalance_def Let_def sel by (auto split: if_splits)
qed

section \<open>Properties\<close>

text \<open>
  C10. Every posting rule is balanced in the cents that are stored: on amounts of whole cents with a
  commission within them, the floating point lines of each rule are stored with equal debits and
  credits and with positive amounts only, so the deferred trigger and the line constraint accept
  them, even though the credited share is a binary floating point difference.
\<close>

theorem posting_rules_balanced:
  assumes "cents_ok ordered observed fee" "POSTING_RULES ty = Some (narration, rule)"
  shows "\<exists>ls. store_lines (rule (cents_context ordered observed fee)) = Some ls \<and>
              debits_of ls = credits_of ls \<and> (\<forall>l\<in>set ls. 0 < jl_amount l)"
  using rule_stores_cents [OF assms] cents_lines_balanced [OF assms(1)] cents_lines_positive by blast

theorem posting_rules_balanced_witness:
  "\<exists>ls. store_lines ((\<lambda>c. let collected = observed_or_ordered c in
       withoutZeros [debit PROVIDER_FLOAT collected,
                     credit CREDITOR_PAYABLE (js_sub collected (pc_fee c)),
                     credit FEE_REVENUE (pc_fee c)]) (cents_context 125075 (Some 125075) 1876)) = Some ls \<and>
              debits_of ls = credits_of ls \<and> (\<forall>l\<in>set ls. 0 < jl_amount l)"
  by (rule posting_rules_balanced [of _ _ _ PROVIDER_CONFIRMED]) (simp_all add: cents_ok_def)

text \<open>
  C11. The journal of each course of a collection extinguishes the debts it created. Collected,
  settled and swept, nothing is owed and the commission alone is left, in cash and as revenue.
  Collected, refused by the bank and refunded, every account is back to zero, the commission
  included. Collected for a wrong amount and refunded for that amount, every account is back to zero.
\<close>

theorem lifecycles_extinguish_debts:
  assumes "0 \<le> fee" "fee \<le> a" "a \<le> max_cents" "0 \<le> w" "w \<le> max_cents"
  shows "(\<exists>ls. posted a fee [(PROVIDER_CONFIRMED, Some a), (BANK_PROCESSING_COMPLETED, None),
                  (SETTLEMENT_SWEPT, Some a)] = Some ls \<and>
            (\<forall>account. account_net account ls =
               (if account = SETTLEMENT then fee else if account = FEE_REVENUE then - fee else 0))) \<and>
    (\<exists>ls. posted a fee [(PROVIDER_CONFIRMED, Some a), (BANK_PROCESSING_FAILED, None),
                  (REFUND_COMPLETED, Some a)] = Some ls \<and> (\<forall>account. account_net account ls = 0)) \<and>
    (\<exists>ls. posted a 0 [(AMOUNT_MISMATCH_DETECTED, Some w), (REFUND_COMPLETED, Some w)] = Some ls \<and>
            (\<forall>account. account_net account ls = 0))"
proof -
  have ok: "cents_ok a (Some a) fee" "cents_ok a None fee" "cents_ok a (Some w) 0"
    using assms by (simp_all add: cents_ok_def)
  show ?thesis
    using assms by (simp add: posted_step ok Let_def del: posted.simps(2))
qed

theorem lifecycles_extinguish_debts_witness:
  "\<exists>ls. posted 125075 1876 [(PROVIDER_CONFIRMED, Some 125075), (BANK_PROCESSING_FAILED, None),
          (REFUND_COMPLETED, Some 125075)] = Some ls \<and> (\<forall>account. account_net account ls = 0)"
  using lifecycles_extinguish_debts [of 1876 125075 10000] by simp

lemma trial_balance_exact:
  assumes "list_all journal_entries_balanced (db_entries d)"
    and "\<forall>e\<in>set (db_entries d). \<forall>l\<in>set (je_lines e). 0 < jl_amount l"
    and "debits_of (concat (map je_lines (selected_entries d reference currency))) \<le> max_cents"
    and "trialBalance d reference currency = Inr tb"
  shows "tb_totalDebits tb = of_cents (debits_of (concat (map je_lines (selected_entries d reference currency)))) \<and>
         tb_totalCredits tb = tb_totalDebits tb \<and> tb_difference tb = Fin 0 \<and>
         tb_entryCount tb = length (selected_entries d reference currency)"
proof -
  define es where "es = selected_entries d reference currency"
  define ls where "ls = concat (map je_lines es)"
  have sub: "set es \<subseteq> set (db_entries d)" by (auto simp: es_def selected_entries_def)
  have pos: "\<forall>l\<in>set ls. 0 < jl_amount l" using assms(2) sub by (auto simp: ls_def)
  have bal: "debits_of ls = credits_of ls"
    unfolding ls_def using assms(1) sub by (intro balanced_concat) (auto simp: list_all_iff)
  have bound: "debits_of ls \<le> max_cents" using assms(3) by (simp add: ls_def es_def)
  note tot = trial_totals [OF pos, of DEBIT] trial_totals [OF pos, of CREDIT]
  note run = trialBalance_runs [OF assms(4), folded es_def, folded ls_def, unfolded Let_def]
  have D: "tb_totalDebits tb = of_cents (debits_of ls)"
    using run tot(1) bound by (simp add: account_balances_def side_sums comp_def Let_def)
  have C: "tb_totalCredits tb = of_cents (debits_of ls)"
    using run tot(2) bound bal by (simp add: account_balances_def side_sums comp_def Let_def)
  have "0 \<le> debits_of ls" using pos by (fastforce simp: debits_of_def intro: sum_list_nonneg)
  then obtain z where "js_sub (of_cents (debits_of ls)) (of_cents (debits_of ls)) = Fin z" "z = 0"
    using js_sub_near [of "debits_of ls" "debits_of ls"] bound by auto
  moreover have "roundToCent (Fin 0) = Fin 0" using roundToCent_close [of 0 0] by simp
  ultimately have "tb_difference tb = Fin 0" using run D C by simp
  then show ?thesis using D C run by (simp add: ls_def es_def)
qed

text \<open>
  The trial balance of a journal that the triggers guard closes to zero: whatever transaction or
  currency it is asked for, its two totals, summed in floating point over the accounts, are the exact
  sums in cents of the selected entries, they are equal, and the reported difference is zero.
\<close>

theorem trial_balance_closes:
  assumes "list_all journal_entries_balanced (db_entries d)"
    and "\<forall>e\<in>set (db_entries d). \<forall>l\<in>set (je_lines e). 0 < jl_amount l"
    and "debits_of (concat (map je_lines (selected_entries d reference currency))) \<le> max_cents"
    and "trialBalance d reference currency = Inr tb"
  shows "tb_totalDebits tb = of_cents (debits_of (concat (map je_lines (selected_entries d reference currency)))) \<and>
         tb_totalCredits tb = tb_totalDebits tb \<and> tb_difference tb = Fin 0 \<and>
         tb_entryCount tb = length (selected_entries d reference currency)"
  by (rule trial_balance_exact [OF assms])

definition sample_entry :: JournalEntry where
  "sample_entry =
     \<lparr>je_id = ''j1'', je_transactionReference = ''MM-1'', je_eventId = ''e1'',
      je_eventType = AMOUNT_MISMATCH_DETECTED, je_narration = [], je_currency = ''USD'',
      je_lines = [\<lparr>jl_account = PROVIDER_FLOAT, jl_direction = DEBIT, jl_amount = 9990\<rparr>,
                  \<lparr>jl_account = PAYER_PAYABLE, jl_direction = CREDIT, jl_amount = 9990\<rparr>],
      je_correlationId = ''c'', je_occurredAt = 0, je_createdAt = 0\<rparr>"

theorem trial_balance_closes_witness:
  "\<exists>tb. trialBalance (empty_db\<lparr>db_entries := [sample_entry]\<rparr>) None None = Inr tb \<and>
        tb_totalDebits tb = of_cents 9990 \<and> tb_difference tb = Fin 0 \<and> tb_entryCount tb = 1"
proof -
  define d where "d = empty_db\<lparr>db_entries := [sample_entry]\<rparr>"
  have entries: "db_entries d = [sample_entry]" by (simp add: d_def)
  obtain tb where tb: "trialBalance d None None = Inr tb" by (simp add: trialBalance_def entries Let_def)
  have sel: "selected_entries d None None = [sample_entry]" by (simp add: selected_entries_def entries)
  have "tb_totalDebits tb = of_cents (debits_of (concat (map je_lines [sample_entry]))) \<and>
      tb_totalCredits tb = tb_totalDebits tb \<and> tb_difference tb = Fin 0 \<and> tb_entryCount tb = length [sample_entry]"
    using trial_balance_closes [OF _ _ _ tb]
    by (simp add: sel entries sample_entry_def journal_entries_balanced_def debits_of_def credits_of_def)
  then show ?thesis using tb by (simp add: d_def sample_entry_def debits_of_def)
qed

end
