(* ===== verification/Event_Xml.thy ===== *)
theory Event_Xml
  imports Entities
begin

text \<open>
  The canonical document of an event (\<^verbatim>\<open>events/transaction-event-xml.builder.ts\<close>). Its fingerprint is what
  the register seals, so the document has to determine the fact it describes. The last section reads
  the elements back from the text: two events with the same document have the same canonical fields.
\<close>

section \<open>The builder\<close>

definition dq :: string where
  "dq = [CHR 0x22]"

definition newline :: string where
  "newline = [CHR 0x0A]"

definition EVENT_NAMESPACE :: string where
  "EVENT_NAMESPACE = ''urn:banking:event:1.0''"

definition EVENT_RECORD_FORMAT_VERSION :: string where
  "EVENT_RECORD_FORMAT_VERSION = ''2.1''"

definition escape :: "string \<Rightarrow> string" where
  "escape v =
     replace_char (CHR 0x27) ''&apos;''
      (replace_char (CHR 0x22) ''&quot;''
       (replace_char (CHR ''>'') ''&gt;''
        (replace_char (CHR ''<'') ''&lt;''
         (replace_char (CHR ''&'') ''&amp;'' v))))"

definition indent :: "nat \<Rightarrow> string" where
  "indent depth = concat (replicate depth ''  '')"

definition element :: "string \<Rightarrow> string \<Rightarrow> nat \<Rightarrow> string" where
  "element name v depth = indent depth @ ''<'' @ name @ ''>'' @ escape v @ ''</'' @ name @ ''>''"

definition optionalElement :: "string \<Rightarrow> string option \<Rightarrow> nat \<Rightarrow> string option" where
  "optionalElement name v depth =
     (case v of None \<Rightarrow> None | Some t \<Rightarrow> if t = [] then None else Some (element name t depth))"

definition formatAmount :: "number \<Rightarrow> string" where
  "formatAmount amount = toFixed2 amount"

definition formatDate :: "date \<Rightarrow> string" where
  "formatDate d = toISOString d"

text \<open>A string is truthy when it is present and not empty.\<close>

definition truthy :: "string option \<Rightarrow> bool" where
  "truthy v \<longleftrightarrow> v \<noteq> None \<and> v \<noteq> Some []"

definition somes :: "'a option list \<Rightarrow> 'a list" where
  "somes xs = List.map_filter (\<lambda>x. x) xs"

text \<open>The lines of the document; \<open>None\<close> is an element left out.\<close>

definition build_lines :: "string option \<Rightarrow> TransactionEvent \<Rightarrow> string option list" where
  "build_lines recordFormatVersion event =
     [Some (''<?xml version='' @ dq @ ''1.0'' @ dq @ '' encoding='' @ dq @ ''UTF-8'' @ dq @ ''?>''),
      Some (''<TransactionEvent xmlns='' @ dq @ EVENT_NAMESPACE @ dq @ '' version='' @ dq
            @ (case recordFormatVersion of Some v \<Rightarrow> v | None \<Rightarrow> EVENT_RECORD_FORMAT_VERSION)
            @ dq @ ''>''),
      Some (element ''eventId'' (ev_id event) 1),
      Some (element ''eventType'' (text_of_TransactionEventType (ev_eventType event)) 1),
      Some (element ''sequence'' (nat_dec (ev_sequence event)) 1),
      Some (element ''transactionReference'' (ev_transactionReference event) 1),
      optionalElement ''providerReference'' (ev_providerReference event) 1,
      optionalElement ''bankReference'' (ev_bankReference event) 1,
      Some (indent 1 @ ''<statuses>''),
      optionalElement ''provider'' (map_option text_of_ProviderStatus (ev_providerStatus event)) 2,
      optionalElement ''bank'' (map_option text_of_BankProcessingStatus (ev_bankStatus event)) 2,
      optionalElement ''reconciliation''
        (map_option text_of_ReconciliationStatus (ev_reconciliationStatus event)) 2,
      optionalElement ''refund'' (map_option text_of_RefundStatus (ev_refundStatus event)) 2,
      optionalElement ''case'' (map_option text_of_CaseStatus (ev_caseStatus event)) 2,
      Some (indent 1 @ ''</statuses>''),
      Some (indent 1 @ ''<amounts>''),
      Some (element ''expected'' (formatAmount (ev_expectedAmount event)) 2),
      Some (element ''currency'' (ev_currency event) 2),
      optionalElement ''observed'' (map_option formatAmount (ev_observedAmount event)) 2,
      optionalElement ''observedCurrency'' (ev_observedCurrency event) 2,
      Some (indent 1 @ ''</amounts>''),
      Some (element ''occurredAt'' (formatDate (ev_occurredAt event)) 1),
      Some (element ''correlationId'' (ev_correlationId event) 1),
      optionalElement ''detail'' (ev_detail event) 1]
   @ (if truthy (ev_actorId event) \<and> ev_actorRole event \<noteq> None \<and> ev_actionOrigin event \<noteq> None
      then [Some (indent 1 @ ''<actor>''),
            Some (element ''actorId'' (the (ev_actorId event)) 2),
            Some (element ''actorRole'' (text_of_EventActorRole (the (ev_actorRole event))) 2),
            Some (element ''actionOrigin'' (text_of_EventActionOrigin (the (ev_actionOrigin event))) 2),
            Some (indent 1 @ ''</actor>'')]
      else [])
   @ [optionalElement ''previousFingerprint'' (ev_previousFingerprint event) 1]
   @ (if ev_closureEventCount event \<noteq> None \<and> truthy (ev_closureChainHead event)
      then [Some (indent 1 @ ''<closure>''),
            Some (element ''eventCount'' (nat_dec (the (ev_closureEventCount event))) 2),
            Some (element ''chainHead'' (the (ev_closureChainHead event)) 2),
            Some (indent 1 @ ''</closure>'')]
      else [])
   @ (if truthy (ev_debtorIban event) \<and> truthy (ev_creditorIban event)
      then [Some (indent 1 @ ''<parties>''),
            Some (element ''debtorIban'' (the (ev_debtorIban event)) 2),
            optionalElement ''debtorName'' (ev_debtorName event) 2,
            Some (element ''creditorIban'' (the (ev_creditorIban event)) 2),
            Some (element ''creditorName'' (case ev_creditorName event of Some n \<Rightarrow> n | None \<Rightarrow> []) 2),
            optionalElement ''endToEndLabel'' (ev_endToEndLabel event) 2,
            Some (indent 1 @ ''</parties>'')]
      else [])
   @ [Some ''</TransactionEvent>'']"

definition build :: "string option \<Rightarrow> TransactionEvent \<Rightarrow> string" where
  "build recordFormatVersion event = join newline (somes (build_lines recordFormatVersion event))"

section \<open>The canonical fields\<close>

text \<open>What the document says, as names and texts in document order.\<close>

definition opt_field :: "string \<Rightarrow> string option \<Rightarrow> (string \<times> string) list" where
  "opt_field name v = (case v of None \<Rightarrow> [] | Some t \<Rightarrow> if t = [] then [] else [(name, t)])"

definition canonical_fields :: "TransactionEvent \<Rightarrow> (string \<times> string) list" where
  "canonical_fields event =
     [(''eventId'', ev_id event),
      (''eventType'', text_of_TransactionEventType (ev_eventType event)),
      (''sequence'', nat_dec (ev_sequence event)),
      (''transactionReference'', ev_transactionReference event)]
   @ opt_field ''providerReference'' (ev_providerReference event)
   @ opt_field ''bankReference'' (ev_bankReference event)
   @ opt_field ''provider'' (map_option text_of_ProviderStatus (ev_providerStatus event))
   @ opt_field ''bank'' (map_option text_of_BankProcessingStatus (ev_bankStatus event))
   @ opt_field ''reconciliation'' (map_option text_of_ReconciliationStatus (ev_reconciliationStatus event))
   @ opt_field ''refund'' (map_option text_of_RefundStatus (ev_refundStatus event))
   @ opt_field ''case'' (map_option text_of_CaseStatus (ev_caseStatus event))
   @ [(''expected'', toFixed2 (ev_expectedAmount event)), (''currency'', ev_currency event)]
   @ opt_field ''observed'' (map_option toFixed2 (ev_observedAmount event))
   @ opt_field ''observedCurrency'' (ev_observedCurrency event)
   @ [(''occurredAt'', toISOString (ev_occurredAt event)), (''correlationId'', ev_correlationId event)]
   @ opt_field ''detail'' (ev_detail event)
   @ (if truthy (ev_actorId event) \<and> ev_actorRole event \<noteq> None \<and> ev_actionOrigin event \<noteq> None
      then [(''actorId'', the (ev_actorId event)),
            (''actorRole'', text_of_EventActorRole (the (ev_actorRole event))),
            (''actionOrigin'', text_of_EventActionOrigin (the (ev_actionOrigin event)))]
      else [])
   @ opt_field ''previousFingerprint'' (ev_previousFingerprint event)
   @ (if ev_closureEventCount event \<noteq> None \<and> truthy (ev_closureChainHead event)
      then [(''eventCount'', nat_dec (the (ev_closureEventCount event))),
            (''chainHead'', the (ev_closureChainHead event))]
      else [])
   @ (if truthy (ev_debtorIban event) \<and> truthy (ev_creditorIban event)
      then [(''debtorIban'', the (ev_debtorIban event))]
         @ opt_field ''debtorName'' (ev_debtorName event)
         @ [(''creditorIban'', the (ev_creditorIban event)),
            (''creditorName'', case ev_creditorName event of Some n \<Rightarrow> n | None \<Rightarrow> [])]
         @ opt_field ''endToEndLabel'' (ev_endToEndLabel event)
      else [])"

section \<open>Escaping\<close>

definition esc_char :: "char \<Rightarrow> string" where
  "esc_char c =
     (if c = CHR ''&'' then ''&amp;'' else if c = CHR ''<'' then ''&lt;'' else if c = CHR ''>'' then ''&gt;''
      else if c = CHR 0x22 then ''&quot;'' else if c = CHR 0x27 then ''&apos;'' else [c])"

text \<open>The five passes amount to one: no replacement text contains a character replaced later.\<close>

lemma replace_char_append [simp]: "replace_char c r (xs @ ys) = replace_char c r xs @ replace_char c r ys"
  by (simp add: replace_char_def)

lemma replace_char_Cons:
  "replace_char c r (x # xs) = (if x = c then r else [x]) @ replace_char c r xs"
  by (simp add: replace_char_def)

lemma replace_char_Nil [simp]: "replace_char c r [] = []"
  by (simp add: replace_char_def)

lemma escape_Cons: "escape (x # xs) = esc_char x @ escape xs"
  by (simp add: escape_def esc_char_def replace_char_Cons)

lemma escape_Nil [simp]: "escape [] = []"
  by (simp add: escape_def)

lemma escape_no_angle: "CHR ''<'' \<notin> set (escape v)" "CHR ''>'' \<notin> set (escape v)"
  by (induction v) (auto simp: escape_Cons esc_char_def)

lemma esc_char_prefix: "esc_char a @ xs = esc_char b @ ys \<Longrightarrow> a = b \<and> xs = ys"
  by (auto simp: esc_char_def split: if_splits)

lemma esc_char_nonempty [simp]: "esc_char a \<noteq> []"
  by (simp add: esc_char_def)

lemma escape_inj [simp]: "escape v = escape w \<longleftrightarrow> v = w"
proof
  show "escape v = escape w \<Longrightarrow> v = w"
  proof (induction v arbitrary: w)
    case Nil
    then show ?case by (cases w) (auto simp: escape_Cons)
  next
    case (Cons a v)
    then obtain b w' where w: "w = b # w'" by (cases w) (auto simp: escape_Cons)
    with Cons show ?case by (auto simp: escape_Cons dest: esc_char_prefix)
  qed
qed simp

section \<open>Reading the elements back\<close>

text \<open>\<open>tokens s\<close> lists, for every \<^verbatim>\<open><\<close> of a text, the tag it opens and the characters up to the next one.\<close>

fun tokens :: "string \<Rightarrow> (string \<times> string) list" where
  "tokens [] = []"
| "tokens (c # s) =
     (if c = CHR ''<''
      then (takeWhile (\<lambda>x. x \<noteq> CHR ''>'') s,
            takeWhile (\<lambda>x. x \<noteq> CHR ''<'') (drop 1 (dropWhile (\<lambda>x. x \<noteq> CHR ''>'') s))) # tokens s
      else tokens s)"

definition leaf_names :: "string list" where
  "leaf_names =
     [''eventId'', ''eventType'', ''sequence'', ''transactionReference'', ''providerReference'',
      ''bankReference'', ''provider'', ''bank'', ''reconciliation'', ''refund'', ''case'', ''expected'',
      ''currency'', ''observed'', ''observedCurrency'', ''occurredAt'', ''correlationId'', ''detail'',
      ''actorId'', ''actorRole'', ''actionOrigin'', ''previousFingerprint'', ''eventCount'', ''chainHead'',
      ''debtorIban'', ''debtorName'', ''creditorIban'', ''creditorName'', ''endToEndLabel'']"

definition doc_fields :: "string \<Rightarrow> (string \<times> string) list" where
  "doc_fields s = filter (\<lambda>(t, x). t \<in> set leaf_names) (tokens s)"

definition plain :: "string \<Rightarrow> bool" where
  "plain s \<longleftrightarrow> CHR ''<'' \<notin> set s \<and> CHR ''>'' \<notin> set s"

lemma tokens_skip: "CHR ''<'' \<notin> set xs \<Longrightarrow> tokens (xs @ s) = tokens s"
  by (induction xs) auto

lemma tokens_tag:
  assumes "plain t"
  shows "tokens (''<'' @ t @ ''>'' @ s) = (t, takeWhile (\<lambda>x. x \<noteq> CHR ''<'') s) # tokens s"
proof -
  have t: "CHR ''<'' \<notin> set t" "\<forall>x\<in>set t. x \<noteq> CHR ''>''" using assms by (auto simp: plain_def)
  have "takeWhile (\<lambda>x. x \<noteq> CHR ''>'') (t @ ''>'' @ s) = t"
    "dropWhile (\<lambda>x. x \<noteq> CHR ''>'') (t @ ''>'' @ s) = ''>'' @ s"
    using t(2) by (auto simp: takeWhile_append2 dropWhile_append2)
  then show ?thesis using tokens_skip [OF t(1), of "''>'' @ s"] by simp
qed

text \<open>A line is closed when what follows it on the document does not change what it says.\<close>

definition closed_line :: "string \<Rightarrow> (string \<times> string) list \<Rightarrow> bool" where
  "closed_line l fs \<longleftrightarrow> (\<forall>s. doc_fields (l @ s) = fs @ doc_fields s)"

lemma plain_indent: "CHR ''<'' \<notin> set (indent d)"
  by (induction d) (auto simp: indent_def)

lemma closed_structural:
  assumes "plain t" "t \<notin> set leaf_names"
  shows "closed_line (indent d @ ''<'' @ t @ ''>'') []"
  using assms tokens_tag [OF assms(1)] tokens_skip [OF plain_indent]
  by (simp add: closed_line_def doc_fields_def)

lemma leaf_names_plain: "t \<in> set leaf_names \<Longrightarrow> plain t \<and> plain (''/'' @ t) \<and> ''/'' @ t \<notin> set leaf_names"
  by (auto simp: leaf_names_def plain_def)

lemma closed_element:
  assumes "n \<in> set leaf_names"
  shows "closed_line (element n v d) [(n, escape v)]"
proof -
  note p = leaf_names_plain [OF assms]
  have esc: "takeWhile (\<lambda>x. x \<noteq> CHR ''<'') (escape v @ ''</'' @ r) = escape v" for r
    using escape_no_angle(1) [of v] by (subst takeWhile_append2) auto
  have "tokens (element n v d @ s) = (n, escape v) # (''/'' @ n, takeWhile (\<lambda>x. x \<noteq> CHR ''<'') s) # tokens s"
    for s
    using tokens_tag [of n "escape v @ ''</'' @ n @ ''>'' @ s"] tokens_tag [of "''/'' @ n" s] p esc
      tokens_skip [OF plain_indent] tokens_skip [OF escape_no_angle(1) [of v]]
    by (simp add: element_def)
  then show ?thesis using assms p by (simp add: closed_line_def doc_fields_def)
qed

definition closed_option :: "string option \<Rightarrow> (string \<times> string) list \<Rightarrow> bool" where
  "closed_option l fs = (case l of None \<Rightarrow> fs = [] | Some s \<Rightarrow> closed_line s fs)"

lemma closed_option_Some [simp]: "closed_option (Some s) fs = closed_line s fs"
  by (simp add: closed_option_def)

lemma closed_optional:
  "n \<in> set leaf_names \<Longrightarrow> closed_option (optionalElement n v d) (map (map_prod id escape) (opt_field n v))"
  by (auto simp: optionalElement_def opt_field_def closed_option_def closed_element split: option.split)

lemma somes_simps [simp]: "somes [] = []" "somes (None # xs) = somes xs" "somes (Some x # xs) = x # somes xs"
  by (simp_all add: somes_def map_filter_simps)

lemma doc_fields_newline [simp]: "doc_fields (newline @ s) = doc_fields s"
  by (simp add: doc_fields_def newline_def)

lemma doc_fields_Nil [simp]: "doc_fields [] = []"
  by (simp add: doc_fields_def)

lemma join_lines_fields:
  "list_all2 closed_option ls fss \<Longrightarrow> doc_fields (join newline (somes ls)) = concat fss"
proof (induction rule: list_all2_induct)
  case (Cons l ls fs fss)
  show ?case
  proof (cases l)
    case None
    then show ?thesis using Cons by (simp add: closed_option_def)
  next
    case (Some s)
    then have h: "doc_fields (s @ r) = fs @ doc_fields r" for r using Cons(1) by (simp add: closed_line_def)
    show ?thesis
    proof (cases "somes ls")
      case Nil
      then show ?thesis using h [of "[]"] Cons(3) Some by simp
    next
      case (Cons a as)
      then show ?thesis using h \<open>doc_fields (join newline (somes ls)) = concat fss\<close> Some by simp
    qed
  qed
qed simp

lemma closed_constants:
  "closed_line (''<?xml version='' @ dq @ ''1.0'' @ dq @ '' encoding='' @ dq @ ''UTF-8'' @ dq @ ''?>'') []"
  "closed_line ''</TransactionEvent>'' []"
  "closed_line (indent 1 @ ''<statuses>'') []" "closed_line (indent 1 @ ''</statuses>'') []"
  "closed_line (indent 1 @ ''<amounts>'') []" "closed_line (indent 1 @ ''</amounts>'') []"
  "closed_line (indent 1 @ ''<actor>'') []" "closed_line (indent 1 @ ''</actor>'') []"
  "closed_line (indent 1 @ ''<closure>'') []" "closed_line (indent 1 @ ''</closure>'') []"
  "closed_line (indent 1 @ ''<parties>'') []" "closed_line (indent 1 @ ''</parties>'') []"
  using closed_structural [of "''?xml version='' @ dq @ ''1.0'' @ dq @ '' encoding='' @ dq @ ''UTF-8'' @ dq @ ''?''" 0]
    closed_structural [of "''/TransactionEvent''" 0]
    closed_structural [of "''statuses''" 1] closed_structural [of "''/statuses''" 1]
    closed_structural [of "''amounts''" 1] closed_structural [of "''/amounts''" 1]
    closed_structural [of "''actor''" 1] closed_structural [of "''/actor''" 1]
    closed_structural [of "''closure''" 1] closed_structural [of "''/closure''" 1]
    closed_structural [of "''parties''" 1] closed_structural [of "''/parties''" 1]
  by (simp_all add: indent_def plain_def leaf_names_def dq_def)

lemma closed_root:
  assumes "plain v"
  shows "closed_line (''<TransactionEvent xmlns='' @ dq @ EVENT_NAMESPACE @ dq @ '' version='' @ dq @ v @ dq @ ''>'') []"
proof -
  let ?t = "''TransactionEvent xmlns='' @ dq @ EVENT_NAMESPACE @ dq @ '' version='' @ dq @ v @ dq"
  have "plain ?t" using assms by (auto simp: plain_def dq_def EVENT_NAMESPACE_def)
  moreover have "?t \<notin> set leaf_names" by (simp add: leaf_names_def)
  ultimately show ?thesis using closed_structural [of ?t 0] by (simp add: indent_def)
qed

definition version_text :: "string option \<Rightarrow> string" where
  "version_text v = (case v of Some t \<Rightarrow> t | None \<Rightarrow> EVENT_RECORD_FORMAT_VERSION)"

lemma leaf_namesI:
  "''eventId'' \<in> set leaf_names" "''eventType'' \<in> set leaf_names" "''sequence'' \<in> set leaf_names"
  "''transactionReference'' \<in> set leaf_names" "''providerReference'' \<in> set leaf_names"
  "''bankReference'' \<in> set leaf_names" "''provider'' \<in> set leaf_names" "''bank'' \<in> set leaf_names"
  "''reconciliation'' \<in> set leaf_names" "''refund'' \<in> set leaf_names" "''case'' \<in> set leaf_names"
  "''expected'' \<in> set leaf_names" "''currency'' \<in> set leaf_names" "''observed'' \<in> set leaf_names"
  "''observedCurrency'' \<in> set leaf_names" "''occurredAt'' \<in> set leaf_names"
  "''correlationId'' \<in> set leaf_names" "''detail'' \<in> set leaf_names" "''actorId'' \<in> set leaf_names"
  "''actorRole'' \<in> set leaf_names" "''actionOrigin'' \<in> set leaf_names"
  "''previousFingerprint'' \<in> set leaf_names" "''eventCount'' \<in> set leaf_names"
  "''chainHead'' \<in> set leaf_names" "''debtorIban'' \<in> set leaf_names" "''debtorName'' \<in> set leaf_names"
  "''creditorIban'' \<in> set leaf_names" "''creditorName'' \<in> set leaf_names" "''endToEndLabel'' \<in> set leaf_names"
  by (simp_all add: leaf_names_def)

lemmas closed_rules = closed_constants closed_root closed_element closed_optional leaf_namesI

lemma list_all2_if:
  "(b \<Longrightarrow> list_all2 P xs xs') \<Longrightarrow> (\<not> b \<Longrightarrow> list_all2 P ys ys') \<Longrightarrow>
   list_all2 P (if b then xs else ys) (if b then xs' else ys')"
  by simp

abbreviation esc_fields :: "(string \<times> string) list \<Rightarrow> (string \<times> string) list" where
  "esc_fields \<equiv> map (map_prod id escape)"

lemma doc_fields_build:
  assumes "plain (version_text v)"
  shows "doc_fields (build v e) = esc_fields (canonical_fields e)"
proof -
  let ?c = "case ev_creditorName e of Some n \<Rightarrow> n | None \<Rightarrow> []"
  let ?fss = "[[], [], [(''eventId'', escape (ev_id e))],
      [(''eventType'', escape (text_of_TransactionEventType (ev_eventType e)))],
      [(''sequence'', escape (nat_dec (ev_sequence e)))],
      [(''transactionReference'', escape (ev_transactionReference e))],
      esc_fields (opt_field ''providerReference'' (ev_providerReference e)),
      esc_fields (opt_field ''bankReference'' (ev_bankReference e)), [],
      esc_fields (opt_field ''provider'' (map_option text_of_ProviderStatus (ev_providerStatus e))),
      esc_fields (opt_field ''bank'' (map_option text_of_BankProcessingStatus (ev_bankStatus e))),
      esc_fields (opt_field ''reconciliation'' (map_option text_of_ReconciliationStatus (ev_reconciliationStatus e))),
      esc_fields (opt_field ''refund'' (map_option text_of_RefundStatus (ev_refundStatus e))),
      esc_fields (opt_field ''case'' (map_option text_of_CaseStatus (ev_caseStatus e))), [], [],
      [(''expected'', escape (toFixed2 (ev_expectedAmount e)))], [(''currency'', escape (ev_currency e))],
      esc_fields (opt_field ''observed'' (map_option toFixed2 (ev_observedAmount e))),
      esc_fields (opt_field ''observedCurrency'' (ev_observedCurrency e)), [],
      [(''occurredAt'', escape (toISOString (ev_occurredAt e)))],
      [(''correlationId'', escape (ev_correlationId e))],
      esc_fields (opt_field ''detail'' (ev_detail e))]
    @ (if truthy (ev_actorId e) \<and> ev_actorRole e \<noteq> None \<and> ev_actionOrigin e \<noteq> None
       then [[], [(''actorId'', escape (the (ev_actorId e)))],
             [(''actorRole'', escape (text_of_EventActorRole (the (ev_actorRole e))))],
             [(''actionOrigin'', escape (text_of_EventActionOrigin (the (ev_actionOrigin e))))], []] else [])
    @ [esc_fields (opt_field ''previousFingerprint'' (ev_previousFingerprint e))]
    @ (if ev_closureEventCount e \<noteq> None \<and> truthy (ev_closureChainHead e)
       then [[], [(''eventCount'', escape (nat_dec (the (ev_closureEventCount e))))],
             [(''chainHead'', escape (the (ev_closureChainHead e)))], []] else [])
    @ (if truthy (ev_debtorIban e) \<and> truthy (ev_creditorIban e)
       then [[], [(''debtorIban'', escape (the (ev_debtorIban e)))],
             esc_fields (opt_field ''debtorName'' (ev_debtorName e)),
             [(''creditorIban'', escape (the (ev_creditorIban e)))], [(''creditorName'', escape ?c)],
             esc_fields (opt_field ''endToEndLabel'' (ev_endToEndLabel e)), []] else [])
    @ [[]]"
  have "list_all2 closed_option (build_lines v e) ?fss"
    using closed_root [OF assms] unfolding build_lines_def formatAmount_def formatDate_def version_text_def
    by (intro list_all2_appendI list_all2_if)
       (simp_all only: list_all2_Cons list_all2_Nil closed_option_Some closed_rules simp_thms)
  then have "doc_fields (build v e) = concat ?fss" unfolding build_def by (rule join_lines_fields)
  also have "\<dots> = esc_fields (canonical_fields e)" 
    by (simp add: canonical_fields_def if_distrib [of concat] if_distrib [of esc_fields] cong: if_cong split del: if_split)
  finally show ?thesis .
qed

lemma esc_fields_inj: "esc_fields xs = esc_fields ys \<longleftrightarrow> xs = ys"
proof -
  have "inj (map_prod id escape :: string \<times> string \<Rightarrow> string \<times> string)"
    by (intro prod.inj_map) (auto intro: injI)
  then show ?thesis by (simp add: inj_map_eq_map)
qed

lemma build_inj:
  assumes "plain (version_text v)" "plain (version_text w)" "build v e = build w f"
  shows "canonical_fields e = canonical_fields f"
  using doc_fields_build [OF assms(1), of e] doc_fields_build [OF assms(2), of f] assms(3)
  by (simp add: esc_fields_inj)

subsection \<open>Any version\<close>

text \<open>
  The version is written without escaping. It cannot be used to pass one document for another all the
  same: what follows it holds no double quote, so it can be read back from the end of the text.
\<close>

definition unquoted :: "string \<Rightarrow> bool" where
  "unquoted s \<longleftrightarrow> CHR 0x22 \<notin> set s"

definition body_lines :: "TransactionEvent \<Rightarrow> string option list" where
  "body_lines e = drop 2 (build_lines None e)"

lemma escape_unquoted: "unquoted (escape v)"
  by (induction v) (auto simp: unquoted_def escape_Cons esc_char_def)

lemma unquoted_append [simp]: "unquoted (xs @ ys) \<longleftrightarrow> unquoted xs \<and> unquoted ys"
  by (auto simp: unquoted_def)

lemma unquoted_element: "unquoted name \<Longrightarrow> unquoted (element name v d)"
  using escape_unquoted [of v] by (auto simp: element_def indent_def) (auto simp: unquoted_def)

definition unquoted_line :: "string option \<Rightarrow> bool" where
  "unquoted_line l \<longleftrightarrow> (case l of None \<Rightarrow> True | Some t \<Rightarrow> unquoted t)"

lemma unquoted_lines:
  "unquoted name \<Longrightarrow> unquoted_line (Some (element name v d))"
  "unquoted name \<Longrightarrow> unquoted_line (optionalElement name o' d)"
  "unquoted t \<Longrightarrow> unquoted_line (Some (indent d @ t))"
  "unquoted t \<Longrightarrow> unquoted_line (Some t)"
  by (auto simp: unquoted_line_def optionalElement_def unquoted_element split: option.split)
     (auto simp: unquoted_def indent_def)

lemma body_unquoted: "list_all unquoted_line (body_lines e)"
  unfolding body_lines_def build_lines_def
  by (simp add: unquoted_lines unquoted_def)

lemma join_unquoted: "list_all unquoted_line ls \<Longrightarrow> unquoted (join newline (somes ls))"
proof -
  have "list_all unquoted ts \<Longrightarrow> unquoted (join newline ts)" for ts
    by (induction newline ts rule: join.induct) (auto simp: unquoted_def newline_def)
  moreover assume "list_all unquoted_line ls"
  then have "list_all unquoted (somes ls)"
    by (induction ls) (auto simp: somes_def map_filter_simps unquoted_line_def split: option.splits)
  ultimately show ?thesis by blast
qed

definition build_head :: "string option \<Rightarrow> string" where
  "build_head v =
     (''<?xml version='' @ dq @ ''1.0'' @ dq @ '' encoding='' @ dq @ ''UTF-8'' @ dq @ ''?>'') @ newline @
     ''<TransactionEvent xmlns='' @ dq @ EVENT_NAMESPACE @ dq @ '' version='' @ dq @ version_text v"

lemma build_split:
  "build v e = build_head v @ dq @ ''>'' @ newline @ join newline (somes (body_lines e))"
proof -
  let ?x = "''<?xml version='' @ dq @ ''1.0'' @ dq @ '' encoding='' @ dq @ ''UTF-8'' @ dq @ ''?>''"
  let ?r = "''<TransactionEvent xmlns='' @ dq @ EVENT_NAMESPACE @ dq @ '' version='' @ dq @ version_text v"
  have lines: "build_lines v e = [Some ?x, Some (?r @ dq @ ''>'')] @ body_lines e"
    unfolding body_lines_def build_lines_def version_text_def by simp
  have "somes (body_lines e) \<noteq> []" by (simp add: body_lines_def build_lines_def somes_def map_filter_simps)
  then obtain b bs where b: "somes (body_lines e) = b # bs" by (cases "somes (body_lines e)") auto
  show ?thesis
    unfolding build_def lines build_head_def using b by (simp add: somes_def map_filter_simps)
qed

lemma last_quote:
  assumes "xs @ dq @ ys = xs' @ dq @ ys'" "unquoted ys" "unquoted ys'"
  shows "ys = ys'"
proof -
  have "takeWhile (\<lambda>c. c \<noteq> CHR 0x22) (rev zs @ rev dq @ rev qs) = rev zs" if "unquoted zs" for zs qs
    using that by (subst takeWhile_append2) (auto simp: unquoted_def dq_def)
  from this [OF assms(2), of xs] this [OF assms(3), of xs'] show ?thesis
    using arg_cong [OF assms(1), of rev] by simp
qed

lemma build_determines_fields:
  assumes "build v e = build w f"
  shows "canonical_fields e = canonical_fields f"
proof -
  have "unquoted (''>'' @ newline @ join newline (somes (body_lines g)))" for g
    using join_unquoted [OF body_unquoted] by (simp add: unquoted_def newline_def)
  then have "''>'' @ newline @ join newline (somes (body_lines e)) = ''>'' @ newline @ join newline (somes (body_lines f))"
    using last_quote assms unfolding build_split [of v e] build_split [of w f] by metis
  then have "build None e = build None f" by (simp add: build_split)
  moreover have "plain (version_text None)" by (simp add: version_text_def EVENT_RECORD_FORMAT_VERSION_def plain_def)
  ultimately show ?thesis using build_inj by blast
qed

end
