(* ===== verification/Samples.thy ===== *)
theory Samples
  imports Posting Event_Xml
begin

text \<open>
  A concrete payment, a concrete store and concrete functions for everything the program calls, on which
  the theorems of the other theories are applied.
\<close>

definition sample_transaction :: Transaction where
  "sample_transaction =
     \<lparr>tx_id = ''t1'', tx_encryptionVersion = 1, tx_reference = ''MM-1'', tx_idempotencyKey = None,
      tx_status = Tx_PENDING, tx_paymentChannel = MOBILE_MONEY, tx_debtorIban = ''CD01'',
      tx_debtorName = Some ''Gateway'', tx_creditorIban = ''CD02'', tx_creditorName = ''Shop'',
      tx_amount = of_cents 125075, tx_currency = ''CDF'', tx_endToEndLabel = None,
      tx_amountInWords = None, tx_soapOperation = None, tx_soapDurationMs = None,
      tx_soapAttempts = None, tx_faultCode = None, tx_faultString = None, tx_failureReason = None,
      tx_correlationId = ''c1'', tx_processedAt = None, tx_mobileMoneyOperator = None,
      tx_payerMsisdn = Some ''243'', tx_aggregatorReference = Some ''AGG-1'',
      tx_providerStatus = Some Prov_PENDING, tx_bankStatus = Some Bank_NOT_STARTED,
      tx_reconciliationStatus = Some Recon_PENDING, tx_aggregatorAmount = None,
      tx_aggregatorCurrency = None, tx_feeAmount = Fin 0, tx_mobileMoneyConfirmedAt = None,
      tx_reconciledAt = None, tx_reconciliationReason = None, tx_refundStatus = Refund_NOT_REQUIRED,
      tx_caseStatus = Case_NONE, tx_caseReason = None, tx_createdAt = 0, tx_updatedAt = 0, tx_fingerprint = None,
      tx_anchorStatus = Anchor_NOT_SEALED, tx_batchId = None, tx_leafIndex = None, tx_version = 1\<rparr>"

definition sample_externals :: externals where
  "sample_externals =
     \<lparr>ethers_of = sample_ethers, randomUUID = (\<lambda>n. replicate n (CHR ''u'')), random_salt = (\<lambda>n. bytes32_text 1),
      random_bytes = (\<lambda>n k. replicate k n), clock = int, parse_date = (\<lambda>s. 0), validateXML = (\<lambda>schema xml. []),
      hmac_sha256 = (\<lambda>key message. key @ message),
      convertAmountToWords = (\<lambda>n amount. Inr (''words'', \<lparr>ex_operation = ''NumberToWords'', ex_durationMs = 5, ex_attempts = 1\<rparr>)),
      party_key_id = ''k1'', provider_refund = (\<lambda>n request. Inr (''RF-1'', False)), message_of = (\<lambda>e. ''error'')\<rparr>"

definition sample_world :: world where
  "sample_world =
     \<lparr>wd_db = empty_db\<lparr>db_transactions := [sample_transaction]\<rparr>, wd_draws = 0, wd_draining = False, wd_retrying = False, wd_anchoring = False,
      wd_correlationId = ''c1'', wd_chain = deploy 1, wd_bank_calls = [], wd_refund_calls = []\<rparr>"

lemma sample_external_fields [simp]:
  "ethers_of sample_externals = sample_ethers" "validateXML sample_externals schema xml = []"
  "random_salt sample_externals n = bytes32_text 1" "clock sample_externals n = int n"
  "randomUUID sample_externals n = replicate n (CHR ''u'')" "party_key_id sample_externals = ''k1''"
  by (simp_all add: sample_externals_def)

lemma sample_fingerprint [simp]:
  "computeFingerprint sample_ethers (bytes32_text n) xml =
   Inr (keccak256 sample_ethers (Hex (ethers_concat sample_ethers [Hex (bytes32_text n), Utf8 xml])))"
  using bytes32_text_digest [of n] by (simp add: computeFingerprint_def is_digest_def)

end
