(* ===== verification/Event_Ledger.thy ===== *)
theory Event_Ledger
  imports Samples
begin

text \<open>
  The append-only register of facts (\<^verbatim>\<open>events/transaction-events.service.ts\<close>): sealing, chaining, the retry
  on a lost race for the rank, and the closing event. The commits of other processes that interpose
  between the reading of the head and the insertion are the argument \<open>others\<close>, one per attempt; the
  handlers, executed one after the other, pass none.
\<close>

section \<open>The table transaction events\<close>

definition findChain :: "db \<Rightarrow> string \<Rightarrow> TransactionEvent list" where
  "findChain d reference =
     sort_key ev_sequence (filter (\<lambda>e. ev_transactionReference e = reference) (db_events d))"

definition findLatest :: "db \<Rightarrow> string \<Rightarrow> TransactionEvent option" where
  "findLatest d reference =
     (case findChain d reference of [] \<Rightarrow> None | es \<Rightarrow> Some (last es))"

definition OPENING_EVENTS :: "TransactionEventType \<Rightarrow> bool" where
  "OPENING_EVENTS ty \<longleftrightarrow> ty = TRANSFER_INITIATED \<or> ty = PAYMENT_INITIATED"

definition sql_gt :: "nat option \<Rightarrow> nat \<Rightarrow> sql_bool" where
  "sql_gt v n = map_option (\<lambda>m. n < m) v"

definition sql_hash :: "string option \<Rightarrow> sql_bool" where
  "sql_hash v = map_option is_bytes32 v"

definition sql_not_null :: "'a option \<Rightarrow> sql_bool" where
  "sql_not_null v = Some (v \<noteq> None)"

definition CHK_transaction_events_closure :: "TransactionEvent \<Rightarrow> sql_bool" where
  "CHK_transaction_events_closure e =
     sql_or (sql_and (Some (ev_eventType e = CASE_CLOSED))
                (sql_and (sql_gt (ev_closureEventCount e) 1) (sql_hash (ev_closureChainHead e))))
            (sql_and (Some (ev_eventType e \<noteq> CASE_CLOSED))
                (sql_and (sql_is_null (ev_closureEventCount e)) (sql_is_null (ev_closureChainHead e))))"

definition no_parties :: "TransactionEvent \<Rightarrow> bool" where
  "no_parties e \<longleftrightarrow>
     ev_debtorIban e = None \<and> ev_debtorName e = None \<and> ev_creditorIban e = None \<and>
     ev_creditorName e = None \<and> ev_endToEndLabel e = None"

definition CHK_transaction_events_parties :: "TransactionEvent \<Rightarrow> sql_bool" where
  "CHK_transaction_events_parties e =
     Some ((OPENING_EVENTS (ev_eventType e) \<and>
            ((ev_recordFormatVersion e = ''1.0'' \<and> no_parties e) \<or>
             (ev_debtorIban e \<noteq> None \<and> ev_creditorIban e \<noteq> None \<and> ev_creditorName e \<noteq> None))) \<or>
           (\<not> OPENING_EVENTS (ev_eventType e) \<and> no_parties e))"

definition CHK_transaction_events_actor_context :: "TransactionEvent \<Rightarrow> sql_bool" where
  "CHK_transaction_events_actor_context e =
     sql_or (sql_and (sql_is_null (ev_actorId e)) (sql_and (sql_is_null (ev_actorRole e)) (sql_is_null (ev_actionOrigin e))))
            (sql_and (sql_not_null (ev_actorId e))
               (sql_and (sql_not_null (ev_actorRole e)) (sql_not_null (ev_actionOrigin e))))"

text \<open>
  What a party column holds is the encrypted text: the prefix \<^verbatim>\<open>enc.v1.\<close>, the identifier of the key, a dot, and the
  base64url text of the 12-byte vector, the 16-byte tag and the ciphertext, which is as long as the plain text
  (theory Requests shows that \<^verbatim>\<open>encrypt\<close> writes exactly this many characters, in the format that the four CHECKs
  on encrypted columns ask for, so these four are not repeated below).
\<close>

definition encrypted_width :: "nat \<Rightarrow> string \<Rightarrow> nat" where
  "encrypted_width key_id_length clear = 8 + key_id_length + (4 * length clear + 114) div 3"

definition fits_encrypted :: "externals \<Rightarrow> string option \<Rightarrow> bool" where
  "fits_encrypted X v \<longleftrightarrow>
     (case v of None \<Rightarrow> True | Some s \<Rightarrow> encrypted_width (length (party_key_id X)) s \<le> 512)"

definition event_widths :: "externals \<Rightarrow> TransactionEvent \<Rightarrow> bool" where
  "event_widths X e \<longleftrightarrow>
     fits 32 (Some (ev_transactionReference e)) \<and> fits 64 (ev_providerReference e) \<and> fits 64 (ev_bankReference e) \<and>
     fits 3 (Some (ev_currency e)) \<and> fits 3 (ev_observedCurrency e) \<and> fits 128 (Some (ev_correlationId e)) \<and>
     fits 1024 (ev_detail e) \<and> fits 128 (ev_actorId e) \<and> fits 66 (ev_previousFingerprint e) \<and>
     fits 66 (ev_closureChainHead e) \<and> fits_encrypted X (ev_debtorIban e) \<and> fits_encrypted X (ev_debtorName e) \<and>
     fits_encrypted X (ev_creditorIban e) \<and> fits_encrypted X (ev_creditorName e) \<and> fits 140 (ev_endToEndLabel e) \<and>
     fits 66 (Some (ev_fingerprint e)) \<and> fits 66 (Some (ev_fingerprintSalt e)) \<and> fits 8 (Some (ev_recordFormatVersion e))"

definition event_numbers :: "TransactionEvent \<Rightarrow> bool" where
  "event_numbers e \<longleftrightarrow>
     ev_sequence e < 2 ^ 31 \<and> in_numeric (ev_expectedAmount e) \<and>
     (case ev_observedAmount e of None \<Rightarrow> True | Some a \<Rightarrow> in_numeric a)"

text \<open>The first constraint an insertion violates. A stored key is an update, which the append-only trigger refuses.\<close>

definition event_constraints :: "externals \<Rightarrow> TransactionEvent \<Rightarrow> db \<Rightarrow> exn option" where
  "event_constraints X e d =
     (if \<not> event_widths X e then Some (QueryFailed ''22001'' [])
      else if \<not> event_numbers e then Some (QueryFailed ''22003'' [])
      else if list_ex (\<lambda>r. ev_id r = ev_id e) (db_events d)
        then Some (QueryFailed ''23001'' ''trg_transaction_events_append_only'')
      else if CHK_transaction_events_closure e = Some False
        then Some (check_violation ''CHK_transaction_events_closure'')
      else if CHK_transaction_events_parties e = Some False
        then Some (check_violation ''CHK_transaction_events_parties'')
      else if ev_encryptionVersion e \<noteq> 1
        then Some (check_violation ''CHK_transaction_events_encryption_version'')
      else if CHK_transaction_events_actor_context e = Some False
        then Some (check_violation ''CHK_transaction_events_actor_context'')
      else if list_ex (\<lambda>r. ev_transactionReference r = ev_transactionReference e \<and>
                           ev_sequence r = ev_sequence e) (db_events d)
        then Some (unique_violation ''uq_transaction_events_sequence'')
      else if ev_eventType e = CASE_CLOSED \<and>
              list_ex (\<lambda>r. ev_transactionReference r = ev_transactionReference e \<and>
                           ev_eventType r = CASE_CLOSED) (db_events d)
        then Some (unique_violation ''uq_transaction_events_case_closed'')
      else if \<not> list_ex (\<lambda>t. tx_reference t = ev_transactionReference e) (db_transactions d)
        then Some (QueryFailed ''23503'' ''FK_transaction_events_transaction'')
      else None)"

definition append_event :: "TransactionEvent \<Rightarrow> db \<Rightarrow> db" where
  "append_event e d = d\<lparr>db_events := db_events d @ [e]\<rparr>"

definition insert_event :: "externals \<Rightarrow> TransactionEvent \<Rightarrow> TransactionEvent io" where
  "insert_event X e =
     bnd (draw (clock X)) (\<lambda>now.
     bnd get_db (\<lambda>d.
       let e' = e\<lparr>ev_createdAt := now\<rparr> in
       case event_constraints X e' d of
         Some err \<Rightarrow> throw err
       | None \<Rightarrow> bnd (modifies (on_db (append_event e'))) (\<lambda>_. ret e')))"

section \<open>Recording a fact\<close>

record RecordEventInput =
  re_type :: TransactionEventType
  re_transaction :: Transaction
  re_observedAmount :: "number option"
  re_observedCurrency :: "string option"
  re_detail :: "string option"
  re_occurredAt :: "date option"
  re_actorId :: "string option"
  re_actorRole :: "EventActorRole option"
  re_actionOrigin :: "EventActionOrigin option"

definition fact :: "TransactionEventType \<Rightarrow> Transaction \<Rightarrow> RecordEventInput" where
  "fact ty t = \<lparr>re_type = ty, re_transaction = t, re_observedAmount = None, re_observedCurrency = None,
     re_detail = None, re_occurredAt = None, re_actorId = None, re_actorRole = None, re_actionOrigin = None\<rparr>"

definition MAX_SEQUENCE_ATTEMPTS :: nat where
  "MAX_SEQUENCE_ATTEMPTS = 5"

definition transactionEvent_schema :: string where
  "transactionEvent_schema = ''transaction-event.xsd''"

definition assertValid :: "externals \<Rightarrow> string \<Rightarrow> string \<Rightarrow> unit io" where
  "assertValid X xml schemaName =
     (let violations = validateXML X schemaName xml in
      if violations \<noteq> [] then throw (XsdValidation schemaName violations) else ret ())"

definition draft_event ::
  "RecordEventInput \<Rightarrow> TransactionEvent option \<Rightarrow> string \<Rightarrow> date \<Rightarrow> string \<Rightarrow> TransactionEvent" where
  "draft_event input previous event_id occurred correlation =
     (let t = re_transaction input;
          isClosing = re_type input = CASE_CLOSED;
          isOpening = OPENING_EVENTS (re_type input);
          rank = (case previous of Some p \<Rightarrow> ev_sequence p | None \<Rightarrow> 0) + 1;
          head = map_option ev_fingerprint previous
      in \<lparr>ev_id = event_id, ev_encryptionVersion = 1, ev_eventType = re_type input, ev_sequence = rank,
          ev_transactionReference = tx_reference t, ev_providerReference = tx_aggregatorReference t,
          ev_bankReference = tx_soapOperation t, ev_providerStatus = tx_providerStatus t,
          ev_bankStatus = tx_bankStatus t, ev_reconciliationStatus = tx_reconciliationStatus t,
          ev_refundStatus = Some (tx_refundStatus t), ev_caseStatus = Some (tx_caseStatus t),
          ev_expectedAmount = tx_amount t, ev_observedAmount = re_observedAmount input,
          ev_currency = tx_currency t, ev_observedCurrency = re_observedCurrency input,
          ev_occurredAt = occurred, ev_correlationId = correlation, ev_detail = re_detail input,
          ev_actorId = re_actorId input, ev_actorRole = re_actorRole input,
          ev_actionOrigin = re_actionOrigin input, ev_previousFingerprint = head,
          ev_closureEventCount = (if isClosing then Some rank else None),
          ev_closureChainHead = (if isClosing then head else None),
          ev_debtorIban = (if isOpening then Some (tx_debtorIban t) else None),
          ev_debtorName = (if isOpening then tx_debtorName t else None),
          ev_creditorIban = (if isOpening then Some (tx_creditorIban t) else None),
          ev_creditorName = (if isOpening then Some (tx_creditorName t) else None),
          ev_endToEndLabel = (if isOpening then tx_endToEndLabel t else None),
          ev_fingerprint = [], ev_fingerprintSalt = [], ev_recordFormatVersion = [],
          ev_anchorStatus = Anchor_PENDING, ev_batchId = None, ev_leafIndex = None,
          ev_merkleProof = None, ev_createdAt = 0\<rparr>)"

text \<open>Everything of an attempt before the insertion: the head is read, the document built, validated and sealed.\<close>

definition prepare_event :: "externals \<Rightarrow> RecordEventInput \<Rightarrow> TransactionEvent io" where
  "prepare_event X input =
     bnd get_db (\<lambda>d.
       let previous = findLatest d (tx_reference (re_transaction input)) in
       bnd (draw (randomUUID X)) (\<lambda>event_id.
       bnd (case re_occurredAt input of Some t \<Rightarrow> ret t | None \<Rightarrow> draw (clock X)) (\<lambda>occurred.
       bnd (reads wd_correlationId) (\<lambda>context_id.
         let c = tx_correlationId (re_transaction input);
             draft = draft_event input previous event_id occurred (if c = [] then context_id else c);
             xml = build None draft in
         bnd (assertValid X xml transactionEvent_schema) (\<lambda>_.
         bnd (draw (random_salt X)) (\<lambda>salt.
         bnd (lift_hash (computeFingerprint (ethers_of X) salt xml)) (\<lambda>fingerprint.
           ret (draft\<lparr>ev_fingerprint := fingerprint, ev_fingerprintSalt := salt,
                      ev_recordFormatVersion := EVENT_RECORD_FORMAT_VERSION,
                      ev_anchorStatus := Anchor_PENDING\<rparr>))))))))"

text \<open>A commit of another process.\<close>

definition interpose :: "(db \<Rightarrow> db) list \<Rightarrow> unit io" where
  "interpose others = (case others of [] \<Rightarrow> ret () | f # _ \<Rightarrow> modifies (on_db f))"

text \<open>\<^verbatim>\<open>SAVEPOINT .. ROLLBACK TO SAVEPOINT\<close> around an attempt inside a business transaction.\<close>

definition savepoint :: "bool \<Rightarrow> 'a io \<Rightarrow> 'a io" where
  "savepoint nested m =
     (\<lambda>w. case m w of
        (Inl e, w') \<Rightarrow> (Inl e, if nested then w'\<lparr>wd_db := wd_db w\<rparr> else w')
      | (Inr a, w') \<Rightarrow> (Inr a, w'))"

definition isSequenceCollision :: "exn \<Rightarrow> bool" where
  "isSequenceCollision error =
     (case error of QueryFailed code constraint \<Rightarrow> code = ''23505'' \<and> str_includes constraint ''sequence''
      | _ \<Rightarrow> False)"

definition events_isUniqueViolation :: "exn \<Rightarrow> bool" where
  "events_isUniqueViolation error = (case error of QueryFailed code _ \<Rightarrow> code = ''23505'' | _ \<Rightarrow> False)"

text \<open>The insertion and its accounting consequence; outside a transaction each \<^verbatim>\<open>save\<close> commits alone.\<close>

definition write_event :: "externals \<Rightarrow> bool \<Rightarrow> Transaction \<Rightarrow> TransactionEvent \<Rightarrow> TransactionEvent io" where
  "write_event X nested t event =
     bnd (insert_event X event) (\<lambda>saved.
     bnd (if nested then post X saved t else transaction (post X saved t)) (\<lambda>_.
     ret saved))"

fun record_from ::
  "nat \<Rightarrow> externals \<Rightarrow> bool \<Rightarrow> RecordEventInput \<Rightarrow> (db \<Rightarrow> db) list \<Rightarrow> TransactionEvent io" where
  "record_from 0 X nested input others = throw (JsError ''Impossible de consigner l'evenement'')"
| "record_from (Suc n) X nested input others =
     bnd (prepare_event X input) (\<lambda>event.
     bnd (interpose others) (\<lambda>_.
     catching (savepoint nested (write_event X nested (re_transaction input) event)) (\<lambda>e.
       if isSequenceCollision e \<and> 0 < n then record_from n X nested input (tl others) else throw e)))"

definition record_event ::
  "externals \<Rightarrow> bool \<Rightarrow> RecordEventInput \<Rightarrow> (db \<Rightarrow> db) list \<Rightarrow> TransactionEvent io" where
  "record_event X nested input others = record_from MAX_SEQUENCE_ATTEMPTS X nested input others"

definition closeCase ::
  "externals \<Rightarrow> bool \<Rightarrow> Transaction \<Rightarrow> string option \<Rightarrow> (db \<Rightarrow> db) list \<Rightarrow> TransactionEvent option io" where
  "closeCase X nested t detail others =
     bnd get_db (\<lambda>d.
       let chain = findChain d (tx_reference t) in
       if chain = [] then ret None
       else if list_ex (\<lambda>e. ev_eventType e = CASE_CLOSED) chain then ret None
       else
         catching
           (bnd (record_event X nested
                  ((fact CASE_CLOSED t)\<lparr>re_detail := Some (case detail of Some s \<Rightarrow> s | None \<Rightarrow> ''Dossier clos'')\<rparr>)
                  others) (\<lambda>e. ret (Some e)))
           (\<lambda>error.
             if events_isUniqueViolation error
             then bnd get_db (\<lambda>d'.
                    case find (\<lambda>e. ev_transactionReference e = tx_reference t \<and> ev_eventType e = CASE_CLOSED)
                           (db_events d') of
                      Some existing \<Rightarrow> ret (Some existing)
                    | None \<Rightarrow> throw error)
             else throw error))"

definition rebuildDocument :: "TransactionEvent \<Rightarrow> string" where
  "rebuildDocument event = build (Some (ev_recordFormatVersion event)) event"

section \<open>The chain invariant\<close>

text \<open>\<open>sealed\<close>: the event carries the fingerprint of its own document, which conforms to its schema.\<close>

definition sealed :: "externals \<Rightarrow> TransactionEvent \<Rightarrow> bool" where
  "sealed X e \<longleftrightarrow>
     computeFingerprint (ethers_of X) (ev_fingerprintSalt e) (rebuildDocument e) = Inr (ev_fingerprint e) \<and>
     validateXML X transactionEvent_schema (rebuildDocument e) = [] \<and>
     ev_recordFormatVersion e = EVENT_RECORD_FORMAT_VERSION"

text \<open>\<open>follows X previous e\<close>: \<open>e\<close> is sealed and is the link after \<open>previous\<close>.\<close>

definition follows :: "externals \<Rightarrow> TransactionEvent option \<Rightarrow> TransactionEvent \<Rightarrow> bool" where
  "follows X previous e \<longleftrightarrow>
     sealed X e \<and>
     ev_sequence e = (case previous of Some p \<Rightarrow> ev_sequence p | None \<Rightarrow> 0) + 1 \<and>
     ev_previousFingerprint e = map_option ev_fingerprint previous \<and>
     ev_closureEventCount e = (if ev_eventType e = CASE_CLOSED then Some (ev_sequence e) else None) \<and>
     ev_closureChainHead e = (if ev_eventType e = CASE_CLOSED then map_option ev_fingerprint previous else None) \<and>
     (ev_eventType e = CASE_CLOSED \<longrightarrow> previous \<noteq> None) \<and>
     (ev_creditorIban e \<noteq> None \<longleftrightarrow> OPENING_EVENTS (ev_eventType e))"

fun chain_from :: "externals \<Rightarrow> TransactionEvent option \<Rightarrow> TransactionEvent list \<Rightarrow> bool" where
  "chain_from X previous [] = True"
| "chain_from X previous (e # es) = (follows X previous e \<and> chain_from X (Some e) es)"

definition closings :: "TransactionEvent list \<Rightarrow> nat" where
  "closings es = length (filter (\<lambda>e. ev_eventType e = CASE_CLOSED) es)"

definition chain_ok :: "externals \<Rightarrow> TransactionEvent list \<Rightarrow> bool" where
  "chain_ok X es \<longleftrightarrow> chain_from X None es \<and> closings es \<le> 1"

definition ledger_ok :: "externals \<Rightarrow> db \<Rightarrow> bool" where
  "ledger_ok X d \<longleftrightarrow> (\<forall>reference. chain_ok X (findChain d reference))"

definition last_option :: "'a list \<Rightarrow> 'a option" where
  "last_option xs = (if xs = [] then None else Some (last xs))"

lemma last_option_simps [simp]: "last_option [] = None" "last_option (xs @ [x]) = Some x"
  by (simp_all add: last_option_def)

lemma findLatest_last: "findLatest d reference = last_option (findChain d reference)"
  by (simp add: findLatest_def last_option_def split: list.split)

lemma chain_from_snoc:
  "chain_from X previous (es @ [e]) \<longleftrightarrow>
   chain_from X previous es \<and> follows X (if es = [] then previous else Some (last es)) e"
  by (induction es arbitrary: previous) auto

lemma chain_ok_snoc:
  "chain_ok X (es @ [e]) \<longleftrightarrow>
   chain_ok X es \<and> follows X (last_option es) e \<and> (ev_eventType e = CASE_CLOSED \<longrightarrow> closings es = 0)"
  by (auto simp: chain_ok_def chain_from_snoc last_option_def closings_def)

lemma chain_from_nth:
  assumes "chain_from X previous es" "i < length es"
  shows "follows X (if i = 0 then previous else Some (es ! (i - 1))) (es ! i)"
  using assms
proof (induction es arbitrary: previous i)
  case (Cons e es)
  then show ?case by (cases i) (force simp: nth_Cons')+
qed simp

lemma chain_sequence:
  assumes "chain_from X None es" "i < length es"
  shows "ev_sequence (es ! i) = Suc i"
  using assms(2)
proof (induction i)
  case 0
  then show ?case using chain_from_nth [OF assms(1), of 0] by (simp add: follows_def)
next
  case (Suc i)
  then show ?case using chain_from_nth [OF assms(1), of "Suc i"] by (simp add: follows_def)
qed

lemma chain_last_sequence:
  assumes "chain_from X None es" "es \<noteq> []"
  shows "ev_sequence (last es) = length es"
  using chain_sequence [OF assms(1), of "length es - 1"] assms(2) by (simp add: last_conv_nth)

lemma next_rank:
  assumes "chain_from X None es"
  shows "(case last_option es of Some p \<Rightarrow> ev_sequence p | None \<Rightarrow> 0) + 1 = Suc (length es)"
  using chain_last_sequence [OF assms] by (simp add: last_option_def)

lemma chain_sequences:
  assumes "chain_from X None es"
  shows "map ev_sequence es = map Suc [0..<length es]"
  using chain_sequence [OF assms] by (intro nth_equalityI) simp_all

subsection \<open>The chain after an insertion\<close>

lemma insort_key_snoc:
  "f x \<le> f e \<Longrightarrow> insort_key f x (xs @ [e]) = insort_key f x xs @ [e]"
  by (induction xs) auto

lemma sort_key_snoc:
  "(\<forall>x\<in>set xs. f x \<le> f e) \<Longrightarrow> sort_key f (xs @ [e]) = sort_key f xs @ [e]"
  by (induction xs) (simp_all add: insort_key_snoc)

lemma findChain_set: "e \<in> set (findChain d reference) \<longleftrightarrow> e \<in> set (db_events d) \<and> ev_transactionReference e = reference"
  by (auto simp: findChain_def)

lemma findChain_append_other:
  "ev_transactionReference e \<noteq> reference \<Longrightarrow> findChain (append_event e d) reference = findChain d reference"
  by (simp add: findChain_def append_event_def)

lemma findChain_append:
  assumes "chain_from X None (findChain d (ev_transactionReference e))"
    and "ev_sequence e = Suc (length (findChain d (ev_transactionReference e)))"
  shows "findChain (append_event e d) (ev_transactionReference e) = findChain d (ev_transactionReference e) @ [e]"
proof -
  let ?xs = "filter (\<lambda>r. ev_transactionReference r = ev_transactionReference e) (db_events d)"
  have "\<forall>x\<in>set ?xs. ev_sequence x \<le> ev_sequence e"
  proof
    fix x assume "x \<in> set ?xs"
    then have "x \<in> set (findChain d (ev_transactionReference e))" by (simp add: findChain_set)
    then obtain i where "i < length (findChain d (ev_transactionReference e))"
      "x = findChain d (ev_transactionReference e) ! i" by (auto simp: in_set_conv_nth)
    then show "ev_sequence x \<le> ev_sequence e" using chain_sequence [OF assms(1)] assms(2) by simp
  qed
  then show ?thesis by (simp add: findChain_def append_event_def sort_key_snoc)
qed

text \<open>Only the events matter for a chain.\<close>

lemma findChain_events: "db_events d = db_events d' \<Longrightarrow> findChain d = findChain d'"
  by (simp add: findChain_def fun_eq_iff)

lemma ledger_ok_events: "db_events d = db_events d' \<Longrightarrow> ledger_ok X d = ledger_ok X d'"
  using findChain_events [of d d'] by (simp add: ledger_ok_def)

subsection \<open>What one attempt does\<close>

lemma build_ignores [simp]:
  "build v (e\<lparr>ev_fingerprint := a\<rparr>) = build v e"
  "build v (e\<lparr>ev_fingerprintSalt := b\<rparr>) = build v e"
  "build v (e\<lparr>ev_recordFormatVersion := c\<rparr>) = build v e"
  "build v (e\<lparr>ev_anchorStatus := s\<rparr>) = build v e"
  "build v (e\<lparr>ev_batchId := i\<rparr>) = build v e"
  "build v (e\<lparr>ev_leafIndex := l\<rparr>) = build v e"
  "build v (e\<lparr>ev_merkleProof := p\<rparr>) = build v e"
  "build v (e\<lparr>ev_createdAt := n\<rparr>) = build v e"
  unfolding build_def build_lines_def
  by (cases e; simp only: TransactionEvent.update_convs TransactionEvent.select_convs)+

lemma build_default: "build (Some EVENT_RECORD_FORMAT_VERSION) e = build None e"
  unfolding build_def build_lines_def by simp

lemma sealed_createdAt [simp]: "sealed X (e\<lparr>ev_createdAt := n\<rparr>) = sealed X e"
  by (simp add: sealed_def rebuildDocument_def)

lemma follows_createdAt [simp]: "follows X previous (e\<lparr>ev_createdAt := n\<rparr>) = follows X previous e"
  by (simp add: follows_def)

lemma closure_check_createdAt [simp]:
  "CHK_transaction_events_closure (e\<lparr>ev_createdAt := n\<rparr>) = CHK_transaction_events_closure e"
  by (simp add: CHK_transaction_events_closure_def)

text \<open>What the preparation of an attempt produces: a link, but for a closing event without predecessor.\<close>

definition prepared :: "externals \<Rightarrow> RecordEventInput \<Rightarrow> TransactionEvent option \<Rightarrow> TransactionEvent \<Rightarrow> bool" where
  "prepared X input previous e \<longleftrightarrow>
     ev_transactionReference e = tx_reference (re_transaction input) \<and> ev_eventType e = re_type input \<and>
     ev_observedAmount e = re_observedAmount input \<and> ev_expectedAmount e = tx_amount (re_transaction input) \<and>
     ev_anchorStatus e = Anchor_PENDING \<and>
     ev_actorId e = re_actorId input \<and> ev_currency e = tx_currency (re_transaction input) \<and>
     (OPENING_EVENTS (re_type input) \<longrightarrow>
        ev_debtorIban e = Some (tx_debtorIban (re_transaction input)) \<and>
        ev_debtorName e = tx_debtorName (re_transaction input) \<and>
        ev_creditorIban e = Some (tx_creditorIban (re_transaction input)) \<and>
        ev_creditorName e = Some (tx_creditorName (re_transaction input)) \<and>
        ev_endToEndLabel e = tx_endToEndLabel (re_transaction input)) \<and>
     (if ev_eventType e = CASE_CLOSED \<and> previous = None
      then CHK_transaction_events_closure e = Some False else follows X previous e)"

lemma draft_fields:
  fixes input previous i c corr
  defines "e \<equiv> draft_event input previous i c corr"
  shows "ev_transactionReference e = tx_reference (re_transaction input)" "ev_eventType e = re_type input"
    "ev_observedAmount e = re_observedAmount input" "ev_expectedAmount e = tx_amount (re_transaction input)"
    "ev_actorId e = re_actorId input"
    "ev_sequence e = (case previous of Some p \<Rightarrow> ev_sequence p | None \<Rightarrow> 0) + 1"
    "ev_previousFingerprint e = map_option ev_fingerprint previous"
    "ev_closureEventCount e = (if re_type input = CASE_CLOSED then Some (ev_sequence e) else None)"
    "ev_closureChainHead e = (if re_type input = CASE_CLOSED then map_option ev_fingerprint previous else None)"
    "ev_creditorIban e \<noteq> None \<longleftrightarrow> OPENING_EVENTS (re_type input)"
    "ev_currency e = tx_currency (re_transaction input)"
    "OPENING_EVENTS (re_type input) \<Longrightarrow> ev_debtorIban e = Some (tx_debtorIban (re_transaction input))"
    "OPENING_EVENTS (re_type input) \<Longrightarrow> ev_debtorName e = tx_debtorName (re_transaction input)"
    "OPENING_EVENTS (re_type input) \<Longrightarrow> ev_creditorIban e = Some (tx_creditorIban (re_transaction input))"
    "OPENING_EVENTS (re_type input) \<Longrightarrow> ev_creditorName e = Some (tx_creditorName (re_transaction input))"
    "OPENING_EVENTS (re_type input) \<Longrightarrow> ev_endToEndLabel e = tx_endToEndLabel (re_transaction input)"
  by (simp_all add: e_def draft_event_def Let_def)

lemma prepared_draft:
  assumes "computeFingerprint (ethers_of X) salt (build None (draft_event input previous i c corr)) = Inr fp"
    and "validateXML X transactionEvent_schema (build None (draft_event input previous i c corr)) = []"
  shows "prepared X input previous ((draft_event input previous i c corr)\<lparr>ev_fingerprint := fp, ev_fingerprintSalt := salt,
           ev_recordFormatVersion := EVENT_RECORD_FORMAT_VERSION, ev_anchorStatus := Anchor_PENDING\<rparr>)"
proof -
  note fields = draft_fields [of input _ i c corr]
  have sealed: "sealed X ((draft_event input previous i c corr)\<lparr>ev_fingerprint := fp, ev_fingerprintSalt := salt,
           ev_recordFormatVersion := EVENT_RECORD_FORMAT_VERSION, ev_anchorStatus := Anchor_PENDING\<rparr>)"
    using assms by (simp add: sealed_def rebuildDocument_def build_default)
  show ?thesis
  proof (cases "re_type input = CASE_CLOSED \<and> previous = None")
    case True
    then show ?thesis
      by (simp add: prepared_def fields OPENING_EVENTS_def CHK_transaction_events_closure_def sql_gt_def sql_hash_def
          sql_is_null_def)
  next
    case False
    then show ?thesis using sealed fields(10) [of previous] by (auto simp: prepared_def follows_def fields(1-9,11-))
  qed
qed

lemma prepare_event_run:
  assumes "prepare_event X input w = (r, w')"
  shows "wd_db w' = wd_db w" "r = Inr e \<Longrightarrow> prepared X input (findLatest (wd_db w) (tx_reference (re_transaction input))) e"
proof -
  have occ: "bnd (case re_occurredAt input of Some t \<Rightarrow> ret t | None \<Rightarrow> draw (clock X)) f v =
      (case re_occurredAt input of Some t \<Rightarrow> f t v | None \<Rightarrow> f (clock X (wd_draws v)) (v\<lparr>wd_draws := Suc (wd_draws v)\<rparr>))"
    for f :: "date \<Rightarrow> TransactionEvent io" and v
    by (simp add: run_draw split: option.split)
  show "wd_db w' = wd_db w"
    using assms unfolding prepare_event_def Let_def
    by (auto simp: occ action_simps assertValid_def lift_hash_def Let_def
        split: option.splits if_splits sum.splits)
  show "r = Inr e \<Longrightarrow> prepared X input (findLatest (wd_db w) (tx_reference (re_transaction input))) e"
    using assms unfolding prepare_event_def Let_def
    by (auto simp: occ action_simps assertValid_def lift_hash_def Let_def intro!: prepared_draft
        split: option.splits if_splits sum.splits)
qed

text \<open>The posting adds to the journal and touches nothing else.\<close>

definition entries_grew :: "db \<Rightarrow> db \<Rightarrow> bool" where
  "entries_grew d d' \<longleftrightarrow> d' = d\<lparr>db_entries := db_entries d'\<rparr> \<and> prefix (db_entries d) (db_entries d')"

lemma entries_grew_refl [simp]: "entries_grew d d"
  by (simp add: entries_grew_def)

lemma entries_grew_frame:
  assumes "entries_grew d d'"
  shows "db_events d' = db_events d" "db_transactions d' = db_transactions d" "db_refunds d' = db_refunds d"
    "db_instructions d' = db_instructions d" "db_webhooks d' = db_webhooks d" "db_batches d' = db_batches d"
  using assms unfolding entries_grew_def by (metis db.select_convs db.surjective db.update_convs(3))+

lemma entries_grew_snoc:
  "entries_grew d0 d \<Longrightarrow> entries_grew d0 (d\<lparr>db_entries := db_entries d @ es\<rparr>)"
  by (cases d; cases d0) (simp add: entries_grew_def)

lemma post_keeps_grew: "keeps (db_inv (entries_grew d0)) (post X event t)"
proof -
  have "keeps (db_inv (entries_grew d0)) (insert_entry entry ls)" for entry ls
    unfolding insert_entry_def
    by (intro keeps_intros) (rule entries_grew_snoc)
  then show ?thesis unfolding post_def by (intro keeps_intros)
qed

lemma post_run:
  assumes "post X event t w = (r, w')"
  shows "entries_grew (wd_db w) (wd_db w')"
  using keeps_run [OF post_keeps_grew, of "wd_db w" w, OF _ assms] by (simp add: db_inv_def)

lemma post_keeps_draws: "keeps (\<lambda>w. k < wd_draws w) (post X event t)"
  unfolding post_def insert_entry_def by (intro keeps_intros) (simp_all add: on_db_def)

lemma transaction_entries_grew:
  assumes "\<And>r w'. m w = (r, w') \<Longrightarrow> entries_grew (wd_db w) (wd_db w')" "transaction m w = (r, w')"
  shows "entries_grew (wd_db w) (wd_db w')"
  using assms by (auto simp: transaction_def split: prod.splits sum.splits if_splits)

lemma insert_event_run:
  assumes "insert_event X e w = (r, w')"
  shows "(\<exists>err. r = Inl err \<and> wd_db w' = wd_db w \<and>
            (\<exists>n. event_constraints X (e\<lparr>ev_createdAt := n\<rparr>) (wd_db w) = Some err)) \<or>
         (\<exists>n. r = Inr (e\<lparr>ev_createdAt := n\<rparr>) \<and> event_constraints X (e\<lparr>ev_createdAt := n\<rparr>) (wd_db w) = None \<and>
            wd_db w' = append_event (e\<lparr>ev_createdAt := n\<rparr>) (wd_db w))"
  using assms unfolding insert_event_def
  by (auto simp: action_simps on_db_def Let_def split: option.splits)

lemma write_event_run:
  assumes "write_event X nested t e w = (r, w')"
  shows "(\<exists>err. r = Inl err \<and> wd_db w' = wd_db w \<and>
            (\<exists>n. event_constraints X (e\<lparr>ev_createdAt := n\<rparr>) (wd_db w) = Some err)) \<or>
         (\<exists>n. (r = Inr (e\<lparr>ev_createdAt := n\<rparr>) \<or> (\<exists>err. r = Inl err)) \<and>
            event_constraints X (e\<lparr>ev_createdAt := n\<rparr>) (wd_db w) = None \<and>
            entries_grew (append_event (e\<lparr>ev_createdAt := n\<rparr>) (wd_db w)) (wd_db w'))"
proof -
  obtain q v where ins: "insert_event X e w = (q, v)" by (cases "insert_event X e w")
  show ?thesis
  proof (cases q)
    case (Inl err)
    then show ?thesis using assms ins insert_event_run [OF ins] by (auto simp: write_event_def run_bnd)
  next
    case (Inr saved)
    obtain n where n: "saved = e\<lparr>ev_createdAt := n\<rparr>" "event_constraints X (e\<lparr>ev_createdAt := n\<rparr>) (wd_db w) = None"
      "wd_db v = append_event (e\<lparr>ev_createdAt := n\<rparr>) (wd_db w)"
      using insert_event_run [OF ins] Inr by auto
    let ?m = "if nested then post X saved t else transaction (post X saved t)"
    obtain q' v' where m: "?m v = (q', v')" by (cases "?m v")
    have "entries_grew (wd_db v) (wd_db v')"
      using m post_run [of X saved t v] transaction_entries_grew [OF post_run]
      by (cases nested) auto
    moreover have "r = (case q' of Inl err \<Rightarrow> Inl err | Inr _ \<Rightarrow> Inr saved)" "w' = v'"
      using assms m ins Inr by (auto simp: write_event_def run_bnd action_simps split: sum.splits if_splits)
    ultimately show ?thesis using n by (cases q') auto
  qed
qed

lemma post_no_collision: "throws (\<lambda>e. \<not> isSequenceCollision e) (post X event t)"
  unfolding post_def insert_entry_def unique_violation_def check_violation_def
  by (intro throws_intros) (simp_all add: isSequenceCollision_def str_includes_def sublist_Cons_right)

subsection \<open>Races for the rank\<close>

text \<open>\<open>extends X d d'\<close>: the chains of \<open>d'\<close> are well formed and continue those of \<open>d\<close>.\<close>

definition extends :: "externals \<Rightarrow> db \<Rightarrow> db \<Rightarrow> bool" where
  "extends X d d' \<longleftrightarrow>
     ledger_ok X d' \<and> (\<forall>reference. prefix (findChain d reference) (findChain d' reference))"

text \<open>A commit of another process: it keeps the chains and only adds to them.\<close>

definition benign :: "externals \<Rightarrow> (db \<Rightarrow> db) \<Rightarrow> bool" where
  "benign X f \<longleftrightarrow> (\<forall>d. ledger_ok X d \<longrightarrow> extends X d (f d))"

lemma extends_refl: "ledger_ok X d \<Longrightarrow> extends X d d"
  by (simp add: extends_def)

lemma extends_trans: "extends X d d' \<Longrightarrow> extends X d' d'' \<Longrightarrow> extends X d d''"
  unfolding extends_def by (meson prefix_order.dual_order.trans)

lemma extends_events: "db_events d' = db_events d'' \<Longrightarrow> extends X d d' = extends X d d''"
  using findChain_events [of d' d''] ledger_ok_events [of d' d''] by (simp add: extends_def)

lemma constraints_None:
  assumes "event_constraints X e d = None"
  shows "CHK_transaction_events_closure e \<noteq> Some False"
    "\<not> (\<exists>r\<in>set (db_events d). ev_transactionReference r = ev_transactionReference e \<and> ev_sequence r = ev_sequence e)"
    "ev_eventType e = CASE_CLOSED \<longrightarrow>
       \<not> (\<exists>r\<in>set (db_events d). ev_transactionReference r = ev_transactionReference e \<and> ev_eventType r = CASE_CLOSED)"
    "\<exists>t\<in>set (db_transactions d). tx_reference t = ev_transactionReference e"
    "\<not> (\<exists>r\<in>set (db_events d). ev_id r = ev_id e)"
  using assms by (auto simp: event_constraints_def list_ex_iff split: if_splits)

lemma accepted_insertion:
  assumes ok: "ledger_ok X d" "ledger_ok X d0"
    and grew: "prefix (findChain d0 reference) (findChain d reference)"
    and e: "prepared X input (findLatest d0 reference) e" "reference = tx_reference (re_transaction input)"
    and accepted: "event_constraints X (e\<lparr>ev_createdAt := n\<rparr>) d = None"
  shows "findChain d reference = findChain d0 reference \<and>
    follows X (findLatest d reference) (e\<lparr>ev_createdAt := n\<rparr>) \<and>
    findChain (append_event (e\<lparr>ev_createdAt := n\<rparr>) d) reference = findChain d reference @ [e\<lparr>ev_createdAt := n\<rparr>] \<and>
    ledger_ok X (append_event (e\<lparr>ev_createdAt := n\<rparr>) d)"
proof -
  let ?e = "e\<lparr>ev_createdAt := n\<rparr>"
  have ref: "ev_transactionReference ?e = reference" using e by (simp add: prepared_def)
  have cf: "chain_from X None (findChain d reference)" "chain_from X None (findChain d0 reference)"
    using ok by (simp_all add: ledger_ok_def chain_ok_def)
  have fol: "follows X (findLatest d0 reference) ?e"
    using e(1) constraints_None(1) [OF accepted] by (auto simp: prepared_def split: if_splits)
  then have rank: "ev_sequence ?e = Suc (length (findChain d0 reference))"
    using next_rank [OF cf(2)] by (simp add: follows_def findLatest_last)
  have same: "findChain d reference = findChain d0 reference"
  proof (rule ccontr)
    assume ne: "findChain d reference \<noteq> findChain d0 reference"
    then have len: "length (findChain d0 reference) < length (findChain d reference)"
      using grew by (auto simp: prefix_def)
    let ?r = "findChain d reference ! length (findChain d0 reference)"
    have "?r \<in> set (findChain d reference)" using len by (rule nth_mem)
    then have "?r \<in> set (db_events d)" "ev_transactionReference ?r = reference" by (simp_all add: findChain_set)
    moreover have "ev_sequence ?r = ev_sequence ?e" using chain_sequence [OF cf(1) len] rank by simp
    ultimately show False using constraints_None(2) [OF accepted] ref by auto
  qed
  then have app: "findChain (append_event ?e d) reference = findChain d reference @ [?e]"
    using findChain_append [of X d ?e] cf(1) rank ref by simp
  have "closings (findChain d reference) = 0" if "ev_eventType ?e = CASE_CLOSED"
    using constraints_None(3) [OF accepted] that ref
    by (auto simp: closings_def filter_empty_conv findChain_set)
  then have "chain_ok X (findChain d reference @ [?e])"
    using ok fol same by (simp add: ledger_ok_def chain_ok_snoc findLatest_last)
  then have "chain_ok X (findChain (append_event ?e d) q)" for q
    using app ref ok(1) findChain_append_other [of ?e q d] by (cases "q = reference") (simp_all add: ledger_ok_def)
  then show ?thesis using same fol app by (simp add: ledger_ok_def findLatest_last)
qed

lemma write_event_chains:
  assumes run: "write_event X nested t e u = (p, x)"
    and ok: "ledger_ok X d0" "extends X d0 (wd_db u)"
    and e: "prepared X input (findLatest d0 (tx_reference (re_transaction input))) e"
  shows "extends X (wd_db u) (wd_db x) \<and>
    (\<forall>e'. p = Inr e' \<longrightarrow> findChain (wd_db u) (tx_reference (re_transaction input)) = findChain d0 (tx_reference (re_transaction input)) \<and>
       entries_grew (append_event e' (wd_db u)) (wd_db x) \<and>
       findChain (wd_db x) (tx_reference (re_transaction input)) =
         findChain (wd_db u) (tx_reference (re_transaction input)) @ [e'] \<and>
       follows X (findLatest (wd_db u) (tx_reference (re_transaction input))) e' \<and>
       prepared X input (findLatest d0 (tx_reference (re_transaction input))) e')"
  using write_event_run [OF run]
proof (elim disjE exE conjE)
  fix k
  let ?e = "e\<lparr>ev_createdAt := k\<rparr>" and ?ref = "tx_reference (re_transaction input)"
  assume acc: "event_constraints X ?e (wd_db u) = None" and g: "entries_grew (append_event ?e (wd_db u)) (wd_db x)"
  have u: "ledger_ok X (wd_db u)" "prefix (findChain d0 ?ref) (findChain (wd_db u) ?ref)"
    using ok(2) by (simp_all add: extends_def)
  note a = accepted_insertion [OF u(1) ok(1) u(2) e refl acc]
  have ev: "db_events (wd_db x) = db_events (append_event ?e (wd_db u))" by (rule entries_grew_frame [OF g])
  have ref: "ev_transactionReference ?e = ?ref" using e by (simp add: prepared_def)
  have "prefix (findChain (wd_db u) q) (findChain (append_event ?e (wd_db u)) q)" for q
    using a ref findChain_append_other [of ?e q] by (cases "q = ?ref") simp_all
  then have ext: "extends X (wd_db u) (wd_db x)"
    using a by (simp add: extends_events [OF ev]) (simp add: extends_def)
  have pe: "prepared X input (findLatest d0 ?ref) ?e"
    using e by (simp add: prepared_def)
  show ?thesis if "p = Inr ?e"
    using that ext a g pe findChain_events [OF ev] by simp
  show ?thesis if "p = Inl err" for err using that ext by simp
qed (use ok in \<open>auto intro: extends_refl simp: extends_def\<close>)

lemma savepoint_run:
  "savepoint nested m w = (r, w') \<Longrightarrow>
   \<exists>x. m w = (r, x) \<and> (w' = x \<or> (nested \<and> (\<exists>e. r = Inl e) \<and> w' = x\<lparr>wd_db := wd_db w\<rparr>))"
  by (auto simp: savepoint_def split: prod.splits sum.splits if_splits)

text \<open>What holds after \<open>record\<close>, however many races it lost.\<close>

lemma record_from_chains:
  assumes "record_from n X nested input others w = (r, w')" "ledger_ok X (wd_db w)" "list_all (benign X) others"
  shows "extends X (wd_db w) (wd_db w') \<and>
    (\<forall>e. r = Inr e \<longrightarrow> findLatest (wd_db w') (tx_reference (re_transaction input)) = Some e \<and>
         ev_eventType e = re_type input)"
  using assms
proof (induction n arbitrary: others w)
  case (Suc n)
  let ?ref = "tx_reference (re_transaction input)"
  obtain q v where prep: "prepare_event X input w = (q, v)" by (cases "prepare_event X input w")
  have dv: "wd_db v = wd_db w" by (rule prepare_event_run [OF prep])
  show ?case
  proof (cases q)
    case (Inl err)
    then show ?thesis using Suc.prems prep dv by (auto simp: run_bnd_Inl intro: extends_refl)
  next
    case (Inr e)
    have pe: "prepared X input (findLatest (wd_db w) ?ref) e" by (rule prepare_event_run(2) [OF prep Inr])
    obtain u where int: "interpose others v = (Inr (), u)" by (cases others) (simp_all add: interpose_def action_simps)
    have u: "extends X (wd_db w) (wd_db u)"
      using int dv Suc.prems(2,3) by (cases others) (auto simp: interpose_def action_simps on_db_def benign_def intro: extends_refl)
    let ?m = "savepoint nested (write_event X nested (re_transaction input) e)"
    obtain p z where sp: "?m u = (p, z)" by (cases "?m u")
    then obtain x where wr: "write_event X nested (re_transaction input) e u = (p, x)"
      and z: "z = x \<or> (\<exists>err. p = Inl err) \<and> z = x\<lparr>wd_db := wd_db u\<rparr>" using savepoint_run [OF sp] by blast
    note wc = write_event_chains [OF wr Suc.prems(2) u pe]
    have uz: "extends X (wd_db u) (wd_db z)"
      using z wc u by (auto simp: extends_def)
    then have wz: "extends X (wd_db w) (wd_db z)" by (rule extends_trans [OF u])
    have step: "record_from (Suc n) X nested input others w =
        catching ?m (\<lambda>e. if isSequenceCollision e \<and> 0 < n then record_from n X nested input (tl others) else throw e) u"
      using prep Inr int by (simp add: run_bnd_Inr)
    show ?thesis
    proof (cases p)
      case (Inr e')
      then have "r = Inr e'" "w' = z" "z = x" using Suc.prems(1) sp z unfolding step by (auto simp: catching_def)
      then show ?thesis using wz wc Inr by (simp add: findLatest_last prepared_def)
    next
      case (Inl err)
      show ?thesis
      proof (cases "isSequenceCollision err \<and> 0 < n")
        case True
        then have rec: "record_from n X nested input (tl others) z = (r, w')"
          using Suc.prems(1) sp Inl unfolding step by (simp add: catching_def)
        have "list_all (benign X) (tl others)" using Suc.prems(3) by (cases others) auto
        then show ?thesis using Suc.IH [OF rec] wz extends_trans [OF wz] by (auto simp: extends_def)
      next
        case False
        then show ?thesis using Suc.prems(1) sp Inl wz unfolding step by (auto simp: catching_def action_simps)
      qed
    qed
  qed
qed (auto simp: action_simps intro: extends_refl)

subsection \<open>Without a race\<close>

lemma fresh_rank_no_collision:
  assumes "ledger_ok X d" "prepared X input (findLatest d (tx_reference (re_transaction input))) e"
    and "event_constraints X (e\<lparr>ev_createdAt := n\<rparr>) d = Some err"
  shows "\<not> isSequenceCollision err"
proof -
  let ?ref = "tx_reference (re_transaction input)"
  have cf: "chain_from X None (findChain d ?ref)" using assms(1) by (simp add: ledger_ok_def chain_ok_def)
  have "CHK_transaction_events_closure e = Some False \<or>
      \<not> (\<exists>r\<in>set (db_events d). ev_transactionReference r = ev_transactionReference e \<and> ev_sequence r = ev_sequence e)"
  proof (cases "CHK_transaction_events_closure e = Some False")
    case False
    then have fol: "follows X (findLatest d ?ref) e" "ev_transactionReference e = ?ref"
      using assms(2) by (auto simp: prepared_def split: if_splits)
    then have rank: "ev_sequence e = Suc (length (findChain d ?ref))"
      using next_rank [OF cf] by (simp add: follows_def findLatest_last)
    have "ev_sequence r \<noteq> ev_sequence e" if "r \<in> set (db_events d)" "ev_transactionReference r = ?ref" for r
    proof -
      have "r \<in> set (findChain d ?ref)" using that by (simp add: findChain_set)
      then obtain i where "i < length (findChain d ?ref)" "r = findChain d ?ref ! i" by (auto simp: in_set_conv_nth)
      then show ?thesis using chain_sequence [OF cf] rank by simp
    qed
    then show ?thesis using fol by auto
  qed simp
  then show ?thesis
    using assms(3)
    by (auto simp: event_constraints_def list_ex_iff check_violation_def unique_violation_def isSequenceCollision_def
        str_includes_def sublist_Cons_right split: if_splits)
qed

lemma write_event_collision:
  assumes "write_event X nested t e u = (Inl err, x)" "isSequenceCollision err"
  shows "\<exists>n. event_constraints X (e\<lparr>ev_createdAt := n\<rparr>) (wd_db u) = Some err"
proof -
  obtain q v where ins: "insert_event X e u = (q, v)" by (cases "insert_event X e u")
  have no: "throws (\<lambda>e. \<not> isSequenceCollision e) (if nested then post X saved t else transaction (post X saved t))" for saved
    by (intro throws_intros post_no_collision) (simp add: isSequenceCollision_def)
  show ?thesis
  proof (cases q)
    case (Inr saved)
    then show ?thesis
      using assms ins throwsD [OF no [of saved], of v]
      by (auto simp: write_event_def run_bnd action_simps split: prod.splits sum.splits)
  qed (use assms ins insert_event_run [OF ins] in \<open>auto simp: write_event_def run_bnd\<close>)
qed

lemma write_event_unposted:
  assumes "write_event X nested t e u = (r, x)" "POSTING_RULES (ev_eventType e) = None"
  shows "wd_db x = (case r of Inl err \<Rightarrow> wd_db u | Inr saved \<Rightarrow> append_event saved (wd_db u))"
proof -
  obtain q v where ins: "insert_event X e u = (q, v)" by (cases "insert_event X e u")
  show ?thesis
  proof (cases q)
    case (Inr saved)
    then have "POSTING_RULES (ev_eventType saved) = None" "wd_db v = append_event saved (wd_db u)"
      using insert_event_run [OF ins] assms(2) by auto
    moreover from this have "(if nested then post X saved t else transaction (post X saved t)) v = (Inr None, v)"
      by (simp add: post_def transaction_def new_entries_def action_simps)
    ultimately show ?thesis using assms(1) ins Inr by (auto simp: write_event_def run_bnd action_simps)
  qed (use assms(1) ins insert_event_run [OF ins] in \<open>auto simp: write_event_def run_bnd\<close>)
qed

lemma prepare_no_collision: "throws (\<lambda>e. \<not> isSequenceCollision e) (prepare_event X input)"
  unfolding prepare_event_def assertValid_def lift_hash_def
  by (intro throws_intros)
     (auto simp: isSequenceCollision_def throws_pure split: sum.split intro: throws_pure throws_primitives)

lemma write_event_accounts:
  assumes "write_event X nested t e u = (Inr saved, x)"
  shows "\<exists>es. wd_db x = (append_event saved (wd_db u))\<lparr>db_entries := db_entries (wd_db u) @ es\<rparr> \<and> accounted saved t es"
proof -
  obtain v p where ins: "insert_event X e u = (Inr saved, v)"
    and po: "(if nested then post X saved t else transaction (post X saved t)) v = (Inr p, x)"
    using assms unfolding write_event_def by (auto simp: action_simps elim!: bnd_Inr_E)
  have "post X saved t v = (Inr p, x)" using po by (auto dest: transaction_commit split: if_splits)
  from post_accounts [OF this] show ?thesis using insert_event_run [OF ins] by (auto simp: append_event_def)
qed

text \<open>Without a race there is one attempt.\<close>

lemma record_single:
  assumes run: "record_from (Suc n) X nested input [] w = (r, w')" and ok: "ledger_ok X (wd_db w)"
  obtains (refused) err where "prepare_event X input w = (Inl err, w')" "r = Inl err" "\<not> isSequenceCollision err"
  | (attempted) e v where "prepare_event X input w = (Inr e, v)" "wd_db v = wd_db w"
      "prepared X input (findLatest (wd_db v) (tx_reference (re_transaction input))) e"
      "savepoint nested (write_event X nested (re_transaction input) e) v = (r, w')"
      "\<forall>err. r = Inl err \<longrightarrow> \<not> isSequenceCollision err"
proof -
  obtain q v where prep: "prepare_event X input w = (q, v)" by (cases "prepare_event X input w")
  have dv: "wd_db v = wd_db w" by (rule prepare_event_run [OF prep])
  show ?thesis
  proof (cases q)
    case (Inl err)
    then show ?thesis
      using run prep throwsD [OF prepare_no_collision, of X input w] by (intro refused) (auto simp: run_bnd_Inl)
  next
    case (Inr e)
    have pe: "prepared X input (findLatest (wd_db v) (tx_reference (re_transaction input))) e"
      using prepare_event_run(2) [OF prep Inr] dv by simp
    let ?m = "savepoint nested (write_event X nested (re_transaction input) e)"
    obtain p z where sp: "?m v = (p, z)" by (cases "?m v")
    have step: "record_from (Suc n) X nested input [] w =
        catching ?m (\<lambda>e. if isSequenceCollision e \<and> 0 < n then record_from n X nested input [] else throw e) v"
      using prep Inr by (simp add: run_bnd_Inr interpose_def cong: if_cong)
    have okv: "ledger_ok X (wd_db v)" using ok dv by simp
    have nc: "\<not> isSequenceCollision err" if p: "p = Inl err" for err
    proof -
      obtain x where "write_event X nested (re_transaction input) e v = (Inl err, x)"
        using savepoint_run [OF sp] p by blast
      then show ?thesis using write_event_collision fresh_rank_no_collision [OF okv pe] by blast
    qed
    then have "r = p" "w' = z" using run sp unfolding step by (cases p; auto simp: catching_def action_simps)+
    then show ?thesis using attempted [OF prep [unfolded Inr] dv pe] sp nc by blast
  qed
qed

lemma record_accounts:
  assumes "record_from (Suc n) X nested input [] w = (Inr e, w')" "ledger_ok X (wd_db w)"
  shows "\<exists>es. wd_db w' = (append_event e (wd_db w))\<lparr>db_entries := db_entries (wd_db w) @ es\<rparr> \<and>
    accounted e (re_transaction input) es"
  using assms
proof (cases rule: record_single)
  case (attempted f v)
  from savepoint_run [OF attempted(4)] have "write_event X nested (re_transaction input) f v = (Inr e, w')" by auto
  from write_event_accounts [OF this] show ?thesis using attempted(2) by simp
qed simp

lemma record_alone:
  assumes run: "record_from (Suc n) X nested input [] w = (r, w')" and ok: "ledger_ok X (wd_db w)"
  shows "(\<exists>e. r = Inr e \<and> entries_grew (append_event e (wd_db w)) (wd_db w') \<and>
            findChain (wd_db w') (tx_reference (re_transaction input)) =
              findChain (wd_db w) (tx_reference (re_transaction input)) @ [e] \<and>
            follows X (findLatest (wd_db w) (tx_reference (re_transaction input))) e \<and>
            prepared X input (findLatest (wd_db w) (tx_reference (re_transaction input))) e \<and>
            (POSTING_RULES (re_type input) = None \<longrightarrow> wd_db w' = append_event e (wd_db w))) \<or>
         (\<exists>err. r = Inl err \<and> \<not> isSequenceCollision err \<and> (nested \<or> POSTING_RULES (re_type input) = None \<longrightarrow> wd_db w' = wd_db w))"
  using assms
proof (cases rule: record_single)
  case (refused err)
  then show ?thesis using prepare_event_run(1) [OF refused(1)] by simp
next
  case (attempted e v)
  obtain x where wr: "write_event X nested (re_transaction input) e v = (r, x)"
    and z: "w' = x \<or> nested \<and> (\<exists>err. r = Inl err) \<and> w' = x\<lparr>wd_db := wd_db v\<rparr>"
    using savepoint_run [OF attempted(4)] by blast
  have okv: "ledger_ok X (wd_db v)" using ok attempted(2) by simp
  show ?thesis
  proof (cases r)
    case (Inr e')
    then show ?thesis
      using write_event_chains [OF wr okv extends_refl [OF okv] attempted(3)] write_event_unposted [OF wr] z attempted(2,3)
      by (simp add: prepared_def)
  next
    case (Inl err)
    have "nested \<longrightarrow> wd_db w' = wd_db v"
      using attempted(4) Inl by (auto simp: savepoint_def split: prod.splits sum.splits)
    moreover have "POSTING_RULES (re_type input) = None \<longrightarrow> wd_db x = wd_db v"
      using write_event_unposted [OF wr] Inl attempted(3) by (simp add: prepared_def)
    moreover have "wd_db w' = wd_db x \<or> wd_db w' = wd_db v" using z by auto
    ultimately show ?thesis using attempted(2,5) Inl by auto
  qed
qed

lemma record_wins_race:
  assumes "record_from n X nested input others w = (r, w')" "ledger_ok X (wd_db w)" "list_all (benign X) others"
    and "length others < n" "r = Inl err"
  shows "\<not> isSequenceCollision err"
  using assms
proof (induction n arbitrary: others w)
  case (Suc n)
  show ?case
  proof (cases others)
    case Nil
    then show ?thesis using record_alone [of n X nested input w r w'] Suc.prems by auto
  next
    case (Cons f fs)
    obtain q v where prep: "prepare_event X input w = (q, v)" by (cases "prepare_event X input w")
    have dv: "wd_db v = wd_db w" by (rule prepare_event_run [OF prep])
    show ?thesis
    proof (cases q)
      case (Inl err')
      then show ?thesis using Suc.prems prep throwsD [OF prepare_no_collision, of X input w] by (auto simp: run_bnd_Inl)
    next
      case (Inr e)
      have pe: "prepared X input (findLatest (wd_db w) (tx_reference (re_transaction input))) e"
        by (rule prepare_event_run(2) [OF prep Inr])
      let ?u = "on_db f v"
      have u: "extends X (wd_db w) (wd_db ?u)" using Suc.prems(2,3) dv Cons by (simp add: on_db_def benign_def)
      let ?m = "savepoint nested (write_event X nested (re_transaction input) e)"
      obtain p z where sp: "?m ?u = (p, z)" by (cases "?m ?u")
      then obtain x where wr: "write_event X nested (re_transaction input) e ?u = (p, x)"
        and z: "z = x \<or> nested \<and> (\<exists>err. p = Inl err) \<and> z = x\<lparr>wd_db := wd_db ?u\<rparr>" using savepoint_run [OF sp] by blast
      have ext: "extends X (wd_db ?u) (wd_db x)" using write_event_chains [OF wr Suc.prems(2) u pe] by simp
      have run: "catching ?m (\<lambda>e. if isSequenceCollision e \<and> 0 < n then record_from n X nested input fs else throw e) ?u
          = (r, w')"
        using Suc.prems(1) prep Inr Cons by (simp add: run_bnd_Inr interpose_def bnd_modifies cong: if_cong)
      then obtain err' where p: "p = Inl err'" using sp Suc.prems(5) by (cases p) (auto simp: catching_def)
      have "ledger_ok X (wd_db z)" using ext u z by (auto simp: extends_def)
      then show ?thesis
        using run sp p Suc.IH [of fs z] Suc.prems(3-5) Cons
        by (cases "isSequenceCollision err'") (auto simp: catching_def action_simps split: if_splits)
    qed
  qed
qed simp

section \<open>Texts and fingerprints\<close>

lemma hex_digit_inj: "a < 16 \<Longrightarrow> b < 16 \<Longrightarrow> hex_digit a = hex_digit b \<Longrightarrow> a = b"
  by (auto simp: hex_digit_def char_of_eq_iff take_bit_eq_mod split: if_splits)

lemma hex_byte_inj: "hex_byte c = hex_byte d \<Longrightarrow> c = d"
proof -
  assume h: "hex_byte c = hex_byte d"
  have b: "of_char c < (256::nat)" "of_char d < (256::nat)" by simp_all
  have "of_char c div 16 < (16::nat)" "of_char d div 16 < (16::nat)" using b by linarith+
  then have "of_char c div 16 = (of_char d div 16 :: nat)" "of_char c mod 16 = (of_char d mod 16 :: nat)"
    using h by (auto simp: hex_byte_def intro!: hex_digit_inj)
  then have "of_char c = (of_char d :: nat)" by (metis div_mult_mod_eq)
  then show "c = d" by simp
qed

lemma hex_bytes_inj: "hex_bytes s = hex_bytes t \<Longrightarrow> s = t"
proof (induction s arbitrary: t)
  case Nil
  then show ?case by (cases t) (simp_all add: hex_bytes_def hex_byte_def)
next
  case (Cons c s)
  then obtain d t' where t: "t = d # t'" by (cases t) (auto simp: hex_bytes_def hex_byte_def)
  have "hex_byte c @ hex_bytes s = hex_byte d @ hex_bytes t'" using Cons.prems t by (simp add: hex_bytes_def)
  moreover have "length (hex_byte c) = length (hex_byte d)" by (simp add: hex_byte_def)
  ultimately have "hex_byte c = hex_byte d" "hex_bytes s = hex_bytes t'" by simp_all
  then show ?case using Cons.IH hex_byte_inj t by auto
qed

text \<open>The text that is hashed to seal a document.\<close>

definition sealed_text :: "ethers \<Rightarrow> string \<Rightarrow> string \<Rightarrow> string" where
  "sealed_text E salt xml = ethers_concat E [Hex salt, Utf8 xml]"

lemma sealed_text_inj:
  assumes "ethers_ok E" "is_bytes32 s" "is_bytes32 t" "sealed_text E s x = sealed_text E t y"
  shows "x = y"
proof -
  have "digits s @ hex_bytes x = digits t @ hex_bytes y"
    using assms by (simp add: sealed_text_def ethers_ok_def)
  moreover have "length (digits s) = length (digits t)" using assms by (simp add: length_digits)
  ultimately show ?thesis using hex_bytes_inj by simp
qed

lemma fingerprint_text:
  "computeFingerprint E salt xml = Inr fp \<longleftrightarrow> is_bytes32 salt \<and> fp = keccak256 E (Hex (sealed_text E salt xml))"
  by (auto simp: computeFingerprint_def sealed_text_def)

lemma sealed_same_fields:
  assumes "ethers_ok (ethers_of X)" "sealed X e" "sealed X f"
    and "sealed_text (ethers_of X) (ev_fingerprintSalt e) (rebuildDocument e) =
         sealed_text (ethers_of X) (ev_fingerprintSalt f) (rebuildDocument f)"
  shows "canonical_fields e = canonical_fields f"
proof -
  have "is_bytes32 (ev_fingerprintSalt e)" "is_bytes32 (ev_fingerprintSalt f)"
    using assms(2,3) by (simp_all add: sealed_def fingerprint_text)
  then have "rebuildDocument e = rebuildDocument f" by (rule sealed_text_inj [OF assms(1) _ _ assms(4)])
  then show ?thesis unfolding rebuildDocument_def by (rule build_determines_fields)
qed

lemma record_event_Suc: "record_event X nested input others = record_from (Suc 4) X nested input others"
  by (simp add: record_event_def MAX_SEQUENCE_ATTEMPTS_def numeral_eq_Suc)

lemma empty_ledger_ok: "db_events d = [] \<Longrightarrow> ledger_ok X d"
  by (simp add: ledger_ok_def findChain_def chain_ok_def closings_def)

lemma sample_world_ok: "ledger_ok X (wd_db sample_world)"
  by (rule empty_ledger_ok) (simp add: sample_world_def empty_db_def)

subsection \<open>When a fact can be recorded\<close>

text \<open>
  The conditions under which the program expects to record a fact: the services answer as documented
  (salts are 32 bytes, identifiers are new and differ from each other), the texts and the numbers of the fact
  fit their columns, the transaction exists, the actor is complete or absent, the case is open if the fact closes
  it, and the amounts of a posted fact are whole cents. Nothing is assumed of the validator: its verdict on the
  document decides (\<open>fact_document\<close>).
\<close>

definition services_ok :: "externals \<Rightarrow> world \<Rightarrow> bool" where
  "services_ok X w \<longleftrightarrow>
     ethers_ok (ethers_of X) \<and> (\<forall>n. is_bytes32 (random_salt X n)) \<and>
     (\<forall>n \<ge> wd_draws w. \<forall>r\<in>set (db_events (wd_db w)). ev_id r \<noteq> randomUUID X n) \<and>
     (\<forall>m \<ge> wd_draws w. \<forall>n > m. randomUUID X m \<noteq> randomUUID X n)"

text \<open>The store holds chains in order and a balanced journal of its own facts.\<close>

definition store_ready :: "externals \<Rightarrow> world \<Rightarrow> bool" where
  "store_ready X w \<longleftrightarrow>
     services_ok X w \<and> ledger_ok X (wd_db w) \<and>
     (\<forall>en\<in>set (db_entries (wd_db w)). \<exists>r\<in>set (db_events (wd_db w)). ev_id r = je_eventId en) \<and>
     list_all journal_entries_balanced (db_entries (wd_db w))"

text \<open>The draft that an attempt starts from, its document, and what its columns ask of the fact.\<close>

definition correlation_of :: "RecordEventInput \<Rightarrow> world \<Rightarrow> string" where
  "correlation_of input w =
     (if tx_correlationId (re_transaction input) = [] then wd_correlationId w
      else tx_correlationId (re_transaction input))"

definition draft_of :: "externals \<Rightarrow> RecordEventInput \<Rightarrow> world \<Rightarrow> TransactionEvent" where
  "draft_of X input w =
     draft_event input (findLatest (wd_db w) (tx_reference (re_transaction input))) (randomUUID X (wd_draws w))
       (case re_occurredAt input of Some t \<Rightarrow> t | None \<Rightarrow> clock X (Suc (wd_draws w))) (correlation_of input w)"

definition fact_document :: "externals \<Rightarrow> RecordEventInput \<Rightarrow> world \<Rightarrow> string" where
  "fact_document X input w = build None (draft_of X input w)"

definition fact_fits :: "externals \<Rightarrow> RecordEventInput \<Rightarrow> world \<Rightarrow> bool" where
  "fact_fits X input w \<longleftrightarrow>
     (let t = re_transaction input in
      fits 32 (Some (tx_reference t)) \<and> fits 64 (tx_aggregatorReference t) \<and> fits 64 (tx_soapOperation t) \<and>
      fits 3 (Some (tx_currency t)) \<and> fits 3 (re_observedCurrency input) \<and> fits 128 (Some (correlation_of input w)) \<and>
      fits 1024 (re_detail input) \<and> fits 128 (re_actorId input) \<and> in_numeric (tx_amount t) \<and>
      (case re_observedAmount input of None \<Rightarrow> True | Some a \<Rightarrow> in_numeric a) \<and>
      (OPENING_EVENTS (re_type input) \<longrightarrow>
         fits_encrypted X (Some (tx_debtorIban t)) \<and> fits_encrypted X (tx_debtorName t) \<and>
         fits_encrypted X (Some (tx_creditorIban t)) \<and> fits_encrypted X (Some (tx_creditorName t)) \<and>
         fits 140 (tx_endToEndLabel t)) \<and>
      Suc (length (findChain (wd_db w) (tx_reference t))) < 2 ^ 31)"

definition amounts_ok :: "RecordEventInput \<Rightarrow> bool" where
  "amounts_ok input \<longleftrightarrow>
     POSTING_RULES (re_type input) \<noteq> None \<longrightarrow>
     (\<exists>a b f. cents_ok a b f \<and> tx_amount (re_transaction input) = of_cents a \<and>
        re_observedAmount input = map_option of_cents b \<and> tx_feeAmount (re_transaction input) = of_cents f)"

definition recordable :: "externals \<Rightarrow> RecordEventInput \<Rightarrow> world \<Rightarrow> bool" where
  "recordable X input w \<longleftrightarrow>
     store_ready X w \<and> fact_fits X input w \<and>
     (\<exists>t\<in>set (db_transactions (wd_db w)). tx_reference t = tx_reference (re_transaction input)) \<and>
     (re_actorId input = None) = (re_actorRole input = None) \<and>
     (re_actorId input = None) = (re_actionOrigin input = None) \<and>
     (re_type input = CASE_CLOSED \<longrightarrow>
        findChain (wd_db w) (tx_reference (re_transaction input)) \<noteq> [] \<and>
        closings (findChain (wd_db w) (tx_reference (re_transaction input))) = 0) \<and>
     amounts_ok input"

lemma positive_lines_total:
  assumes "ls \<noteq> []" "list_all (\<lambda>l. 0 < jl_amount l) ls"
  shows "debits_of ls \<noteq> 0 \<or> credits_of ls \<noteq> 0"
proof -
  have nonneg: "0 \<le> debits_of xs" "0 \<le> credits_of xs" if "list_all (\<lambda>l. 0 < jl_amount l) xs" for xs
    using that by (induction xs) (auto simp: debits_of_def credits_of_def)
  obtain l xs where ls: "ls = l # xs" using assms(1) by (cases ls) auto
  then show ?thesis
    using assms(2) nonneg [of xs] by (cases "jl_direction l") (auto simp: debits_of_def credits_of_def)
qed

lemma draft_checks:
  "ev_id (draft_event input previous i c corr) = i"
  "CHK_transaction_events_parties ((draft_event input previous i c corr)
     \<lparr>ev_fingerprint := fp, ev_fingerprintSalt := salt, ev_recordFormatVersion := v, ev_anchorStatus := s\<rparr>) = Some True"
  "(re_actorId input = None) = (re_actorRole input = None) \<Longrightarrow>
   (re_actorId input = None) = (re_actionOrigin input = None) \<Longrightarrow>
   CHK_transaction_events_actor_context ((draft_event input previous i c corr)
     \<lparr>ev_fingerprint := fp, ev_fingerprintSalt := salt, ev_recordFormatVersion := v, ev_anchorStatus := s\<rparr>) = Some True"
  by (auto simp: draft_event_def Let_def CHK_transaction_events_parties_def no_parties_def
      CHK_transaction_events_actor_context_def sql_is_null_def sql_not_null_def)

lemma bytes32_fits: "is_bytes32 s \<Longrightarrow> fits 66 (Some s)"
  by (intro short_fits) (simp add: is_bytes32_def)

lemma chain_digests:
  assumes "ethers_ok (ethers_of X)" "ledger_ok X d" "findLatest d reference = Some p"
  shows "is_bytes32 (ev_fingerprint p)"
proof -
  let ?es = "findChain d reference"
  have cf: "chain_from X None ?es" using assms(2) by (simp add: ledger_ok_def chain_ok_def)
  have ne: "?es \<noteq> []" "p = last ?es" using assms(3) by (auto simp: findLatest_last last_option_def split: if_splits)
  then have "p = ?es ! (length ?es - 1)" by (simp add: last_conv_nth)
  then have "sealed X p" using chain_from_nth [OF cf, of "length ?es - 1"] ne by (simp add: follows_def)
  then show ?thesis using assms(1) by (auto simp: sealed_def fingerprint_text ethers_ok_def)
qed

text \<open>The preparation of an attempt: the verdict of the validator decides between a sealed draft and the refusal.\<close>

definition sealed_draft :: "externals \<Rightarrow> RecordEventInput \<Rightarrow> world \<Rightarrow> string \<Rightarrow> TransactionEvent" where
  "sealed_draft X input w salt =
     (draft_of X input w)\<lparr>ev_fingerprint := keccak256 (ethers_of X) (Hex (sealed_text (ethers_of X) salt (fact_document X input w))),
        ev_fingerprintSalt := salt, ev_recordFormatVersion := EVENT_RECORD_FORMAT_VERSION, ev_anchorStatus := Anchor_PENDING\<rparr>"

lemma prepare_event_outcome:
  assumes "\<And>n. is_bytes32 (random_salt X n)"
  shows "\<exists>v. wd_db v = wd_db w \<and> wd_draws w < wd_draws v \<and> prepare_event X input w =
    (case validateXML X transactionEvent_schema (fact_document X input w) of
       [] \<Rightarrow> (Inr (sealed_draft X input w (random_salt X (wd_draws v - 1))), v)
     | violations \<Rightarrow> (Inl (XsdValidation transactionEvent_schema violations), v))"
proof -
  have fp: "computeFingerprint (ethers_of X) (random_salt X n) xml =
      Inr (keccak256 (ethers_of X) (Hex (sealed_text (ethers_of X) (random_salt X n) xml)))" for n xml
    using assms by (simp add: fingerprint_text)
  show ?thesis
    by (cases "re_occurredAt input"; cases "tx_correlationId (re_transaction input) = []"; cases "validateXML X transactionEvent_schema (fact_document X input w)")
       (simp_all add: prepare_event_def fact_document_def sealed_draft_def draft_of_def correlation_of_def Let_def
         action_simps assertValid_def lift_hash_def fp)
qed

lemma sealed_draft_checks:
  assumes "recordable X input w" "is_bytes32 salt"
  shows "ev_id (sealed_draft X input w salt) = randomUUID X (wd_draws w)"
    "CHK_transaction_events_parties (sealed_draft X input w salt) = Some True"
    "CHK_transaction_events_actor_context (sealed_draft X input w salt) = Some True"
    "event_widths X (sealed_draft X input w salt)" "event_numbers (sealed_draft X input w salt)"
    "ev_encryptionVersion (sealed_draft X input w salt) = 1"
proof -
  have rec: "ethers_ok (ethers_of X)" "ledger_ok X (wd_db w)" "fact_fits X input w"
    "(re_actorId input = None) = (re_actorRole input = None)" "(re_actorId input = None) = (re_actionOrigin input = None)"
    using assms(1) unfolding recordable_def store_ready_def services_ok_def by blast+
  show "ev_id (sealed_draft X input w salt) = randomUUID X (wd_draws w)"
    "CHK_transaction_events_parties (sealed_draft X input w salt) = Some True"
    "CHK_transaction_events_actor_context (sealed_draft X input w salt) = Some True"
    using draft_checks rec(4,5) by (simp_all add: sealed_draft_def draft_of_def)
  show "ev_encryptionVersion (sealed_draft X input w salt) = 1"
    by (simp add: sealed_draft_def draft_of_def draft_event_def Let_def)
  have prev: "fits 66 (map_option ev_fingerprint (findLatest (wd_db w) (tx_reference (re_transaction input))))"
    using chain_digests [OF rec(1,2)] bytes32_fits
    by (cases "findLatest (wd_db w) (tx_reference (re_transaction input))") (simp_all add: short_fits)
  have fp: "fits 66 (Some (keccak256 (ethers_of X) v))" for v
    using rec(1) by (intro bytes32_fits) (simp add: ethers_ok_def)
  have version: "fits 8 (Some EVENT_RECORD_FORMAT_VERSION)"
    by (intro short_fits) (simp add: EVENT_RECORD_FORMAT_VERSION_def)
  show "event_widths X (sealed_draft X input w salt)"
    using rec(3) prev fp version bytes32_fits [OF assms(2)]
    by (auto simp: event_widths_def fact_fits_def sealed_draft_def draft_of_def draft_event_def Let_def fits_encrypted_def short_fits)
  have cf: "chain_from X None (findChain (wd_db w) (tx_reference (re_transaction input)))"
    using rec(2) by (simp add: ledger_ok_def chain_ok_def)
  show "event_numbers (sealed_draft X input w salt)"
    using rec(3) next_rank [OF cf]
    by (simp add: event_numbers_def fact_fits_def sealed_draft_def draft_of_def draft_event_def Let_def findLatest_last)
qed

lemma post_succeeds:
  assumes cents: "ev_expectedAmount e = of_cents a" "ev_observedAmount e = map_option of_cents b"
      "tx_feeAmount t = of_cents f" "POSTING_RULES (ev_eventType e) \<noteq> None \<longrightarrow> cents_ok a b f"
    and fresh: "\<not> list_ex (\<lambda>en. je_eventId en = ev_id e) (db_entries (wd_db w))"
    and ref: "list_ex (\<lambda>r. ev_id r = ev_id e) (db_events (wd_db w))"
    and bal: "list_all journal_entries_balanced (db_entries (wd_db w))"
  shows "\<exists>p w'. post X e t w = (Inr p, w') \<and> list_all journal_entries_balanced (db_entries (wd_db w'))"
proof (cases "POSTING_RULES (ev_eventType e)")
  case None
  then show ?thesis using bal by (simp add: post_def action_simps)
next
  case (Some nr)
  obtain narration rule where nr: "nr = (narration, rule)" by (cases nr)
  have ok: "cents_ok a b f" using cents(4) Some by simp
  have ctx: "\<lparr>pc_ordered = ev_expectedAmount e, pc_observed = ev_observedAmount e, pc_fee = tx_feeAmount t\<rparr> = cents_context a b f"
    by (simp add: cents cents_context_def)
  have rows: "store_lines (rule (cents_context a b f)) = Some (cents_lines (ev_eventType e) a b f)"
    by (rule rule_stores_cents [OF ok Some [unfolded nr]])
  have pos: "list_all (\<lambda>l. 0 < jl_amount l) (cents_lines (ev_eventType e) a b f)"
    using cents_lines_positive by (auto simp: list_all_iff)
  have "debits_of (cents_lines (ev_eventType e) a b f) = credits_of (cents_lines (ev_eventType e) a b f)"
    by (rule cents_lines_balanced [OF ok])
  moreover have "debits_of ls \<noteq> 0 \<or> credits_of ls \<noteq> 0" if "ls \<noteq> []" "list_all (\<lambda>l. 0 < jl_amount l) ls" for ls
    using that by (rule positive_lines_total)
  moreover have "rule (cents_context a b f) \<noteq> [] \<Longrightarrow> cents_lines (ev_eventType e) a b f \<noteq> []"
    using rows by (cases "rule (cents_context a b f)") (auto simp: store_lines_def split: option.splits)
  ultimately have "rule (cents_context a b f) \<noteq> [] \<Longrightarrow> je_lines en = cents_lines (ev_eventType e) a b f \<Longrightarrow>
      journal_entries_balanced en" for en
    using pos by (auto simp: journal_entries_balanced_def)
  then show ?thesis
    using rows pos fresh ref bal
    by (auto simp: post_def Some nr ctx Let_def action_simps insert_entry_def on_db_def)
qed

lemma sealed_digest: "ethers_ok (ethers_of X) \<Longrightarrow> sealed X e \<Longrightarrow> is_bytes32 (ev_fingerprint e)"
  by (auto simp: sealed_def fingerprint_text ethers_ok_def)

lemma event_insertable:
  assumes rec: "recordable X input w"
    and e: "prepared X input (findLatest (wd_db w) (tx_reference (re_transaction input))) e"
      "ev_id e = randomUUID X (wd_draws w)" "CHK_transaction_events_parties e = Some True"
      "CHK_transaction_events_actor_context e = Some True" "event_widths X e" "event_numbers e" "ev_encryptionVersion e = 1"
  shows "event_constraints X (e\<lparr>ev_createdAt := n\<rparr>) (wd_db w) = None"
proof -
  let ?d = "wd_db w" and ?ref = "tx_reference (re_transaction input)"
  have svc: "services_ok X w" and ok: "ledger_ok X ?d" using rec by (simp_all add: recordable_def store_ready_def)
  have id: "\<not> list_ex (\<lambda>r. ev_id r = ev_id e) (db_events ?d)" using svc e(2) by (auto simp: services_ok_def list_ex_iff)
  have tx: "list_ex (\<lambda>t. tx_reference t = ev_transactionReference e) (db_transactions ?d)"
    using rec e(1) by (auto simp: recordable_def prepared_def list_ex_iff)
  have fol: "follows X (findLatest ?d ?ref) e"
    using rec e(1) by (auto simp: recordable_def prepared_def findLatest_last last_option_def split: if_splits)
  have chk: "CHK_transaction_events_closure e \<noteq> Some False"
  proof (cases "ev_eventType e = CASE_CLOSED")
    case True
    then have ne: "findChain ?d ?ref \<noteq> []" using rec e(1) by (auto simp: recordable_def prepared_def)
    have cf: "chain_from X None (findChain ?d ?ref)" using ok by (simp add: ledger_ok_def chain_ok_def)
    have "is_bytes32 (ev_fingerprint (last (findChain ?d ?ref)))"
      using svc ne by (intro chain_digests [OF _ ok, of ?ref]) (simp_all add: services_ok_def findLatest_last last_option_def)
    moreover have "1 < ev_sequence e"
      using fol next_rank [OF cf] ne by (simp add: follows_def findLatest_last)
    ultimately show ?thesis
      using fol ne True by (simp add: CHK_transaction_events_closure_def follows_def findLatest_last last_option_def
          sql_gt_def sql_hash_def sql_is_null_def)
  next
    case False
    then show ?thesis using fol by (simp add: CHK_transaction_events_closure_def follows_def sql_is_null_def)
  qed
  have cl: "\<not> list_ex (\<lambda>r. ev_transactionReference r = ev_transactionReference e \<and> ev_eventType r = CASE_CLOSED) (db_events ?d)"
    if "ev_eventType e = CASE_CLOSED"
  proof -
    have "closings (findChain ?d ?ref) = 0" "ev_transactionReference e = ?ref"
      using that rec e(1) by (auto simp: recordable_def prepared_def)
    then show ?thesis by (auto simp: closings_def filter_empty_conv findChain_set list_ex_iff)
  qed
  have "event_constraints X (e\<lparr>ev_createdAt := n\<rparr>) ?d \<in> {None, Some (unique_violation ''uq_transaction_events_sequence'')}"
    using id chk e(3-7) cl tx
    by (auto simp: event_constraints_def CHK_transaction_events_parties_def CHK_transaction_events_actor_context_def no_parties_def
        event_widths_def event_numbers_def)
  moreover have "isSequenceCollision (unique_violation ''uq_transaction_events_sequence'')"
    by (simp add: unique_violation_def isSequenceCollision_def str_includes_def sublist_Cons_right)
  ultimately show ?thesis using fresh_rank_no_collision [OF ok e(1)] by blast
qed

lemma post_entitled:
  assumes rec: "recordable X input w" and pe: "prepared X input previous e"
    and e: "ev_id e = randomUUID X (wd_draws w)" and u: "wd_db u = append_event e (wd_db w)"
  shows "\<exists>p x. post X e (re_transaction input) u = (Inr p, x) \<and> list_all journal_entries_balanced (db_entries (wd_db x))"
proof -
  have svc: "services_ok X w" using rec by (simp add: recordable_def store_ready_def)
  have fresh: "\<not> list_ex (\<lambda>en. je_eventId en = ev_id e) (db_entries (wd_db u))"
  proof
    assume "list_ex (\<lambda>en. je_eventId en = ev_id e) (db_entries (wd_db u))"
    then obtain en where en: "en \<in> set (db_entries (wd_db w))" "je_eventId en = ev_id e"
      using u by (auto simp: list_ex_iff append_event_def)
    then obtain r where "r \<in> set (db_events (wd_db w))" "ev_id r = ev_id e"
      using rec by (force simp: recordable_def store_ready_def)
    then show False using svc e by (auto simp: services_ok_def)
  qed
  have in_events: "list_ex (\<lambda>r. ev_id r = ev_id e) (db_events (wd_db u))" using u by (simp add: append_event_def)
  have bal: "list_all journal_entries_balanced (db_entries (wd_db u))"
    using rec u by (simp add: recordable_def store_ready_def append_event_def)
  show ?thesis
  proof (cases "POSTING_RULES (re_type input)")
    case None
    then have "post X e (re_transaction input) u = (Inr None, u)"
      using pe by (simp add: post_def action_simps prepared_def)
    then show ?thesis using bal by blast
  next
    case (Some r)
    then obtain a b f where c: "cents_ok a b f" "tx_amount (re_transaction input) = of_cents a"
      "re_observedAmount input = map_option of_cents b" "tx_feeAmount (re_transaction input) = of_cents f"
      using rec by (auto simp: recordable_def amounts_ok_def)
    have "ev_expectedAmount e = of_cents a" "ev_observedAmount e = map_option of_cents b"
      using pe c by (simp_all add: prepared_def)
    then show ?thesis using post_succeeds [OF _ _ c(4) _ fresh in_events bal] c(1) by blast
  qed
qed

text \<open>A fact that can be recorded and whose document conforms is recorded, and the store is ready for the next one.\<close>

lemma record_succeeds:
  assumes rec: "recordable X input w" and conf: "validateXML X transactionEvent_schema (fact_document X input w) = []"
  shows "\<exists>e w'. record_event X nested input [] w = (Inr e, w') \<and> ev_id e = randomUUID X (wd_draws w) \<and>
    wd_draws w < wd_draws w' \<and> list_all journal_entries_balanced (db_entries (wd_db w')) \<and> build None e = fact_document X input w"
proof -
  let ?ref = "tx_reference (re_transaction input)"
  have salts: "is_bytes32 (random_salt X n)" for n using rec by (simp add: recordable_def store_ready_def services_ok_def)
  obtain salt v where prep: "prepare_event X input w = (Inr (sealed_draft X input w salt), v)" "is_bytes32 salt"
    and v: "wd_db v = wd_db w" "wd_draws w < wd_draws v"
    using prepare_event_outcome [OF salts, of w input] conf salts by auto
  define e where "e = sealed_draft X input w salt"
  have pe: "prepared X input (findLatest (wd_db w) ?ref) e" using prepare_event_run(2) [OF prep(1)] by (simp add: e_def)
  note checks = sealed_draft_checks [OF rec prep(2), folded e_def]
  define saved where "saved = e\<lparr>ev_createdAt := clock X (wd_draws v)\<rparr>"
  have "event_constraints X saved (wd_db v) = None"
    unfolding saved_def v(1) by (rule event_insertable [OF rec pe checks])
  then obtain u where ins: "insert_event X e v = (Inr saved, u)" "wd_db u = append_event saved (wd_db w)" "wd_draws u = Suc (wd_draws v)"
    by (simp add: insert_event_def action_simps Let_def on_db_def saved_def v(1))
  have ps: "prepared X input (findLatest (wd_db w) ?ref) saved" using pe by (simp add: saved_def prepared_def)
  obtain p x where po: "post X saved (re_transaction input) u = (Inr p, x)" "list_all journal_entries_balanced (db_entries (wd_db x))"
    using post_entitled [OF rec ps _ ins(2)] checks(1) by (auto simp: saved_def)
  have draws: "wd_draws w < wd_draws x"
    using keeps_run [OF post_keeps_draws _ po(1), of "wd_draws w"] v(2) ins(3) by simp
  have "(if nested then post X saved (re_transaction input) else transaction (post X saved (re_transaction input))) u = (Inr p, x)"
    using po by (simp add: transaction_def new_entries_def list_all_iff) (meson in_set_dropD)
  then have "write_event X nested (re_transaction input) e v = (Inr saved, x)"
    using ins(1) by (simp add: write_event_def run_bnd action_simps)
  then have "savepoint nested (write_event X nested (re_transaction input) e) v = (Inr saved, x)"
    by (simp add: savepoint_def)
  then have "record_event X nested input [] w = (Inr saved, x)"
    using prep(1) unfolding record_event_Suc record_from.simps by (simp add: run_bnd interpose_def catching_def e_def)
  moreover have "build None saved = fact_document X input w"
    by (simp add: saved_def e_def sealed_draft_def fact_document_def)
  ultimately show ?thesis using checks(1) po(2) draws by (auto simp: saved_def)
qed

lemma store_ready_recorded:
  assumes "store_ready X w" "record_event X nested input [] w = (Inr e, w')"
    and "ev_id e = randomUUID X (wd_draws w)" "wd_draws w < wd_draws w'"
    and "list_all journal_entries_balanced (db_entries (wd_db w'))"
  shows "store_ready X w'"
proof -
  have ok: "ledger_ok X (wd_db w)" and svc: "services_ok X w" using assms(1) by (simp_all add: store_ready_def)
  obtain es where d: "wd_db w' = (append_event e (wd_db w))\<lparr>db_entries := db_entries (wd_db w) @ es\<rparr>"
    "accounted e (re_transaction input) es"
    using record_accounts [OF assms(2) [unfolded record_event_Suc] ok] by blast
  have ev: "db_events (wd_db w') = db_events (wd_db w) @ [e]" using d(1) by (simp add: append_event_def)
  have "\<exists>r\<in>set (db_events (wd_db w')). ev_id r = je_eventId en" if "en \<in> set (db_entries (wd_db w'))" for en
    using that assms(1) d ev by (auto simp: store_ready_def accounted_def split: if_splits)
  moreover have "services_ok X w'" using svc assms(3,4) ev by (auto simp: services_ok_def)
  moreover have "ledger_ok X (wd_db w')"
    using record_from_chains [OF assms(2) [unfolded record_event_def] ok] by (simp add: extends_def)
  ultimately show ?thesis using assms(5) by (simp add: store_ready_def)
qed

lemma find_closing_None:
  assumes "\<not> list_ex (\<lambda>e. ev_eventType e = CASE_CLOSED) (findChain d reference)"
  shows "find (\<lambda>e. ev_transactionReference e = reference \<and> ev_eventType e = CASE_CLOSED) (db_events d) = None"
  using assms by (auto simp: find_None_iff list_ex_iff findChain_set)

text \<open>Every outcome of \<open>closeCase\<close>.\<close>

lemma closeCase_run:
  assumes ok: "ledger_ok X (wd_db w)" and run: "closeCase X nested t detail [] w = (r, w')"
  shows "(r = Inr None \<and> w' = w \<and>
            (findChain (wd_db w) (tx_reference t) = [] \<or> closings (findChain (wd_db w) (tx_reference t)) \<noteq> 0)) \<or>
         (\<exists>err. r = Inl err \<and> wd_db w' = wd_db w) \<or>
         (\<exists>e. r = Inr (Some e) \<and> findChain (wd_db w) (tx_reference t) \<noteq> [] \<and>
            findChain (wd_db w') (tx_reference t) = findChain (wd_db w) (tx_reference t) @ [e] \<and>
            follows X (findLatest (wd_db w) (tx_reference t)) e \<and> ev_eventType e = CASE_CLOSED \<and>
            entries_grew (append_event e (wd_db w)) (wd_db w'))"
proof (cases "findChain (wd_db w) (tx_reference t) = [] \<or>
    list_ex (\<lambda>e. ev_eventType e = CASE_CLOSED) (findChain (wd_db w) (tx_reference t))")
  case True
  then show ?thesis using run
    by (auto simp: closeCase_def action_simps Let_def closings_def filter_empty_conv list_ex_iff split: if_splits)
next
  case False
  let ?in = "(fact CASE_CLOSED t)\<lparr>re_detail := Some (case detail of Some s \<Rightarrow> s | None \<Rightarrow> ''Dossier clos'')\<rparr>"
  have inp: "tx_reference (re_transaction ?in) = tx_reference t" "re_type ?in = CASE_CLOSED" by (simp_all add: fact_def)
  obtain q v where rec: "record_from (Suc 4) X nested ?in [] w = (q, v)" by (cases "record_from (Suc 4) X nested ?in [] w")
  then have rec': "record_event X nested ?in [] w = (q, v)" by (simp only: record_event_Suc)
  note alone = record_alone [OF rec ok, unfolded inp]
  show ?thesis
  proof (cases q)
    case (Inr e)
    then have "bnd (record_event X nested ?in []) (\<lambda>e. ret (Some e)) w = (Inr (Some e), v)"
      using rec' by (simp add: run_bnd action_simps)
    then have "r = Inr (Some e)" "w' = v"
      using run False by (simp_all add: closeCase_def action_simps catching_def)
    then show ?thesis using alone Inr False by (auto simp: prepared_def inp)
  next
    case (Inl err)
    then have b: "bnd (record_event X nested ?in []) (\<lambda>e. ret (Some e)) w = (Inl err, v)"
      using rec' by (simp add: run_bnd)
    have same: "wd_db v = wd_db w" using alone Inl by auto
    have "find (\<lambda>e. ev_transactionReference e = tx_reference t \<and> ev_eventType e = CASE_CLOSED) (db_events (wd_db v)) = None"
      unfolding same using False by (intro find_closing_None) simp
    then have "r = Inl err" "w' = v"
      using run False b by (auto simp: closeCase_def action_simps catching_def split: if_splits)
    then show ?thesis using same by simp
  qed
qed

section \<open>Properties\<close>

lemma sample_services:
  "services_ok sample_externals w \<longleftrightarrow>
   (\<forall>n \<ge> wd_draws w. \<forall>r\<in>set (db_events (wd_db w)). ev_id r \<noteq> replicate n (CHR ''u''))"
  using bytes32_text_digest [of 1] by (auto simp: services_ok_def sample_ethers_ok is_digest_def)

lemma sample_ready: "store_ready sample_externals sample_world"
  using sample_world_ok by (simp add: store_ready_def sample_services) (simp add: sample_world_def empty_db_def)

lemma sample_amount_storable: "in_numeric (of_cents 125075)"
  using store_numeric_cents [of 125075] by (intro stored_in_numeric) simp

lemma sample_fact_fits:
  assumes "re_transaction input = sample_transaction" "re_observedAmount input = None" "re_observedCurrency input = None"
    "re_actorId input = None" "fits 1024 (re_detail input)" "length (findChain (wd_db w) ''MM-1'') < 100"
  shows "fact_fits sample_externals input w"
  using assms sample_amount_storable
  by (simp add: fact_fits_def Let_def correlation_of_def fits_encrypted_def encrypted_width_def short_fits sample_transaction_def)

lemma sample_recordable: "recordable sample_externals (fact PAYMENT_INITIATED sample_transaction) sample_world"
proof -
  have "fact_fits sample_externals (fact PAYMENT_INITIATED sample_transaction) sample_world"
    by (rule sample_fact_fits) (simp_all add: fact_def short_fits findChain_def sample_world_def empty_db_def)
  then show ?thesis
    using sample_ready by (simp add: recordable_def amounts_ok_def fact_def) (simp add: sample_world_def)
qed

text \<open>
  C12. A fingerprint binds the content of a fact: two sealed events with the same fingerprint say the
  same in every field of their canonical document, or else the two texts that were hashed to seal them
  are different texts with the same digest.
\<close>

theorem fingerprint_binds_content:
  assumes "ethers_ok (ethers_of X)" "sealed X e" "sealed X f" "ev_fingerprint e = ev_fingerprint f"
  shows "canonical_fields e = canonical_fields f \<or>
    (let a = sealed_text (ethers_of X) (ev_fingerprintSalt e) (rebuildDocument e);
         b = sealed_text (ethers_of X) (ev_fingerprintSalt f) (rebuildDocument f)
     in a \<noteq> b \<and> keccak256 (ethers_of X) (Hex a) = keccak256 (ethers_of X) (Hex b))"
  using sealed_same_fields [OF assms(1-3)] assms(2-4) by (auto simp: Let_def sealed_def fingerprint_text)

theorem fingerprint_binds_content_witness:
  "\<exists>e w'. record_event sample_externals True (fact PAYMENT_INITIATED sample_transaction) [] sample_world = (Inr e, w') \<and>
     canonical_fields e = canonical_fields (e\<lparr>ev_anchorStatus := Anchor_ANCHORED, ev_leafIndex := Some 3\<rparr>)"
proof -
  obtain e w' where rec: "record_event sample_externals True (fact PAYMENT_INITIATED sample_transaction) [] sample_world = (Inr e, w')"
    using record_succeeds [OF sample_recordable] by fastforce
  let ?f = "e\<lparr>ev_anchorStatus := Anchor_ANCHORED, ev_leafIndex := Some 3\<rparr>"
  have e: "sealed sample_externals e"
    using record_alone [OF rec [unfolded record_event_Suc] sample_world_ok] by (auto simp: follows_def)
  then have f: "sealed sample_externals ?f" by (auto simp: sealed_def rebuildDocument_def)
  have "rebuildDocument ?f = rebuildDocument e" by (simp add: rebuildDocument_def)
  then have "canonical_fields e = canonical_fields ?f"
    using fingerprint_binds_content [OF _ e f] sample_ethers_ok by (simp add: Let_def)
  then show ?thesis using rec by blast
qed

text \<open>
  C13. Recording keeps every chain sealed, linked and numbered without a gap, with at most one closing
  event, and only ever adds at the end of a chain, whatever commits of other processes interpose
  between the reading of the head and the insertion. A recorded fact is the new head of its chain, and
  the caller sees a collision of ranks only after losing five races in a row.
\<close>

theorem record_chains_despite_races:
  assumes "ledger_ok X (wd_db w)" "list_all (benign X) others"
    and "record_event X nested input others w = (r, w')"
  shows "ledger_ok X (wd_db w') \<and>
    (\<forall>reference. prefix (findChain (wd_db w) reference) (findChain (wd_db w') reference)) \<and>
    (\<forall>e. r = Inr e \<longrightarrow> findLatest (wd_db w') (tx_reference (re_transaction input)) = Some e \<and>
         ev_eventType e = re_type input) \<and>
    (\<forall>err. length others < MAX_SEQUENCE_ATTEMPTS \<and> r = Inl err \<longrightarrow> \<not> isSequenceCollision err)"
  using record_from_chains [OF assms(3) [unfolded record_event_def] assms(1,2)]
    record_wins_race [OF assms(3) [unfolded record_event_def] assms(1,2)]
  by (simp add: extends_def)

theorem record_chains_despite_races_witness:
  "\<exists>r w'. record_event sample_externals True (fact PAYMENT_INITIATED sample_transaction)
      [\<lambda>d. wd_db (snd (record_event sample_externals True (fact PAYMENT_INITIATED sample_transaction) [] (sample_world\<lparr>wd_db := d\<rparr>)))]
      sample_world = (r, w') \<and>
     ledger_ok sample_externals (wd_db w') \<and> (\<forall>err. r = Inl err \<longrightarrow> \<not> isSequenceCollision err)"
proof -
  let ?in = "fact PAYMENT_INITIATED sample_transaction"
  let ?f = "\<lambda>d. wd_db (snd (record_event sample_externals True ?in [] (sample_world\<lparr>wd_db := d\<rparr>)))"
  have ben: "list_all (benign sample_externals) [?f]"
  proof -
    have "extends sample_externals d (?f d)" if "ledger_ok sample_externals d" for d
    proof (cases "record_event sample_externals True ?in [] (sample_world\<lparr>wd_db := d\<rparr>)")
      case (Pair r v)
      then show ?thesis
        using record_from_chains [OF Pair [unfolded record_event_def]] that by simp
    qed
    then show ?thesis by (simp add: benign_def)
  qed
  obtain r w' where run: "record_event sample_externals True ?in [?f] sample_world = (r, w')"
    by (cases "record_event sample_externals True ?in [?f] sample_world")
  show ?thesis
    using record_chains_despite_races [OF sample_world_ok ben run] run by (auto simp: MAX_SEQUENCE_ATTEMPTS_def)
qed

text \<open>
  C14. A fact that the program is entitled to record is recorded, or refused for the only reason left: when the salts and
  identifiers are as documented, the texts and amounts of the fact fit their columns, the transaction exists and the amounts of a
  posted fact are whole cents, the verdict of the schema validator on the document of the fact decides. If the document
  conforms, \<^verbatim>\<open>record\<close> returns, the fact is sealed over that document and is the new head of the chain of its transaction, no
  row changes, and the journal receives exactly the entry that the posting rule of the fact gives, balanced; if it does not,
  the caller gets the violations and the store is as it was.
\<close>

theorem entitled_fact_is_recorded:
  assumes "recordable X input w"
  shows "case validateXML X transactionEvent_schema (fact_document X input w) of
      [] \<Rightarrow> \<exists>e w' entries. record_event X nested input [] w = (Inr e, w') \<and>
        build None e = fact_document X input w \<and>
        findChain (wd_db w') (tx_reference (re_transaction input)) =
          findChain (wd_db w) (tx_reference (re_transaction input)) @ [e] \<and>
        follows X (findLatest (wd_db w) (tx_reference (re_transaction input))) e \<and>
        db_transactions (wd_db w') = db_transactions (wd_db w) \<and>
        db_entries (wd_db w') = db_entries (wd_db w) @ entries \<and> accounted e (re_transaction input) entries \<and>
        list_all journal_entries_balanced (db_entries (wd_db w'))
    | violations \<Rightarrow> \<exists>w'. record_event X nested input [] w = (Inl (XsdValidation transactionEvent_schema violations), w') \<and>
        wd_db w' = wd_db w"
proof (cases "validateXML X transactionEvent_schema (fact_document X input w)")
  case Nil
  have ok: "ledger_ok X (wd_db w)" using assms by (simp add: recordable_def store_ready_def)
  obtain e w' where rec: "record_event X nested input [] w = (Inr e, w')" "build None e = fact_document X input w"
    "list_all journal_entries_balanced (db_entries (wd_db w'))"
    using record_succeeds [OF assms Nil] by blast
  obtain es where es: "wd_db w' = (append_event e (wd_db w))\<lparr>db_entries := db_entries (wd_db w) @ es\<rparr>"
    "accounted e (re_transaction input) es"
    using record_accounts [OF rec(1) [unfolded record_event_Suc] ok] by blast
  have "db_entries (wd_db w') = db_entries (wd_db w) @ es" "db_transactions (wd_db w') = db_transactions (wd_db w)"
    using es(1) by (simp_all add: append_event_def)
  then show ?thesis using Nil rec es(2) record_alone [OF rec(1) [unfolded record_event_Suc] ok] by auto
next
  case (Cons violation rest)
  have salts: "is_bytes32 (random_salt X n)" for n using assms by (simp add: recordable_def store_ready_def services_ok_def)
  obtain v where "prepare_event X input w = (Inl (XsdValidation transactionEvent_schema (violation # rest)), v)" "wd_db v = wd_db w"
    using prepare_event_outcome [OF salts, of w input] Cons by auto
  then show ?thesis using Cons unfolding record_event_Suc record_from.simps by (simp add: run_bnd_Inl)
qed

text \<open>The same services with a schema that the documents of the register do not satisfy.\<close>

definition strict_externals :: externals where
  "strict_externals = sample_externals\<lparr>validateXML := (\<lambda>schema xml. [''invalid''])\<rparr>"

theorem entitled_fact_is_recorded_witness:
  "(\<exists>e w'. record_event sample_externals True (fact PAYMENT_INITIATED sample_transaction) [] sample_world = (Inr e, w') \<and>
     findChain (wd_db w') ''MM-1'' = [e]) \<and>
   (\<exists>w'. record_event strict_externals True (fact PAYMENT_INITIATED sample_transaction) [] sample_world =
        (Inl (XsdValidation transactionEvent_schema [''invalid'']), w') \<and> wd_db w' = wd_db sample_world)"
proof
  let ?in = "fact PAYMENT_INITIATED sample_transaction"
  have "tx_reference (re_transaction ?in) = ''MM-1''" by (simp add: fact_def sample_transaction_def)
  moreover have "findChain (wd_db sample_world) ''MM-1'' = []" by (simp add: findChain_def sample_world_def empty_db_def)
  ultimately show "\<exists>e w'. record_event sample_externals True ?in [] sample_world = (Inr e, w') \<and> findChain (wd_db w') ''MM-1'' = [e]"
    using entitled_fact_is_recorded [OF sample_recordable, of True] by auto
  have strict: "validateXML strict_externals schema (fact_document strict_externals ?in sample_world) = [''invalid'']" for schema
    by (simp add: strict_externals_def)
  have "fits_encrypted strict_externals = fits_encrypted sample_externals"
    by (simp add: fits_encrypted_def strict_externals_def fun_eq_iff split: option.split)
  then have "fact_fits strict_externals ?in sample_world" using sample_recordable by (simp add: recordable_def fact_fits_def)
  moreover have "store_ready strict_externals sample_world"
    using sample_ready sample_world_ok by (simp add: store_ready_def services_ok_def strict_externals_def)
  ultimately have "recordable strict_externals ?in sample_world" using sample_recordable unfolding recordable_def by blast
  from entitled_fact_is_recorded [OF this, of True] show
    "\<exists>w'. record_event strict_externals True ?in [] sample_world = (Inl (XsdValidation transactionEvent_schema [''invalid'']), w') \<and>
       wd_db w' = wd_db sample_world" by (simp add: strict)
qed

text \<open>
  C15. A closing event commits to the whole history before it: it is the last link, it declares the
  number of facts with itself included and the fingerprint of the fact before it; closing again changes
  nothing and reports nothing, and a closing that fails leaves the register as it was.
\<close>

theorem closing_commits_to_history:
  assumes "ledger_ok X (wd_db w)" "closeCase X nested t detail [] w = (r, w')"
  shows "(\<forall>e. r = Inr (Some e) \<longrightarrow>
       findChain (wd_db w') (tx_reference t) = findChain (wd_db w) (tx_reference t) @ [e] \<and>
       ev_closureEventCount e = Some (Suc (length (findChain (wd_db w) (tx_reference t)))) \<and>
       ev_closureChainHead e = Some (ev_fingerprint (last (findChain (wd_db w) (tx_reference t)))) \<and>
       closeCase X nested t detail [] w' = (Inr None, w')) \<and>
    (r = Inr None \<longrightarrow> w' = w) \<and> (\<forall>err. r = Inl err \<longrightarrow> wd_db w' = wd_db w)"
proof -
  have cf: "chain_from X None (findChain (wd_db w) (tx_reference t))" using assms(1) by (simp add: ledger_ok_def chain_ok_def)
  have closed: "closeCase X nested t detail [] w' = (Inr None, w')"
    if "findChain (wd_db w') (tx_reference t) = es @ [e]" "ev_eventType e = CASE_CLOSED" for es e
    using that by (simp add: closeCase_def action_simps)
  show ?thesis
    using closeCase_run [OF assms] closed next_rank [OF cf]
    by (auto simp: follows_def findLatest_last last_option_def)
qed

lemma sample_opened:
  "\<exists>p w. record_event sample_externals True (fact PAYMENT_INITIATED sample_transaction) [] sample_world = (Inr p, w) \<and>
     wd_db w = append_event p (wd_db sample_world) \<and> findChain (wd_db w) (tx_reference sample_transaction) = [p] \<and>
     prepared sample_externals (fact PAYMENT_INITIATED sample_transaction) None p \<and>
     ev_id p = randomUUID sample_externals 0 \<and> ledger_ok sample_externals (wd_db w)"
proof -
  let ?in = "fact PAYMENT_INITIATED sample_transaction"
  obtain p w where rec: "record_event sample_externals True ?in [] sample_world = (Inr p, w)"
    "ev_id p = randomUUID sample_externals (wd_draws sample_world)"
    using record_succeeds [OF sample_recordable] by fastforce
  have ref: "tx_reference (re_transaction ?in) = tx_reference sample_transaction" "re_type ?in = PAYMENT_INITIATED"
    by (simp_all add: fact_def)
  have noch: "findChain (wd_db sample_world) q = []" for q by (simp add: findChain_def sample_world_def empty_db_def)
  have "findLatest (wd_db sample_world) (tx_reference sample_transaction) = None"
    by (simp add: findLatest_last noch)
  then have "wd_db w = append_event p (wd_db sample_world)" "findChain (wd_db w) (tx_reference sample_transaction) = [p]"
    "prepared sample_externals ?in None p"
    using record_alone [OF rec(1) [unfolded record_event_Suc] sample_world_ok] noch ref by auto
  moreover have "ledger_ok sample_externals (wd_db w)"
    using record_from_chains [OF rec(1) [unfolded record_event_def] sample_world_ok] by (simp add: extends_def)
  moreover have "wd_draws sample_world = 0" by (simp add: sample_world_def)
  ultimately show ?thesis using rec by auto
qed

lemma sample_closing:
  "\<exists>p e w w'. ledger_ok sample_externals (wd_db w) \<and>
     closeCase sample_externals True sample_transaction None [] w = (Inr (Some e), w') \<and>
     wd_db w' = append_event e (append_event p (wd_db sample_world)) \<and> ledger_ok sample_externals (wd_db w') \<and>
     findChain (wd_db w') (tx_reference sample_transaction) = [p, e] \<and> ev_eventType e = CASE_CLOSED \<and>
     prepared sample_externals (fact PAYMENT_INITIATED sample_transaction) None p \<and>
     ev_id p = randomUUID sample_externals 0 \<and> ev_id e = randomUUID sample_externals 1"
proof -
  obtain p and w1 :: world where w1: "wd_db w1 = append_event p (wd_db sample_world)"
    "findChain (wd_db w1) (tx_reference sample_transaction) = [p]"
    "prepared sample_externals (fact PAYMENT_INITIATED sample_transaction) None p"
    "ev_id p = randomUUID sample_externals 0" "ledger_ok sample_externals (wd_db w1)"
    using sample_opened by blast
  have empty: "db_events (wd_db sample_world) = []" "db_entries (wd_db sample_world) = []"
    "db_transactions (wd_db sample_world) = [sample_transaction]" by (simp_all add: sample_world_def empty_db_def)
  have a: "ev_eventType p = PAYMENT_INITIATED" using w1(3) by (simp add: prepared_def fact_def)
  define w2 where "w2 = w1\<lparr>wd_draws := 1\<rparr>"
  let ?in2 = "(fact CASE_CLOSED sample_transaction)\<lparr>re_detail := Some ''Dossier clos''\<rparr>"
  have w2: "wd_db w2 = append_event p (wd_db sample_world)" "wd_draws w2 = 1" "ledger_ok sample_externals (wd_db w2)"
    "findChain (wd_db w2) (tx_reference sample_transaction) = [p]"
    using w1 by (simp_all add: w2_def)
  have in2: "re_type ?in2 = CASE_CLOSED" "re_transaction ?in2 = sample_transaction" by (simp_all add: fact_def)
  have "store_ready sample_externals w2"
    using w2 w1 empty by (auto simp: store_ready_def sample_services append_event_def)
  moreover have "fact_fits sample_externals ?in2 w2"
    by (rule sample_fact_fits) (use w2(4) in \<open>simp_all add: fact_def short_fits sample_transaction_def\<close>)
  ultimately have "recordable sample_externals ?in2 w2"
    using w2 a w1 empty by (auto simp: recordable_def fact_def append_event_def closings_def amounts_ok_def)
  then obtain e w' where r2: "record_event sample_externals True ?in2 [] w2 = (Inr e, w')" "ev_id e = randomUUID sample_externals 1"
    using record_succeeds [of sample_externals ?in2 w2 True] w2(2) by fastforce
  have "closeCase sample_externals True sample_transaction None [] w2 = (Inr (Some e), w')"
    using a w1 r2 by (simp add: closeCase_def action_simps catching_def run_bnd [of "record_event _ _ _ _"] w2_def)
  moreover have "wd_db w' = append_event e (wd_db w2)" "findChain (wd_db w') (tx_reference sample_transaction) = [p, e]"
    "ev_eventType e = CASE_CLOSED"
    using record_alone [OF r2(1) [unfolded record_event_Suc] w2(3)] w2(4) in2 by (auto simp: prepared_def)
  moreover have "ledger_ok sample_externals (wd_db w')"
    using record_from_chains [OF r2(1) [unfolded record_event_def] w2(3)] by (simp add: extends_def)
  ultimately show ?thesis using w2 w1 r2 by metis
qed

theorem closing_commits_to_history_witness:
  "\<exists>w e w'. closeCase sample_externals True sample_transaction None [] w = (Inr (Some e), w') \<and>
     findChain (wd_db w') (tx_reference sample_transaction) = findChain (wd_db w) (tx_reference sample_transaction) @ [e] \<and>
     closeCase sample_externals True sample_transaction None [] w' = (Inr None, w')"
  using sample_closing closing_commits_to_history by blast

end
