(* ===== verification/Anchor_Client.thy ===== *)
theory Anchor_Client
  imports Event_Ledger
begin

text \<open>
  The client of the contract (\<^verbatim>\<open>blockchain/evm-anchor.client.ts\<close>). The node behind it is a parameter: an
  exchange either fails or reaches the contract, in the state that the calls of others have made of the
  last one seen; the block that takes a transaction has a time, and the wait for its receipt may fail
  after the contract executed it. The contract itself is the one of theory Contract.
\<close>

record node =
  node_ready :: bool
  node_at :: "nat \<Rightarrow> AuditAnchor \<Rightarrow> string + AuditAnchor"
  node_hash :: "bytes32 \<Rightarrow> bytes32 \<Rightarrow> bytes32"
  node_sender :: address
  node_time :: "nat \<Rightarrow> 256 word"
  node_wait :: "nat \<Rightarrow> string + (string \<times> string \<times> string) option"

record AnchorReceipt =
  rc_txHash :: string
  rc_blockNumber :: string
  rc_gasUsed :: string
  rc_chainId :: string
  rc_contractAddress :: string

record OnChainBatch =
  oc_merkleRoot :: string
  oc_leafCount :: nat
  oc_anchoredAt :: date
  oc_submitter :: address

definition char_value :: "char \<Rightarrow> nat" where
  "char_value c = (let n = of_char (char_lower c) in if n < 58 then n - 48 else n - 87)"

definition hex_value :: "string \<Rightarrow> nat" where
  "hex_value s = foldl (\<lambda>n c. 16 * n + char_value c) 0 s"

text \<open>The word of a 32-byte text; the package refuses any other text.\<close>

definition text_bytes32 :: "string \<Rightarrow> bytes32 option" where
  "text_bytes32 s = (if is_bytes32 s then Some (word_of_nat (hex_value (drop 2 s))) else None)"

definition unavailable :: "string \<Rightarrow> exn" where
  "unavailable reason = BlockchainUnavailable reason"

text \<open>One exchange with the contract: \<open>f\<close> reads its state and may replace it; a revert is an exception.\<close>

definition rpc :: "node \<Rightarrow> (AuditAnchor \<Rightarrow> contract_error + 'a \<times> AuditAnchor) \<Rightarrow> 'a io" where
  "rpc N f =
     bnd (draw (node_at N)) (\<lambda>reach.
     bnd (reads wd_chain) (\<lambda>seen.
       case reach seen of
         Inl reason \<Rightarrow> throw (unavailable reason)
       | Inr contract \<Rightarrow>
           (case f contract of
              Inl e \<Rightarrow> throw (unavailable ''revert'')
            | Inr (a, contract') \<Rightarrow> bnd (modifies (\<lambda>w. w\<lparr>wd_chain := contract'\<rparr>)) (\<lambda>_. ret a))))"

definition view :: "(AuditAnchor \<Rightarrow> contract_error + 'a) \<Rightarrow> AuditAnchor \<Rightarrow> contract_error + 'a \<times> AuditAnchor" where
  "view f s = map_sum id (\<lambda>a. (a, s)) (f s)"

definition to_word :: "string \<Rightarrow> bytes32 io" where
  "to_word s = (case text_bytes32 s of None \<Rightarrow> throw (unavailable ''invalid argument'') | Some b \<Rightarrow> ret b)"

definition getContract :: "node \<Rightarrow> unit io" where
  "getContract N = (if node_ready N then ret () else throw (unavailable ''BLOCKCHAIN_CONTRACT_ADDRESS''))"

definition client_getBatch :: "externals \<Rightarrow> node \<Rightarrow> string \<Rightarrow> OnChainBatch option io" where
  "client_getBatch X N batchId =
     bnd (getContract N) (\<lambda>_.
     bnd (lift_hash (uuidToBytes32 (ethers_of X) batchId)) (\<lambda>onChainId.
     bnd (to_word onChainId) (\<lambda>i.
     bnd (rpc N (view (\<lambda>s. Inr (isAnchored s i)))) (\<lambda>anchored.
       if \<not> anchored then ret None
       else bnd (rpc N (view (\<lambda>s. getBatch s i))) (\<lambda>batch.
         ret (Some \<lparr>oc_merkleRoot = bytes32_text (bt_merkleRoot batch), oc_leafCount = unat (bt_leafCount batch),
                    oc_anchoredAt = uint (bt_anchoredAt batch) * 1000, oc_submitter = bt_submitter batch\<rparr>))))))"

fun to_words :: "string list \<Rightarrow> bytes32 list io" where
  "to_words [] = ret []"
| "to_words (s # ss) = bnd (to_word s) (\<lambda>b. bnd (to_words ss) (\<lambda>bs. ret (b # bs)))"

definition client_verifyInclusion :: "externals \<Rightarrow> node \<Rightarrow> string \<Rightarrow> string \<Rightarrow> string list \<Rightarrow> bool io" where
  "client_verifyInclusion X N batchId leaf ps =
     bnd (getContract N) (\<lambda>_.
     bnd (catching (lift_hash (uuidToBytes32 (ethers_of X) batchId)) (\<lambda>e. throw (unavailable ''batch identifier''))) (\<lambda>onChainId.
     bnd (to_word onChainId) (\<lambda>i.
     bnd (to_word leaf) (\<lambda>l.
     bnd (to_words ps) (\<lambda>bs.
     rpc N (view (\<lambda>s. verifyInclusion (node_hash N) s i l bs)))))))"

text \<open>
  \<^verbatim>\<open>anchorBatch\<close>: the call is simulated, then sent, then its receipt is awaited. \<open>chain_id\<close> and \<open>contract_address\<close>
  are the configured ones.
\<close>

definition to_uint64 :: "nat \<Rightarrow> uint64 io" where
  "to_uint64 n =
     (if unat (of_nat n :: uint64) = n then ret (of_nat n) else throw (unavailable ''value out-of-bounds''))"

definition client_anchorBatch ::
  "externals \<Rightarrow> node \<Rightarrow> string \<Rightarrow> string \<Rightarrow> string \<Rightarrow> string \<Rightarrow> nat \<Rightarrow> AnchorReceipt io" where
  "client_anchorBatch X N chain_id contract_address batchId merkleRoot leafCount =
     bnd (getContract N) (\<lambda>_.
     bnd (lift_hash (uuidToBytes32 (ethers_of X) batchId)) (\<lambda>onChainId.
     bnd (to_word onChainId) (\<lambda>i.
     bnd (to_word merkleRoot) (\<lambda>root.
     bnd (to_uint64 leafCount) (\<lambda>n.
     bnd (draw (node_time N)) (\<lambda>t.
     bnd (rpc N (view (\<lambda>s. anchorBatch (node_sender N) t i root n s))) (\<lambda>_.
     bnd (draw (node_time N)) (\<lambda>t'.
     bnd (rpc N (\<lambda>s. map_sum id (\<lambda>s'. ((), s')) (anchorBatch (node_sender N) t' i root n s))) (\<lambda>_.
     bnd (draw (node_wait N)) (\<lambda>receipt.
       case receipt of
         Inl reason \<Rightarrow> throw (unavailable reason)
       | Inr None \<Rightarrow> throw (unavailable ''Aucun recu obtenu'')
       | Inr (Some (hash, block, gas)) \<Rightarrow>
           ret \<lparr>rc_txHash = hash, rc_blockNumber = block, rc_gasUsed = gas, rc_chainId = chain_id,
                rc_contractAddress = contract_address\<rparr>))))))))))"

section \<open>Reading does not write\<close>

lemma db_keeps_client [keeps_intros]:
  "keeps (db_inv P) (getContract N)" "keeps (db_inv P) (to_word s)" "keeps (db_inv P) (to_words ss)"
  "keeps (db_inv P) (rpc N f)" "keeps (db_inv P) (client_getBatch X N batchId)"
  "keeps (db_inv P) (client_verifyInclusion X N batchId leaf ps)"
  "keeps (db_inv P) (client_anchorBatch X N chain_id contract_address batchId merkleRoot leafCount)"
proof -
  show 1: "keeps (db_inv P) (getContract N)" for N unfolding getContract_def by (intro keeps_intros)
  show 2: "keeps (db_inv P) (to_word s)" for s unfolding to_word_def by (intro keeps_intros)
  show 3: "keeps (db_inv P) (to_words ss)" for ss by (induction ss) (auto intro!: keeps_intros 2)
  show 4: "keeps (db_inv P) (rpc N f)" for N and f :: "AuditAnchor \<Rightarrow> contract_error + 'x \<times> AuditAnchor"
    unfolding rpc_def by (intro keeps_intros) (auto intro!: keeps_intros simp: db_inv_def split: sum.split)
  show "keeps (db_inv P) (client_getBatch X N batchId)" "keeps (db_inv P) (client_verifyInclusion X N batchId leaf ps)"
    unfolding client_getBatch_def client_verifyInclusion_def by (intro keeps_intros 1 2 3 4)+
  show "keeps (db_inv P) (client_anchorBatch X N chain_id contract_address batchId merkleRoot leafCount)"
    unfolding client_anchorBatch_def to_uint64_def by (intro keeps_intros 1 2 4)
qed

end
