(* ===== verification/Chain_Verification.thy ===== *)
theory Chain_Verification
  imports Anchor_Client
begin

text \<open>
  The verification of a register (\<^verbatim>\<open>events/event-chain-verification.service.ts\<close>): content, order, publication,
  closing event, and comparison of the current row with what the opening recorded.
\<close>

section \<open>The service\<close>

record OnChainProof =
  op_chainId :: "string option"
  op_contractAddress :: "string option"
  op_txHash :: "string option"
  op_blockNumber :: "string option"
  op_batchId :: string
  op_merkleRoot :: string
  op_leaf :: string
  op_proof :: "string list"
  op_explorerUrl :: "string option"

record EventVerification =
  vf_sequence :: nat
  vf_eventType :: TransactionEventType
  vf_occurredAt :: date
  vf_xsdValid :: bool
  vf_fingerprintMatches :: bool
  vf_chainIntact :: bool
  vf_anchorVerified :: "bool option"
  vf_onChainProof :: "OnChainProof option"
  vf_findings :: "string list"

datatype verdict =
    Verdict_VERIFIED | Verdict_TAMPERED | Verdict_PARTIALLY_ANCHORED | Verdict_EMPTY | Verdict_CHAIN_UNAVAILABLE

record EventChainReport =
  cr_transactionReference :: string
  cr_verdict :: verdict
  cr_closed :: bool
  cr_finalProofAnchored :: bool
  cr_transactionMatchesLedger :: "bool option"
  cr_declaredEventCount :: "nat option"
  cr_eventCount :: nat
  cr_anchoredCount :: nat
  cr_head :: "string option"
  cr_events :: "EventVerification list"
  cr_findings :: "string list"
  cr_verifiedAt :: date

definition is_closing :: "TransactionEvent \<Rightarrow> bool" where
  "is_closing e \<longleftrightarrow> ev_eventType e = CASE_CLOSED"

definition isClosureExpected :: "Transaction option \<Rightarrow> TransactionEvent list \<Rightarrow> bool" where
  "isClosureExpected t chain \<longleftrightarrow>
     (case t of
        None \<Rightarrow> False
      | Some r \<Rightarrow>
          (tx_paymentChannel r = LEGACY_TRANSFER \<and> (tx_status r = Tx_COMPLETED \<or> tx_status r = Tx_FAILED)) \<or>
          (tx_providerStatus r = Some Prov_FAILED \<and> tx_reconciliationStatus r = Some Recon_NOT_APPLICABLE) \<or>
          tx_reconciliationStatus r = Some Recon_MATCHED \<or>
          tx_refundStatus r = Refund_COMPLETED) \<or>
     list_ex (\<lambda>e. ev_eventType e \<in> {TRANSFER_COMPLETED, TRANSFER_FAILED, PROVIDER_FAILED,
                                    RECONCILIATION_MATCHED, REFUND_COMPLETED}) chain"

definition find_batch :: "db \<Rightarrow> string \<Rightarrow> AnchorBatch option" where
  "find_batch d batchId = find (\<lambda>b. ab_id b = batchId) (db_batches d)"

text \<open>The coordinates of an event said to be anchored.\<close>

definition anchor_coordinates :: "TransactionEvent \<Rightarrow> (string \<times> string list) option" where
  "anchor_coordinates e =
     (if ev_anchorStatus e \<noteq> Anchor_ANCHORED \<or> \<not> truthy (ev_batchId e) then None
      else case ev_merkleProof e of None \<Rightarrow> None | Some p \<Rightarrow> Some (the (ev_batchId e), p))"

definition buildProof :: "externals \<Rightarrow> string option \<Rightarrow> TransactionEvent \<Rightarrow> OnChainProof option io" where
  "buildProof X explorerTxUrl e =
     (case anchor_coordinates e of
        None \<Rightarrow> ret None
      | Some (batchId, p) \<Rightarrow>
          bnd get_db (\<lambda>d.
            case find_batch d batchId of
              None \<Rightarrow> ret None
            | Some b \<Rightarrow>
                bnd (lift_hash (toLeaf (ethers_of X) (ev_fingerprint e))) (\<lambda>leaf.
                ret (Some \<lparr>op_chainId = ab_chainId b, op_contractAddress = ab_contractAddress b,
                  op_txHash = ab_txHash b, op_blockNumber = ab_blockNumber b, op_batchId = ab_id b,
                  op_merkleRoot = ab_merkleRoot b, op_leaf = leaf, op_proof = p,
                  op_explorerUrl = (if truthy explorerTxUrl \<and> truthy (ab_txHash b)
                                    then Some (the explorerTxUrl @ the (ab_txHash b)) else None)\<rparr>))))"

text \<open>The verdict on the publication of one event, with the findings it adds.\<close>

definition verifyAnchor :: "externals \<Rightarrow> node \<Rightarrow> TransactionEvent \<Rightarrow> (bool option \<times> string list) io" where
  "verifyAnchor X N e =
     (case anchor_coordinates e of
        None \<Rightarrow> ret (None, [])
      | Some (batchId, p) \<Rightarrow>
          bnd get_db (\<lambda>d.
            case find_batch d batchId of
              None \<Rightarrow> ret (Some False, [''Lot '' @ batchId @ '' introuvable : preuve inexploitable.''])
            | Some b \<Rightarrow>
                bnd (lift_hash (toLeaf (ethers_of X) (ev_fingerprint e))) (\<lambda>leaf.
                  if \<not> verifyProof (ethers_of X) leaf p (ab_merkleRoot b)
                  then ret (Some False, [''La preuve d inclusion ne mene pas a la racine du lot.''])
                  else
                    catching
                      (bnd (client_getBatch X N (ab_id b)) (\<lambda>onChain.
                         case onChain of
                           None \<Rightarrow> ret (Some False, [''Lot marque ancre en base mais absent de la chaine.''])
                         | Some oc \<Rightarrow>
                             if toLowerCase (oc_merkleRoot oc) \<noteq> toLowerCase (ab_merkleRoot b)
                             then ret (Some False, [''Racine en base ('' @ ab_merkleRoot b @
                                    '') differente de celle publiee ('' @ oc_merkleRoot oc @ '').''])
                             else bnd (client_verifyInclusion X N (ab_id b) leaf p) (\<lambda>v. ret (Some v, []))))
                      (\<lambda>error. ret (None, [])))))"

definition lower_opt :: "string option \<Rightarrow> string option" where
  "lower_opt = map_option toLowerCase"

definition verifyEvent ::
  "externals \<Rightarrow> node \<Rightarrow> string option \<Rightarrow> TransactionEvent \<Rightarrow> TransactionEvent option \<Rightarrow> EventVerification io" where
  "verifyEvent X N explorerTxUrl event previous =
     (let xml = rebuildDocument event;
          violations = validateXML X transactionEvent_schema xml;
          xsdValid = (violations = []) in
      bnd (lift_hash (computeFingerprint (ethers_of X) (ev_fingerprintSalt event) xml)) (\<lambda>recomputed.
        let fingerprintMatches = (toLowerCase recomputed = toLowerCase (ev_fingerprint event));
            expectedPrevious = map_option ev_fingerprint previous;
            chainIntact = (lower_opt (ev_previousFingerprint event) = lower_opt expectedPrevious) in
        bnd (verifyAnchor X N event) (\<lambda>(anchorVerified, anchorFindings).
        bnd (buildProof X explorerTxUrl event) (\<lambda>onChainProof.
        ret \<lparr>vf_sequence = ev_sequence event, vf_eventType = ev_eventType event,
             vf_occurredAt = ev_occurredAt event, vf_xsdValid = xsdValid,
             vf_fingerprintMatches = fingerprintMatches, vf_chainIntact = chainIntact,
             vf_anchorVerified = anchorVerified, vf_onChainProof = onChainProof,
             vf_findings =
               (if xsdValid then [] else [''Document non conforme : '' @ join '' | '' violations])
               @ (if fingerprintMatches then [] else [''Le fait consigne ne produit plus son empreinte scellee.''])
               @ (if chainIntact then []
                  else if previous = None
                  then [''Le premier maillon reference un predecesseur : la tete de chaine a ete retiree.'']
                  else [''Le maillon ne pointe pas vers l empreinte du fait precedent.''])
               @ anchorFindings\<rparr>))))"

fun verifyEvents ::
  "externals \<Rightarrow> node \<Rightarrow> string option \<Rightarrow> TransactionEvent option \<Rightarrow> TransactionEvent list \<Rightarrow> EventVerification list io" where
  "verifyEvents X N explorerTxUrl previous [] = ret []"
| "verifyEvents X N explorerTxUrl previous (e # es) =
     bnd (verifyEvent X N explorerTxUrl e previous) (\<lambda>r.
     bnd (verifyEvents X N explorerTxUrl (Some e) es) (\<lambda>rs. ret (r # rs)))"

text \<open>The fields of the row that differ from what the opening recorded.\<close>

definition divergences :: "TransactionEvent \<Rightarrow> Transaction \<Rightarrow> string list" where
  "divergences opening t =
     map fst (filter (\<lambda>(champ, consigned, current). consigned \<noteq> current)
       [(''IBAN du donneur d ordre'', ev_debtorIban opening, Some (tx_debtorIban t)),
        (''nom du donneur d ordre'', ev_debtorName opening, tx_debtorName t),
        (''IBAN du beneficiaire'', ev_creditorIban opening, Some (tx_creditorIban t)),
        (''nom du beneficiaire'', ev_creditorName opening, Some (tx_creditorName t)),
        (''libelle'', ev_endToEndLabel opening, tx_endToEndLabel t),
        (''montant'', Some (toFixed2 (ev_expectedAmount opening)), Some (toFixed2 (tx_amount t))),
        (''devise'', Some (ev_currency opening), Some (tx_currency t))])"

definition opening_of :: "TransactionEvent list \<Rightarrow> TransactionEvent option" where
  "opening_of chain = find (\<lambda>e. ev_creditorIban e \<noteq> None) chain"

text \<open>The findings on the closing event; any of them is an alteration.\<close>

definition closing_findings :: "bool \<Rightarrow> TransactionEvent list \<Rightarrow> string list" where
  "closing_findings closureExpected chain =
     (case find is_closing chain of
        Some closing \<Rightarrow>
          let index = length (takeWhile (\<lambda>e. \<not> is_closing e) chain);
              expectedHead = (if index = 0 then None else Some (ev_fingerprint (chain ! (index - 1)))) in
          (if ev_closureEventCount closing \<noteq> Some (length chain)
           then [''La cloture declare '' @ (case ev_closureEventCount closing of None \<Rightarrow> ''null'' | Some n \<Rightarrow> nat_dec n) @
                 '' faits, la chaine en compte '' @ nat_dec (length chain) @ '' : des evenements ont ete retires.''] else [])
          @ (if expectedHead \<noteq> None \<and> lower_opt (ev_closureChainHead closing) \<noteq> lower_opt expectedHead
             then [''Le sommet de chaine declare par la cloture ne correspond pas.''] else [])
          @ (if ev_sequence closing \<noteq> length chain
             then [''La cloture n est pas le dernier fait : des evenements ont ete ajoutes apres elle.''] else [])
      | None \<Rightarrow>
          if closureExpected
          then [''Le dossier est dans un etat final mais son evenement de cloture est absent : la queue du registre a ete tronquee ou la cloture n a pas ete consignee.''] else [])"

definition rank_findings :: "TransactionEvent list \<Rightarrow> string list" where
  "rank_findings chain =
     (let expected = map Suc [0..<length chain]; actual = map ev_sequence chain in
      if expected \<noteq> actual
      then [''Les rangs ne forment pas une suite continue : attendu '' @ join '', '' (map nat_dec expected) @
            '', constate '' @ join '', '' (map nat_dec actual) @ ''. Au moins un evenement a ete retire.''] else [])"

text \<open>The end of \<^verbatim>\<open>verify\<close>: the report on a chain that is not empty, from the results of its events.\<close>

definition chain_report ::
  "string \<Rightarrow> TransactionEvent list \<Rightarrow> Transaction option \<Rightarrow> EventVerification list \<Rightarrow> date \<Rightarrow> EventChainReport" where
  "chain_report transactionReference chain row results verifiedAt =
     (let missing = (if row = None then [''La transaction referencee par le registre est introuvable.''] else []);
          chainUnavailable = list_ex (\<lambda>(e, r). vf_anchorVerified r = None \<and> ev_anchorStatus e = Anchor_ANCHORED) (zip chain results);
          closing = find is_closing chain;
          finalProofAnchored = (case closing of None \<Rightarrow> False
            | Some c \<Rightarrow> vf_anchorVerified (results ! length (takeWhile (\<lambda>e. ev_id e \<noteq> ev_id c) chain)) = Some True);
          ranks = rank_findings chain;
          closings = closing_findings (isClosureExpected row chain) chain;
          divergent = (case (opening_of chain, row) of
             (Some opening, Some t) \<Rightarrow> Some (divergences opening t) | _ \<Rightarrow> None);
          altered = (case divergent of Some (c # cs) \<Rightarrow>
              [''ALTERATION DETECTEE : la ligne ne correspond plus a ce que l ouverture a consigne ('' @ join '', '' (c # cs) @ '').''] | _ \<Rightarrow> []);
          tampered = (missing \<noteq> [] \<or> ranks \<noteq> [] \<or> closings \<noteq> [] \<or> altered \<noteq> [] \<or>
            list_ex (\<lambda>r. \<not> vf_xsdValid r \<or> \<not> vf_fingerprintMatches r \<or> \<not> vf_chainIntact r) results \<or>
            list_ex (\<lambda>r. vf_anchorVerified r = Some False) results);
          head = ev_fingerprint (last chain)
      in \<lparr>cr_transactionReference = transactionReference,
          cr_verdict = (if tampered then Verdict_TAMPERED else if chainUnavailable then Verdict_CHAIN_UNAVAILABLE
             else if \<not> finalProofAnchored then Verdict_PARTIALLY_ANCHORED else Verdict_VERIFIED),
          cr_closed = (closing \<noteq> None), cr_finalProofAnchored = finalProofAnchored,
          cr_transactionMatchesLedger = map_option (\<lambda>ds. ds = []) divergent,
          cr_declaredEventCount = (case closing of Some c \<Rightarrow> ev_closureEventCount c | None \<Rightarrow> None),
          cr_eventCount = length chain,
          cr_anchoredCount = length (filter (\<lambda>r. vf_anchorVerified r = Some True) results),
          cr_head = Some head, cr_events = results,
          cr_findings = missing @ ranks @ closings @ altered @
            (if tampered then [''ALTERATION DETECTEE dans le registre d evenements.'']
             else if chainUnavailable then [''Chaine injoignable : contenu et ordre sont confirmes, la publication n a pas pu etre verifiee.'']
             else if \<not> finalProofAnchored then
               [if closing \<noteq> None then ''La preuve finale attend le prochain lot d ancrage.''
                else ''Dossier encore ouvert : aucun etat intermediaire n est ancre.'']
             else [''Les '' @ nat_dec (length chain) @ '' evenements sont intacts et ordonnes. La cloture ancree engage tout l historique ; sommet de chaine : '' @ head @ ''.'',
                   ''Dossier clos : le total declare fait foi, aucune troncature possible.'']),
          cr_verifiedAt = verifiedAt\<rparr>)"

definition row_of :: "db \<Rightarrow> string \<Rightarrow> Transaction option" where
  "row_of d reference = find (\<lambda>t. tx_reference t = reference) (db_transactions d)"

definition verify :: "externals \<Rightarrow> node \<Rightarrow> string option \<Rightarrow> string \<Rightarrow> EventChainReport io" where
  "verify X N explorerTxUrl transactionReference =
     bnd get_db (\<lambda>d.
       let chain = findChain d transactionReference;
           row = row_of d transactionReference;
           closureExpected = isClosureExpected row chain in
       bnd (draw (clock X)) (\<lambda>verifiedAt.
       if chain = [] then
         ret \<lparr>cr_transactionReference = transactionReference,
              cr_verdict = (if closureExpected then Verdict_TAMPERED else Verdict_EMPTY), cr_closed = False,
              cr_finalProofAnchored = False, cr_transactionMatchesLedger = None, cr_declaredEventCount = None,
              cr_eventCount = 0, cr_anchoredCount = 0, cr_head = None, cr_events = [],
              cr_findings = [if closureExpected
                then ''Le dossier est dans un etat final mais toute sa chaine d evenements a disparu.''
                else ''Aucun evenement consigne pour cette transaction : rien a verifier.''],
              cr_verifiedAt = verifiedAt\<rparr>
       else
         bnd (verifyEvents X N explorerTxUrl None chain) (\<lambda>results.
         ret (chain_report transactionReference chain row results verifiedAt))))"

section \<open>What a report says\<close>

definition event_verified :: "externals \<Rightarrow> TransactionEvent option \<Rightarrow> TransactionEvent \<Rightarrow> EventVerification \<Rightarrow> bool" where
  "event_verified X previous e r \<longleftrightarrow>
     vf_xsdValid r = (validateXML X transactionEvent_schema (rebuildDocument e) = []) \<and>
     (\<exists>fp. computeFingerprint (ethers_of X) (ev_fingerprintSalt e) (rebuildDocument e) = Inr fp \<and>
           vf_fingerprintMatches r = (toLowerCase fp = toLowerCase (ev_fingerprint e))) \<and>
     vf_chainIntact r = (lower_opt (ev_previousFingerprint e) = lower_opt (map_option ev_fingerprint previous))"

fun events_verified :: "externals \<Rightarrow> TransactionEvent option \<Rightarrow> TransactionEvent list \<Rightarrow> EventVerification list \<Rightarrow> bool" where
  "events_verified X previous [] rs = (rs = [])"
| "events_verified X previous (e # es) rs =
     (case rs of [] \<Rightarrow> False | r # rs' \<Rightarrow> event_verified X previous e r \<and> events_verified X (Some e) es rs')"

lemma verifyEvent_run:
  assumes "verifyEvent X N u e previous w = (Inr r, w')"
  shows "event_verified X previous e r"
  using assms unfolding verifyEvent_def Let_def
  by (auto simp: lift_hash_def run_bnd action_simps event_verified_def split: sum.splits prod.splits)

lemma verifyEvents_run:
  "verifyEvents X N u previous es w = (Inr rs, w') \<Longrightarrow> events_verified X previous es rs"
proof (induction es arbitrary: previous w rs w')
  case (Cons e es)
  then show ?case
    by (auto simp: run_bnd action_simps dest!: verifyEvent_run split: prod.splits sum.splits)
qed (simp add: action_simps)

lemma events_verified_length: "events_verified X previous es rs \<Longrightarrow> length rs = length es"
  by (induction es arbitrary: previous rs) (auto split: list.splits)

text \<open>The contents of a chain nobody touched, without the checks of publication.\<close>

fun intact_from :: "externals \<Rightarrow> TransactionEvent option \<Rightarrow> TransactionEvent list \<Rightarrow> bool" where
  "intact_from X previous [] = True"
| "intact_from X previous (e # es) =
     (validateXML X transactionEvent_schema (rebuildDocument e) = [] \<and>
      (\<exists>fp. computeFingerprint (ethers_of X) (ev_fingerprintSalt e) (rebuildDocument e) = Inr fp \<and>
            toLowerCase fp = toLowerCase (ev_fingerprint e)) \<and>
      lower_opt (ev_previousFingerprint e) = lower_opt (map_option ev_fingerprint previous) \<and>
      intact_from X (Some e) es)"

lemma events_verified_intact:
  assumes "events_verified X previous es rs"
  shows "list_ex (\<lambda>r. \<not> vf_xsdValid r \<or> \<not> vf_fingerprintMatches r \<or> \<not> vf_chainIntact r) rs \<longleftrightarrow> \<not> intact_from X previous es"
  using assms
proof (induction es arbitrary: previous rs)
  case (Cons e es)
  then show ?case by (auto simp: event_verified_def split: list.splits)
qed simp

text \<open>What makes the verdict \<open>TAMPERED\<close>, the publication apart.\<close>

definition unaltered :: "externals \<Rightarrow> db \<Rightarrow> string \<Rightarrow> bool" where
  "unaltered X d reference \<longleftrightarrow>
     (let chain = findChain d reference; row = row_of d reference in
      row \<noteq> None \<and> intact_from X None chain \<and> map ev_sequence chain = map Suc [0..<length chain] \<and>
      closing_findings (isClosureExpected row chain) chain = [] \<and>
      (\<forall>opening. opening_of chain = Some opening \<longrightarrow> divergences opening (the row) = []))"

lemma report_tampered:
  assumes "row_of d reference = row" "findChain d reference = chain" "events_verified X None chain rs"
  shows "cr_verdict (chain_report reference chain row rs t) = Verdict_TAMPERED \<longleftrightarrow>
    \<not> unaltered X d reference \<or> list_ex (\<lambda>r. vf_anchorVerified r = Some False) rs"
proof -
  define bad where "bad \<longleftrightarrow> list_ex (\<lambda>r. \<not> vf_xsdValid r \<or> \<not> vf_fingerprintMatches r \<or> \<not> vf_chainIntact r) rs"
  define refused where "refused \<longleftrightarrow> list_ex (\<lambda>r. vf_anchorVerified r = Some False) rs"
  define cl where "cl = closing_findings (isClosureExpected row chain) chain"
  have bad: "bad \<longleftrightarrow> \<not> intact_from X None chain" unfolding bad_def by (rule events_verified_intact [OF assms(3)])
  have "cr_verdict (chain_report reference chain row rs t) = Verdict_TAMPERED \<longleftrightarrow>
      row = None \<or> rank_findings chain \<noteq> [] \<or> cl \<noteq> [] \<or>
      (\<exists>opening r. opening_of chain = Some opening \<and> row = Some r \<and> divergences opening r \<noteq> []) \<or> bad \<or> refused"
    unfolding chain_report_def Let_def cl_def [symmetric] bad_def [symmetric] refused_def [symmetric]
    by (auto split: option.splits list.splits if_splits)
  then show ?thesis
    unfolding unaltered_def Let_def assms(1,2) bad cl_def [symmetric] refused_def [symmetric]
    by (auto simp: rank_findings_def Let_def)
qed

lemma verify_run:
  assumes "verify X N u reference w = (Inr rep, w')" "findChain (wd_db w) reference \<noteq> []"
  shows "\<exists>rs v. verifyEvents X N u None (findChain (wd_db w) reference) (w\<lparr>wd_draws := Suc (wd_draws w)\<rparr>) = (Inr rs, v) \<and>
    rep = chain_report reference (findChain (wd_db w) reference) (row_of (wd_db w) reference) rs (clock X (wd_draws w))"
proof -
  let ?chain = "findChain (wd_db w) reference" and ?w = "w\<lparr>wd_draws := Suc (wd_draws w)\<rparr>"
  obtain q v where run: "verifyEvents X N u None ?chain ?w = (q, v)" by (cases "verifyEvents X N u None ?chain ?w")
  have "bnd (verifyEvents X N u None ?chain) (\<lambda>results. ret (chain_report reference ?chain (row_of (wd_db w) reference)
      results (clock X (wd_draws w)))) ?w = (Inr rep, w')"
    using assms by (simp add: verify_def action_simps Let_def)
  then show ?thesis using run by (cases q) (auto simp: run_bnd action_simps)
qed

section \<open>Registers written by the program\<close>

lemma chain_from_intact: "chain_from X previous es \<Longrightarrow> intact_from X previous es"
  by (induction es arbitrary: previous) (simp_all add: follows_def sealed_def)

lemma find_takeWhile:
  "find P xs = Some x \<Longrightarrow>
   length (takeWhile (\<lambda>y. \<not> P y) xs) < length xs \<and> xs ! length (takeWhile (\<lambda>y. \<not> P y) xs) = x \<and> P x"
  by (induction xs) (auto split: if_splits)

lemma closing_findings_of_chain:
  assumes "chain_from X None chain" "chain \<noteq> []"
  shows "closing_findings expected chain = [] \<longleftrightarrow>
    (case find is_closing chain of None \<Rightarrow> \<not> expected | Some c \<Rightarrow> c = last chain)"
proof (cases "find is_closing chain")
  case (Some c)
  define i where "i = length (takeWhile (\<lambda>y. \<not> is_closing y) chain)"
  have i: "i < length chain" "chain ! i = c" "is_closing c" using find_takeWhile [OF Some] by (simp_all add: i_def)
  have f: "follows X (if i = 0 then None else Some (chain ! (i - 1))) c"
    using chain_from_nth [OF assms(1) i(1)] i(2) by simp
  have seq: "ev_sequence c = Suc i" using chain_sequence [OF assms(1) i(1)] i(2) by simp
  have pos: "i \<noteq> 0" using f i(3) by (auto simp: follows_def is_closing_def split: if_splits)
  have fields: "ev_closureEventCount c = Some (Suc i)" "ev_closureChainHead c = Some (ev_fingerprint (chain ! (i - 1)))"
    using f i(3) seq pos by (simp_all add: follows_def is_closing_def)
  have last: "c = last chain \<longleftrightarrow> Suc i = length chain"
  proof
    assume "c = last chain"
    then show "Suc i = length chain" using chain_last_sequence [OF assms] seq by simp
  next
    assume h: "Suc i = length chain"
    then show "c = last chain" using i(2) assms(2) by (metis diff_Suc_1 last_conv_nth)
  qed
  have "closing_findings expected chain = [] \<longleftrightarrow> Suc i = length chain"
    by (simp add: closing_findings_def Some Let_def i_def [symmetric] fields seq pos)
  then show ?thesis using Some last by simp
qed (simp add: closing_findings_def)

lemma lift_hash_silent: "r = Inr a \<Longrightarrow> throws P (lift_hash r)"
  by (simp add: lift_hash_def throws_pure)

lemma toLeaf_ok: "is_bytes32 fp \<Longrightarrow> throws P (lift_hash (toLeaf E fp))"
  by (simp add: toLeaf_def lift_hash_silent)

lemma verifyEvent_returns:
  assumes "ethers_ok (ethers_of X)" "sealed X e"
  shows "throws (\<lambda>_. False) (verifyEvent X N u e previous)"
proof -
  note leaf = toLeaf_ok [OF sealed_digest [OF assms]]
  have "throws (\<lambda>_. False) (verifyAnchor X N e)" "throws (\<lambda>_. False) (buildProof X u e)"
    unfolding verifyAnchor_def buildProof_def by (intro throws_intros leaf)+
  moreover have "throws (\<lambda>_. False) (lift_hash (computeFingerprint (ethers_of X) (ev_fingerprintSalt e) (rebuildDocument e)))"
    using assms(2) by (auto simp: sealed_def intro: lift_hash_silent)
  ultimately show ?thesis unfolding verifyEvent_def Let_def by (intro throws_intros)
qed

lemma verifyEvents_returns:
  assumes "ethers_ok (ethers_of X)"
  shows "chain_from X previous es \<Longrightarrow> throws (\<lambda>_. False) (verifyEvents X N u previous es)"
  by (induction es arbitrary: previous) (auto simp: follows_def intro!: throws_intros verifyEvent_returns [OF assms])

lemma verify_returns:
  assumes "ethers_ok (ethers_of X)" "ledger_ok X (wd_db w)"
  shows "\<exists>rep w'. verify X N u reference w = (Inr rep, w')"
proof -
  have "throws (\<lambda>_. False) (verifyEvents X N u None (findChain (wd_db w) reference))"
    using assms by (intro verifyEvents_returns) (simp_all add: ledger_ok_def chain_ok_def)
  from throws_nothing [OF this] show ?thesis
    by (auto simp: verify_def action_simps Let_def run_bnd_Inr) (metis run_bnd_Inr run_action(1))
qed

lemma unaltered_recorded:
  assumes "ledger_ok X d" "findChain d reference \<noteq> []" "row_of d reference = Some t"
  shows "unaltered X d reference \<longleftrightarrow>
    (case find is_closing (findChain d reference) of
       None \<Rightarrow> \<not> isClosureExpected (Some t) (findChain d reference) | Some c \<Rightarrow> c = last (findChain d reference)) \<and>
    (\<forall>opening. opening_of (findChain d reference) = Some opening \<longrightarrow> divergences opening t = [])"
proof -
  have cf: "chain_from X None (findChain d reference)" using assms(1) by (simp add: ledger_ok_def chain_ok_def)
  show ?thesis
    using chain_from_intact [OF cf] chain_sequences [OF cf] closing_findings_of_chain [OF cf assms(2)] assms(3)
    by (simp add: unaltered_def Let_def)
qed

section \<open>The head of a chain commits to it\<close>

lemma intact_nth:
  assumes "intact_from X previous es" "i < length es"
  shows "(\<exists>fp. computeFingerprint (ethers_of X) (ev_fingerprintSalt (es ! i)) (rebuildDocument (es ! i)) = Inr fp \<and>
      toLowerCase fp = toLowerCase (ev_fingerprint (es ! i))) \<and>
    lower_opt (ev_previousFingerprint (es ! i)) =
      lower_opt (map_option ev_fingerprint (if i = 0 then previous else Some (es ! (i - 1))))"
  using assms
proof (induction es arbitrary: previous i)
  case (Cons e es)
  then show ?case by (cases i) (force simp: nth_Cons')+
qed simp

lemma field_sequence: "map_of (canonical_fields e) ''sequence'' = Some (nat_dec (ev_sequence e))"
  by (simp add: canonical_fields_def)

lemma map_of_opt_field:
  "map_of (opt_field n v) m = (if n = m then (case v of Some (c # cs) \<Rightarrow> Some (c # cs) | _ \<Rightarrow> None) else None)"
  by (auto simp: opt_field_def split: option.split list.split)

lemma field_previous:
  "map_of (canonical_fields e) ''previousFingerprint'' =
   (case ev_previousFingerprint e of Some (c # cs) \<Rightarrow> Some (c # cs) | _ \<Rightarrow> None)"
  by (simp add: canonical_fields_def map_of_opt_field map_add_def split: option.split)

definition seal_text :: "externals \<Rightarrow> TransactionEvent \<Rightarrow> string" where
  "seal_text X e = sealed_text (ethers_of X) (ev_fingerprintSalt e) (rebuildDocument e)"

definition seals_collide :: "externals \<Rightarrow> TransactionEvent \<Rightarrow> TransactionEvent \<Rightarrow> bool" where
  "seals_collide X e f \<longleftrightarrow>
     seal_text X e \<noteq> seal_text X f \<and>
     keccak256 (ethers_of X) (Hex (seal_text X e)) = keccak256 (ethers_of X) (Hex (seal_text X f))"

lemma fingerprint_shape:
  assumes "ethers_ok E" "computeFingerprint E salt xml = Inr fp"
  shows "toLowerCase fp = fp" "fp \<noteq> []" "is_bytes32 salt"
proof -
  have d: "is_digest fp" using assms keccak256_digest [OF assms(1)] by (simp add: fingerprint_text)
  then show "toLowerCase fp = fp" by (simp add: is_digest_def lower_case_def)
  show "fp \<noteq> []" using d by (auto simp: is_digest_def is_bytes32_def)
  show "is_bytes32 salt" using assms(2) by (simp add: fingerprint_text)
qed

lemma same_seal:
  assumes X: "ethers_ok (ethers_of X)"
    and e: "computeFingerprint (ethers_of X) (ev_fingerprintSalt e) (rebuildDocument e) = Inr a"
    and f: "computeFingerprint (ethers_of X) (ev_fingerprintSalt f) (rebuildDocument f) = Inr b"
    and ab: "toLowerCase a = toLowerCase b" and no: "\<not> seals_collide X e f"
  shows "canonical_fields e = canonical_fields f"
proof -
  have "a = b" using ab fingerprint_shape(1) [OF X e] fingerprint_shape(1) [OF X f] by simp
  then have "seal_text X e = seal_text X f"
    using e f no unfolding seals_collide_def seal_text_def fingerprint_text by blast
  then have "rebuildDocument e = rebuildDocument f"
    unfolding seal_text_def
    by (rule sealed_text_inj [OF X fingerprint_shape(3) [OF X e] fingerprint_shape(3) [OF X f]])
  then show ?thesis unfolding rebuildDocument_def by (rule build_determines_fields)
qed

lemma head_commits:
  assumes X: "ethers_ok (ethers_of X)"
    and c: "intact_from X None c" "map ev_sequence c = map Suc [0..<length c]"
    and d: "intact_from X None d" "map ev_sequence d = map Suc [0..<length d]"
    and ne: "c \<noteq> []" "d \<noteq> []"
    and head: "toLowerCase (ev_fingerprint (last c)) = toLowerCase (ev_fingerprint (last d))"
    and no: "\<forall>e\<in>set c. \<forall>f\<in>set d. \<not> seals_collide X e f"
  shows "map canonical_fields c = map canonical_fields d"
proof -
  have seq: "ev_sequence (c ! i) = Suc i" if "i < length c" for i
    using arg_cong [OF c(2), of "\<lambda>l. l ! i"] that by simp
  have seq': "ev_sequence (d ! i) = Suc i" if "i < length d" for i
    using arg_cong [OF d(2), of "\<lambda>l. l ! i"] that by simp
  have same: "canonical_fields (c ! i) = canonical_fields (d ! j)"
    if "i < length c" "j < length d" "toLowerCase (ev_fingerprint (c ! i)) = toLowerCase (ev_fingerprint (d ! j))" for i j
    using intact_nth [OF c(1) that(1)] intact_nth [OF d(1) that(2)] that no same_seal [OF X, of "c ! i" _ "d ! j"]
    by (metis nth_mem)
  have lasts: "last c = c ! (length c - 1)" "last d = d ! (length d - 1)" using ne by (simp_all add: last_conv_nth)
  have "canonical_fields (last c) = canonical_fields (last d)"
    unfolding lasts using ne head lasts by (intro same) simp_all
  then have "nat_dec (ev_sequence (last c)) = nat_dec (ev_sequence (last d))" by (metis field_sequence option.inject)
  then have len: "length c = length d"
    using seq [of "length c - 1"] seq' [of "length d - 1"] ne by (simp add: nat_dec_inj lasts)
  have nonempty: "ev_fingerprint (es ! i) \<noteq> []" if "intact_from X None es" "i < length es" for es i
    using intact_nth [OF that] fingerprint_shape [OF X] by (auto simp: toLowerCase_def)
  have step_back: "toLowerCase (ev_fingerprint (c ! i)) = toLowerCase (ev_fingerprint (d ! i))"
    if "Suc i < length c" "canonical_fields (c ! Suc i) = canonical_fields (d ! Suc i)" for i
  proof -
    have p: "lower_opt (ev_previousFingerprint (c ! Suc i)) = Some (toLowerCase (ev_fingerprint (c ! i)))"
      "lower_opt (ev_previousFingerprint (d ! Suc i)) = Some (toLowerCase (ev_fingerprint (d ! i)))"
      using intact_nth [OF c(1), of "Suc i"] intact_nth [OF d(1), of "Suc i"] that len by (simp_all add: lower_opt_def)
    have "toLowerCase (ev_fingerprint (c ! i)) \<noteq> []" "toLowerCase (ev_fingerprint (d ! i)) \<noteq> []"
      using nonempty [OF c(1), of i] nonempty [OF d(1), of i] that len by (simp_all add: toLowerCase_def)
    moreover have "map_of (canonical_fields (c ! Suc i)) ''previousFingerprint'' = map_of (canonical_fields (d ! Suc i)) ''previousFingerprint''"
      using that by simp
    ultimately show ?thesis
      using p unfolding field_previous by (auto simp: lower_opt_def toLowerCase_def split: list.splits)
  qed
  have "toLowerCase (ev_fingerprint (c ! i)) = toLowerCase (ev_fingerprint (d ! i))" if "i < length c" for i
  proof (rule inc_induct [of i "length c - 1"])
    show "toLowerCase (ev_fingerprint (c ! (length c - 1))) = toLowerCase (ev_fingerprint (d ! (length c - 1)))"
      using head lasts len by simp
    fix n assume "n < length c - 1" "toLowerCase (ev_fingerprint (c ! Suc n)) = toLowerCase (ev_fingerprint (d ! Suc n))"
    then show "toLowerCase (ev_fingerprint (c ! n)) = toLowerCase (ev_fingerprint (d ! n))"
      using step_back [of n] same [of "Suc n" "Suc n"] len by simp
  qed (use that in simp)
  then show ?thesis using same len by (intro nth_equalityI) simp_all
qed

section \<open>Properties\<close>

lemma keeps_verify: "keeps (db_inv P) (verify X N u reference)"
proof -
  have "keeps (db_inv P) (verifyEvent X N u e previous)" for e previous
    unfolding verifyEvent_def verifyAnchor_def buildProof_def by (intro keeps_intros)
  then have "keeps (db_inv P) (verifyEvents X N u previous es)" for previous es
    by (induction es arbitrary: previous) (auto intro!: keeps_intros)
  then show ?thesis unfolding verify_def by (intro keeps_intros)
qed

lemma verify_reads: "verify X N u reference w = (r, w') \<Longrightarrow> wd_db w' = wd_db w"
  by (rule keeps_all_reads [OF keeps_verify])

lemma prepared_matches_row:
  assumes "prepared X input previous e" "OPENING_EVENTS (re_type input)"
  shows "divergences e (re_transaction input) = []"
proof -
  let ?t = "re_transaction input"
  have "ev_debtorIban e = Some (tx_debtorIban ?t)" "ev_debtorName e = tx_debtorName ?t"
    "ev_creditorIban e = Some (tx_creditorIban ?t)" "ev_creditorName e = Some (tx_creditorName ?t)"
    "ev_endToEndLabel e = tx_endToEndLabel ?t" "ev_expectedAmount e = tx_amount ?t" "ev_currency e = tx_currency ?t"
    using assms by (simp_all add: prepared_def)
  then show ?thesis by (simp add: divergences_def)
qed

lemma unanchored_results:
  assumes "\<forall>e\<in>set es. ev_anchorStatus e \<noteq> Anchor_ANCHORED" "verifyEvents X N u previous es w = (Inr rs, w')"
  shows "\<not> list_ex (\<lambda>r. vf_anchorVerified r = Some False) rs"
  using assms
proof (induction es arbitrary: previous w rs)
  case (Cons e es)
  have "vf_anchorVerified r = None" if "verifyEvent X N u e previous v = (Inr r, v')" for r v v'
    using Cons.prems(1) that
    by (auto simp: verifyEvent_def Let_def verifyAnchor_def buildProof_def anchor_coordinates_def lift_hash_def action_simps
        split: sum.splits)
  then show ?case using Cons by (auto simp: run_bnd action_simps split: prod.splits sum.splits)
qed (simp add: action_simps)

definition sample_node :: node where
  "sample_node = \<lparr>node_ready = True, node_at = (\<lambda>n s. Inr s), node_hash = sample_evm,
     node_sender = 1, node_time = (\<lambda>n. 1), node_wait = (\<lambda>n. Inr (Some (''0xabc'', ''7'', ''21000'')))\<rparr>"

lemma register_verdict:
  assumes "ethers_ok (ethers_of X)" "ledger_ok X (wd_db w)" "findChain (wd_db w) reference \<noteq> []"
    and "row_of (wd_db w) reference = Some t"
  shows "\<exists>rep w'. verify X N u reference w = (Inr rep, w') \<and> wd_db w' = wd_db w \<and>
    (cr_verdict rep = Verdict_TAMPERED \<longleftrightarrow>
       (\<exists>c. find is_closing (findChain (wd_db w) reference) = Some c \<and> c \<noteq> last (findChain (wd_db w) reference)) \<or>
       (find is_closing (findChain (wd_db w) reference) = None \<and>
          isClosureExpected (Some t) (findChain (wd_db w) reference)) \<or>
       (\<exists>opening. opening_of (findChain (wd_db w) reference) = Some opening \<and> divergences opening t \<noteq> []) \<or>
       list_ex (\<lambda>r. vf_anchorVerified r = Some False) (cr_events rep))"
proof -
  obtain rep w' where run: "verify X N u reference w = (Inr rep, w')" using verify_returns [OF assms(1,2)] by blast
  obtain rs v where rs: "verifyEvents X N u None (findChain (wd_db w) reference) (w\<lparr>wd_draws := Suc (wd_draws w)\<rparr>) = (Inr rs, v)"
    "rep = chain_report reference (findChain (wd_db w) reference) (row_of (wd_db w) reference) rs (clock X (wd_draws w))"
    using verify_run [OF run assms(3)] by blast
  have "cr_events rep = rs" by (simp add: rs(2) chain_report_def Let_def)
  moreover have "cr_verdict rep = Verdict_TAMPERED \<longleftrightarrow>
      \<not> unaltered X (wd_db w) reference \<or> list_ex (\<lambda>r. vf_anchorVerified r = Some False) rs"
    unfolding rs(2) by (rule report_tampered [OF refl refl verifyEvents_run [OF rs(1)]])
  ultimately show ?thesis
    using run verify_reads [OF run] unaltered_recorded [OF assms(2,3,4)]
    by (cases "find is_closing (findChain (wd_db w) reference)") auto
qed

text \<open>
  C16. Verification of a register that the program wrote always returns and changes nothing, and it
  cries alteration exactly when a fact was recorded after the closing event, or a closing event that
  the outcome calls for is missing, or the row no longer says what the opening recorded, or the
  publication of a fact is refuted. It never blames the content, the order or the ranks of such a
  register.
\<close>

theorem recorded_register_verdict:
  assumes "ethers_ok (ethers_of X)" "ledger_ok X (wd_db w)" "findChain (wd_db w) reference \<noteq> []"
    and "row_of (wd_db w) reference = Some t"
  shows "\<exists>rep w'. verify X N u reference w = (Inr rep, w') \<and> wd_db w' = wd_db w \<and>
    (cr_verdict rep = Verdict_TAMPERED \<longleftrightarrow>
       (\<exists>c. find is_closing (findChain (wd_db w) reference) = Some c \<and> c \<noteq> last (findChain (wd_db w) reference)) \<or>
       (find is_closing (findChain (wd_db w) reference) = None \<and>
          isClosureExpected (Some t) (findChain (wd_db w) reference)) \<or>
       (\<exists>opening. opening_of (findChain (wd_db w) reference) = Some opening \<and> divergences opening t \<noteq> []) \<or>
       list_ex (\<lambda>r. vf_anchorVerified r = Some False) (cr_events rep))"
  by (rule register_verdict [OF assms])

text \<open>A fact recorded after the closing event makes the register look altered.\<close>

lemma fact_after_closing_alarms:
  assumes "ethers_ok (ethers_of X)" "ledger_ok X (wd_db w')" "row_of (wd_db w') reference = Some t"
    and "findChain (wd_db w') reference = findChain d reference @ [e]" "\<not> is_closing e" "closings (findChain d reference) \<noteq> 0"
  shows "\<exists>rep v. verify X N u reference w' = (Inr rep, v) \<and> cr_verdict rep = Verdict_TAMPERED"
proof -
  obtain c where c: "c \<in> set (findChain d reference)" "is_closing c"
    using assms(6) by (auto simp: closings_def is_closing_def filter_empty_conv)
  then have "find is_closing (findChain d reference @ [e]) \<noteq> None" by (auto simp: find_None_iff)
  then obtain k where k: "find is_closing (findChain d reference @ [e]) = Some k" "is_closing k"
    by (auto simp: find_Some_iff)
  then have "k \<noteq> last (findChain (wd_db w') reference)" using assms(4,5) by auto
  then show ?thesis using register_verdict [OF assms(1,2) _ assms(3), of N u] k(1) assms(4) by fastforce
qed

lemma sample_register:
  "\<exists>p (w :: world). findChain (wd_db w) (tx_reference sample_transaction) = [p] \<and> ledger_ok sample_externals (wd_db w) \<and>
     row_of (wd_db w) (tx_reference sample_transaction) = Some sample_transaction \<and>
     divergences p sample_transaction = [] \<and> ev_eventType p = PAYMENT_INITIATED \<and> ev_anchorStatus p = Anchor_PENDING"
proof -
  obtain p and w :: world where w: "wd_db w = append_event p (wd_db sample_world)"
    "findChain (wd_db w) (tx_reference sample_transaction) = [p]"
    "prepared sample_externals (fact PAYMENT_INITIATED sample_transaction) None p" "ledger_ok sample_externals (wd_db w)"
    using sample_opened by blast
  have "row_of (wd_db w) (tx_reference sample_transaction) = Some sample_transaction"
    using w(1) by (simp add: row_of_def append_event_def sample_world_def empty_db_def)
  moreover have "ev_eventType p = PAYMENT_INITIATED" "divergences p sample_transaction = []" "ev_anchorStatus p = Anchor_PENDING"
    using w(3) prepared_matches_row [OF w(3)] by (simp_all add: prepared_def fact_def OPENING_EVENTS_def)
  ultimately show ?thesis using w by blast
qed

lemma sample_clean:
  "\<exists>p (w :: world) rep w'. verify sample_externals sample_node None (tx_reference sample_transaction) w = (Inr rep, w') \<and>
     findChain (wd_db w) (tx_reference sample_transaction) = [p] \<and> cr_verdict rep \<noteq> Verdict_TAMPERED"
proof -
  obtain p and w :: world where w: "findChain (wd_db w) (tx_reference sample_transaction) = [p]"
    "ledger_ok sample_externals (wd_db w)" "row_of (wd_db w) (tx_reference sample_transaction) = Some sample_transaction"
    "divergences p sample_transaction = []" "ev_eventType p = PAYMENT_INITIATED" "ev_anchorStatus p = Anchor_PENDING"
    using sample_register by blast
  obtain rep w' where run: "verify sample_externals sample_node None (tx_reference sample_transaction) w = (Inr rep, w')"
    using verify_returns [OF _ w(2), of sample_node None] sample_ethers_ok unfolding sample_external_fields by blast
  obtain rs v where rs: "verifyEvents sample_externals sample_node None None [p] (w\<lparr>wd_draws := Suc (wd_draws w)\<rparr>) = (Inr rs, v)"
    "rep = chain_report (tx_reference sample_transaction) [p] (Some sample_transaction) rs (clock sample_externals (wd_draws w))"
    using verify_run [OF run] w(1,3) by auto
  have "\<not> list_ex (\<lambda>r. vf_anchorVerified r = Some False) rs" using unanchored_results [OF _ rs(1)] w(6) by simp
  moreover have "opening_of [p] = Some q \<Longrightarrow> q = p" for q by (auto simp: opening_of_def split: if_splits)
  then have "unaltered sample_externals (wd_db w) (tx_reference sample_transaction)"
    using unaltered_recorded [OF w(2) _ w(3)] w(1,4,5)
    by (auto simp: is_closing_def isClosureExpected_def sample_transaction_def)
  ultimately have "cr_verdict rep \<noteq> Verdict_TAMPERED"
    using report_tampered [OF w(3) w(1) verifyEvents_run [OF rs(1)]] unfolding rs(2) by blast
  then show ?thesis using run w(1) by blast
qed

theorem recorded_register_verdict_witness:
  "\<exists>p (w :: world) rep w'. verify sample_externals sample_node None (tx_reference sample_transaction) w = (Inr rep, w') \<and>
     findChain (wd_db w) (tx_reference sample_transaction) = [p] \<and>
     (cr_verdict rep = Verdict_TAMPERED \<longrightarrow> list_ex (\<lambda>r. vf_anchorVerified r = Some False) (cr_events rep))"
proof -
  obtain p and w :: world where w: "findChain (wd_db w) (tx_reference sample_transaction) = [p]"
    "ledger_ok sample_externals (wd_db w)" "row_of (wd_db w) (tx_reference sample_transaction) = Some sample_transaction"
    "divergences p sample_transaction = []" "ev_eventType p = PAYMENT_INITIATED"
    using sample_register by blast
  have "find is_closing [p] = None" "\<not> isClosureExpected (Some sample_transaction) [p]"
    "opening_of [p] = Some q \<Longrightarrow> q = p" for q
    using w(5) by (auto simp: is_closing_def isClosureExpected_def sample_transaction_def opening_of_def split: if_splits)
  moreover have "ethers_ok (ethers_of sample_externals)" by (simp add: sample_ethers_ok)
  ultimately show ?thesis
    using recorded_register_verdict [OF _ w(2) _ w(3), of sample_node None] w(1,4) by (metis list.distinct(1) option.distinct(1))
qed

text \<open>
  C17. What a verdict other than alteration means, whatever the tables hold: the ranks run from one
  without a gap, every document rebuilt from its row gives back the fingerprint stored beside it and
  every row carries the fingerprint of its predecessor, the closing event, when there is one, is the last
  fact and declares their number, it is there when the outcome calls for it, and the row agrees with
  the opening on the accounts, the creditor, the currency and the printed amount.
\<close>

theorem clean_verdict_means:
  assumes "verify X N u reference w = (Inr rep, w')" "findChain (wd_db w) reference = chain" "chain \<noteq> []"
    and "cr_verdict rep \<noteq> Verdict_TAMPERED"
  shows "map ev_sequence chain = map Suc [0..<length chain] \<and>
    (\<forall>i<length chain. \<exists>fp.
       computeFingerprint (ethers_of X) (ev_fingerprintSalt (chain ! i)) (rebuildDocument (chain ! i)) = Inr fp \<and>
       toLowerCase fp = toLowerCase (ev_fingerprint (chain ! i)) \<and>
       (0 < i \<longrightarrow> lower_opt (ev_previousFingerprint (chain ! i)) = Some (toLowerCase (ev_fingerprint (chain ! (i - 1)))))) \<and>
    (\<forall>c. find is_closing chain = Some c \<longrightarrow>
       ev_closureEventCount c = Some (length chain) \<and> ev_sequence c = length chain) \<and>
    (\<exists>t. row_of (wd_db w) reference = Some t \<and>
       (isClosureExpected (Some t) chain \<longrightarrow> find is_closing chain \<noteq> None) \<and>
       (\<forall>opening. opening_of chain = Some opening \<longrightarrow>
          ev_debtorIban opening = Some (tx_debtorIban t) \<and> ev_creditorIban opening = Some (tx_creditorIban t) \<and>
          ev_creditorName opening = Some (tx_creditorName t) \<and> ev_currency opening = tx_currency t \<and>
          toFixed2 (ev_expectedAmount opening) = toFixed2 (tx_amount t)))"
proof -
  obtain rs v where rs: "verifyEvents X N u None chain (w\<lparr>wd_draws := Suc (wd_draws w)\<rparr>) = (Inr rs, v)"
    "rep = chain_report reference chain (row_of (wd_db w) reference) rs (clock X (wd_draws w))"
    using verify_run [OF assms(1)] assms(2,3) by blast
  have un: "unaltered X (wd_db w) reference"
    using report_tampered [OF refl assms(2) verifyEvents_run [OF rs(1)]] assms(4) unfolding rs(2) by blast
  then obtain t where t: "row_of (wd_db w) reference = Some t"
    and parts: "intact_from X None chain" "map ev_sequence chain = map Suc [0..<length chain]"
      "closing_findings (isClosureExpected (Some t) chain) chain = []"
      "\<forall>opening. opening_of chain = Some opening \<longrightarrow> divergences opening t = []"
    unfolding unaltered_def Let_def assms(2) by auto
  have links: "\<forall>i<length chain. \<exists>fp.
       computeFingerprint (ethers_of X) (ev_fingerprintSalt (chain ! i)) (rebuildDocument (chain ! i)) = Inr fp \<and>
       toLowerCase fp = toLowerCase (ev_fingerprint (chain ! i)) \<and>
       (0 < i \<longrightarrow> lower_opt (ev_previousFingerprint (chain ! i)) = Some (toLowerCase (ev_fingerprint (chain ! (i - 1)))))"
    using intact_nth [OF parts(1)] by (fastforce simp: lower_opt_def)
  have closing: "find is_closing chain = Some c \<Longrightarrow>
      ev_closureEventCount c = Some (length chain) \<and> ev_sequence c = length chain" for c
    using parts(3) by (auto simp: closing_findings_def Let_def split: if_splits)
  have closed: "isClosureExpected (Some t) chain \<Longrightarrow> find is_closing chain \<noteq> None"
    using parts(3) by (auto simp: closing_findings_def split: option.splits)
  show ?thesis
    using parts(2,4) links closing closed t by (auto simp: divergences_def split: if_splits)
qed

theorem clean_verdict_means_witness:
  "\<exists>p (w :: world). map ev_sequence (findChain (wd_db w) (tx_reference sample_transaction)) = [1] \<and>
     findChain (wd_db w) (tx_reference sample_transaction) = [p]"
proof -
  obtain p and w :: world and rep w' where
    "verify sample_externals sample_node None (tx_reference sample_transaction) w = (Inr rep, w')"
    "findChain (wd_db w) (tx_reference sample_transaction) = [p]" "cr_verdict rep \<noteq> Verdict_TAMPERED"
    using sample_clean by blast
  moreover from clean_verdict_means [OF this(1,2) _ this(3)] have "map ev_sequence [p] = map Suc [0..<length [p]]" by blast
  ultimately show ?thesis by (intro exI [of _ p] exI [of _ w]) simp
qed

text \<open>
  C18. The head of a chain commits to the whole history. Two registers of a transaction, read at any
  times and verified without alteration, whose heads are the same, tell the same facts in the same
  order, field by field, or two of their sealed texts are different texts with one digest. An anchored
  closing event therefore fixes everything before it: no rewriting of the register, from end to end
  and with new fingerprints, passes under the same closing fingerprint.
\<close>

theorem head_commits_to_history:
  assumes "ethers_ok (ethers_of X)"
    and "verify X N u reference w = (Inr rep, w')" "findChain (wd_db w) reference = c" "c \<noteq> []"
      "cr_verdict rep \<noteq> Verdict_TAMPERED"
    and "verify X N' u' reference v = (Inr rep', v')" "findChain (wd_db v) reference = d" "d \<noteq> []"
      "cr_verdict rep' \<noteq> Verdict_TAMPERED"
    and "toLowerCase (ev_fingerprint (last c)) = toLowerCase (ev_fingerprint (last d))"
  shows "map canonical_fields c = map canonical_fields d \<or> (\<exists>e\<in>set c. \<exists>f\<in>set d. seals_collide X e f)"
proof -
  have c: "intact_from X None c" "map ev_sequence c = map Suc [0..<length c]"
    using verify_run [OF assms(2)] report_tampered [OF refl assms(3)] verifyEvents_run assms(3-5)
    by (metis unaltered_def)+
  have d: "intact_from X None d" "map ev_sequence d = map Suc [0..<length d]"
    using verify_run [OF assms(6)] report_tampered [OF refl assms(7)] verifyEvents_run assms(7-9)
    by (metis unaltered_def)+
  show ?thesis using head_commits [OF assms(1) c d assms(4,8,10)] by blast
qed

theorem head_commits_to_history_witness:
  "\<exists>p (w :: world) rep w'. verify sample_externals sample_node None (tx_reference sample_transaction) w = (Inr rep, w') \<and>
     cr_verdict rep \<noteq> Verdict_TAMPERED \<and>
     (map canonical_fields [p] = map canonical_fields (findChain (wd_db w) (tx_reference sample_transaction)) \<or>
      (\<exists>e\<in>set [p]. \<exists>f\<in>set [p]. seals_collide sample_externals e f))"
proof -
  obtain p and w :: world and rep w' where s:
    "verify sample_externals sample_node None (tx_reference sample_transaction) w = (Inr rep, w')"
    "findChain (wd_db w) (tx_reference sample_transaction) = [p]" "cr_verdict rep \<noteq> Verdict_TAMPERED"
    using sample_clean by blast
  have "ethers_ok (ethers_of sample_externals)" by (simp add: sample_ethers_ok)
  from head_commits_to_history [OF this s(1,2) _ s(3) s(1,2) _ s(3) refl] s show ?thesis
    by (intro exI [of _ p] exI [of _ w] exI [of _ rep] exI [of _ w']) simp
qed

end
