(* ===== verification/Register_Contract.thy ===== *)
theory Register_Contract
  imports Chain_Verification
begin

text \<open>
  The contract between the register and the services that write to it. A service writes rows, records
  facts, and groups both in SQL transactions (outside one it only records the closing of a case, which has no
  accounting consequence); what it may rely on is stated once, as the laws of
  a locale, and every handler of the later theories is shown once, inside the locale, to keep what the
  laws promise. \<open>P\<close> is what holds between transactions, \<open>Q d\<close> what holds inside one that started at \<open>d\<close>.
\<close>

text \<open>The fact an event states: the event without its anchoring columns, the only ones that may change.\<close>

definition fact_of :: "TransactionEvent \<Rightarrow> TransactionEvent" where
  "fact_of e = e\<lparr>ev_anchorStatus := Anchor_PENDING, ev_batchId := None, ev_leafIndex := None, ev_merkleProof := None\<rparr>"

definition map_events :: "(TransactionEvent \<Rightarrow> TransactionEvent) \<Rightarrow> db \<Rightarrow> db" where
  "map_events f d = d\<lparr>db_events := map f (db_events d)\<rparr>"

text \<open>\<^verbatim>\<open>transactions.update(.., { anchorStatus })\<close>, which projects the status of a closing fact on its row.\<close>

definition project_status :: "(Transaction \<Rightarrow> bool) \<Rightarrow> AnchorStatus \<Rightarrow> date \<Rightarrow> db \<Rightarrow> db" where
  "project_status cond status now d =
     d\<lparr>db_transactions := map (\<lambda>t. if cond t then t\<lparr>tx_anchorStatus := status, tx_updatedAt := now,
                                                     tx_version := tx_version t + 1\<rparr> else t) (db_transactions d)\<rparr>"

locale store_contract =
  fixes X :: externals and P :: "db \<Rightarrow> bool" and Q :: "db \<Rightarrow> db \<Rightarrow> bool"
  assumes frame: "db_events d = db_events d' \<Longrightarrow> db_entries d = db_entries d' \<Longrightarrow>
        db_transactions d = db_transactions d' \<Longrightarrow> P d \<longleftrightarrow> P d'"
    and frame_in: "db_events d = db_events d' \<Longrightarrow> db_entries d = db_entries d' \<Longrightarrow>
        db_transactions d = db_transactions d' \<Longrightarrow> Q d0 d \<longleftrightarrow> Q d0 d'"
    and start: "P d \<Longrightarrow> Q d d"
    and record_in: "keeps (db_inv (Q d0)) (record_event X True input [])"
    and record_out: "POSTING_RULES (re_type input) = None \<Longrightarrow> keeps (db_inv P) (record_event X False input [])"
    and save_in: "keeps (db_inv (Q d0)) (save_transaction X t)"
    and save_out: "keeps (db_inv P) (save_transaction X t)"
    and update_in: "keeps (db_inv (Q d0)) (update_transaction X tid cond set_clause)"
    and update_out: "keeps (db_inv P) (update_transaction X tid cond set_clause)"
    and commit: "P d \<Longrightarrow> Q d d' \<Longrightarrow> list_all journal_entries_balanced (new_entries d d') \<Longrightarrow> P d'"
    and anchoring: "(\<And>e. fact_of (f e) = fact_of e) \<Longrightarrow> P d \<Longrightarrow> P (map_events f d)"
    and anchoring_in: "(\<And>e. fact_of (f e) = fact_of e) \<Longrightarrow> Q d0 d \<Longrightarrow> Q d0 (map_events f d)"
    and project: "P d \<Longrightarrow> P (project_status c status now d)"
    and project_in: "Q d0 d \<Longrightarrow> Q d0 (project_status c status now d)"
begin

lemma keeps_commit:
  assumes "\<And>d0. keeps (db_inv (Q d0)) m"
  shows "keeps (db_inv P) (transaction m)"
proof (rule keepsI)
  fix w assume w: "db_inv P w"
  obtain r w' where m: "m w = (r, w')" by (cases "m w")
  have "db_inv (Q (wd_db w)) w" using w start by (simp add: db_inv_def)
  then have "Q (wd_db w) (wd_db w')" using keeps_run [OF assms _ m] by (simp add: db_inv_def)
  then show "db_inv P (snd (transaction m w))"
    using w m commit by (cases r) (auto simp: transaction_def db_inv_def)
qed

text \<open>Writes to the other tables.\<close>

lemma keeps_write:
  assumes "\<And>d. db_events (f d) = db_events d" "\<And>d. db_entries (f d) = db_entries d"
    "\<And>d. db_transactions (f d) = db_transactions d"
  shows "keeps (db_inv P) (modifies (on_db f))" "keeps (db_inv (Q d0)) (modifies (on_db f))"
  using frame [of "f d" d for d] frame_in [of "f d" d d0 for d] assms
  by (auto intro!: keeps_db_modifies)

lemma keeps_close:
  "keeps (db_inv P) (closeCase X False t detail [])" "keeps (db_inv (Q d0)) (closeCase X True t detail [])"
  unfolding closeCase_def by (intro keeps_intros record_out record_in; simp add: fact_def)+

lemma keeps_project:
  "keeps (db_inv P) (modifies (on_db (project_status c status now)))"
  "keeps (db_inv (Q d0)) (modifies (on_db (project_status c status now)))"
  using project project_in by (auto intro!: keeps_db_modifies)

text \<open>Writes to the anchoring columns of the events.\<close>

lemma keeps_anchoring:
  assumes "\<And>e. fact_of (f e) = fact_of e"
  shows "keeps (db_inv P) (modifies (on_db (map_events f)))" "keeps (db_inv (Q d0)) (modifies (on_db (map_events f)))"
  using anchoring anchoring_in assms by (auto intro!: keeps_db_modifies)

lemmas keeps_inside = save_in update_in keeps_close(2) record_in
lemmas keeps_outside = save_out update_out keeps_close(1) record_out

end

text \<open>A contract on the register alone: rows of transactions may change freely.\<close>

locale register_contract =
  fixes X :: externals and P :: "db \<Rightarrow> bool" and Q :: "db \<Rightarrow> db \<Rightarrow> bool"
  assumes reg_frame: "db_events d = db_events d' \<Longrightarrow> db_entries d = db_entries d' \<Longrightarrow> P d \<longleftrightarrow> P d'"
    and reg_frame_in: "db_events d = db_events d' \<Longrightarrow> db_entries d = db_entries d' \<Longrightarrow> Q d0 d \<longleftrightarrow> Q d0 d'"
    and reg_start: "P d \<Longrightarrow> Q d d"
    and reg_record_in: "keeps (db_inv (Q d0)) (record_event X True input [])"
    and reg_record_out: "POSTING_RULES (re_type input) = None \<Longrightarrow> keeps (db_inv P) (record_event X False input [])"
    and reg_commit: "P d \<Longrightarrow> Q d d' \<Longrightarrow> list_all journal_entries_balanced (new_entries d d') \<Longrightarrow> P d'"
    and reg_anchoring: "(\<And>e. fact_of (f e) = fact_of e) \<Longrightarrow> P d \<Longrightarrow> P (map_events f d)"
    and reg_anchoring_in: "(\<And>e. fact_of (f e) = fact_of e) \<Longrightarrow> Q d0 d \<Longrightarrow> Q d0 (map_events f d)"
begin

lemma keeps_unseen:
  assumes "\<And>d. db_events (f d) = db_events d" "\<And>d. db_entries (f d) = db_entries d"
  shows "keeps (db_inv P) (modifies (on_db f))" "keeps (db_inv (Q d0)) (modifies (on_db f))"
  using reg_frame [of "f d" d for d] reg_frame_in [of "f d" d d0 for d] assms
  by (auto intro!: keeps_db_modifies)

lemma keeps_rows:
  "keeps (db_inv P) (save_transaction X t)" "keeps (db_inv (Q d0)) (save_transaction X t)"
  "keeps (db_inv P) (update_transaction X tid cond set_clause)"
  "keeps (db_inv (Q d0)) (update_transaction X tid cond set_clause)"
  unfolding save_transaction_def update_transaction_def
  by (intro keeps_intros keeps_unseen; simp add: put_transaction_def)+

end

sublocale register_contract \<subseteq> store_contract X P Q
proof
  show "P d \<longleftrightarrow> P d'" if "db_events d = db_events d'" "db_entries d = db_entries d'" for d d'
    using that by (rule reg_frame)
  show "Q d0 d \<longleftrightarrow> Q d0 d'" if "db_events d = db_events d'" "db_entries d = db_entries d'" for d0 d d'
    using that by (rule reg_frame_in)
  show "P (project_status c status now d)" if "P d" for c status now d
    using that reg_frame [of "project_status c status now d" d] by (simp add: project_status_def)
  show "Q d0 (project_status c status now d)" if "Q d0 d" for d0 c status now d
    using that reg_frame_in [of "project_status c status now d" d d0] by (simp add: project_status_def)
qed (fact reg_start reg_record_in reg_record_out keeps_rows reg_commit reg_anchoring reg_anchoring_in)+

section \<open>The register keeps its contract\<close>

lemma fact_of_select [simp]:
  "ev_transactionReference (fact_of e) = ev_transactionReference e" "ev_sequence (fact_of e) = ev_sequence e"
  "ev_eventType (fact_of e) = ev_eventType e" "ev_fingerprint (fact_of e) = ev_fingerprint e"
  by (simp_all add: fact_of_def)

lemma fact_of_fields:
  "fact_of e = fact_of e' \<Longrightarrow> ev_transactionReference e = ev_transactionReference e' \<and> ev_sequence e = ev_sequence e' \<and>
     ev_eventType e = ev_eventType e' \<and> ev_fingerprint e = ev_fingerprint e'"
  by (metis fact_of_select)

lemma follows_fact_of: "follows X previous e = follows X (map_option fact_of previous) (fact_of e)"
  by (cases previous) (simp_all add: follows_def sealed_def rebuildDocument_def fact_of_def)

lemma chain_from_fact_of:
  "map_option fact_of previous = map_option fact_of previous' \<Longrightarrow> map fact_of es = map fact_of es' \<Longrightarrow>
   chain_from X previous es = chain_from X previous' es'"
proof (induction es arbitrary: es' previous previous')
  case (Cons e es)
  then obtain e' es'' where es': "es' = e' # es''" "fact_of e = fact_of e'" "map fact_of es = map fact_of es''" by (cases es') auto
  have "follows X previous e = follows X previous' e'"
    using Cons.prems(1) es'(2) follows_fact_of [of X previous e] follows_fact_of [of X previous' e'] by simp
  then show ?case using Cons.IH [of "Some e" "Some e'" es''] es' by simp
qed (auto dest: sym)

lemma insort_key_map: "insort_key k (f x) (map f xs) = map f (insort_key (\<lambda>x. k (f x)) x xs)"
  by (induction xs) simp_all

lemma findChain_map_events:
  assumes "\<And>e. fact_of (f e) = fact_of e"
  shows "findChain (map_events f d) reference = map f (findChain d reference)"
proof -
  have same: "ev_transactionReference (f e) = ev_transactionReference e" "ev_sequence (f e) = ev_sequence e" for e
    using fact_of_fields [OF assms] by blast+
  have "sort_key ev_sequence (map f xs) = map f (sort_key ev_sequence xs)" for xs
    by (induction xs) (simp_all add: insort_key_map same)
  then show ?thesis by (simp add: findChain_def map_events_def filter_map o_def same)
qed

lemma chain_ok_map_events:
  assumes "\<And>e. fact_of (f e) = fact_of e"
  shows "chain_ok X (map f es) = chain_ok X es"
proof -
  have "chain_from X None (map f es) = chain_from X None es" by (rule chain_from_fact_of) (simp_all add: assms)
  moreover have "ev_eventType (f e) = ev_eventType e" for e using fact_of_fields [OF assms] by blast
  then have "closings (map f es) = closings es" by (simp add: closings_def filter_map o_def)
  ultimately show ?thesis by (simp add: chain_ok_def)
qed

text \<open>The chains stay well formed and continue, fact for fact, those of any earlier moment.\<close>

definition continues :: "externals \<Rightarrow> db \<Rightarrow> db \<Rightarrow> bool" where
  "continues X d d' \<longleftrightarrow>
     ledger_ok X d' \<and>
     (\<forall>reference. prefix (map fact_of (findChain d reference)) (map fact_of (findChain d' reference)))"

lemma continues_refl: "ledger_ok X d \<Longrightarrow> continues X d d"
  by (simp add: continues_def)

lemma extends_continues: "continues X d d' \<Longrightarrow> extends X d' d'' \<Longrightarrow> continues X d d''"
  unfolding continues_def extends_def by (meson map_mono_prefix prefix_order.trans)

lemma continues_events: "db_events d' = db_events d'' \<Longrightarrow> continues X d d' = continues X d d''"
  by (simp add: continues_def findChain_events [of d' d''] ledger_ok_events [of d' d''])

lemma continues_anchoring:
  "(\<And>e. fact_of (f e) = fact_of e) \<Longrightarrow> continues X d d' \<Longrightarrow> continues X d (map_events f d')"
  by (simp add: continues_def ledger_ok_def findChain_map_events chain_ok_map_events o_def)

lemma record_keeps_chains: "keeps (db_inv (continues X d0)) (record_event X nested input [])"
proof (rule keepsI)
  fix w assume "db_inv (continues X d0) w"
  then have ext: "continues X d0 (wd_db w)" by (simp add: db_inv_def)
  obtain r w' where run: "record_event X nested input [] w = (r, w')" by (cases "record_event X nested input [] w")
  have "extends X (wd_db w) (wd_db w')"
    using record_from_chains [OF run [unfolded record_event_def]] ext by (simp add: continues_def)
  then show "db_inv (continues X d0) (snd (record_event X nested input [] w))"
    using extends_continues [OF ext] run by (simp add: db_inv_def)
qed

interpretation chains: register_contract X "continues X d" "\<lambda>_. continues X d" for X d
  by unfold_locales (rule continues_events record_keeps_chains continues_anchoring | assumption)+

text \<open>The journal holds balanced entries of positive lines and only grows.\<close>

definition positive_lines :: "JournalEntry \<Rightarrow> bool" where
  "positive_lines e \<longleftrightarrow> list_all (\<lambda>l. 0 < jl_amount l) (je_lines e)"

definition journal_grew :: "db \<Rightarrow> db \<Rightarrow> bool" where
  "journal_grew d d' \<longleftrightarrow> prefix (db_entries d) (db_entries d') \<and> list_all positive_lines (db_entries d')"

definition journal_ok :: "db \<Rightarrow> db \<Rightarrow> bool" where
  "journal_ok d0 d \<longleftrightarrow> journal_grew d0 d \<and> list_all journal_entries_balanced (db_entries d)"

lemma post_keeps_journal: "keeps (db_inv (journal_grew d0)) (post X event t)"
proof -
  have "keeps (db_inv (journal_grew d0)) (insert_entry entry ls)" for entry ls
    unfolding insert_entry_def
    by (intro keeps_intros) (auto simp: journal_grew_def positive_lines_def)
  then show ?thesis unfolding post_def by (intro keeps_intros)
qed

lemma journal_commit:
  assumes "journal_ok d0 d" "journal_grew d d'" "list_all journal_entries_balanced (new_entries d d')"
  shows "journal_ok d0 d'"
proof -
  obtain es where es: "db_entries d' = db_entries d @ es" using assms(2) by (auto simp: journal_grew_def prefix_def)
  then have "new_entries d d' = es" by (simp add: new_entries_def)
  then show ?thesis using assms es by (auto simp: journal_ok_def journal_grew_def)
qed

lemma keeps_savepoint:
  assumes "keeps (db_inv P) m"
  shows "keeps (db_inv P) (savepoint nested m)"
proof (rule keepsI)
  fix w assume w: "db_inv P w"
  obtain r w' where m: "m w = (r, w')" by (cases "m w")
  have "db_inv P w'" using keeps_run [OF assms w m] .
  then show "db_inv P (snd (savepoint nested m w))"
    using w m by (cases r) (simp_all add: savepoint_def db_inv_def)
qed

text \<open>Recording a fact keeps whatever ignores the events and is kept by the posting.\<close>

lemma record_keeps_entries:
  assumes "\<And>e d. I (append_event e d) \<longleftrightarrow> I d"
    and "\<And>event t. keeps (db_inv I) (if nested then post X event t else transaction (post X event t))"
  shows "keeps (db_inv I) (record_event X nested input [])"
proof -
  have written: "keeps (db_inv I) (write_event X nested t event)" for t event
    unfolding write_event_def insert_event_def by (intro keeps_intros assms(2)) (simp add: assms(1))
  have prep: "keeps (db_inv I) (prepare_event X input)"
    unfolding prepare_event_def assertValid_def by (intro keeps_intros)
  have "keeps (db_inv I) (record_from n X nested input [])" for n
  proof (induction n)
    case (Suc n)
    have "keeps (db_inv I) (interpose [])" by (simp add: interpose_def keeps_pure)
    then show ?case using Suc by (auto intro!: keeps_intros keeps_savepoint prep written)
  qed (simp add: keeps_pure)
  then show ?thesis by (simp add: record_event_def)
qed

lemma journal_append_event: "journal_grew d0 (append_event e d) = journal_grew d0 d" "journal_ok d0 (append_event e d) = journal_ok d0 d"
  by (simp_all add: journal_grew_def journal_ok_def append_event_def)

lemma post_commit_keeps_journal: "keeps (db_inv (journal_ok d0)) (transaction (post X event t))"
proof (rule keepsI)
  fix w assume w: "db_inv (journal_ok d0) w"
  obtain r w' where m: "post X event t w = (r, w')" by (cases "post X event t w")
  have "db_inv (journal_grew (wd_db w)) w" using w by (simp add: db_inv_def journal_ok_def journal_grew_def)
  then have "journal_grew (wd_db w) (wd_db w')" using keeps_run [OF post_keeps_journal _ m] by (simp add: db_inv_def)
  then show "db_inv (journal_ok d0) (snd (transaction (post X event t) w))"
    using w m journal_commit by (cases r) (auto simp: transaction_def db_inv_def)
qed

interpretation journal: register_contract X "journal_ok d" journal_grew for X d
proof
  show "keeps (db_inv (journal_grew d0)) (record_event X True input [])" for d0 input
    by (rule record_keeps_entries) (simp_all add: journal_append_event post_keeps_journal)
  show "keeps (db_inv (journal_ok d)) (record_event X False input [])" for input
    by (rule record_keeps_entries) (simp_all add: journal_append_event post_commit_keeps_journal)
  show "journal_ok d d2" if "journal_ok d d1" "journal_grew d1 d2" "list_all journal_entries_balanced (new_entries d1 d2)" for d1 d2
    using that by (rule journal_commit)
qed (auto simp: journal_ok_def journal_grew_def map_events_def)

section \<open>The rows keep the constraints of their table\<close>

text \<open>Every row meets the constraints of the table among the other rows.\<close>

definition rows_ok :: "db \<Rightarrow> bool" where
  "rows_ok d \<longleftrightarrow> distinct (map tx_id (db_transactions d)) \<and>
     (\<forall>t\<in>set (db_transactions d).
        transaction_constraints t (filter (\<lambda>r. tx_id r \<noteq> tx_id t) (db_transactions d)) = None)"

definition well_typed_row :: "Transaction \<Rightarrow> bool" where
  "well_typed_row t \<longleftrightarrow> transaction_widths t \<and> checks_transactions_state (stateOf t)"

definition rows_apart :: "Transaction \<Rightarrow> Transaction \<Rightarrow> bool" where
  "rows_apart t r \<longleftrightarrow>
     tx_reference r \<noteq> tx_reference t \<and>
     (tx_idempotencyKey t \<noteq> None \<longrightarrow> tx_idempotencyKey r \<noteq> tx_idempotencyKey t) \<and>
     (tx_aggregatorReference t \<noteq> None \<longrightarrow> tx_aggregatorReference r \<noteq> tx_aggregatorReference t)"

lemma rows_apart_sym: "rows_apart t r \<Longrightarrow> rows_apart r t"
  by (auto simp: rows_apart_def)

lemma constraints_none:
  "transaction_constraints t others = None \<longleftrightarrow>
   well_typed_row t \<and> (\<forall>r\<in>set others. tx_id r \<noteq> tx_id t \<and> rows_apart t r)"
  unfolding transaction_constraints_def well_typed_row_def rows_apart_def by (auto simp: list_ex_iff)

lemma rows_ok_iff:
  "rows_ok d \<longleftrightarrow> distinct (map tx_id (db_transactions d)) \<and> (\<forall>t\<in>set (db_transactions d). well_typed_row t) \<and>
     (\<forall>t\<in>set (db_transactions d). \<forall>r\<in>set (db_transactions d). tx_id r \<noteq> tx_id t \<longrightarrow> rows_apart t r)"
  by (auto simp: rows_ok_def constraints_none)

lemma rows_ok_put:
  assumes "rows_ok d" "transaction_constraints t (filter (\<lambda>r. tx_id r \<noteq> tx_id t) (db_transactions d)) = None"
  shows "rows_ok (put_transaction t d)"
proof -
  have "map tx_id (db_transactions (put_transaction t d)) = map tx_id (db_transactions d)"
    by (simp add: put_transaction_def)
  moreover have "r \<in> set (db_transactions (put_transaction t d)) \<Longrightarrow> r = t \<or> r \<in> set (db_transactions d) \<and> tx_id r \<noteq> tx_id t" for r
    by (auto simp: put_transaction_def)
  ultimately show ?thesis using assms rows_apart_sym unfolding rows_ok_iff constraints_none
    by (metis (mono_tags, lifting) mem_Collect_eq set_filter)
qed

lemma rows_ok_insert:
  assumes "rows_ok d" "transaction_constraints t (db_transactions d) = None"
  shows "rows_ok (d\<lparr>db_transactions := db_transactions d @ [t]\<rparr>)"
  using assms rows_apart_sym unfolding rows_ok_iff constraints_none by (auto simp: distinct_map)

lemma rows_ok_map:
  assumes "\<And>t. tx_id (f t) = tx_id t" "\<And>t. well_typed_row (f t) = well_typed_row t"
    "\<And>t r. rows_apart (f t) (f r) = rows_apart t r"
  shows "rows_ok (d\<lparr>db_transactions := map f (db_transactions d)\<rparr>) = rows_ok d"
  using assms by (simp add: rows_ok_iff o_def)

lemma rows_ok_project: "rows_ok d \<Longrightarrow> rows_ok (project_status c status now d)"
  unfolding project_status_def
  by (subst rows_ok_map) (simp_all add: well_typed_row_def transaction_widths_def stateOf_def rows_apart_def)

lemma save_keeps_rows: "keeps (db_inv rows_ok) (save_transaction X t)"
proof (rule keepsI)
  fix w :: world assume "db_inv rows_ok w"
  then have ok: "rows_ok (wd_db w)" by (simp add: db_inv_def)
  define others where "others = filter (\<lambda>r. tx_id r \<noteq> tx_id t) (db_transactions (wd_db w))"
  define stored where "stored \<longleftrightarrow> length others < length (db_transactions (wd_db w))"
  define now where "now = clock X (wd_draws w)"
  define t' where "t' = (if stored then t\<lparr>tx_updatedAt := now, tx_version := tx_version t + 1\<rparr>
     else t\<lparr>tx_createdAt := now, tx_updatedAt := now, tx_version := 1\<rparr>)"
  have [simp]: "tx_id t' = tx_id t" by (simp add: t'_def)
  have "rows_ok (if stored then put_transaction t' (wd_db w)
       else (wd_db w)\<lparr>db_transactions := db_transactions (wd_db w) @ [t']\<rparr>)" if "transaction_constraints t' others = None"
  proof (cases stored)
    case True
    then show ?thesis using rows_ok_put [OF ok, of t'] that by (simp add: others_def)
  next
    case False
    then have "others = db_transactions (wd_db w)" unfolding stored_def others_def by (metis length_filter_less filter_id_conv)
    then show ?thesis using rows_ok_insert [OF ok] that False by simp
  qed
  then show "db_inv rows_ok (snd (save_transaction X t w))"
    using ok unfolding save_transaction_def
    by (cases stored)
       (auto simp: Let_def action_simps db_inv_def on_db_def t'_def simp flip: others_def now_def stored_def split: option.split)
qed

lemma update_keeps_rows: "keeps (db_inv rows_ok) (update_transaction X tid cond set_clause)"
  using rows_ok_put
  by (force simp: keeps_def update_transaction_def Let_def action_simps db_inv_def on_db_def split: option.split)

lemma record_keeps_rows: "keeps (db_inv rows_ok) (record_event X nested input [])"
proof (rule record_keeps_entries)
  show "rows_ok (append_event e d) \<longleftrightarrow> rows_ok d" for e d by (simp add: rows_ok_def append_event_def)
  have "keeps (db_inv rows_ok) (post X event t)" for event t
    unfolding post_def insert_entry_def by (intro keeps_intros) (simp add: rows_ok_def)
  then show "keeps (db_inv rows_ok) (if nested then post X event t else transaction (post X event t))" for event t
    by (intro keeps_intros)
qed

interpretation rows: store_contract X rows_ok "\<lambda>_. rows_ok" for X
proof
  show "rows_ok (map_events f d)" if "rows_ok d" for f d using that by (simp add: map_events_def rows_ok_def)
  show "rows_ok (map_events f d)" if "rows_ok d" for f d using that by (simp add: map_events_def rows_ok_def)
qed (simp_all add: record_keeps_rows save_keeps_rows update_keeps_rows rows_ok_project, simp_all add: rows_ok_def)

end
