(* ===== verification/Effects.thy ===== *)
theory Effects
  imports Register_Contract
begin

text \<open>
  What the shared steps of the handlers do to the world, as run lemmas: a row saved or updated and read back,
  a fact recorded inside a transaction, a transaction committed or taken back. \<open>aside\<close> is the part of the world
  that recording a fact never touches.
\<close>

definition other_tables ::
  "db \<Rightarrow> Transaction list \<times> Refund list \<times> BankInstruction list \<times> MobileMoneyWebhookEvent list \<times> AnchorBatch list" where
  "other_tables d = (db_transactions d, db_refunds d, db_instructions d, db_webhooks d, db_batches d)"

definition outside :: "world \<Rightarrow> bool \<times> bool \<times> bool \<times> string \<times> AuditAnchor \<times> (string \<times> number) list \<times> ProviderRefundRequest list" where
  "outside w = (wd_draining w, wd_retrying w, wd_anchoring w, wd_correlationId w, wd_chain w, wd_bank_calls w, wd_refund_calls w)"

lemma outside_simps [simp]:
  "outside (w\<lparr>wd_db := d\<rparr>) = outside w" "outside (w\<lparr>wd_draws := n\<rparr>) = outside w" "outside (on_db f w) = outside w"
  by (simp_all add: outside_def on_db_def)

lemma outside_fields:
  assumes "outside w = outside w'"
  shows "wd_draining w = wd_draining w'" "wd_bank_calls w = wd_bank_calls w'" "wd_refund_calls w = wd_refund_calls w'"
    "wd_chain w = wd_chain w'"
  using assms by (simp_all add: outside_def)

section \<open>The database alone\<close>

text \<open>Actions on the database leave the rest of the world alone.\<close>

named_theorems local_intros \<open>actions that change the database only\<close>

lemma local_run:
  assumes "\<And>c. keeps (\<lambda>w. outside w = c) m" "m w = (r, w')"
  shows "outside w' = outside w"
  using keepsD [OF assms(1) [of "outside w"], of w] assms(2) by simp

lemma keeps_outside_db [local_intros]:
  "keeps (\<lambda>w. outside w = c) (draw source)" "keeps (\<lambda>w. outside w = c) (modifies (on_db f))"
  by (simp_all add: keeps_def draw_def modifies_def)

lemma keeps_outside_transaction [local_intros]:
  "keeps (\<lambda>w. outside w = c) m \<Longrightarrow> keeps (\<lambda>w. outside w = c) (transaction m)"
  "keeps (\<lambda>w. outside w = c) m \<Longrightarrow> keeps (\<lambda>w. outside w = c) (savepoint nested m)"
  by (fastforce simp: keeps_def transaction_def savepoint_def split: prod.splits sum.splits)+

lemma keeps_outside_rows [local_intros]:
  "keeps (\<lambda>w. outside w = c) (save_transaction X t)"
  "keeps (\<lambda>w. outside w = c) (update_transaction X tid cond set_clause)"
  unfolding save_transaction_def update_transaction_def by (intro keeps_intros local_intros)+

lemma keeps_outside_record [local_intros]: "keeps (\<lambda>w. outside w = c) (record_event X nested input [])"
proof -
  have posted: "keeps (\<lambda>w. outside w = c) (post X event t)" for event t
    unfolding post_def insert_entry_def by (intro keeps_intros local_intros)
  have "keeps (\<lambda>w. outside w = c) (write_event X nested t event)" for t event
    unfolding write_event_def insert_event_def by (intro keeps_intros local_intros posted)
  moreover have "keeps (\<lambda>w. outside w = c) (prepare_event X input)"
    unfolding prepare_event_def assertValid_def by (intro keeps_intros local_intros)
  moreover have "keeps (\<lambda>w. outside w = c) (interpose [])" by (simp add: interpose_def keeps_pure)
  ultimately have "keeps (\<lambda>w. outside w = c) (record_from n X nested input [])" for n
    by (induction n) (auto intro!: keeps_intros local_intros)
  then show ?thesis by (simp add: record_event_def)
qed

lemma keeps_outside_close [local_intros]: "keeps (\<lambda>w. outside w = c) (closeCase X nested t detail [])"
  unfolding closeCase_def by (intro keeps_intros local_intros)

section \<open>Recording a fact inside a transaction\<close>

lemma record_other_tables:
  assumes "record_event X nested input [] w = (r, w')"
  shows "other_tables (wd_db w') = other_tables (wd_db w)"
proof -
  let ?I = "\<lambda>d. other_tables d = other_tables (wd_db w)"
  have "keeps (db_inv ?I) (insert_entry entry ls)" for entry ls
    unfolding insert_entry_def by (intro keeps_intros) (simp add: other_tables_def)
  then have posted: "keeps (db_inv ?I) (post X event t)" for event t unfolding post_def by (intro keeps_intros)
  have "keeps (db_inv ?I) (record_event X nested input [])"
  proof (rule record_keeps_entries)
    show "?I (append_event e d) \<longleftrightarrow> ?I d" for e d by (simp add: other_tables_def append_event_def)
    show "keeps (db_inv ?I) (if nested then post X event t else transaction (post X event t))" for event t
      by (intro keeps_intros posted)
  qed
  from keeps_run [OF this _ assms] show ?thesis by (simp add: db_inv_def)
qed

text \<open>A recorded fact is the new head of its chain; a refused one leaves the database as it was.\<close>

lemma record_nested_run:
  assumes "record_event X True input [] w = (r, w')" "ledger_ok X (wd_db w)"
  shows "ledger_ok X (wd_db w') \<and> other_tables (wd_db w') = other_tables (wd_db w) \<and> outside w' = outside w \<and>
    ((\<exists>e. r = Inr e \<and> prepared X input (findLatest (wd_db w) (tx_reference (re_transaction input))) e \<and>
        findChain (wd_db w') (tx_reference (re_transaction input)) =
        findChain (wd_db w) (tx_reference (re_transaction input)) @ [e] \<and>
        entries_grew (append_event e (wd_db w)) (wd_db w')) \<or>
     (\<exists>err. r = Inl err \<and> wd_db w' = wd_db w))"
proof -
  have "ledger_ok X (wd_db w')"
    using record_from_chains [OF assms(1) [unfolded record_event_def] assms(2)] by (simp add: extends_def)
  moreover have "outside w' = outside w" using local_run [OF keeps_outside_record assms(1)] .
  moreover note record_other_tables [OF assms(1)]
  ultimately show ?thesis using record_alone [OF assms(1) [unfolded record_event_Suc] assms(2)] by auto
qed

section \<open>Rows\<close>

lemma update_transaction_run:
  assumes "update_transaction X tid cond set_clause w = (r, w')"
  shows "outside w' = outside w \<and>
    ((r = Inr 0 \<and> wd_db w' = wd_db w \<and> find (\<lambda>r. tx_id r = tid \<and> cond r) (db_transactions (wd_db w)) = None) \<or>
     (\<exists>err. r = Inl err \<and> wd_db w' = wd_db w) \<or>
     (\<exists>row t'. r = Inr 1 \<and> find (\<lambda>r. tx_id r = tid \<and> cond r) (db_transactions (wd_db w)) = Some row \<and>
        t' = (set_clause row)\<lparr>tx_id := tid, tx_updatedAt := clock X (wd_draws w), tx_version := tx_version row + 1\<rparr> \<and>
        wd_db w' = put_transaction t' (wd_db w)))"
  using assms
  by (auto simp: update_transaction_def Let_def action_simps on_db_def outside_def split: option.splits)

lemma widths_bookkeeping [simp]:
  "transaction_widths (t\<lparr>tx_createdAt := now\<rparr>) = transaction_widths t"
  "transaction_widths (t\<lparr>tx_updatedAt := now\<rparr>) = transaction_widths t"
  "transaction_widths (t\<lparr>tx_version := n\<rparr>) = transaction_widths t"
  by (simp_all add: transaction_widths_def)

lemma save_transaction_run:
  assumes "save_transaction X t w = (Inr t', w')"
  shows "t' \<in> set (db_transactions (wd_db w')) \<and> outside w' = outside w \<and> transaction_widths t' \<and>
    wd_db w' = (wd_db w)\<lparr>db_transactions := db_transactions (wd_db w')\<rparr> \<and>
    (\<exists>created updated version. t' = t\<lparr>tx_createdAt := created, tx_updatedAt := updated, tx_version := version\<rparr>)"
proof -
  let ?rows = "db_transactions (wd_db w)" and ?now = "clock X (wd_draws w)"
  define others where "others = filter (\<lambda>r. tx_id r \<noteq> tx_id t) ?rows"
  define stored where "stored \<longleftrightarrow> length others < length ?rows"
  define t1 where "t1 = (if stored then t\<lparr>tx_updatedAt := ?now, tx_version := tx_version t + 1\<rparr>
    else t\<lparr>tx_createdAt := ?now, tx_updatedAt := ?now, tx_version := 1\<rparr>)"
  have run: "transaction_constraints t1 others = None" "t' = t1"
    "w' = on_db (if stored then put_transaction t1 else (\<lambda>d. d\<lparr>db_transactions := db_transactions d @ [t1]\<rparr>))
       (w\<lparr>wd_draws := Suc (wd_draws w)\<rparr>)"
    using assms unfolding t1_def stored_def others_def
    by (cases "length others < length ?rows";
        simp add: save_transaction_def Let_def action_simps others_def split: option.splits)+
  have "t' \<in> set (db_transactions (wd_db w'))"
  proof (cases stored)
    case True
    then obtain r where "r \<in> set ?rows" "tx_id r = tx_id t"
      unfolding stored_def others_def by (metis (mono_tags, lifting) filter_True less_irrefl)
    then show ?thesis using run True by (auto simp: on_db_def put_transaction_def t1_def image_iff)
  qed (simp add: run on_db_def)
  moreover have "wd_db w' = (wd_db w)\<lparr>db_transactions := db_transactions (wd_db w')\<rparr>" "outside w' = outside w"
    unfolding run(3) by (simp_all add: on_db_def put_transaction_def outside_def)
  moreover have "transaction_widths t'" using run by (simp add: constraints_none well_typed_row_def)
  moreover have "t' = t\<lparr>tx_createdAt := tx_createdAt t', tx_updatedAt := tx_updatedAt t', tx_version := tx_version t'\<rparr>"
    unfolding run(2) by (simp add: t1_def)
  ultimately show ?thesis by blast
qed

lemma save_too_wide:
  "\<not> transaction_widths t \<Longrightarrow>
   save_transaction X t w = (Inl (QueryFailed ''22001'' []), w\<lparr>wd_draws := Suc (wd_draws w)\<rparr>)"
  by (simp add: save_transaction_def Let_def action_simps transaction_constraints_def)

lemma find_put: "find (\<lambda>r. tx_id r = tx_id t) ts = Some row \<Longrightarrow>
   find (\<lambda>r. tx_id r = tx_id t) (map (\<lambda>r. if tx_id r = tx_id t then t else r) ts) = Some t"
  by (induction ts) auto

lemma findOne_after_put:
  assumes "find (\<lambda>r. tx_id r = tx_id t \<and> cond r) (db_transactions d) = Some row" "wd_db w = put_transaction t d"
  shows "findOneByOrFail_id (tx_id t) w = (Inr t, w)"
proof -
  have "find (\<lambda>r. tx_id r = tx_id t) (db_transactions d) \<noteq> None"
    using assms(1) by (auto simp: find_Some_iff find_None_iff dest: nth_mem)
  then obtain r where "find (\<lambda>r. tx_id r = tx_id t) (db_transactions d) = Some r" by blast
  from find_put [OF this] show ?thesis
    using assms(2) by (simp add: findOneByOrFail_id_def findOneBy_id_def action_simps put_transaction_def)
qed

lemma put_other [simp]:
  "db_events (put_transaction t d) = db_events d" "db_entries (put_transaction t d) = db_entries d"
  "db_instructions (put_transaction t d) = db_instructions d" "db_refunds (put_transaction t d) = db_refunds d"
  "db_webhooks (put_transaction t d) = db_webhooks d" "db_batches (put_transaction t d) = db_batches d"
  by (simp_all add: put_transaction_def)

lemma findChain_put [simp]: "findChain (put_transaction t d) = findChain d" "ledger_ok X (put_transaction t d) = ledger_ok X d"
  using findChain_events [of "put_transaction t d" d] ledger_ok_events [of "put_transaction t d" d X] by simp_all

lemma put_mem: "find (\<lambda>r. tx_id r = tx_id t \<and> cond r) (db_transactions d) = Some row \<Longrightarrow> t \<in> set (db_transactions (put_transaction t d))"
  by (auto simp: put_transaction_def find_Some_iff image_iff) (metis nth_mem)

text \<open>An update that affected its row, and the row as it is read back.\<close>

lemma update_and_read:
  assumes "update_transaction X tid cond set_clause w = (Inr (Suc 0), v)"
  shows "\<exists>row t'. find (\<lambda>r. tx_id r = tid \<and> cond r) (db_transactions (wd_db w)) = Some row \<and>
    row \<in> set (db_transactions (wd_db w)) \<and> tx_id row = tid \<and> cond row \<and>
    t' = (set_clause row)\<lparr>tx_id := tid, tx_updatedAt := clock X (wd_draws w), tx_version := tx_version row + 1\<rparr> \<and>
    wd_db v = put_transaction t' (wd_db w) \<and> t' \<in> set (db_transactions (wd_db v)) \<and>
    findOneByOrFail_id tid v = (Inr t', v) \<and> outside v = outside w"
proof -
  obtain row t' where row: "find (\<lambda>r. tx_id r = tid \<and> cond r) (db_transactions (wd_db w)) = Some row"
    and t': "t' = (set_clause row)\<lparr>tx_id := tid, tx_updatedAt := clock X (wd_draws w), tx_version := tx_version row + 1\<rparr>"
    and db: "wd_db v = put_transaction t' (wd_db w)" and out: "outside v = outside w"
    using update_transaction_run [OF assms] by auto
  have "tx_id t' = tid" by (simp add: t')
  then have "findOneByOrFail_id tid v = (Inr t', v)" "t' \<in> set (db_transactions (wd_db v))"
    using findOne_after_put [of t' cond "wd_db w" row v] put_mem [of t' cond "wd_db w" row] row db by simp_all
  moreover have "row \<in> set (db_transactions (wd_db w))" "tx_id row = tid" "cond row" using row by (auto simp: find_Some_iff)
  ultimately show ?thesis using row t' db out by blast
qed

lemma assert_transition_run: "assert_transition before t w = (r, w') \<Longrightarrow> w' = w"
  by (auto simp: assert_transition_def action_simps split: sum.splits)

section \<open>Transactions\<close>

lemma transaction_run:
  assumes "transaction m w = (r, w')"
  shows "(\<exists>a. r = Inr a \<and> m w = (Inr a, w')) \<or> (\<exists>err. r = Inl err \<and> wd_db w' = wd_db w)"
  using assms by (auto simp: transaction_def split: prod.splits sum.splits if_splits)

section \<open>The steps of a handler, one after the other\<close>

lemma record_thenE:
  assumes "bnd (record_event X True input []) k w = (Inr a, w')" "ledger_ok X (wd_db w)"
  obtains e v where "k e v = (Inr a, w')" "ledger_ok X (wd_db v)" "other_tables (wd_db v) = other_tables (wd_db w)"
    "outside v = outside w" "ev_eventType e = re_type input"
    "findChain (wd_db v) (tx_reference (re_transaction input)) = findChain (wd_db w) (tx_reference (re_transaction input)) @ [e]"
proof -
  obtain e v where rec: "record_event X True input [] w = (Inr e, v)" and k: "k e v = (Inr a, w')"
    using assms(1) by (rule bnd_Inr_E)
  show ?thesis using record_nested_run [OF rec assms(2)] k that by (auto simp: prepared_def)
qed

lemma save_thenE:
  assumes "bnd (save_transaction X t) k w = (Inr a, w')" "ledger_ok X (wd_db w)"
  obtains u v created updated version where "k u v = (Inr a, w')" "ledger_ok X (wd_db v)" "u \<in> set (db_transactions (wd_db v))" "transaction_widths u"
    "u = t\<lparr>tx_createdAt := created, tx_updatedAt := updated, tx_version := version\<rparr>"
    "wd_db v = (wd_db w)\<lparr>db_transactions := db_transactions (wd_db v)\<rparr>" "findChain (wd_db v) = findChain (wd_db w)"
    "outside v = outside w"
proof -
  obtain u v where save: "save_transaction X t w = (Inr u, v)" and k: "k u v = (Inr a, w')"
    using assms(1) by (rule bnd_Inr_E)
  note run = save_transaction_run [OF save]
  have ev: "db_events (wd_db v) = db_events (wd_db w)" using run by (metis db.simps db.surjective)
  show ?thesis using that k run ledger_ok_events [OF ev] findChain_events [OF ev] assms(2) by blast
qed

lemma assert_thenE:
  assumes "bnd (assert_transition before t) k w = (Inr a, w')"
  obtains "k () w = (Inr a, w')"
  using bnd_Inr_E [OF assms] assert_transition_run by (metis unit.exhaust)

end
