(* ===== verification/Mobile_Money.thy ===== *)
theory Mobile_Money
  imports Effects
begin

text \<open>
  Collection through mobile money: \<^verbatim>\<open>transactions/reference.generator.ts\<close>, the references of
  \<^verbatim>\<open>mobile-money/aggregator-simulator.service.ts\<close>, \<^verbatim>\<open>mobile-money/mobile-money.service.ts\<close>, the queueing of
  \<^verbatim>\<open>mobile-money/bank-instruction.worker.ts\<close>, and \<^verbatim>\<open>mobile-money/reconciliation.service.ts\<close>.
\<close>

section \<open>Settings and requests\<close>

record settings =
  cf_allowedCurrencies :: "string list"
  cf_maxAmount :: number
  cf_settlementIban :: string
  cf_settlementName :: string
  cf_feeRate :: number
  cf_webhookSecret :: string
  cf_bankWorkerMaxAttempts :: nat

definition sample_settings :: settings where
  "sample_settings = \<lparr>cf_allowedCurrencies = [''CDF''], cf_maxAmount = of_cents 99999999999, cf_settlementIban = ''CD01'',
     cf_settlementName = ''Gateway'', cf_feeRate = Fin (3 / 200), cf_webhookSecret = ''secret'', cf_bankWorkerMaxAttempts = 4\<rparr>"

record CreateMobileMoneyTransactionDto =
  mm_operator :: MobileMoneyOperator
  mm_payerMsisdn :: string
  mm_creditorIban :: string
  mm_creditorName :: string
  mm_amount :: number
  mm_currency :: string
  mm_externalReference :: "string option"

section \<open>References\<close>

definition ALPHABET :: string where
  "ALPHABET = ''0123456789ABCDEFGHJKMNPQRSTVWXYZ''"

definition yyyymmdd :: "date \<Rightarrow> string" where
  "yyyymmdd t =
     (case civil_of_days (t div 86400000) of (y, m, d) \<Rightarrow> dec_pad 4 y @ dec_pad 2 m @ dec_pad 2 d)"

definition randomSuffix :: "nat list \<Rightarrow> string" where
  "randomSuffix bytes = map (\<lambda>b. ALPHABET ! (b mod 32)) bytes"

definition generate_reference :: "externals \<Rightarrow> string io" where
  "generate_reference X =
     bnd (draw (clock X)) (\<lambda>now.
     bnd (draw (random_bytes X)) (\<lambda>bytes.
     ret (''TRF-'' @ yyyymmdd now @ ''-'' @ randomSuffix (bytes 8))))"

definition upper_hex :: "nat list \<Rightarrow> string" where
  "upper_hex bytes = toUpperCase (concat (map (\<lambda>b. [hex_digit (b div 16), hex_digit (b mod 16)]) bytes))"

definition generateReference :: "externals \<Rightarrow> string io" where
  "generateReference X =
     bnd (draw (clock X)) (\<lambda>now.
     bnd (draw (random_bytes X)) (\<lambda>bytes.
     ret (''AGG-'' @ replace_char (CHR ''-'') [] (take 10 (toISOString now)) @ ''-'' @ upper_hex (bytes 6))))"

section \<open>Opening a payment\<close>

definition assertBusinessRules :: "settings \<Rightarrow> CreateMobileMoneyTransactionDto \<Rightarrow> unit io" where
  "assertBusinessRules C dto =
     (if mm_currency dto \<notin> set (cf_allowedCurrencies C)
        then throw (HttpException BadRequest ''CURRENCY_NOT_ALLOWED'')
      else if js_lt (cf_maxAmount C) (mm_amount dto)
        then throw (HttpException UnprocessableEntity ''AMOUNT_LIMIT_EXCEEDED'')
      else if mm_creditorIban dto = cf_settlementIban C
        then throw (HttpException UnprocessableEntity ''SAME_ACCOUNT_TRANSFER'')
      else ret ())"

definition MAX_REFERENCE_ATTEMPTS :: nat where
  "MAX_REFERENCE_ATTEMPTS = 5"

text \<open>\<^verbatim>\<open>repository.create\<close> with the defaults of the columns.\<close>

definition new_payment ::
  "settings \<Rightarrow> CreateMobileMoneyTransactionDto \<Rightarrow> string option \<Rightarrow> string \<Rightarrow> string \<Rightarrow> string \<Rightarrow> string \<Rightarrow> Transaction" where
  "new_payment C dto idempotencyKey row_id reference correlation aggregatorRef =
     \<lparr>tx_id = row_id, tx_encryptionVersion = 1, tx_reference = reference, tx_idempotencyKey = idempotencyKey,
      tx_status = Tx_PENDING, tx_paymentChannel = MOBILE_MONEY, tx_debtorIban = cf_settlementIban C,
      tx_debtorName = Some (cf_settlementName C), tx_creditorIban = mm_creditorIban dto,
      tx_creditorName = mm_creditorName dto, tx_amount = mm_amount dto, tx_currency = mm_currency dto,
      tx_endToEndLabel = mm_externalReference dto, tx_amountInWords = None, tx_soapOperation = None,
      tx_soapDurationMs = None, tx_soapAttempts = None, tx_faultCode = None, tx_faultString = None,
      tx_failureReason = None, tx_correlationId = correlation, tx_processedAt = None,
      tx_mobileMoneyOperator = Some (mm_operator dto), tx_payerMsisdn = Some (mm_payerMsisdn dto),
      tx_aggregatorReference = Some aggregatorRef, tx_providerStatus = Some Prov_PENDING,
      tx_bankStatus = Some Bank_NOT_STARTED, tx_reconciliationStatus = Some Recon_PENDING,
      tx_aggregatorAmount = None, tx_aggregatorCurrency = None, tx_feeAmount = Fin 0,
      tx_mobileMoneyConfirmedAt = None, tx_reconciledAt = None, tx_reconciliationReason = None,
      tx_refundStatus = Refund_NOT_REQUIRED, tx_caseStatus = Case_NONE, tx_caseReason = None,
      tx_createdAt = 0, tx_updatedAt = 0, tx_fingerprint = None, tx_anchorStatus = Anchor_NOT_SEALED,
      tx_batchId = None, tx_leafIndex = None, tx_version = 0\<rparr>"

text \<open>\<^verbatim>\<open>getCorrelationId\<close> of \<^verbatim>\<open>common/context/request-context.ts\<close>; outside a request the context is empty.\<close>

definition getCorrelationId :: "externals \<Rightarrow> string io" where
  "getCorrelationId X =
     bnd (reads wd_correlationId) (\<lambda>context_id. if context_id = [] then draw (randomUUID X) else ret context_id)"

definition create_payment ::
  "externals \<Rightarrow> settings \<Rightarrow> CreateMobileMoneyTransactionDto \<Rightarrow> string option \<Rightarrow> Transaction io" where
  "create_payment X C dto idempotencyKey =
     bnd (draw (randomUUID X)) (\<lambda>row_id.
     bnd (generate_reference X) (\<lambda>reference.
     bnd (getCorrelationId X) (\<lambda>correlation.
     bnd (generateReference X) (\<lambda>aggregatorRef.
     ret (new_payment C dto idempotencyKey row_id reference correlation aggregatorRef)))))"

text \<open>The transaction that writes the row and its opening fact together.\<close>

definition open_payment :: "externals \<Rightarrow> Transaction \<Rightarrow> Transaction io" where
  "open_payment X t =
     transaction
       (bnd (save_transaction X t) (\<lambda>persisted.
        bnd (assert_initial persisted) (\<lambda>_.
        bnd (record_event X True ((fact PAYMENT_INITIATED persisted)\<lparr>re_detail :=
               Some (''Paiement '' @ (case tx_mobileMoneyOperator persisted of
                       Some operator \<Rightarrow> text_of_MobileMoneyOperator operator | None \<Rightarrow> ''null'') @ '' initie'')\<rparr>) []) (\<lambda>_.
        ret persisted))))"

definition key_reused :: exn where
  "key_reused = HttpException Conflict ''IDEMPOTENCY_KEY_REUSED''"

fun initiate_from ::
  "nat \<Rightarrow> externals \<Rightarrow> settings \<Rightarrow> CreateMobileMoneyTransactionDto \<Rightarrow> string option \<Rightarrow> Transaction io" where
  "initiate_from 0 X C dto idempotencyKey = throw (HttpException InternalServerError ''REFERENCE_GENERATION_FAILED'')"
| "initiate_from (Suc n) X C dto idempotencyKey =
     bnd (create_payment X C dto idempotencyKey) (\<lambda>t.
     catching (open_payment X t) (\<lambda>error.
       let retry = (if repo_isUniqueViolation error None \<and> 0 < n
                    then initiate_from n X C dto idempotencyKey else throw error) in
       if truthy idempotencyKey \<and> repo_isUniqueViolation error (Some ''idempotency'')
       then bnd (repo_findByIdempotencyKey (the idempotencyKey)) (\<lambda>winner.
              case winner of
                Some r \<Rightarrow> if tx_paymentChannel r = MOBILE_MONEY then ret r else throw key_reused
              | None \<Rightarrow> retry)
       else retry))"

definition initiate ::
  "externals \<Rightarrow> settings \<Rightarrow> CreateMobileMoneyTransactionDto \<Rightarrow> string option \<Rightarrow> Transaction io" where
  "initiate X C dto idempotencyKey =
     bnd (assertBusinessRules C dto) (\<lambda>_.
     bnd (if truthy idempotencyKey then repo_findByIdempotencyKey (the idempotencyKey) else ret None) (\<lambda>existing.
       case existing of
         Some r \<Rightarrow> if tx_paymentChannel r \<noteq> MOBILE_MONEY then throw key_reused else ret r
       | None \<Rightarrow> initiate_from MAX_REFERENCE_ATTEMPTS X C dto idempotencyKey))"

definition mm_findByReference :: "string \<Rightarrow> Transaction io" where
  "mm_findByReference reference =
     bnd (repo_findByReference reference) (\<lambda>r.
       case r of
         Some t \<Rightarrow> if tx_paymentChannel t \<noteq> MOBILE_MONEY
                   then throw (HttpException NotFound ''MOBILE_MONEY_TRANSACTION_NOT_FOUND'') else ret t
       | None \<Rightarrow> throw (HttpException NotFound ''MOBILE_MONEY_TRANSACTION_NOT_FOUND''))"

definition mm_findByAggregatorReference :: "string \<Rightarrow> Transaction io" where
  "mm_findByAggregatorReference aggregatorReference =
     bnd (repo_findByAggregatorReference aggregatorReference) (\<lambda>r.
       case r of
         Some t \<Rightarrow> if tx_paymentChannel t \<noteq> MOBILE_MONEY
                   then throw (HttpException NotFound ''AGGREGATOR_TRANSACTION_NOT_FOUND'') else ret t
       | None \<Rightarrow> throw (HttpException NotFound ''AGGREGATOR_TRANSACTION_NOT_FOUND''))"

section \<open>The answer of the provider\<close>

text \<open>\<^verbatim>\<open>BankInstructionWorker.enqueue\<close>.\<close>

definition enqueue :: "externals \<Rightarrow> Transaction \<Rightarrow> BankInstruction io" where
  "enqueue X t =
     bnd (draw (randomUUID X)) (\<lambda>row_id.
     bnd (draw (clock X)) (\<lambda>due.
     bnd (draw (clock X)) (\<lambda>now.
     bnd get_db (\<lambda>d.
       if list_ex (\<lambda>i. bi_transactionReference i = tx_reference t) (db_instructions d)
       then throw (unique_violation ''UQ_bank_instructions_transaction_reference'')
       else
         let i = \<lparr>bi_id = row_id, bi_transactionReference = tx_reference t, bi_status = Instr_PENDING,
                  bi_attempts = 0, bi_nextAttemptAt = due, bi_lastError = None, bi_retryable = True,
                  bi_correlationId = tx_correlationId t, bi_createdAt = now, bi_updatedAt = now\<rparr> in
         bnd (modifies (on_db (\<lambda>d. d\<lparr>db_instructions := db_instructions d @ [i]\<rparr>))) (\<lambda>_. ret i)))))"

definition observed :: "MobileMoneyWebhookDto \<Rightarrow> string \<Rightarrow> RecordEventInput \<Rightarrow> RecordEventInput" where
  "observed webhook detail input =
     input\<lparr>re_observedAmount := Some (wh_amount webhook), re_observedCurrency := Some (wh_currency webhook),
           re_detail := Some detail\<rparr>"

definition mismatch_reason :: "Transaction \<Rightarrow> MobileMoneyWebhookDto \<Rightarrow> string" where
  "mismatch_reason t webhook =
     ''Commande '' @ toFixed2 (tx_amount t) @ '' '' @ tx_currency t @ '', confirmation '' @
     toFixed2 (wh_amount webhook) @ '' '' @ wh_currency webhook"

definition mismatch_update :: "Transaction \<Rightarrow> MobileMoneyWebhookDto \<Rightarrow> date \<Rightarrow> date \<Rightarrow> Transaction \<Rightarrow> Transaction" where
  "mismatch_update t webhook confirmed now r =
     r\<lparr>tx_providerStatus := Some Prov_CONFIRMED, tx_aggregatorAmount := Some (wh_amount webhook),
       tx_aggregatorCurrency := Some (wh_currency webhook), tx_mobileMoneyConfirmedAt := Some confirmed,
       tx_bankStatus := Some Bank_BLOCKED, tx_status := Tx_FAILED, tx_processedAt := Some now,
       tx_failureReason := Some ''Confirmation Mobile Money incoherente avec la commande'',
       tx_reconciliationStatus := Some (if \<not> currenciesMatch (Some (wh_currency webhook)) (Some (tx_currency t))
         then Recon_CURRENCY_MISMATCH else Recon_AMOUNT_MISMATCH),
       tx_reconciliationReason := Some (mismatch_reason t webhook), tx_refundStatus := Refund_REQUIRED,
       tx_caseStatus := Case_MANUAL_REVIEW,
       tx_caseReason := Some (''Ecart entre commande et confirmation fournisseur. '' @ mismatch_reason t webhook)\<rparr>"

text \<open>The three facts of one decision.\<close>

definition mismatch_facts :: "Transaction \<Rightarrow> MobileMoneyWebhookDto \<Rightarrow> (TransactionEventType \<times> string) list" where
  "mismatch_facts t webhook =
     [(AMOUNT_MISMATCH_DETECTED, mismatch_reason t webhook),
      (BANK_PROCESSING_BLOCKED, ''Instruction bancaire non emise''),
      (CASE_OPENED, ''Remboursement du payeur a instruire'')]"

definition record_observed ::
  "externals \<Rightarrow> MobileMoneyWebhookDto \<Rightarrow> Transaction \<Rightarrow> TransactionEventType \<times> string \<Rightarrow> unit io" where
  "record_observed X webhook updated = (\<lambda>(ty, detail).
     bnd (record_event X True (observed webhook detail (fact ty updated)) []) (\<lambda>_. ret ()))"

definition record_mismatch :: "externals \<Rightarrow> Transaction \<Rightarrow> MobileMoneyWebhookDto \<Rightarrow> Transaction \<Rightarrow> Transaction io" where
  "record_mismatch X t webhook updated =
     bnd (assert_transition (stateOf t) updated) (\<lambda>_.
     bnd (for_each (mismatch_facts t webhook) (record_observed X webhook updated)) (\<lambda>_.
     ret updated))"

definition markAmountMismatch :: "externals \<Rightarrow> Transaction \<Rightarrow> MobileMoneyWebhookDto \<Rightarrow> Transaction io" where
  "markAmountMismatch X t webhook =
     transaction
       (bnd (draw (clock X)) (\<lambda>now.
        bnd (update_transaction X (tx_id t) (\<lambda>r. tx_bankStatus r = Some Bank_NOT_STARTED)
               (mismatch_update t webhook (parse_date X (wh_occurredAt webhook)) now)) (\<lambda>affected.
        bnd (findOneByOrFail_id (tx_id t)) (\<lambda>updated.
          if affected \<noteq> 1 then ret updated else record_mismatch X t webhook updated))))"

definition confirm_update :: "MobileMoneyWebhookDto \<Rightarrow> date \<Rightarrow> number \<Rightarrow> Transaction \<Rightarrow> Transaction" where
  "confirm_update webhook confirmed feeAmount r =
     r\<lparr>tx_providerStatus := Some Prov_CONFIRMED, tx_aggregatorAmount := Some (wh_amount webhook),
       tx_aggregatorCurrency := Some (wh_currency webhook), tx_mobileMoneyConfirmedAt := Some confirmed,
       tx_feeAmount := feeAmount, tx_bankStatus := Some Bank_PROCESSING, tx_status := Tx_PROCESSING\<rparr>"

definition unclaimed :: "Transaction \<Rightarrow> bool" where
  "unclaimed r \<longleftrightarrow> tx_bankStatus r = Some Bank_NOT_STARTED \<and>
     (tx_providerStatus r = Some Prov_INITIATED \<or> tx_providerStatus r = Some Prov_PENDING)"

text \<open>What the claim of the confirmation writes, with the callback of the webhook service, which queues the instruction.\<close>

definition record_confirmation ::
  "externals \<Rightarrow> TransactionState \<Rightarrow> MobileMoneyWebhookDto \<Rightarrow> Transaction \<Rightarrow> (Transaction \<times> bool) io" where
  "record_confirmation X before webhook updated =
     bnd (assert_transition before updated) (\<lambda>_.
     bnd (record_event X True
            (observed webhook ''Encaissement fournisseur conforme a la commande'' (fact PROVIDER_CONFIRMED updated)) []) (\<lambda>_.
     bnd (enqueue X updated) (\<lambda>_.
     ret (updated, True))))"

definition claim_confirmation ::
  "externals \<Rightarrow> Transaction \<Rightarrow> MobileMoneyWebhookDto \<Rightarrow> number \<Rightarrow> (Transaction \<times> bool) io" where
  "claim_confirmation X t webhook feeAmount =
     bnd (update_transaction X (tx_id t) unclaimed
            (confirm_update webhook (parse_date X (wh_occurredAt webhook)) feeAmount)) (\<lambda>affected.
     bnd (findOneByOrFail_id (tx_id t)) (\<lambda>updated.
       if affected = 1 then record_confirmation X (stateOf t) webhook updated else ret (updated, False)))"

definition confirmAndClaimBankProcessing ::
  "externals \<Rightarrow> settings \<Rightarrow> Transaction \<Rightarrow> MobileMoneyWebhookDto \<Rightarrow> (Transaction \<times> bool) io" where
  "confirmAndClaimBankProcessing X C t webhook =
     (if \<not> amountsMatch (Some (wh_amount webhook)) (Some (tx_amount t)) \<or>
         \<not> currenciesMatch (Some (wh_currency webhook)) (Some (tx_currency t))
      then bnd (markAmountMismatch X t webhook) (\<lambda>r. ret (r, False))
      else transaction (claim_confirmation X t webhook (roundToCent (js_mul (wh_amount webhook) (cf_feeRate C)))))"

definition failed_update :: "MobileMoneyWebhookDto \<Rightarrow> date \<Rightarrow> Transaction \<Rightarrow> Transaction" where
  "failed_update webhook now r =
     r\<lparr>tx_providerStatus := Some Prov_FAILED, tx_aggregatorAmount := Some (wh_amount webhook),
       tx_aggregatorCurrency := Some (wh_currency webhook), tx_status := Tx_FAILED, tx_processedAt := Some now,
       tx_failureReason := Some (case wh_failureReason webhook of Some m \<Rightarrow> m
          | None \<Rightarrow> ''Paiement refuse par l operateur Mobile Money''),
       tx_reconciliationStatus := Some Recon_NOT_APPLICABLE,
       tx_reconciliationReason := Some ''Aucun encaissement fournisseur : rien a rapprocher'',
       tx_refundStatus := Refund_NOT_REQUIRED, tx_caseStatus := Case_NONE\<rparr>"

definition markProviderFailed :: "externals \<Rightarrow> Transaction \<Rightarrow> MobileMoneyWebhookDto \<Rightarrow> Transaction io" where
  "markProviderFailed X t webhook =
     transaction
       (bnd (draw (clock X)) (\<lambda>now.
        bnd (update_transaction X (tx_id t) (\<lambda>r. tx_bankStatus r = Some Bank_NOT_STARTED) (failed_update webhook now)) (\<lambda>affected.
        bnd (findOneByOrFail_id (tx_id t)) (\<lambda>updated.
          if affected \<noteq> 1 then ret updated
          else
            bnd (assert_transition (stateOf t) updated) (\<lambda>_.
            bnd (record_event X True (observed webhook (case wh_failureReason webhook of Some m \<Rightarrow> m
                    | None \<Rightarrow> ''Paiement refuse par l operateur'') (fact PROVIDER_FAILED updated)) []) (\<lambda>_.
            bnd (closeCase X True updated (Some ''Dossier clos apres refus de l operateur'') []) (\<lambda>_.
            ret updated)))))))"

section \<open>Reconciliation\<close>

text \<open>
  The service changes the entity it is given before it writes it, and its caller sees the change even
  when the writing fails: \<open>reconcile\<close> returns the entity as it leaves it, and the outcome.
\<close>

definition written :: "Transaction \<Rightarrow> exn + Transaction \<Rightarrow> Transaction \<times> (exn + Transaction)" where
  "written t r = (case r of Inl e \<Rightarrow> (t, Inl e) | Inr persisted \<Rightarrow> (persisted, Inr persisted))"

definition verdict_on :: "Transaction \<Rightarrow> date \<Rightarrow> Transaction" where
  "verdict_on t now =
     (let amountMatches = amountsMatch (tx_aggregatorAmount t) (Some (tx_amount t));
          currencyMatches = currenciesMatch (tx_aggregatorCurrency t) (Some (tx_currency t)) in
      t\<lparr>tx_reconciledAt := Some now,
        tx_reconciliationStatus := Some (if amountMatches \<and> currencyMatches then Recon_MATCHED else Recon_MISMATCH),
        tx_reconciliationReason :=
          (if amountMatches \<and> currencyMatches then None
           else Some (join ''; '' ((if amountMatches then [] else [''montant agregateur different du montant bancaire''])
             @ (if currencyMatches then [] else [''devise agregateur differente de la devise bancaire'']))))\<rparr>)"

definition record_verdict :: "externals \<Rightarrow> TransactionState \<Rightarrow> Transaction \<Rightarrow> Transaction io" where
  "record_verdict X before t =
     transaction
       (bnd (save_transaction X t) (\<lambda>persisted.
        bnd (assert_transition before persisted) (\<lambda>_.
        bnd (record_event X True
               ((fact (if tx_reconciliationStatus persisted = Some Recon_MATCHED
                       then RECONCILIATION_MATCHED else RECONCILIATION_MISMATCH) persisted)
                \<lparr>re_observedAmount := tx_aggregatorAmount persisted,
                 re_observedCurrency := tx_aggregatorCurrency persisted,
                 re_detail := tx_reconciliationReason persisted\<rparr>) []) (\<lambda>_.
        bnd (if tx_reconciliationStatus persisted = Some Recon_MATCHED
             then closeCase X True persisted (Some ''Dossier clos apres rapprochement conforme'') [] else ret None) (\<lambda>_.
        ret persisted)))))"

definition reconcile :: "externals \<Rightarrow> Transaction \<Rightarrow> (Transaction \<times> (exn + Transaction)) io" where
  "reconcile X t =
     (if tx_paymentChannel t \<noteq> MOBILE_MONEY then ret (t, Inr t)
      else if tx_reconciliationStatus t = Some Recon_MATCHED
      then bnd (observing (closeCase X False t (Some ''Dossier clos apres rapprochement conforme'') [])) (\<lambda>r.
           ret (t, map_sum id (\<lambda>_. t) r))
      else if tx_providerStatus t \<noteq> Some Prov_CONFIRMED \<or> tx_bankStatus t \<noteq> Some Bank_COMPLETED
      then
        let failed = tx_bankStatus t = Some Bank_FAILED;
            t' = t\<lparr>tx_reconciliationStatus := Some (if failed then Recon_MANUAL_REVIEW else Recon_PENDING),
                   tx_reconciliationReason := Some (if failed
                     then ''La confirmation Mobile Money existe mais le traitement bancaire a echoue''
                     else ''Les deux jambes du paiement ne sont pas encore terminees'')\<rparr> in
        bnd (observing (save_transaction X t')) (\<lambda>r. ret (written t' r))
      else
        bnd (draw (clock X)) (\<lambda>now.
          let t' = verdict_on t now in
          bnd (observing (record_verdict X (stateOf t) t')) (\<lambda>r. ret (written t' r))))"

definition reconcile_value :: "externals \<Rightarrow> Transaction \<Rightarrow> Transaction io" where
  "reconcile_value X t = bnd (reconcile X t) (\<lambda>(entity, r). lift_result r)"

definition runPending :: "externals \<Rightarrow> (nat \<times> nat \<times> nat) io" where
  "runPending X =
     bnd get_db (\<lambda>d.
       let pending = sort_key tx_createdAt (filter (\<lambda>t. tx_paymentChannel t = MOBILE_MONEY \<and>
             tx_reconciliationStatus t = Some Recon_PENDING \<and> tx_providerStatus t = Some Prov_CONFIRMED \<and>
             tx_bankStatus t = Some Bank_COMPLETED) (db_transactions d)) in
       bnd (fold_each (\<lambda>t (matched, mismatched).
              bnd (reconcile_value X t) (\<lambda>result.
              ret (if tx_reconciliationStatus result = Some Recon_MATCHED then matched + 1 else matched,
                   if tx_reconciliationStatus result = Some Recon_MISMATCH then mismatched + 1 else mismatched)))
            pending (0, 0)) (\<lambda>(matched, mismatched).
       ret (length pending, matched, mismatched)))"

section \<open>The contract of the register is kept\<close>

lemma keeps_references [keeps_intros]:
  "keeps (db_inv P) (generate_reference X)" "keeps (db_inv P) (generateReference X)"
  "keeps (db_inv P) (getCorrelationId X)"
  "keeps (db_inv P) (create_payment X C dto key)" "keeps (db_inv P) (assertBusinessRules C dto)"
  "keeps (db_inv P) (mm_findByReference reference)" "keeps (db_inv P) (mm_findByAggregatorReference reference)"
  unfolding generate_reference_def generateReference_def getCorrelationId_def create_payment_def assertBusinessRules_def
    mm_findByReference_def mm_findByAggregatorReference_def
  by (intro keeps_intros)+

context store_contract
begin

lemma keeps_enqueue: "keeps (db_inv (Q d0)) (enqueue X t)"
  unfolding enqueue_def by (intro keeps_intros keeps_write) simp_all

lemma keeps_open_payment: "keeps (db_inv P) (open_payment X t)"
  unfolding open_payment_def by (intro keeps_commit keeps_intros keeps_inside)

lemma keeps_initiate: "keeps (db_inv P) (initiate X C dto key)"
proof -
  have "keeps (db_inv P) (initiate_from n X C dto key)" for n
    by (induction n) (auto simp: Let_def intro!: keeps_intros keeps_open_payment)
  then show ?thesis unfolding initiate_def by (intro keeps_intros)
qed

lemma keeps_provider:
  "keeps (db_inv P) (markAmountMismatch X t webhook)"
  "keeps (db_inv P) (markProviderFailed X t webhook)"
  "keeps (db_inv P) (confirmAndClaimBankProcessing X C t webhook)"
proof -
  show mismatch: "keeps (db_inv P) (markAmountMismatch X t webhook)"
    unfolding markAmountMismatch_def record_mismatch_def record_observed_def by (intro keeps_commit keeps_intros keeps_inside)
  show "keeps (db_inv P) (markProviderFailed X t webhook)"
    unfolding markProviderFailed_def by (intro keeps_commit keeps_intros keeps_inside)
  show "keeps (db_inv P) (confirmAndClaimBankProcessing X C t webhook)"
    unfolding confirmAndClaimBankProcessing_def claim_confirmation_def record_confirmation_def
    by (intro keeps_commit keeps_intros keeps_inside keeps_enqueue mismatch)
qed

lemma keeps_reconcile: "keeps (db_inv P) (reconcile X t)"
proof -
  have "keeps (db_inv P) (record_verdict X before t')" for before t'
    unfolding record_verdict_def by (intro keeps_commit keeps_intros keeps_inside)
  then show ?thesis unfolding reconcile_def by (intro keeps_intros keeps_outside)
qed

lemma keeps_runPending: "keeps (db_inv P) (runPending X)"
  unfolding runPending_def reconcile_value_def by (intro keeps_intros keeps_reconcile)

end

section \<open>Properties\<close>

lemma enqueue_run:
  assumes "enqueue X t w = (r, w')"
  shows "outside w' = outside w \<and>
    ((\<exists>err. r = Inl err \<and> wd_db w' = wd_db w) \<or>
     (\<exists>i. r = Inr i \<and> wd_db w' = (wd_db w)\<lparr>db_instructions := db_instructions (wd_db w) @ [i]\<rparr> \<and>
        bi_transactionReference i = tx_reference t \<and> bi_status i = Instr_PENDING \<and> bi_attempts i = 0 \<and>
        (\<forall>j\<in>set (db_instructions (wd_db w)). bi_transactionReference j \<noteq> tx_reference t)))"
  using assms
  by (auto simp: enqueue_def action_simps on_db_def outside_def Let_def list_ex_iff split: if_splits)

lemma keeps_instructions:
  "keeps (db_inv (\<lambda>d. db_instructions d = is)) (record_event X nested input [])"
  "keeps (db_inv (\<lambda>d. db_instructions d = is)) (update_transaction X tid cond set_clause)"
proof -
  show "keeps (db_inv (\<lambda>d. db_instructions d = is)) (record_event X nested input [])"
  proof (rule keepsI)
    fix w :: world assume "db_inv (\<lambda>d. db_instructions d = is) w"
    then show "db_inv (\<lambda>d. db_instructions d = is) (snd (record_event X nested input [] w))"
      using record_other_tables [of X nested input w] by (cases "record_event X nested input [] w") (simp add: db_inv_def other_tables_def)
  qed
  show "keeps (db_inv (\<lambda>d. db_instructions d = is)) (update_transaction X tid cond set_clause)"
    unfolding update_transaction_def by (intro keeps_intros) simp
qed

lemma mismatch_instructs_nobody:
  assumes "markAmountMismatch X t webhook w = (r, w')"
  shows "db_instructions (wd_db w') = db_instructions (wd_db w)"
proof -
  have "keeps (db_inv (\<lambda>d. db_instructions d = db_instructions (wd_db w))) (markAmountMismatch X t webhook)"
    unfolding markAmountMismatch_def record_mismatch_def record_observed_def by (intro keeps_intros keeps_instructions)
  from keeps_run [OF this _ assms] show ?thesis by (simp add: db_inv_def)
qed

text \<open>What a committed claim did.\<close>

lemma claim_confirmation_run:
  assumes "claim_confirmation X t webhook fee w = (Inr (u, claimed), w')" "ledger_ok X (wd_db w)"
  shows "if claimed then \<exists>row i e es. row \<in> set (db_transactions (wd_db w)) \<and> tx_id row = tx_id t \<and> unclaimed row \<and>
       u \<in> set (db_transactions (wd_db w')) \<and> tx_id u = tx_id t \<and> tx_reference u = tx_reference row \<and>
       tx_providerStatus u = Some Prov_CONFIRMED \<and> tx_bankStatus u = Some Bank_PROCESSING \<and>
       tx_aggregatorAmount u = Some (wh_amount webhook) \<and> tx_feeAmount u = fee \<and>
       db_instructions (wd_db w') = db_instructions (wd_db w) @ [i] \<and>
       bi_transactionReference i = tx_reference u \<and> bi_status i = Instr_PENDING \<and>
       (\<forall>j\<in>set (db_instructions (wd_db w)). bi_transactionReference j \<noteq> tx_reference u) \<and>
       findChain (wd_db w') (tx_reference u) = findChain (wd_db w) (tx_reference u) @ [e] \<and>
       ev_eventType e = PROVIDER_CONFIRMED \<and> ev_observedAmount e = Some (wh_amount webhook) \<and>
       db_entries (wd_db w') = db_entries (wd_db w) @ es \<and> accounted e u es
     else wd_db w' = wd_db w"
proof -
  obtain affected v1 where u1: "update_transaction X (tx_id t) unclaimed
        (confirm_update webhook (parse_date X (wh_occurredAt webhook)) fee) w = (Inr affected, v1)"
    and f1: "bnd (findOneByOrFail_id (tx_id t)) (\<lambda>updated.
       if affected = 1 then record_confirmation X (stateOf t) webhook updated else ret (updated, False)) v1 = (Inr (u, claimed), w')"
    using assms(1) unfolding claim_confirmation_def by (rule bnd_Inr_E)
  note upd = update_transaction_run [OF u1]
  have found: "findOneByOrFail_id i v = (q, v') \<Longrightarrow> v' = v" for i v q and v' :: world
    by (auto simp: findOneByOrFail_id_def findOneBy_id_def action_simps split: option.splits)
  show ?thesis
  proof (cases "affected = 1")
    case False
    then have "wd_db v1 = wd_db w" using upd by auto
    moreover have "bnd (findOneByOrFail_id (tx_id t)) (\<lambda>updated. ret (updated, False)) v1 = (Inr (u, claimed), w')"
      using f1 False by simp
    then obtain b where "findOneByOrFail_id (tx_id t) v1 = (Inr b, w')" "\<not> claimed"
      by (elim bnd_Inr_E) (auto simp: action_simps)
    ultimately show ?thesis using found by auto
  next
    case True
    then obtain row t' where row: "row \<in> set (db_transactions (wd_db w))" "tx_id row = tx_id t" "unclaimed row"
      and t': "t' = (confirm_update webhook (parse_date X (wh_occurredAt webhook)) fee row)
            \<lparr>tx_id := tx_id t, tx_updatedAt := clock X (wd_draws w), tx_version := tx_version row + 1\<rparr>"
      and db1: "wd_db v1 = put_transaction t' (wd_db w)" "t' \<in> set (db_transactions (wd_db v1))"
      and read: "findOneByOrFail_id (tx_id t) v1 = (Inr t', v1)"
      using update_and_read [of X "tx_id t" unclaimed "confirm_update webhook (parse_date X (wh_occurredAt webhook)) fee" w v1] u1
      by auto
    define input where
      "input = observed webhook ''Encaissement fournisseur conforme a la commande'' (fact PROVIDER_CONFIRMED t')"
    have "record_confirmation X (stateOf t) webhook t' v1 = (Inr (u, claimed), w')"
      using f1 True read by (simp add: run_bnd_Inr)
    then obtain x v2 where v2: "assert_transition (stateOf t) t' v1 = (Inr x, v2)"
      and r2: "bnd (record_event X True input []) (\<lambda>_. bnd (enqueue X t') (\<lambda>_. ret (t', True))) v2 = (Inr (u, claimed), w')"
      unfolding record_confirmation_def input_def by (rule bnd_Inr_E)
    from r2 obtain e v3 where v3: "record_event X True input [] v2 = (Inr e, v3)"
      and r3: "bnd (enqueue X t') (\<lambda>_. ret (t', True)) v3 = (Inr (u, claimed), w')" by (rule bnd_Inr_E)
    from r3 obtain i where v4: "enqueue X t' v3 = (Inr i, w')" and res: "u = t'" "claimed"
      by (rule bnd_Inr_E) (simp add: ret_def)
    have "db_transactions (wd_db v3) = db_transactions (wd_db v1)" "db_instructions (wd_db v3) = db_instructions (wd_db w)"
      using record_other_tables [OF v3] assert_transition_run [OF v2] db1(1) by (simp_all add: other_tables_def)
    moreover have before: "db_events (wd_db v2) = db_events (wd_db w)" "db_entries (wd_db v2) = db_entries (wd_db w)"
      using assert_transition_run [OF v2] db1(1) by simp_all
    have ok2: "ledger_ok X (wd_db v2)" using assms(2) ledger_ok_events [OF before(1)] by simp
    have input: "re_transaction input = t'" "re_type input = PROVIDER_CONFIRMED" "re_observedAmount input = Some (wh_amount webhook)"
      by (simp_all add: input_def observed_def fact_def)
    have "findChain (wd_db v3) (tx_reference t') = findChain (wd_db w) (tx_reference t') @ [e]"
      "ev_eventType e = PROVIDER_CONFIRMED" "ev_observedAmount e = Some (wh_amount webhook)"
      using record_nested_run [OF v3 ok2] input findChain_events [OF before(1)] by (auto simp: prepared_def)
    moreover obtain es where "db_entries (wd_db v3) = db_entries (wd_db w) @ es" "accounted e t' es"
      using record_accounts [OF v3 [unfolded record_event_Suc] ok2] input(1) before(2) by auto
    moreover have "tx_id t' = tx_id t" "tx_reference t' = tx_reference row" "tx_providerStatus t' = Some Prov_CONFIRMED"
      "tx_bankStatus t' = Some Bank_PROCESSING" "tx_aggregatorAmount t' = Some (wh_amount webhook)" "tx_feeAmount t' = fee"
      by (simp_all add: t' confirm_update_def)
    moreover obtain k where "wd_db w' = (wd_db v3)\<lparr>db_instructions := db_instructions (wd_db v3) @ [k]\<rparr>"
      "bi_transactionReference k = tx_reference t'" "bi_status k = Instr_PENDING"
      "\<forall>j\<in>set (db_instructions (wd_db v3)). bi_transactionReference j \<noteq> tx_reference t'"
      using enqueue_run [OF v4] by auto
    moreover from this have "findChain (wd_db w') = findChain (wd_db v3)" by (intro findChain_events) simp
    ultimately show ?thesis
      using res row db1(2) by (simp, intro exI [of _ row] exI [of _ k] exI [of _ e] exI [of _ es]) simp
  qed
qed

text \<open>
  C27. The bank is instructed exactly when a confirmation is claimed. A confirmation queues an instruction
  only when the collected amount and currency agree with the order and the payment was still untouched by
  the bank; then, in the same transaction, the row is confirmed and in process with the collected amount and the
  commission, one fact \<^verbatim>\<open>PROVIDER_CONFIRMED\<close> with the collected amount is the new head of the register with its
  accounting entry, the instruction is the first one of its reference, and the caller is told. In every other
  case the queue stays as it was; an exception and a confirmation that finds the payment already claimed leave
  the whole store as it was.
\<close>

theorem bank_instructed_exactly_when_claimed:
  assumes "confirmAndClaimBankProcessing X C t webhook w = (r, w')" "ledger_ok X (wd_db w)"
  shows "(db_instructions (wd_db w') = db_instructions (wd_db w) \<and> (\<forall>u. r \<noteq> Inr (u, True)) \<and>
     ((\<exists>err. r = Inl err) \<or> amountsMatch (Some (wh_amount webhook)) (Some (tx_amount t)) \<and>
        currenciesMatch (Some (wh_currency webhook)) (Some (tx_currency t)) \<longrightarrow> wd_db w' = wd_db w)) \<or>
    (\<exists>row u i e es. r = Inr (u, True) \<and>
       amountsMatch (Some (wh_amount webhook)) (Some (tx_amount t)) \<and>
       currenciesMatch (Some (wh_currency webhook)) (Some (tx_currency t)) \<and>
       row \<in> set (db_transactions (wd_db w)) \<and> tx_id row = tx_id t \<and> tx_bankStatus row = Some Bank_NOT_STARTED \<and>
       tx_providerStatus row \<in> {Some Prov_INITIATED, Some Prov_PENDING} \<and>
       u \<in> set (db_transactions (wd_db w')) \<and> tx_id u = tx_id t \<and> tx_reference u = tx_reference row \<and>
       tx_providerStatus u = Some Prov_CONFIRMED \<and> tx_bankStatus u = Some Bank_PROCESSING \<and>
       tx_aggregatorAmount u = Some (wh_amount webhook) \<and>
       tx_feeAmount u = roundToCent (js_mul (wh_amount webhook) (cf_feeRate C)) \<and>
       db_instructions (wd_db w') = db_instructions (wd_db w) @ [i] \<and>
       bi_transactionReference i = tx_reference u \<and> bi_status i = Instr_PENDING \<and>
       (\<forall>j\<in>set (db_instructions (wd_db w)). bi_transactionReference j \<noteq> tx_reference u) \<and>
       findChain (wd_db w') (tx_reference u) = findChain (wd_db w) (tx_reference u) @ [e] \<and>
       ev_eventType e = PROVIDER_CONFIRMED \<and> ev_observedAmount e = Some (wh_amount webhook) \<and>
       db_entries (wd_db w') = db_entries (wd_db w) @ es \<and> accounted e u es)"
proof (cases "amountsMatch (Some (wh_amount webhook)) (Some (tx_amount t)) \<and>
    currenciesMatch (Some (wh_currency webhook)) (Some (tx_currency t))")
  case False
  obtain q v where m: "markAmountMismatch X t webhook w = (q, v)" by (cases "markAmountMismatch X t webhook w")
  then have r: "w' = v" "\<forall>u. r \<noteq> Inr (u, True)" "\<forall>err. r = Inl err \<longrightarrow> q = Inl err"
    using assms(1) False by (auto simp: confirmAndClaimBankProcessing_def run_bnd action_simps split: sum.splits)
  have "wd_db v = wd_db w" if "q = Inl err" for err
    using transaction_run [OF m [unfolded markAmountMismatch_def]] that by auto
  then show ?thesis using r False mismatch_instructs_nobody [OF m] by blast
next
  case True
  let ?fee = "roundToCent (js_mul (wh_amount webhook) (cf_feeRate C))"
  have run: "transaction (claim_confirmation X t webhook ?fee) w = (r, w')"
    using assms(1) True by (simp add: confirmAndClaimBankProcessing_def)
  show ?thesis
  proof (cases r)
    case (Inl err)
    then show ?thesis using transaction_run [OF run] by auto
  next
    case (Inr a)
    obtain u claimed where a: "a = (u, claimed)" by (cases a)
    have "claim_confirmation X t webhook ?fee w = (Inr (u, claimed), w')" using transaction_run [OF run] Inr a by auto
    note did = claim_confirmation_run [OF this assms(2)]
    show ?thesis
    proof (cases claimed)
      case False
      then show ?thesis using did Inr a by simp
    next
      case claims: True
      then show ?thesis using did True Inr a by (intro disjI2) (simp add: unclaimed_def)
    qed
  qed
qed

subsection \<open>Runs on a concrete payment\<close>

definition sample_notice :: MobileMoneyWebhookDto where
  "sample_notice = \<lparr>wh_eventId = ''EVT-1'', wh_aggregatorReference = ''AGG-1'', wh_status = Webhook_CONFIRMED,
     wh_amount = of_cents 100000, wh_currency = ''USD'', wh_occurredAt = ''2026-07-25T10:12:33.827Z'', wh_failureReason = None\<rparr>"

definition sample_confirmation :: MobileMoneyWebhookDto where
  "sample_confirmation = sample_notice\<lparr>wh_amount := of_cents 125075, wh_currency := ''CDF''\<rparr>"

text \<open>A change of the one row that the table accepts, and what a later fact finds.\<close>

definition changed_payment :: "externals \<Rightarrow> (Transaction \<Rightarrow> Transaction) \<Rightarrow> world \<Rightarrow> Transaction" where
  "changed_payment X set_clause w =
     (set_clause sample_transaction)\<lparr>tx_id := ''t1'', tx_updatedAt := clock X (wd_draws w), tx_version := 2\<rparr>"

lemma sample_update:
  assumes "db_transactions (wd_db w) = [sample_transaction]" "cond sample_transaction"
    and "well_typed_row (changed_payment X set_clause w)"
  obtains v where "update_transaction X ''t1'' cond set_clause w = (Inr 1, v)"
    "findOneByOrFail_id ''t1'' v = (Inr (changed_payment X set_clause w), v)"
    "wd_db v = (wd_db w)\<lparr>db_transactions := [changed_payment X set_clause w]\<rparr>" "wd_draws v = Suc (wd_draws w)"
proof -
  let ?t = "changed_payment X set_clause w"
  have id: "tx_id sample_transaction = ''t1''" "tx_version sample_transaction = 1" "tx_id ?t = ''t1''"
    by (simp_all add: sample_transaction_def changed_payment_def)
  have "transaction_constraints ?t [] = None" using assms(3) by (simp add: constraints_none)
  then have "update_transaction X ''t1'' cond set_clause w =
      (Inr 1, w\<lparr>wd_draws := Suc (wd_draws w), wd_db := put_transaction ?t (wd_db w)\<rparr>)"
    using assms(1,2) id by (simp add: update_transaction_def action_simps Let_def on_db_def changed_payment_def numeral_2_eq_2)
  moreover have "put_transaction ?t (wd_db w) = (wd_db w)\<lparr>db_transactions := [?t]\<rparr>"
    using assms(1) id by (simp add: put_transaction_def)
  ultimately show ?thesis
    using that id by (simp add: findOneByOrFail_id_def findOneBy_id_def action_simps)
qed

definition same_order :: "Transaction \<Rightarrow> bool" where
  "same_order t \<longleftrightarrow>
     tx_reference t = ''MM-1'' \<and> tx_aggregatorReference t = Some ''AGG-1'' \<and> tx_soapOperation t = None \<and>
     tx_currency t = ''CDF'' \<and> tx_correlationId t = ''c1'' \<and> tx_amount t = of_cents 125075"

lemma sample_observed_recordable:
  assumes "store_ready sample_externals w" "t \<in> set (db_transactions (wd_db w))" "same_order t"
    and "tx_feeAmount t = of_cents f" "0 \<le> f" "f \<le> 125075" "f \<le> b" "b \<le> max_cents"
    and "wh_amount webhook = of_cents b" "length (wh_currency webhook) = 3" "length detail \<le> 1024"
    and "ty \<noteq> CASE_CLOSED" "\<not> OPENING_EVENTS ty" "length (findChain (wd_db w) ''MM-1'') < 100"
  shows "recordable sample_externals (observed webhook detail (fact ty t)) w"
proof -
  have "store_numeric (of_cents b) = Some b" using assms(5-8) by (intro store_numeric_cents) auto
  then have "in_numeric (of_cents b)" by (rule stored_in_numeric)
  then have "fact_fits sample_externals (observed webhook detail (fact ty t)) w"
    using assms sample_amount_storable
    by (simp add: fact_fits_def Let_def correlation_of_def short_fits observed_def fact_def same_order_def)
  moreover have "amounts_ok (observed webhook detail (fact ty t))"
  proof -
    have "cents_ok 125075 (Some b) f" using assms by (simp add: cents_ok_def)
    then show ?thesis using assms unfolding amounts_ok_def
      by (intro impI exI [of _ 125075] exI [of _ "Some b"] exI [of _ f]) (simp add: observed_def fact_def same_order_def)
  qed
  ultimately show ?thesis using assms by (auto simp: recordable_def observed_def fact_def)
qed

lemma sample_notices [simp]:
  "wh_amount sample_confirmation = of_cents 125075" "wh_currency sample_confirmation = ''CDF''"
  "wh_amount sample_notice = of_cents 100000" "wh_currency sample_notice = ''USD''"
  by (simp_all add: sample_confirmation_def sample_notice_def)

lemma sample_confirmation_agrees:
  "amountsMatch (Some (wh_amount sample_confirmation)) (Some (tx_amount sample_transaction))"
  "currenciesMatch (Some (wh_currency sample_confirmation)) (Some (tx_currency sample_transaction))"
  "\<not> currenciesMatch (Some (wh_currency sample_notice)) (Some (tx_currency sample_transaction))"
  using amountsMatch_cents [of 125075 125075]
  by (simp_all add: sample_transaction_def currenciesMatch_def trim_def toUpperCase_def char_upper_def is_space_def)

lemma sample_store_changed:
  assumes "wd_db v = (wd_db sample_world)\<lparr>db_transactions := ts\<rparr>"
  shows "store_ready sample_externals v" "findChain (wd_db v) reference = []"
    "db_instructions (wd_db v) = []" "db_entries (wd_db v) = []"
proof -
  have none: "db_events (wd_db v) = []" "db_entries (wd_db v) = []" "db_instructions (wd_db v) = []"
    using assms by (simp_all add: sample_world_def empty_db_def)
  then show "store_ready sample_externals v" by (simp add: store_ready_def sample_services empty_ledger_ok)
  show "findChain (wd_db v) reference = []" "db_instructions (wd_db v) = []" "db_entries (wd_db v) = []"
    using none by (simp_all add: findChain_def)
qed

text \<open>The confirmation of the payment is claimed.\<close>

lemma sample_claim:
  "\<exists>u w'. confirmAndClaimBankProcessing sample_externals sample_settings sample_transaction sample_confirmation sample_world
     = (Inr (u, True), w')"
proof -
  let ?rate = "cf_feeRate sample_settings"
  define fee where "fee = roundToCent (js_mul (of_cents 125075) ?rate)"
  obtain f where f: "fee = of_cents f" "0 \<le> f" "f \<le> 125075"
    using fee_in_cents [of 125075 "3 / 200"] by (auto simp: fee_def sample_settings_def)
  define clause where "clause = confirm_update sample_confirmation (parse_date sample_externals (wh_occurredAt sample_confirmation)) fee"
  define u where "u = changed_payment sample_externals clause sample_world"
  have tx: "db_transactions (wd_db sample_world) = [sample_transaction]" by (simp add: sample_world_def)
  have row: "unclaimed sample_transaction" by (simp add: unclaimed_def sample_transaction_def)
  have typed: "well_typed_row (changed_payment sample_externals clause sample_world)"
    by (simp add: changed_payment_def clause_def confirm_update_def well_typed_row_def transaction_widths_def fits_def
        sample_transaction_def stateOf_def checks_transactions_state_def CHK_transactions_defs sql_defs)
  obtain v where v: "update_transaction sample_externals ''t1'' unclaimed clause sample_world = (Inr 1, v)"
    "findOneByOrFail_id ''t1'' v = (Inr u, v)" "wd_db v = (wd_db sample_world)\<lparr>db_transactions := [u]\<rparr>"
    using sample_update [where cond = unclaimed, OF tx row typed] unfolding u_def by blast
  have order: "same_order u" "tx_feeAmount u = of_cents f"
    by (simp_all add: u_def changed_payment_def clause_def confirm_update_def same_order_def sample_transaction_def f)
  have "assertTransition (stateOf sample_transaction) (stateOf u) (tx_reference u) = Inr ()"
    unfolding machine_accepts_iff
    by (simp add: u_def changed_payment_def clause_def confirm_update_def sample_transaction_def stateOf_def may_move_def
        invariants_hold_code INVARIANTS_def REFUND_ENGAGED_def)
  then have legal: "assert_transition (stateOf sample_transaction) u v = (Inr (), v)" by (simp add: assert_transition_def action_simps)
  define input where "input = observed sample_confirmation ''Encaissement fournisseur conforme a la commande'' (fact PROVIDER_CONFIRMED u)"
  have "recordable sample_externals input v"
    unfolding input_def using sample_store_changed [OF v(3)] v(3) order f
    by (intro sample_observed_recordable [where f = f and b = 125075]) (simp_all add: OPENING_EVENTS_def)
  then obtain e x where rec: "record_event sample_externals True input [] v = (Inr e, x)"
    "list_all journal_entries_balanced (db_entries (wd_db x))"
    using record_succeeds [of sample_externals input v True] by auto
  have "db_instructions (wd_db x) = []"
    using record_other_tables [OF rec(1)] sample_store_changed(3) [OF v(3)] by (simp add: other_tables_def)
  then obtain i y where enq: "enqueue sample_externals u x = (Inr i, y)" "db_entries (wd_db y) = db_entries (wd_db x)"
    by (simp add: enqueue_def action_simps Let_def on_db_def)
  have "claim_confirmation sample_externals sample_transaction sample_confirmation fee sample_world = (Inr (u, True), y)"
  proof -
    have "tx_id sample_transaction = ''t1''" by (simp add: sample_transaction_def)
    then show ?thesis
      using v legal rec enq unfolding claim_confirmation_def record_confirmation_def clause_def [symmetric]
      by (simp add: run_bnd_Inr ret_def flip: input_def)
  qed
  then have "transaction (claim_confirmation sample_externals sample_transaction sample_confirmation fee) sample_world = (Inr (u, True), y)"
    using rec(2) enq(2) by (auto simp: transaction_def new_entries_def list_all_iff dest: in_set_dropD)
  then show ?thesis using sample_confirmation_agrees by (auto simp: confirmAndClaimBankProcessing_def fee_def)
qed

theorem bank_instructed_exactly_when_claimed_witness:
  "\<exists>u i e w'. confirmAndClaimBankProcessing sample_externals sample_settings sample_transaction sample_confirmation sample_world
       = (Inr (u, True), w') \<and>
     db_instructions (wd_db w') = [i] \<and> bi_transactionReference i = tx_reference u \<and>
     findChain (wd_db w') (tx_reference u) = [e] \<and> ev_eventType e = PROVIDER_CONFIRMED \<and>
     ev_observedAmount e = Some (of_cents 125075)"
proof -
  obtain u w' where run: "confirmAndClaimBankProcessing sample_externals sample_settings sample_transaction sample_confirmation sample_world
      = (Inr (u, True), w')"
    using sample_claim by blast
  have "db_instructions (wd_db sample_world) = []" "findChain (wd_db sample_world) reference = []" for reference
    by (simp_all add: sample_world_def empty_db_def findChain_def)
  then show ?thesis
    using bank_instructed_exactly_when_claimed [OF run sample_world_ok] run by auto
qed

lemma record_all_run:
  assumes "for_each xs (record_observed X webhook u) w = (Inr x, w')"
    and "ledger_ok X (wd_db w)"
  shows "\<exists>es. findChain (wd_db w') (tx_reference u) = findChain (wd_db w) (tx_reference u) @ es \<and>
    map ev_eventType es = map fst xs \<and> (\<forall>e\<in>set es. ev_observedAmount e = Some (wh_amount webhook)) \<and>
    other_tables (wd_db w') = other_tables (wd_db w)"
  using assms
proof (induction xs arbitrary: w)
  case Nil
  then show ?case by (simp add: ret_def)
next
  case (Cons z xs)
  obtain ty detail where z: "z = (ty, detail)" by (cases z)
  let ?in = "observed webhook detail (fact ty u)"
  have "bnd (record_event X True ?in []) (\<lambda>_. for_each xs (record_observed X webhook u)) w = (Inr x, w')"
    using Cons.prems(1) by (simp add: z bnd_assoc record_observed_def [of X webhook u, THEN fun_cong, of "(ty, detail)"])
  then obtain e v where v: "record_event X True ?in [] w = (Inr e, v)"
    and rest: "for_each xs (record_observed X webhook u) v = (Inr x, w')"
    by (rule bnd_Inr_E)
  have head: "ledger_ok X (wd_db v)" "other_tables (wd_db v) = other_tables (wd_db w)"
    "findChain (wd_db v) (tx_reference u) = findChain (wd_db w) (tx_reference u) @ [e]"
    "ev_eventType e = ty" "ev_observedAmount e = Some (wh_amount webhook)"
    using record_nested_run [OF v Cons.prems(2)] by (auto simp: observed_def fact_def prepared_def)
  obtain es where "findChain (wd_db w') (tx_reference u) = findChain (wd_db v) (tx_reference u) @ es"
    "map ev_eventType es = map fst xs" "\<forall>e\<in>set es. ev_observedAmount e = Some (wh_amount webhook)"
    "other_tables (wd_db w') = other_tables (wd_db v)"
    using Cons.IH [OF rest head(1)] by blast
  then show ?case using head z by (intro exI [of _ "e # es"]) simp
qed

lemma record_mismatch_run:
  assumes "record_mismatch X t webhook t' v = (Inr u, w')" "ledger_ok X (wd_db v)" "t' \<in> set (db_transactions (wd_db v))"
  shows "u = t' \<and> t' \<in> set (db_transactions (wd_db w')) \<and>
    (\<exists>es. findChain (wd_db w') (tx_reference t') = findChain (wd_db v) (tx_reference t') @ es \<and>
       map ev_eventType es = [AMOUNT_MISMATCH_DETECTED, BANK_PROCESSING_BLOCKED, CASE_OPENED] \<and>
       (\<forall>e\<in>set es. ev_observedAmount e = Some (wh_amount webhook)))"
proof -
  obtain x v2 where v2: "assert_transition (stateOf t) t' v = (Inr x, v2)"
    and k: "bnd (for_each (mismatch_facts t webhook) (record_observed X webhook t')) (\<lambda>_. ret t') v2 = (Inr u, w')"
    using assms(1) unfolding record_mismatch_def by (rule bnd_Inr_E)
  from k obtain y where each: "for_each (mismatch_facts t webhook) (record_observed X webhook t') v2 = (Inr y, w')" and u: "u = t'"
    by (rule bnd_Inr_E) (simp add: ret_def)
  have same: "v2 = v" by (rule assert_transition_run [OF v2])
  from record_all_run [OF each] assms(2,3) u show ?thesis
    unfolding same by (auto simp: mismatch_facts_def other_tables_def)
qed

text \<open>
  C28. A confirmation that disagrees with the order is settled in one piece. Either nothing is written, or
  the row says that the payer was debited, that the bank was kept out and that a refund is due, and the
  three facts of that decision follow one another in the register with the amount actually collected. No
  instruction is queued for the bank either way, and the caller is not told that the confirmation was claimed. (The
  row carries \<^verbatim>\<open>BLOCKED\<close> for the bank, which the code writes; the comment above it announces \<^verbatim>\<open>NOT_STARTED\<close>.)
\<close>

theorem mismatch_opens_debt_atomically:
  assumes "\<not> (amountsMatch (Some (wh_amount webhook)) (Some (tx_amount t)) \<and>
              currenciesMatch (Some (wh_currency webhook)) (Some (tx_currency t)))"
    and "ledger_ok X (wd_db w)"
    and "find (\<lambda>r. tx_id r = tx_id t \<and> tx_bankStatus r = Some Bank_NOT_STARTED) (db_transactions (wd_db w)) = Some row"
    and "confirmAndClaimBankProcessing X C t webhook w = (r, w')"
  shows "db_instructions (wd_db w') = db_instructions (wd_db w) \<and>
    ((\<exists>err. r = Inl err \<and> wd_db w' = wd_db w) \<or>
     (\<exists>u es. r = Inr (u, False) \<and> u \<in> set (db_transactions (wd_db w')) \<and> tx_reference u = tx_reference row \<and>
       tx_providerStatus u = Some Prov_CONFIRMED \<and> tx_aggregatorAmount u = Some (wh_amount webhook) \<and>
       tx_bankStatus u = Some Bank_BLOCKED \<and> tx_status u = Tx_FAILED \<and>
       tx_refundStatus u = Refund_REQUIRED \<and> tx_caseStatus u = Case_MANUAL_REVIEW \<and>
       findChain (wd_db w') (tx_reference u) = findChain (wd_db w) (tx_reference u) @ es \<and>
       map ev_eventType es = [AMOUNT_MISMATCH_DETECTED, BANK_PROCESSING_BLOCKED, CASE_OPENED] \<and>
       (\<forall>e\<in>set es. ev_observedAmount e = Some (wh_amount webhook))))"
proof -
  obtain q where m: "markAmountMismatch X t webhook w = (q, w')" and r: "r = map_sum id (\<lambda>u. (u, False)) q"
    using assms(1,4) by (cases "markAmountMismatch X t webhook w")
      (auto simp: confirmAndClaimBankProcessing_def run_bnd action_simps split: sum.splits)
  note queue = mismatch_instructs_nobody [OF m]
  show ?thesis
  proof (cases q)
    case (Inl err)
    then show ?thesis using queue transaction_run [OF m [unfolded markAmountMismatch_def]] r by auto
  next
    case (Inr u)
    let ?upd = "update_transaction X (tx_id t) (\<lambda>r. tx_bankStatus r = Some Bank_NOT_STARTED)
        (mismatch_update t webhook (parse_date X (wh_occurredAt webhook)) (clock X (wd_draws w)))"
    let ?k = "\<lambda>affected. bnd (findOneByOrFail_id (tx_id t)) (\<lambda>updated.
        if affected \<noteq> 1 then ret updated else record_mismatch X t webhook updated)"
    define w1 where "w1 = w\<lparr>wd_draws := Suc (wd_draws w)\<rparr>"
    have "bnd ?upd ?k w1 = (Inr u, w')"
      using transaction_run [OF m [unfolded markAmountMismatch_def]] Inr by (auto simp: run_draw w1_def)
    then obtain affected v where v: "?upd w1 = (Inr affected, v)" and k: "?k affected v = (Inr u, w')" by (rule bnd_Inr_E)
    have one: "affected = Suc 0" using update_transaction_run [OF v] assms(3) by (auto simp: w1_def)
    obtain t' where t': "t' = (mismatch_update t webhook (parse_date X (wh_occurredAt webhook)) (clock X (wd_draws w)) row)
          \<lparr>tx_id := tx_id t, tx_updatedAt := clock X (wd_draws w1), tx_version := tx_version row + 1\<rparr>"
      and db: "wd_db v = put_transaction t' (wd_db w)" "t' \<in> set (db_transactions (wd_db v))"
      and read: "findOneByOrFail_id (tx_id t) v = (Inr t', v)"
      using update_and_read [OF v [unfolded one]] assms(3) by (auto simp: w1_def)
    have "record_mismatch X t webhook t' v = (Inr u, w')" using k read one by (simp add: run_bnd_Inr)
    from record_mismatch_run [OF this] assms(2) db obtain es where es: "u = t'" "t' \<in> set (db_transactions (wd_db w'))"
      "findChain (wd_db w') (tx_reference t') = findChain (wd_db w) (tx_reference t') @ es"
      "map ev_eventType es = [AMOUNT_MISMATCH_DETECTED, BANK_PROCESSING_BLOCKED, CASE_OPENED]"
      "\<forall>e\<in>set es. ev_observedAmount e = Some (wh_amount webhook)" by auto
    moreover have "tx_reference t' = tx_reference row" "tx_providerStatus t' = Some Prov_CONFIRMED"
      "tx_aggregatorAmount t' = Some (wh_amount webhook)" "tx_bankStatus t' = Some Bank_BLOCKED" "tx_status t' = Tx_FAILED"
      "tx_refundStatus t' = Refund_REQUIRED" "tx_caseStatus t' = Case_MANUAL_REVIEW"
      by (simp_all add: t' mismatch_update_def)
    ultimately show ?thesis using r Inr queue by (intro conjI disjI2 exI [of _ t'] exI [of _ es]) simp_all
  qed
qed

text \<open>The mismatch of the payment is settled.\<close>

lemma sample_facts_recorded:
  assumes "store_ready sample_externals w" "u \<in> set (db_transactions (wd_db w))" "same_order u" "tx_feeAmount u = of_cents 0"
    and "list_all (\<lambda>(ty, detail). length detail \<le> 1024 \<and> ty \<noteq> CASE_CLOSED \<and> \<not> OPENING_EVENTS ty) xs"
    and "length (findChain (wd_db w) ''MM-1'') + length xs < 100"
  shows "\<exists>w'. for_each xs (record_observed sample_externals sample_notice u) w = (Inr (), w') \<and> store_ready sample_externals w'"
  using assms
proof (induction xs arbitrary: w)
  case Nil
  then show ?case by (simp add: ret_def)
next
  case (Cons z xs)
  obtain ty detail where z: "z = (ty, detail)" by (cases z)
  let ?in = "observed sample_notice detail (fact ty u)"
  have "recordable sample_externals ?in w"
    using Cons.prems by (intro sample_observed_recordable [where f = 0 and b = 100000]) (simp_all add: z)
  then obtain e v where v: "record_event sample_externals True ?in [] w = (Inr e, v)" "ev_id e = randomUUID sample_externals (wd_draws w)"
    "wd_draws w < wd_draws v" "list_all journal_entries_balanced (db_entries (wd_db v))"
    using record_succeeds [of sample_externals ?in w True] by auto
  have ready: "store_ready sample_externals v" by (rule store_ready_recorded [OF Cons.prems(1) v])
  have "ledger_ok sample_externals (wd_db w)" using Cons.prems(1) by (simp add: store_ready_def)
  from record_nested_run [OF v(1) this] have "length (findChain (wd_db v) ''MM-1'') = Suc (length (findChain (wd_db w) ''MM-1''))"
    "db_transactions (wd_db v) = db_transactions (wd_db w)"
    using Cons.prems(3) by (auto simp: observed_def fact_def same_order_def other_tables_def)
  then obtain w' where "for_each xs (record_observed sample_externals sample_notice u) v = (Inr (), w')" "store_ready sample_externals w'"
    using Cons.IH [OF ready] Cons.prems by auto
  moreover have "record_observed sample_externals sample_notice u z w = (Inr (), v)"
    using v(1) by (simp add: record_observed_def z run_bnd_Inr ret_def)
  ultimately show ?case by (simp add: run_bnd_Inr)
qed

lemma sample_reason: "length (mismatch_reason sample_transaction sample_notice) = 46"
  by (simp add: mismatch_reason_def sample_transaction_def toFixed2_cents fixed2_digits_def nat_dec.simps [of 1250] nat_dec.simps [of 125]
      nat_dec.simps [of 12] nat_dec.simps [of "Suc 0"] nat_dec.simps [of 1000] nat_dec.simps [of 100] nat_dec.simps [of 10])

lemma sample_mismatch:
  "\<exists>u w'. confirmAndClaimBankProcessing sample_externals sample_settings sample_transaction sample_notice sample_world
     = (Inr (u, False), w')"
proof -
  let ?w = "sample_world\<lparr>wd_draws := Suc (wd_draws sample_world)\<rparr>"
  define clause where "clause = mismatch_update sample_transaction sample_notice
    (parse_date sample_externals (wh_occurredAt sample_notice)) (int (wd_draws sample_world))"
  define u where "u = changed_payment sample_externals clause ?w"
  let ?cond = "\<lambda>r. tx_bankStatus r = Some Bank_NOT_STARTED"
  have tx: "db_transactions (wd_db ?w) = [sample_transaction]" "?cond sample_transaction"
    by (simp_all add: sample_world_def) (simp add: sample_transaction_def)
  have typed: "well_typed_row (changed_payment sample_externals clause ?w)"
    using sample_confirmation_agrees(3)
    by (simp add: changed_payment_def clause_def mismatch_update_def well_typed_row_def transaction_widths_def sample_reason short_fits)
       (simp add: sample_transaction_def stateOf_def checks_transactions_state_def CHK_transactions_defs sql_defs short_fits)
  obtain v where v: "update_transaction sample_externals ''t1'' ?cond clause ?w = (Inr 1, v)"
    "findOneByOrFail_id ''t1'' v = (Inr u, v)" "wd_db v = (wd_db ?w)\<lparr>db_transactions := [u]\<rparr>"
    using sample_update [where cond = ?cond, OF tx typed] unfolding u_def by blast
  have store: "wd_db v = (wd_db sample_world)\<lparr>db_transactions := [u]\<rparr>" using v(3) by simp
  have order: "same_order u" "tx_feeAmount u = of_cents 0"
    by (simp_all add: u_def changed_payment_def clause_def mismatch_update_def same_order_def sample_transaction_def)
  have "assertTransition (stateOf sample_transaction) (stateOf u) (tx_reference u) = Inr ()"
    unfolding machine_accepts_iff using sample_confirmation_agrees(3)
    by (simp add: u_def changed_payment_def clause_def mismatch_update_def stateOf_def)
       (simp add: sample_transaction_def may_move_def invariants_hold_code INVARIANTS_def REFUND_ENGAGED_def)
  then have legal: "assert_transition (stateOf sample_transaction) u v = (Inr (), v)" by (simp add: assert_transition_def action_simps)
  obtain x where each: "for_each (mismatch_facts sample_transaction sample_notice) (record_observed sample_externals sample_notice u) v = (Inr (), x)"
    "store_ready sample_externals x"
    using sample_facts_recorded [of v u "mismatch_facts sample_transaction sample_notice"] sample_store_changed [OF store] store order
    by (auto simp: mismatch_facts_def sample_reason OPENING_EVENTS_def)
  have "record_mismatch sample_externals sample_transaction sample_notice u v = (Inr u, x)"
    using legal each(1) by (simp add: record_mismatch_def run_bnd_Inr ret_def)
  moreover have "tx_id sample_transaction = ''t1''" by (simp add: sample_transaction_def)
  moreover have "list_all journal_entries_balanced (new_entries (wd_db sample_world) (wd_db x))"
    using each(2) by (auto simp: store_ready_def new_entries_def list_all_iff dest: in_set_dropD)
  ultimately have "markAmountMismatch sample_externals sample_transaction sample_notice sample_world = (Inr u, x)"
    using v(1,2) by (simp add: markAmountMismatch_def transaction_def run_draw run_bnd_Inr flip: clause_def)
  then show ?thesis using sample_confirmation_agrees(3) by (simp add: confirmAndClaimBankProcessing_def run_bnd_Inr ret_def)
qed

theorem mismatch_opens_debt_atomically_witness:
  "\<exists>u es w'. confirmAndClaimBankProcessing sample_externals sample_settings sample_transaction sample_notice sample_world
       = (Inr (u, False), w') \<and>
     tx_refundStatus u = Refund_REQUIRED \<and> tx_bankStatus u = Some Bank_BLOCKED \<and> db_instructions (wd_db w') = [] \<and>
     findChain (wd_db w') (tx_reference u) = es \<and> map ev_eventType es = [AMOUNT_MISMATCH_DETECTED, BANK_PROCESSING_BLOCKED, CASE_OPENED] \<and>
     ev_observedAmount (hd es) = Some (of_cents 100000)"
proof -
  obtain u w' where run: "confirmAndClaimBankProcessing sample_externals sample_settings sample_transaction sample_notice sample_world
      = (Inr (u, False), w')"
    using sample_mismatch by blast
  have other: "\<not> (amountsMatch (Some (wh_amount sample_notice)) (Some (tx_amount sample_transaction)) \<and>
      currenciesMatch (Some (wh_currency sample_notice)) (Some (tx_currency sample_transaction)))"
    using sample_confirmation_agrees(3) by simp
  have row: "find (\<lambda>r. tx_id r = tx_id sample_transaction \<and> tx_bankStatus r = Some Bank_NOT_STARTED)
      (db_transactions (wd_db sample_world)) = Some sample_transaction"
    by (simp add: sample_world_def empty_db_def sample_transaction_def)
  have none: "db_instructions (wd_db sample_world) = []" "findChain (wd_db sample_world) reference = []" for reference
    by (simp_all add: sample_world_def empty_db_def findChain_def)
  from mismatch_opens_debt_atomically [OF other sample_world_ok row run] show ?thesis
  proof (elim conjE disjE exE)
    fix u' es
    assume eq: "Inr (u, False) = (Inr (u', False) :: exn + Transaction \<times> bool)"
      and es: "findChain (wd_db w') (tx_reference u') = findChain (wd_db sample_world) (tx_reference u') @ es"
      "map ev_eventType es = [AMOUNT_MISMATCH_DETECTED, BANK_PROCESSING_BLOCKED, CASE_OPENED]"
      "\<forall>e\<in>set es. ev_observedAmount e = Some (wh_amount sample_notice)" "tx_refundStatus u' = Refund_REQUIRED"
      "tx_bankStatus u' = Some Bank_BLOCKED" "db_instructions (wd_db w') = db_instructions (wd_db sample_world)"
    have "ev_observedAmount (hd es) = Some (of_cents 100000)" using es(2,3) by (cases es) auto
    then show ?thesis using run es eq none by auto
  qed simp
qed

end
