(* ===== verification/Treasury.thy ===== *)
theory Treasury
  imports Mobile_Money
begin

text \<open>
  The repatriation of the collected funds (\<^verbatim>\<open>treasury/treasury.service.ts\<close>): which rows are eligible, the
  movement of one row under its own SQL transaction, and the sweep over a bounded batch of rows.
\<close>

record SweepOutcome =
  so_examined :: nat
  so_swept :: nat
  so_amount :: number

definition sweepable :: "Transaction \<Rightarrow> bool" where
  "sweepable t \<longleftrightarrow>
     tx_providerStatus t = Some Prov_CONFIRMED \<and> tx_reconciliationStatus t = Some Recon_MATCHED \<and>
     tx_refundStatus t = Refund_NOT_REQUIRED \<and> tx_aggregatorAmount t \<noteq> None"

definition alreadySwept :: "db \<Rightarrow> string \<Rightarrow> bool" where
  "alreadySwept d reference \<longleftrightarrow>
     list_ex (\<lambda>e. ev_transactionReference e = reference \<and> ev_eventType e = SETTLEMENT_SWEPT) (db_events d)"

text \<open>Ascending order of a nullable column: the nulls come last.\<close>

definition ascending_by :: "('a \<Rightarrow> date option) \<Rightarrow> 'a list \<Rightarrow> 'a list" where
  "ascending_by key xs =
     sort_key (\<lambda>x. the (key x)) (filter (\<lambda>x. key x \<noteq> None) xs) @ filter (\<lambda>x. key x = None) xs"

definition eligible :: "nat \<Rightarrow> db \<Rightarrow> Transaction list" where
  "eligible limit d =
     take limit (ascending_by tx_mobileMoneyConfirmedAt
       (filter (\<lambda>t. tx_paymentChannel t = MOBILE_MONEY \<and> sweepable t \<and> \<not> alreadySwept d (tx_reference t))
          (db_transactions d)))"

definition sweep_fact :: "Transaction \<Rightarrow> number \<Rightarrow> RecordEventInput" where
  "sweep_fact current currentCollected =
     (fact SETTLEMENT_SWEPT current)
       \<lparr>re_observedAmount := Some currentCollected, re_observedCurrency := tx_aggregatorCurrency current,
        re_detail := Some (''Rapatriement de '' @ toFixed2 currentCollected @ '' '' @ tx_currency current)\<rparr>"

definition sweep_current :: "externals \<Rightarrow> Transaction \<Rightarrow> number option io" where
  "sweep_current X current =
     bnd get_db (\<lambda>d.
       if alreadySwept d (tx_reference current) then ret None
       else
         let currentCollected = the (tx_aggregatorAmount current) in
         bnd (record_event X True (sweep_fact current currentCollected) []) (\<lambda>_. ret (Some currentCollected)))"

definition sweep_one :: "externals \<Rightarrow> string \<Rightarrow> number option io" where
  "sweep_one X reference =
     transaction
       (bnd (repo_findByReference reference) (\<lambda>row.
        case row of
          None \<Rightarrow> ret None
        | Some current \<Rightarrow> if \<not> sweepable current then ret None else sweep_current X current))"

definition sweep_step :: "externals \<Rightarrow> Transaction \<Rightarrow> nat \<times> number \<Rightarrow> (nat \<times> number) io" where
  "sweep_step X t = (\<lambda>(swept, amount).
     bnd (sweep_one X (tx_reference t)) (\<lambda>collected.
       case collected of
         None \<Rightarrow> ret (swept, amount)
       | Some c \<Rightarrow> ret (swept + 1, roundToCent (js_add amount c))))"

definition sweep :: "externals \<Rightarrow> nat \<Rightarrow> SweepOutcome io" where
  "sweep X limit =
     bnd get_db (\<lambda>d.
       bnd (fold_each (sweep_step X) (eligible limit d) (0, Fin 0)) (\<lambda>(swept, amount).
       ret \<lparr>so_examined = length (eligible limit d), so_swept = swept, so_amount = amount\<rparr>))"

context store_contract
begin

lemma keeps_sweep: "keeps (db_inv P) (sweep X limit)"
proof -
  have "keeps (db_inv P) (sweep_one X reference)" for reference
    unfolding sweep_one_def sweep_current_def by (intro keeps_commit keeps_intros keeps_inside)
  then show ?thesis unfolding sweep_def sweep_step_def by (intro keeps_intros)
qed

end

section \<open>What a sweep does\<close>

text \<open>The movements recorded for a reference.\<close>

definition sweeps_of :: "db \<Rightarrow> string \<Rightarrow> TransactionEvent list" where
  "sweeps_of d reference =
     filter (\<lambda>e. ev_transactionReference e = reference \<and> ev_eventType e = SETTLEMENT_SWEPT) (db_events d)"

lemma alreadySwept_iff: "alreadySwept d reference \<longleftrightarrow> sweeps_of d reference \<noteq> []"
  by (auto simp: alreadySwept_def sweeps_of_def list_ex_iff filter_empty_conv)

definition swept_row :: "db \<Rightarrow> string \<Rightarrow> number \<Rightarrow> TransactionEvent \<Rightarrow> bool" where
  "swept_row d reference a e \<longleftrightarrow>
     (\<exists>t. row_of d reference = Some t \<and> sweepable t \<and> tx_aggregatorAmount t = Some a) \<and> sweeps_of d reference = [] \<and>
     ev_transactionReference e = reference \<and> ev_eventType e = SETTLEMENT_SWEPT \<and> ev_observedAmount e = Some a"

text \<open>What the movement of one row did: \<open>r\<close> its answer.\<close>

definition one_swept :: "externals \<Rightarrow> string \<Rightarrow> world \<Rightarrow> (exn + number option) \<Rightarrow> world \<Rightarrow> bool" where
  "one_swept X reference w r w' \<longleftrightarrow>
     ledger_ok X (wd_db w') \<and> db_transactions (wd_db w') = db_transactions (wd_db w) \<and>
     ((\<exists>a e. r = Inr (Some a) \<and> swept_row (wd_db w) reference a e \<and> db_events (wd_db w') = db_events (wd_db w) @ [e] \<and>
        findChain (wd_db w') reference = findChain (wd_db w) reference @ [e] \<and>
        (\<exists>t es. row_of (wd_db w) reference = Some t \<and> db_entries (wd_db w') = db_entries (wd_db w) @ es \<and> accounted e t es)) \<or>
      (\<forall>a. r \<noteq> Inr (Some a)) \<and> wd_db w' = wd_db w \<and>
      (\<forall>t. r = Inr None \<and> row_of (wd_db w) reference = Some t \<and> sweepable t \<longrightarrow> sweeps_of (wd_db w) reference \<noteq> []))"

lemma sweep_current_run:
  assumes run: "sweep_current X t w = (Inr c, w')" and ok: "ledger_ok X (wd_db w)"
    and row: "row_of (wd_db w) reference = Some t" "sweepable t"
  shows "one_swept X reference w (Inr c) w'"
proof (cases "alreadySwept (wd_db w) reference")
  case True
  then show ?thesis
    using run ok row by (auto simp: sweep_current_def action_simps one_swept_def row_of_def find_Some_iff alreadySwept_iff)
next
  case False
  have ref: "tx_reference t = reference" using row(1) by (auto simp: row_of_def find_Some_iff)
  obtain a where a: "tx_aggregatorAmount t = Some a" using row(2) by (auto simp: sweepable_def)
  have "bnd (record_event X True (sweep_fact t a) []) (\<lambda>_. ret (Some a)) w = (Inr c, w')"
    using run False ref a by (simp add: sweep_current_def action_simps Let_def)
  then obtain e where rec: "record_event X True (sweep_fact t a) [] w = (Inr e, w')" and c: "c = Some a"
    by (rule bnd_Inr_E) (simp add: action_simps)
  have fields: "re_transaction (sweep_fact t a) = t" "re_type (sweep_fact t a) = SETTLEMENT_SWEPT"
    "re_observedAmount (sweep_fact t a) = Some a" by (simp_all add: sweep_fact_def fact_def)
  have e: "ledger_ok X (wd_db w')" "other_tables (wd_db w') = other_tables (wd_db w)"
    "prepared X (sweep_fact t a) (findLatest (wd_db w) reference) e"
    "findChain (wd_db w') reference = findChain (wd_db w) reference @ [e]"
    using record_nested_run [OF rec ok] fields ref by auto
  obtain es where "wd_db w' = (append_event e (wd_db w))\<lparr>db_entries := db_entries (wd_db w) @ es\<rparr>" "accounted e t es"
    using record_accounts [OF rec [unfolded record_event_Suc] ok] fields(1) by auto
  then have "db_events (wd_db w') = db_events (wd_db w) @ [e]" "db_entries (wd_db w') = db_entries (wd_db w) @ es" "accounted e t es"
    by (simp_all add: append_event_def)
  moreover have "swept_row (wd_db w) reference a e"
    using row a False e(3) fields ref by (simp add: swept_row_def alreadySwept_iff prepared_def)
  ultimately show ?thesis using e c row(1) by (auto simp: one_swept_def other_tables_def)
qed

lemma sweep_one_run:
  assumes run: "sweep_one X reference w = (r, w')" and ok: "ledger_ok X (wd_db w)"
  shows "one_swept X reference w r w'"
  using transaction_run [OF run [unfolded sweep_one_def]]
proof (elim disjE exE conjE)
  fix c
  assume r: "r = Inr c" and body: "bnd (repo_findByReference reference) (\<lambda>row. case row of None \<Rightarrow> ret None
    | Some current \<Rightarrow> if \<not> sweepable current then ret None else sweep_current X current) w = (Inr c, w')"
  then consider "w' = w" "c = None" "\<forall>t. row_of (wd_db w) reference = Some t \<longrightarrow> \<not> sweepable t" | t where "row_of (wd_db w) reference = Some t" "sweepable t"
      "sweep_current X t w = (Inr c, w')"
    by (auto simp: repo_findByReference_def action_simps row_of_def split: option.splits if_splits)
  then show ?thesis
  proof cases
    case 1
    then show ?thesis using r ok by (auto simp: one_swept_def)
  next
    case 2
    then show ?thesis using sweep_current_run [OF 2(3) ok 2(1,2)] r by simp
  qed
qed (use ok in \<open>simp_all add: one_swept_def\<close>)

lemma sweep_step_run:
  "sweep_one X (tx_reference t) w = (Inl err, v) \<Longrightarrow> sweep_step X t (n, a) w = (Inl err, v)"
  "sweep_one X (tx_reference t) w = (Inr c, v) \<Longrightarrow>
   sweep_step X t (n, a) w = (Inr (case c of None \<Rightarrow> (n, a) | Some x \<Rightarrow> (n + 1, roundToCent (js_add a x))), v)"
  by (auto simp: sweep_step_def run_bnd action_simps split: option.splits)

text \<open>No reference moved twice.\<close>

definition moved_once :: "db \<Rightarrow> bool" where
  "moved_once d \<longleftrightarrow> (\<forall>reference. length (sweeps_of d reference) \<le> 1)"

lemma moved_once_snoc:
  assumes "moved_once d" "db_events d' = db_events d @ [e]" "sweeps_of d (ev_transactionReference e) = []"
  shows "moved_once d'"
  using assms by (auto simp: moved_once_def sweeps_of_def)

lemma sweep_fold_run:
  assumes "fold_each (sweep_step X) ts (n, a) w = (r, w')" "ledger_ok X (wd_db w)" "moved_once (wd_db w)"
  shows "ledger_ok X (wd_db w') \<and> moved_once (wd_db w') \<and> db_transactions (wd_db w') = db_transactions (wd_db w) \<and>
    (\<forall>m b. r = Inr (m, b) \<longrightarrow> n \<le> m \<and> m \<le> n + length ts \<and>
       length (db_events (wd_db w')) = length (db_events (wd_db w)) + (m - n))"
  using assms
proof (induction ts arbitrary: n a w)
  case (Cons t ts)
  obtain q v where one: "sweep_one X (tx_reference t) w = (q, v)" by (cases "sweep_one X (tx_reference t) w")
  note run = sweep_one_run [OF one Cons.prems(2), unfolded one_swept_def swept_row_def]
  have v: "ledger_ok X (wd_db v)" "moved_once (wd_db v)" "db_transactions (wd_db v) = db_transactions (wd_db w)"
    using run Cons.prems(3) moved_once_snoc [of "wd_db w" "wd_db v"] by auto
  show ?case
  proof (cases q)
    case (Inl err)
    then show ?thesis using Cons.prems(1) v one by (auto simp: sweep_step_def run_bnd)
  next
    case (Inr c)
    define n' a' where "n' = (if c = None then n else n + 1)" and "a' = (case c of None \<Rightarrow> a | Some x \<Rightarrow> roundToCent (js_add a x))"
    have "fold_each (sweep_step X) ts (n', a') v = (r, w')"
      using Cons.prems(1) one Inr by (auto simp: sweep_step_run run_bnd [of "sweep_step X t (n, a)"] n'_def a'_def split: option.splits)
    from Cons.IH [OF this v(1,2)] show ?thesis
      using v(3) run Inr by (auto simp: n'_def split: if_splits)
  qed
qed (auto simp: action_simps)

text \<open>A run over rows that are all to be moved moves each of them.\<close>

definition to_move :: "db \<Rightarrow> Transaction \<Rightarrow> bool" where
  "to_move d t \<longleftrightarrow> row_of d (tx_reference t) = Some t \<and> sweepable t \<and> sweeps_of d (tx_reference t) = []"

lemma to_move_other:
  assumes "to_move d t" "db_transactions d' = db_transactions d" "db_events d' = db_events d @ [e]"
    and "ev_transactionReference e \<noteq> tx_reference t"
  shows "to_move d' t"
  using assms by (simp add: to_move_def row_of_def sweeps_of_def)

text \<open>
  One movement: the row, the fact that records it with the amount collected, and what the posting of that
  fact added to the journal.
\<close>

type_synonym move = "Transaction \<times> TransactionEvent \<times> JournalEntry list"

definition recorded_move :: "move \<Rightarrow> bool" where
  "recorded_move = (\<lambda>(t, e, es).
     ev_transactionReference e = tx_reference t \<and> ev_eventType e = SETTLEMENT_SWEPT \<and>
     ev_observedAmount e = tx_aggregatorAmount t \<and> accounted e t es)"

definition moved_amount :: "number \<Rightarrow> Transaction \<Rightarrow> number" where
  "moved_amount amount t = roundToCent (js_add amount (the (tx_aggregatorAmount t)))"

lemma sweep_fold_moves:
  assumes "fold_each (sweep_step X) ts (n, a) w = (Inr (m, b), w')" "ledger_ok X (wd_db w)"
    and "list_all (to_move (wd_db w)) ts" "distinct (map tx_reference ts)"
  shows "m = n + length ts \<and> b = foldl moved_amount a ts \<and>
    (\<exists>moves. map fst moves = ts \<and> list_all recorded_move moves \<and>
       db_events (wd_db w') = db_events (wd_db w) @ map (\<lambda>(t, e, es). e) moves \<and>
       db_entries (wd_db w') = db_entries (wd_db w) @ concat (map (\<lambda>(t, e, es). es) moves))"
  using assms
proof (induction ts arbitrary: n a w)
  case (Cons t ts)
  obtain s' v where step: "sweep_step X t (n, a) w = (Inr s', v)" and rest: "fold_each (sweep_step X) ts s' v = (Inr (m, b), w')"
    using Cons.prems(1) unfolding fold_each.simps by (rule bnd_Inr_E)
  obtain c where one: "sweep_one X (tx_reference t) w = (Inr c, v)"
    and s': "s' = (case c of None \<Rightarrow> (n, a) | Some x \<Rightarrow> (n + 1, roundToCent (js_add a x)))"
    using step unfolding sweep_step_def prod.case by (rule bnd_Inr_E) (auto simp: action_simps split: option.splits)
  note run = sweep_one_run [OF one Cons.prems(2), unfolded one_swept_def]
  obtain x e es where c: "c = Some x" and e: "ev_transactionReference e = tx_reference t" "ev_eventType e = SETTLEMENT_SWEPT"
    "db_events (wd_db v) = db_events (wd_db w) @ [e]" "tx_aggregatorAmount t = Some x" "ev_observedAmount e = Some x"
    "db_entries (wd_db v) = db_entries (wd_db w) @ es" "accounted e t es"
    using run Cons.prems(3) by (auto simp: to_move_def swept_row_def)
  have "list_all (to_move (wd_db v)) ts"
    using Cons.prems(3,4) to_move_other [of "wd_db w" _ "wd_db v" e] run e by (auto simp: list_all_iff)
  then have IH: "m = n + 1 + length ts" "b = foldl moved_amount (roundToCent (js_add a x)) ts"
    "\<exists>moves. map fst moves = ts \<and> list_all recorded_move moves \<and>
       db_events (wd_db w') = db_events (wd_db v) @ map (\<lambda>(t, e, es). e) moves \<and>
       db_entries (wd_db w') = db_entries (wd_db v) @ concat (map (\<lambda>(t, e, es). es) moves)"
    using Cons.IH [of "n + 1" "roundToCent (js_add a x)" v] rest run Cons.prems(4) by (simp_all add: s' c)
  then obtain moves where moves: "map fst moves = ts" "list_all recorded_move moves"
    "db_events (wd_db w') = db_events (wd_db v) @ map (\<lambda>(t, e, es). e) moves"
    "db_entries (wd_db w') = db_entries (wd_db v) @ concat (map (\<lambda>(t, e, es). es) moves)" by blast
  have "map fst ((t, e, es) # moves) = t # ts \<and> list_all recorded_move ((t, e, es) # moves) \<and>
      db_events (wd_db w') = db_events (wd_db w) @ map (\<lambda>(t, e, es). e) ((t, e, es) # moves) \<and>
      db_entries (wd_db w') = db_entries (wd_db w) @ concat (map (\<lambda>(t, e, es). es) ((t, e, es) # moves))"
    using moves e by (simp add: recorded_move_def)
  moreover have "b = foldl moved_amount a (t # ts)" using IH(2) e(4) by (simp add: moved_amount_def)
  moreover have "m = n + length (t # ts)" using IH(1) by simp
  ultimately show ?case by (intro conjI exI [of _ "(t, e, es) # moves"]) simp_all
qed (simp add: action_simps)

text \<open>What a movement of whole cents posts, and the total that the outcome announces.\<close>

definition collected :: "Transaction \<Rightarrow> int" where
  "collected t = the (store_numeric (the (tx_aggregatorAmount t)))"

definition whole_cents :: "Transaction \<Rightarrow> bool" where
  "whole_cents t \<longleftrightarrow> tx_aggregatorAmount t = Some (of_cents (collected t)) \<and> 0 < collected t"

definition repatriation :: "Transaction \<Rightarrow> TransactionEvent \<Rightarrow> JournalEntry \<Rightarrow> bool" where
  "repatriation t e en \<longleftrightarrow>
     ev_transactionReference e = tx_reference t \<and> ev_eventType e = SETTLEMENT_SWEPT \<and>
     ev_observedAmount e = tx_aggregatorAmount t \<and>
     je_eventId en = ev_id e \<and> je_transactionReference en = tx_reference t \<and>
     je_lines en = [\<lparr>jl_account = SETTLEMENT, jl_direction = DEBIT, jl_amount = collected t\<rparr>,
                    \<lparr>jl_account = PROVIDER_FLOAT, jl_direction = CREDIT, jl_amount = collected t\<rparr>]"

lemma recorded_move_posts:
  assumes "recorded_move (t, e, es)" "tx_paymentChannel t = MOBILE_MONEY" "whole_cents t" "collected t \<le> max_cents"
  shows "\<exists>en. es = [en] \<and> repatriation t e en"
proof -
  have "js_lt (Fin 0) (of_cents (collected t))" "store_numeric (of_cents (collected t)) = Some (collected t)"
    using assms(3,4) js_lt_0_cents [of "collected t"] store_numeric_cents [of "collected t"] by (simp_all add: whole_cents_def)
  moreover have "tx_aggregatorAmount t = Some (of_cents (collected t))" using assms(3) by (simp add: whole_cents_def)
  ultimately show ?thesis
    using assms(1,2)
    by (auto simp: recorded_move_def accounted_def posted_lines_def repatriation_def withoutZeros_def debit_def credit_def Let_def
        observed_or_ordered_def store_lines_def store_line_def)
qed

lemma repatriation_balanced: "repatriation t e en \<Longrightarrow> whole_cents t \<Longrightarrow> journal_entries_balanced en"
  by (simp add: repatriation_def whole_cents_def journal_entries_balanced_def debits_of_def credits_of_def)

lemma add_cents_exact:
  assumes "0 \<le> a" "0 \<le> b" "a + b \<le> max_cents"
  shows "roundToCent (js_add (of_cents a) (of_cents b)) = of_cents (a + b)"
proof -
  obtain x where x: "of_cents a = Fin x" "\<bar>x * 100 - of_int a\<bar> \<le> 1 / 32"
    by (rule of_cents_Fin [of a]) (use assms in auto)
  obtain t where t: "js_add (Fin x) (of_cents b) = Fin t" "\<bar>t * 100 - of_int (a + b)\<bar> \<le> 1 / 32 + 1 / 15"
    by (rule add_cents_close [OF assms x(2)]) simp_all
  have "\<bar>t * 100 - of_int (a + b)\<bar> \<le> 3 / 8" using t(2) by linarith
  from roundToCent_close [OF _ assms(3) this] show ?thesis using assms t(1) x(1) by simp
qed

lemma moved_total:
  assumes "list_all whole_cents ts" "0 \<le> a" "a + sum_list (map collected ts) \<le> max_cents"
  shows "foldl moved_amount (of_cents a) ts = of_cents (a + sum_list (map collected ts))"
  using assms
proof (induction ts arbitrary: a)
  case (Cons t ts)
  have pos: "0 \<le> sum_list (map collected ts)" using Cons.prems(1) by (induction ts) (auto simp: whole_cents_def)
  have t: "tx_aggregatorAmount t = Some (of_cents (collected t))" "0 \<le> collected t"
    using Cons.prems(1) by (auto simp: whole_cents_def)
  then have "moved_amount (of_cents a) t = of_cents (a + collected t)"
    using add_cents_exact [of a "collected t"] Cons.prems(2,3) pos by (simp add: moved_amount_def)
  then show ?case using Cons.IH [of "a + collected t"] Cons.prems t(2) by (simp add: add.assoc)
qed simp

lemma collected_bound:
  assumes "list_all whole_cents ts" "sum_list (map collected ts) \<le> max_cents" "t \<in> set ts"
  shows "collected t \<le> max_cents"
proof -
  have "collected t \<le> sum_list (map collected ts)"
    using assms(1,3) by (intro member_le_sum_list) (auto simp: whole_cents_def list_all_iff)
  then show ?thesis using assms(2) by simp
qed

lemma ascending_by_set: "set (ascending_by key xs) = set xs"
  by (auto simp: ascending_by_def)

lemma ascending_by_distinct: "distinct (map f xs) \<Longrightarrow> distinct (map f (ascending_by key xs))"
  unfolding distinct_map ascending_by_set by (auto simp: ascending_by_def)

lemma find_key: "distinct (map f xs) \<Longrightarrow> x \<in> set xs \<Longrightarrow> find (\<lambda>y. f y = f x) xs = Some x"
  by (induction xs) (auto simp: image_iff)

lemma rows_ok_references: "rows_ok d \<Longrightarrow> distinct (map tx_reference (db_transactions d))"
  unfolding rows_ok_iff distinct_map inj_on_def rows_apart_def by blast

lemma eligible_to_move:
  assumes "distinct (map tx_reference (db_transactions d))"
  shows "list_all (to_move d) (eligible limit d)" "distinct (map tx_reference (eligible limit d))"
    "list_all (\<lambda>t. t \<in> set (db_transactions d) \<and> tx_paymentChannel t = MOBILE_MONEY) (eligible limit d)"
proof -
  let ?p = "\<lambda>t. tx_paymentChannel t = MOBILE_MONEY \<and> sweepable t \<and> \<not> alreadySwept d (tx_reference t)"
  have el: "t \<in> set (db_transactions d) \<and> ?p t" if "t \<in> set (eligible limit d)" for t
    using in_set_takeD [OF that [unfolded eligible_def]] by (simp add: ascending_by_set)
  have "row_of d (tx_reference t) = Some t" if "t \<in> set (db_transactions d)" for t
    unfolding row_of_def by (rule find_key [OF assms that])
  then show "list_all (to_move d) (eligible limit d)" using el by (simp add: list_all_iff to_move_def alreadySwept_iff)
  show "list_all (\<lambda>t. t \<in> set (db_transactions d) \<and> tx_paymentChannel t = MOBILE_MONEY) (eligible limit d)"
    using el by (simp add: list_all_iff)
  show "distinct (map tx_reference (eligible limit d))"
    unfolding eligible_def take_map [symmetric]
    using assms by (intro distinct_take ascending_by_distinct) (simp add: distinct_map_filter)
qed

lemma posted_moves:
  assumes "map fst moves = ts" "list_all recorded_move moves" "list_all (\<lambda>t. t \<in> S \<and> tx_paymentChannel t = MOBILE_MONEY) ts"
    and "list_all whole_cents ts" "sum_list (map collected ts) \<le> max_cents"
  shows "\<exists>entries. concat (map (\<lambda>(t, e, es). es) moves) = entries \<and> length entries = length ts \<and>
    length (map (\<lambda>(t, e, es). e) moves) = length ts \<and>
    (\<forall>i<length ts. repatriation (ts ! i) (map (\<lambda>(t, e, es). e) moves ! i) (entries ! i))"
proof -
  have one: "\<exists>en. snd (snd mv) = [en] \<and> repatriation (fst mv) (fst (snd mv)) en" if "mv \<in> set moves" for mv
  proof -
    have "fst mv \<in> set ts" using that assms(1) by auto
    then show ?thesis
      using recorded_move_posts [of "fst mv" "fst (snd mv)" "snd (snd mv)"] assms(2-4) that collected_bound [OF assms(4,5)]
      by (auto simp: list_all_iff)
  qed
  have es: "concat (map (\<lambda>(t, e, es). es) moves) = map (\<lambda>mv. hd (snd (snd mv))) moves"
  proof -
    have "snd (snd mv) = [hd (snd (snd mv))]" if "mv \<in> set moves" for mv using one [OF that] by auto
    then have "map (\<lambda>mv. snd (snd mv)) moves = map (\<lambda>mv. [hd (snd (snd mv))]) moves" by simp
    then have "concat (map (\<lambda>mv. snd (snd mv)) moves) = concat (map (\<lambda>mv. [hd (snd (snd mv))]) moves)" by (rule arg_cong)
    then show ?thesis by (simp add: case_prod_unfold concat_map_singleton)
  qed
  have len: "length moves = length ts" using assms(1) by auto
  have "repatriation (ts ! i) (fst (snd (moves ! i))) (hd (snd (snd (moves ! i))))" if "i < length ts" for i
  proof -
    have "ts ! i = fst (moves ! i)" using that len assms(1) by (metis nth_map)
    then show ?thesis using one [of "moves ! i"] that len by auto
  qed
  then have "\<forall>i<length ts. repatriation (ts ! i) (map (\<lambda>mv. fst (snd mv)) moves ! i) (map (\<lambda>mv. hd (snd (snd mv))) moves ! i)"
    by (simp add: len)
  moreover have "map (\<lambda>(t, e, es). e) moves = map (\<lambda>mv. fst (snd mv)) moves" by (simp add: case_prod_unfold)
  ultimately show ?thesis
    unfolding es by (intro exI [of _ "map (\<lambda>mv. hd (snd (snd mv))) moves"] conjI) (simp_all only: len length_map)
qed

text \<open>What is left to move: nothing of what was moved, and nothing at all when the batch was not full.\<close>

lemma eligible_set:
  "t \<in> set (eligible limit d) \<Longrightarrow>
     t \<in> set (db_transactions d) \<and> tx_paymentChannel t = MOBILE_MONEY \<and> sweepable t \<and> sweeps_of d (tx_reference t) = []"
  unfolding eligible_def by (drule in_set_takeD) (simp add: ascending_by_set alreadySwept_iff)

lemma eligible_all:
  assumes "length (eligible limit d) < limit" "t \<in> set (db_transactions d)" "tx_paymentChannel t = MOBILE_MONEY"
    "sweepable t" "sweeps_of d (tx_reference t) = []"
  shows "t \<in> set (eligible limit d)"
proof -
  let ?all = "ascending_by tx_mobileMoneyConfirmedAt (filter (\<lambda>t. tx_paymentChannel t = MOBILE_MONEY \<and> sweepable t \<and>
      \<not> alreadySwept d (tx_reference t)) (db_transactions d))"
  have "length ?all \<le> limit" using assms(1) by (simp add: eligible_def)
  then have "eligible limit d = ?all" by (simp add: eligible_def)
  moreover have "t \<in> set ?all" unfolding ascending_by_set using assms(2-5) by (simp add: alreadySwept_iff)
  ultimately show ?thesis by simp
qed

lemma eligible_afterwards:
  assumes "db_transactions d' = db_transactions d" "prefix (db_events d) (db_events d')"
    and "list_all (\<lambda>t. sweeps_of d' (tx_reference t) \<noteq> []) (eligible limit d)"
  shows "set (eligible limit d) \<inter> set (eligible limit' d') = {}"
    "length (eligible limit d) < limit \<Longrightarrow> eligible limit' d' = []"
proof -
  show none: "set (eligible limit d) \<inter> set (eligible limit' d') = {}"
    using assms(3) by (auto simp: list_all_iff dest: eligible_set)
  assume partial: "length (eligible limit d) < limit"
  have "t \<in> set (eligible limit d)" if "t \<in> set (eligible limit' d')" for t
  proof (rule eligible_all [OF partial])
    show "sweeps_of d (tx_reference t) = []"
      using eligible_set [OF that] assms(2) by (auto simp: sweeps_of_def prefix_def filter_empty_conv)
  qed (use eligible_set [OF that] assms(1) in auto)
  then show "eligible limit' d' = []" using none by (cases "eligible limit' d'") auto
qed

section \<open>Properties\<close>

text \<open>
  C30. A sweep moves every row it examined, at most \<open>limit\<close> of them, and each exactly once. For every row in turn it records
  one fact \<^verbatim>\<open>SETTLEMENT_SWEPT\<close> with the amount collected and posts one balanced entry of that amount, in cents, that debits the
  settlement account and credits the float of the provider; nothing else is recorded or posted, no row changes, and the
  amount announced is the exact total. No later sweep examines a moved row again, and after a sweep whose batch was not
  full a second one finds nothing, answers zero and changes nothing. A reference that had at most one movement never gets a
  second one, also when the sweep stops half-way on an exception. The collected amounts are whole cents above zero, as the
  validation of the callbacks guarantees, and their total is within \<open>max_cents\<close>.
\<close>

theorem swept_exactly_once:
  assumes "sweep X limit w = (r, w')" "ledger_ok X (wd_db w)" "moved_once (wd_db w)"
    and "rows_ok (wd_db w)"
    and "list_all whole_cents (eligible limit (wd_db w))"
    and "sum_list (map collected (eligible limit (wd_db w))) \<le> max_cents"
  shows "moved_once (wd_db w') \<and> db_transactions (wd_db w') = db_transactions (wd_db w) \<and>
    (\<forall>out. r = Inr out \<longrightarrow> so_examined out = length (eligible limit (wd_db w)) \<and> so_examined out \<le> limit \<and> so_swept out = so_examined out \<and>
       so_amount out = of_cents (sum_list (map collected (eligible limit (wd_db w)))) \<and>
       (\<exists>facts entries. db_events (wd_db w') = db_events (wd_db w) @ facts \<and> db_entries (wd_db w') = db_entries (wd_db w) @ entries \<and>
          length facts = so_swept out \<and> length entries = so_swept out \<and>
          (\<forall>i < so_swept out. repatriation (eligible limit (wd_db w) ! i) (facts ! i) (entries ! i) \<and>
             journal_entries_balanced (entries ! i))) \<and>
       list_all (\<lambda>t. length (sweeps_of (wd_db w') (tx_reference t)) = 1) (eligible limit (wd_db w)) \<and>
       (\<forall>limit'. set (eligible limit (wd_db w)) \<inter> set (eligible limit' (wd_db w')) = {} \<and>
          (so_examined out < limit \<longrightarrow> sweep X limit' w' = (Inr \<lparr>so_examined = 0, so_swept = 0, so_amount = Fin 0\<rparr>, w'))))"
proof -
  let ?ts = "eligible limit (wd_db w)"
  obtain q v where fold: "fold_each (sweep_step X) ?ts (0, Fin 0) w = (q, v)" by (cases "fold_each (sweep_step X) ?ts (0, Fin 0) w")
  have res: "w' = v" "r = (case q of Inl err \<Rightarrow> Inl err | Inr (m, b) \<Rightarrow> Inr \<lparr>so_examined = length ?ts, so_swept = m, so_amount = b\<rparr>)"
    using assms(1) fold by (auto simp: sweep_def run_get_db run_bnd [of "fold_each _ _ _"] action_simps split: sum.splits)
  have safe: "moved_once (wd_db v)" "db_transactions (wd_db v) = db_transactions (wd_db w)"
    using sweep_fold_run [OF fold assms(2,3)] by auto
  show ?thesis
  proof (cases q)
    case (Inl err)
    then show ?thesis using safe res by simp
  next
    case (Inr mb)
    obtain m b where mb: "mb = (m, b)" by (cases mb)
    note el = eligible_to_move [OF rows_ok_references [OF assms(4)], of limit]
    obtain moves where m: "m = length ?ts" "b = foldl moved_amount (of_cents 0) ?ts" and moves: "map fst moves = ?ts" "list_all recorded_move moves"
      "db_events (wd_db v) = db_events (wd_db w) @ map (\<lambda>(t, e, es). e) moves"
      "db_entries (wd_db v) = db_entries (wd_db w) @ concat (map (\<lambda>(t, e, es). es) moves)"
      using sweep_fold_moves [OF fold [unfolded Inr mb] assms(2) el(1,2)] by auto
    obtain facts entries where lists: "facts = map (\<lambda>(t, e, es). e) moves" "concat (map (\<lambda>(t, e, es). es) moves) = entries"
      "length facts = length ?ts" "length entries = length ?ts"
      "\<forall>i<length ?ts. repatriation (?ts ! i) (facts ! i) (entries ! i)"
      using posted_moves [OF moves(1,2) el(3) assms(5,6)] by blast
    have amount: "b = of_cents (sum_list (map collected ?ts))" using moved_total [OF assms(5), of 0] assms(6) m(2) by simp
    have swept: "list_all (\<lambda>t. sweeps_of (wd_db v) (tx_reference t) \<noteq> []) ?ts"
      using moves(3) lists(1,3,5) by (auto simp: list_all_length sweeps_of_def filter_empty_conv repatriation_def intro!: bexI [OF _ nth_mem])
    then have once: "list_all (\<lambda>t. length (sweeps_of (wd_db v) (tx_reference t)) = 1) ?ts"
      using safe(1) by (auto simp: moved_once_def list_all_iff le_Suc_eq)
    have bal: "journal_entries_balanced (entries ! i)" if "i < length ?ts" for i
      using lists(5) that assms(5) repatriation_balanced by (auto simp: list_all_length)
    have after: "set ?ts \<inter> set (eligible limit' (wd_db v)) = {}" "length ?ts < limit \<Longrightarrow> eligible limit' (wd_db v) = []" for limit'
      using eligible_afterwards [OF safe(2) _ swept] moves(3) by simp_all
    have again: "sweep X limit' v = (Inr \<lparr>so_examined = 0, so_swept = 0, so_amount = Fin 0\<rparr>, v)" if "length ?ts < limit" for limit'
      using after(2) [OF that] by (simp add: sweep_def action_simps)
    show ?thesis
      using safe res Inr mb m(1) amount moves(3,4) lists bal once after(1) again by (auto simp: eligible_def)
  qed
qed

text \<open>A collection that was delivered, matched and closed, and is then moved.\<close>

definition sample_delivered :: Transaction where
  "sample_delivered = sample_transaction
     \<lparr>tx_status := Tx_COMPLETED, tx_providerStatus := Some Prov_CONFIRMED, tx_bankStatus := Some Bank_COMPLETED,
      tx_reconciliationStatus := Some Recon_MATCHED, tx_aggregatorAmount := Some (of_cents 125075),
      tx_aggregatorCurrency := Some ''CDF'', tx_feeAmount := of_cents 1876\<rparr>"

lemma sample_delivered_fields [simp]:
  "tx_reference sample_delivered = tx_reference sample_transaction" "sweepable sample_delivered"
  "tx_aggregatorAmount sample_delivered = Some (of_cents 125075)" "tx_amount sample_delivered = of_cents 125075"
  "tx_feeAmount sample_delivered = of_cents 1876" "tx_paymentChannel sample_delivered = MOBILE_MONEY"
  by (simp_all add: sample_delivered_def sweepable_def sample_transaction_def)

lemma delivered_rows_ok: "db_transactions d = [sample_delivered] \<Longrightarrow> rows_ok d"
  by (simp add: rows_ok_iff well_typed_row_def transaction_widths_def fits_def sample_delivered_def
      sample_transaction_def stateOf_def checks_transactions_state_def CHK_transactions_defs sql_defs)

lemma sample_closed:
  "\<exists>w :: world. db_transactions (wd_db w) = [sample_delivered] \<and> ledger_ok sample_externals (wd_db w) \<and>
     closings (findChain (wd_db w) (tx_reference sample_transaction)) \<noteq> 0 \<and>
     (\<forall>reference. sweeps_of (wd_db w) reference = []) \<and>
     recordable sample_externals (sweep_fact sample_delivered (of_cents 125075)) w"
proof -
  let ?ref = "tx_reference sample_transaction" and ?fact = "sweep_fact sample_delivered (of_cents 125075)"
  obtain p e and v :: world where v: "wd_db v = append_event e (append_event p (wd_db sample_world))"
    "ledger_ok sample_externals (wd_db v)" "findChain (wd_db v) ?ref = [p, e]" "ev_eventType e = CASE_CLOSED"
    "prepared sample_externals (fact PAYMENT_INITIATED sample_transaction) None p"
    "ev_id p = randomUUID sample_externals 0" "ev_id e = randomUUID sample_externals 1"
    using sample_closing by blast
  define w where "w = v\<lparr>wd_db := (wd_db v)\<lparr>db_transactions := [sample_delivered]\<rparr>, wd_draws := 2\<rparr>"
  have ev: "db_events (wd_db w) = [p, e]" "db_entries (wd_db w) = []" "db_transactions (wd_db w) = [sample_delivered]"
    "wd_draws w = 2"
    using v(1) by (simp_all add: w_def append_event_def sample_world_def empty_db_def)
  have same: "db_events (wd_db w) = db_events (wd_db v)" by (simp add: w_def)
  have ok: "ledger_ok sample_externals (wd_db w)" "findChain (wd_db w) ?ref = [p, e]"
    using v(2,3) ledger_ok_events [OF same] findChain_events [OF same] by simp_all
  have ty: "ev_eventType p = PAYMENT_INITIATED" using v(5) by (simp add: prepared_def fact_def)
  have "length (ev_id p) = 0" "length (ev_id e) = 1" using v(6,7) by simp_all
  then have "\<forall>r\<in>set (db_events (wd_db w)). ev_id r \<noteq> randomUUID sample_externals n" if "wd_draws w \<le> n" for n
    using that ev by (auto dest: arg_cong [of _ _ length])
  then have "store_ready sample_externals w" using ok(1) ev(2) by (simp add: store_ready_def sample_services)
  moreover have "fact_fits sample_externals ?fact w"
  proof -
    have "length (toFixed2 (of_cents 125075)) \<le> 20"
      by (simp add: toFixed2_cents fixed2_digits_def nat_dec.simps [of 1250] nat_dec.simps [of 125] nat_dec.simps [of 12] nat_dec.simps [of "Suc 0"])
    then show ?thesis
      using ok(2) sample_amount_storable
      by (simp add: fact_fits_def Let_def correlation_of_def sweep_fact_def fact_def OPENING_EVENTS_def short_fits)
         (simp add: sample_delivered_def sample_transaction_def short_fits)
  qed
  moreover have "amounts_ok ?fact"
  proof -
    have "cents_ok 125075 (Some 125075) 1876" by (simp add: cents_ok_def)
    then show ?thesis unfolding amounts_ok_def
      by (intro impI exI [of _ 125075] exI [of _ "Some 125075"] exI [of _ 1876]) (simp add: sweep_fact_def fact_def)
  qed
  ultimately have "recordable sample_externals ?fact w"
    using ok ev by (simp add: recordable_def sweep_fact_def fact_def)
  moreover have "\<forall>reference. sweeps_of (wd_db w) reference = []" using ev ty v(4) by (simp add: sweeps_of_def)
  moreover have "closings (findChain (wd_db w) ?ref) \<noteq> 0" using ok(2) v(4) by (simp add: closings_def)
  ultimately show ?thesis using ok(1) ev(3) by blast
qed

lemma sample_sweep_one:
  assumes "db_transactions (wd_db w) = [sample_delivered]" "sweeps_of (wd_db w) (tx_reference sample_transaction) = []"
    and "recordable sample_externals (sweep_fact sample_delivered (of_cents 125075)) w"
  shows "\<exists>w'. sweep_one sample_externals (tx_reference sample_transaction) w = (Inr (Some (of_cents 125075)), w')"
proof -
  obtain e w' where rec: "record_event sample_externals True (sweep_fact sample_delivered (of_cents 125075)) [] w = (Inr e, w')"
    "list_all journal_entries_balanced (db_entries (wd_db w'))"
    using record_succeeds [OF assms(3)] by fastforce
  have "sweep_current sample_externals sample_delivered w = (Inr (Some (of_cents 125075)), w')"
    using assms(2) rec(1) by (simp add: sweep_current_def run_get_db alreadySwept_iff Let_def run_bnd [of "record_event _ _ _ _"] action_simps)
  then show ?thesis
    using assms(1) rec(2)
    by (auto simp: sweep_one_def transaction_def repo_findByReference_def action_simps new_entries_def list_all_iff dest: in_set_dropD)
qed

lemma sample_whole_cents: "collected sample_delivered = 125075" "whole_cents sample_delivered"
  using store_numeric_cents [of 125075] by (simp_all add: whole_cents_def collected_def)

lemma sample_sweep:
  assumes "db_transactions (wd_db w) = [sample_delivered]" "ledger_ok sample_externals (wd_db w)"
    and "\<forall>reference. sweeps_of (wd_db w) reference = []"
    and "recordable sample_externals (sweep_fact sample_delivered (of_cents 125075)) w"
  shows "eligible 100 (wd_db w) = [sample_delivered]"
    "\<exists>out v e en. sweep sample_externals 100 w = (Inr out, v) \<and> db_entries (wd_db v) = db_entries (wd_db w) @ [en] \<and>
       repatriation sample_delivered e en"
proof -
  show el: "eligible 100 (wd_db w) = [sample_delivered]"
    using assms(1,3) by (simp add: eligible_def ascending_by_def alreadySwept_iff)
  obtain v where one: "sweep_one sample_externals (tx_reference sample_delivered) w = (Inr (Some (of_cents 125075)), v)"
    using sample_sweep_one [OF assms(1) _ assms(4)] assms(3) by auto
  then have run: "\<exists>out. sweep sample_externals 100 w = (Inr out, v)"
    by (auto simp: sweep_def run_get_db el run_bnd [of "fold_each _ _ _"] run_bnd [of "sweep_step _ _ _"] action_simps sweep_step_run(2) [OF one])
  have row: "row_of (wd_db w) (tx_reference sample_delivered) = Some sample_delivered" using assms(1) by (simp add: row_of_def)
  obtain e es where "db_entries (wd_db v) = db_entries (wd_db w) @ es" "recorded_move (sample_delivered, e, es)"
    using sweep_one_run [OF one assms(2)] row by (auto simp: one_swept_def swept_row_def recorded_move_def)
  then show "\<exists>out v e en. sweep sample_externals 100 w = (Inr out, v) \<and> db_entries (wd_db v) = db_entries (wd_db w) @ [en] \<and>
       repatriation sample_delivered e en"
    using recorded_move_posts [of sample_delivered e es] sample_whole_cents run by auto
qed

theorem swept_exactly_once_witness:
  "\<exists>(w :: world) out w' en. sweep sample_externals 100 w = (Inr out, w') \<and> so_swept out = 1 \<and> so_amount out = of_cents 125075 \<and>
     db_entries (wd_db w') = db_entries (wd_db w) @ [en] \<and> journal_entries_balanced en \<and> debits_of (je_lines en) = 125075 \<and>
     sweep sample_externals 100 w' = (Inr \<lparr>so_examined = 0, so_swept = 0, so_amount = Fin 0\<rparr>, w')"
proof -
  obtain w :: world where w: "db_transactions (wd_db w) = [sample_delivered]" "ledger_ok sample_externals (wd_db w)"
    "\<forall>reference. sweeps_of (wd_db w) reference = []"
    "recordable sample_externals (sweep_fact sample_delivered (of_cents 125075)) w"
    using sample_closed by blast
  note el = sample_sweep(1) [OF w]
  obtain out v where run: "sweep sample_externals 100 w = (Inr out, v)" using sample_sweep(2) [OF w] by blast
  have "moved_once (wd_db w)" using w(3) by (simp add: moved_once_def)
  note did = swept_exactly_once [OF run w(2) this delivered_rows_ok [OF w(1)], unfolded el]
  then obtain facts entries where l: "db_entries (wd_db v) = db_entries (wd_db w) @ entries" "length entries = 1" "so_swept out = 1"
    "so_amount out = of_cents 125075" "repatriation sample_delivered (facts ! 0) (entries ! 0)" "journal_entries_balanced (entries ! 0)"
    "sweep sample_externals 100 v = (Inr \<lparr>so_examined = 0, so_swept = 0, so_amount = Fin 0\<rparr>, v)"
    using sample_whole_cents by auto
  then obtain en where en: "entries = [en]" by (cases entries) auto
  have "debits_of (je_lines en) = 125075" using l(5) en sample_whole_cents by (simp add: repatriation_def debits_of_def)
  then show ?thesis using run l en by auto
qed

text \<open>
  A movement recorded after the closing event, which every matched collection has, makes the verification of that
  collection cry alteration: the closing event is no longer the last fact, nor the number it declares theirs.
\<close>

theorem sweep_after_closing_alarms:
  assumes "ethers_ok (ethers_of X)" "ledger_ok X (wd_db w)" "closings (findChain (wd_db w) reference) \<noteq> 0"
    and "sweep_one X reference w = (Inr (Some a), w')"
  shows "\<exists>rep v. verify X N u reference w' = (Inr rep, v) \<and> cr_verdict rep = Verdict_TAMPERED"
proof -
  obtain e t where e: "findChain (wd_db w') reference = findChain (wd_db w) reference @ [e]" "ev_eventType e = SETTLEMENT_SWEPT"
    "row_of (wd_db w) reference = Some t" "ledger_ok X (wd_db w')" "db_transactions (wd_db w') = db_transactions (wd_db w)"
    using sweep_one_run [OF assms(4,2)] by (auto simp: one_swept_def swept_row_def)
  then show ?thesis
    using fact_after_closing_alarms [OF assms(1) e(4) _ e(1)] assms(3) by (simp add: row_of_def is_closing_def)
qed

theorem sweep_after_closing_alarms_witness:
  "\<exists>(w :: world) w' rep v. sweep_one sample_externals ''MM-1'' w = (Inr (Some (of_cents 125075)), w') \<and>
     verify sample_externals sample_node None ''MM-1'' w' = (Inr rep, v) \<and> cr_verdict rep = Verdict_TAMPERED"
proof -
  have ref: "tx_reference sample_transaction = ''MM-1''" by (simp add: sample_transaction_def)
  obtain w :: world where w: "db_transactions (wd_db w) = [sample_delivered]" "ledger_ok sample_externals (wd_db w)"
    "closings (findChain (wd_db w) ''MM-1'') \<noteq> 0" "\<forall>reference. sweeps_of (wd_db w) reference = []"
    "recordable sample_externals (sweep_fact sample_delivered (of_cents 125075)) w"
    using sample_closed unfolding ref by blast
  obtain w' where one: "sweep_one sample_externals ''MM-1'' w = (Inr (Some (of_cents 125075)), w')"
    using sample_sweep_one [OF w(1) _ w(5)] w(4) unfolding ref by blast
  have "ethers_ok (ethers_of sample_externals)" by (simp add: sample_ethers_ok)
  from sweep_after_closing_alarms [OF this w(2,3) one, of sample_node None] show ?thesis using one by blast
qed

end
