(* ===== verification/Webhook.thy ===== *)
theory Webhook
  imports Mobile_Money
begin

text \<open>
  The callbacks of the aggregator and the execution of the bank instructions
  (\<^verbatim>\<open>mobile-money/mobile-money-webhook.service.ts\<close>, \<^verbatim>\<open>mobile-money/bank-instruction.worker.ts\<close>): signature,
  deduplication, confirmation, then the queue with its leases, attempts and dead letters. The audit trail
  and the metrics observe and are left out.
\<close>

section \<open>The signed payload\<close>

fun text_of_MobileMoneyWebhookStatus :: "MobileMoneyWebhookStatus \<Rightarrow> string" where
  "text_of_MobileMoneyWebhookStatus Webhook_CONFIRMED = ''CONFIRMED''"
| "text_of_MobileMoneyWebhookStatus Webhook_FAILED = ''FAILED''"

definition payload_fields :: "MobileMoneyWebhookDto \<Rightarrow> string list" where
  "payload_fields p =
     [wh_eventId p, wh_aggregatorReference p, text_of_MobileMoneyWebhookStatus (wh_status p),
      toFixed2 (wh_amount p), wh_currency p, wh_occurredAt p, (case wh_failureReason p of Some r \<Rightarrow> r | None \<Rightarrow> [])]"

definition canonicalPayload :: "MobileMoneyWebhookDto \<Rightarrow> string" where
  "canonicalPayload p = join ''|'' (map (\<lambda>v. nat_dec (length v) @ '':'' @ v) (payload_fields p))"

definition sign :: "externals \<Rightarrow> settings \<Rightarrow> MobileMoneyWebhookDto \<Rightarrow> string" where
  "sign X C payload = ''sha256='' @ hmac_sha256 X (cf_webhookSecret C) (canonicalPayload payload)"

definition verifySignature :: "externals \<Rightarrow> settings \<Rightarrow> MobileMoneyWebhookDto \<Rightarrow> string \<Rightarrow> unit io" where
  "verifySignature X C payload signature =
     (if length signature \<noteq> length (sign X C payload) \<or> signature \<noteq> sign X C payload
      then throw (HttpException Unauthorized ''INVALID_WEBHOOK_SIGNATURE'') else ret ())"

section \<open>The table of callbacks\<close>

definition put_webhook :: "MobileMoneyWebhookEvent \<Rightarrow> db \<Rightarrow> db" where
  "put_webhook e d = d\<lparr>db_webhooks := map (\<lambda>r. if we_id r = we_id e then e else r) (db_webhooks d)\<rparr>"

definition insert_webhook :: "externals \<Rightarrow> MobileMoneyWebhookDto \<Rightarrow> MobileMoneyWebhookEvent io" where
  "insert_webhook X payload =
     bnd (draw (randomUUID X)) (\<lambda>row_id.
     bnd (draw (clock X)) (\<lambda>now.
     bnd get_db (\<lambda>d.
       if list_ex (\<lambda>r. we_eventId r = wh_eventId payload) (db_webhooks d)
       then throw (unique_violation ''UQ_mobile_money_webhook_events_event_id'')
       else
         let e = \<lparr>we_id = row_id, we_eventId = wh_eventId payload, we_aggregatorReference = wh_aggregatorReference payload,
                  we_processingStatus = Hook_RECEIVED, we_payload = payload, we_failureReason = None,
                  we_processedAt = None, we_createdAt = now, we_updatedAt = now\<rparr> in
         bnd (modifies (on_db (\<lambda>d. d\<lparr>db_webhooks := db_webhooks d @ [e]\<rparr>))) (\<lambda>_. ret e))))"

definition save_webhook :: "externals \<Rightarrow> MobileMoneyWebhookEvent \<Rightarrow> unit io" where
  "save_webhook X e =
     bnd (draw (clock X)) (\<lambda>now. modifies (on_db (put_webhook (e\<lparr>we_updatedAt := now\<rparr>))))"

definition webhook_isUniqueViolation :: "exn \<Rightarrow> bool" where
  "webhook_isUniqueViolation error =
     (case error of QueryFailed code constraint \<Rightarrow> code = ''23505'' | _ \<Rightarrow> False)"

definition STALE_CLAIM_MS :: int where
  "STALE_CLAIM_MS = 5 * 60000"

definition isClaimExpired :: "externals \<Rightarrow> MobileMoneyWebhookEvent \<Rightarrow> bool io" where
  "isClaimExpired X event =
     bnd (draw (clock X)) (\<lambda>now. ret (now - we_updatedAt event > STALE_CLAIM_MS))"

text \<open>The stored callback with the same identifier, refused when its content differs.\<close>

definition same_callback :: "MobileMoneyWebhookDto \<Rightarrow> MobileMoneyWebhookEvent io" where
  "same_callback payload =
     bnd get_db (\<lambda>d.
       case find (\<lambda>r. we_eventId r = wh_eventId payload) (db_webhooks d) of
         None \<Rightarrow> throw EntityNotFound
       | Some event \<Rightarrow>
           if we_aggregatorReference event \<noteq> wh_aggregatorReference payload \<or>
              canonicalPayload (we_payload event) \<noteq> canonicalPayload payload
           then throw (HttpException Conflict ''WEBHOOK_EVENT_CONFLICT'')
           else ret event)"

text \<open>The update that claims the callback, and the callback as its caller then sees it.\<close>

definition claim_webhook :: "externals \<Rightarrow> MobileMoneyWebhookEvent \<Rightarrow> (MobileMoneyWebhookEvent \<times> bool) io" where
  "claim_webhook X event =
     bnd (draw (clock X)) (\<lambda>now.
     bnd get_db (\<lambda>d.
       case find (\<lambda>r. we_id r = we_id event \<and> we_processingStatus r = we_processingStatus event) (db_webhooks d) of
         None \<Rightarrow>
           (case find (\<lambda>r. we_id r = we_id event) (db_webhooks d) of
              None \<Rightarrow> throw EntityNotFound | Some r \<Rightarrow> ret (r, False))
       | Some r \<Rightarrow>
           bnd (modifies (on_db (put_webhook (r\<lparr>we_processingStatus := Hook_PROCESSING, we_failureReason := None,
                                               we_updatedAt := now\<rparr>)))) (\<lambda>_.
           ret (event\<lparr>we_processingStatus := Hook_PROCESSING\<rparr>, True))))"

definition registerAndClaim :: "externals \<Rightarrow> MobileMoneyWebhookDto \<Rightarrow> (MobileMoneyWebhookEvent \<times> bool) io" where
  "registerAndClaim X payload =
     bnd (catching (insert_webhook X payload) (\<lambda>error.
            if webhook_isUniqueViolation error then same_callback payload else throw error)) (\<lambda>event.
       if we_processingStatus event = Hook_PROCESSED then ret (event, False)
       else
         bnd (if we_processingStatus event = Hook_PROCESSING
              then bnd (isClaimExpired X event) (\<lambda>expired. ret (\<not> expired)) else ret False) (\<lambda>in_progress.
         if in_progress then ret (event, False) else claim_webhook X event))"

section \<open>Handling a callback\<close>

definition handleConfirmation :: "externals \<Rightarrow> settings \<Rightarrow> Transaction \<Rightarrow> MobileMoneyWebhookDto \<Rightarrow> Transaction io" where
  "handleConfirmation X C t payload =
     bnd (confirmAndClaimBankProcessing X C t payload) (\<lambda>(claimed_tx, claimed).
       if \<not> claimed \<and> tx_reconciliationStatus claimed_tx = Some Recon_MATCHED
       then reconcile_value X claimed_tx else ret claimed_tx)"

text \<open>The guarded region of a claimed callback: every failure releases the claim.\<close>

definition handle_claimed :: "externals \<Rightarrow> settings \<Rightarrow> MobileMoneyWebhookDto \<Rightarrow> MobileMoneyWebhookEvent \<Rightarrow> Transaction io" where
  "handle_claimed X C payload event =
     catching
       (bnd (mm_findByAggregatorReference (wh_aggregatorReference payload)) (\<lambda>current.
        bnd (if wh_status payload = Webhook_FAILED then markProviderFailed X current payload
             else handleConfirmation X C current payload) (\<lambda>result.
        bnd (draw (clock X)) (\<lambda>now.
        bnd (save_webhook X (event\<lparr>we_processingStatus := Hook_PROCESSED, we_processedAt := Some now,
                                   we_failureReason := None\<rparr>)) (\<lambda>_.
        ret result)))))
       (\<lambda>error.
        bnd (save_webhook X (event\<lparr>we_processingStatus := Hook_FAILED,
               we_failureReason := Some (js_slice 1024 (message_of X error))\<rparr>)) (\<lambda>_.
        throw error))"

definition handle :: "externals \<Rightarrow> settings \<Rightarrow> MobileMoneyWebhookDto \<Rightarrow> string \<Rightarrow> Transaction io" where
  "handle X C payload signature =
     bnd (verifySignature X C payload signature) (\<lambda>_.
     bnd (registerAndClaim X payload) (\<lambda>(event, claimed).
       if \<not> claimed then mm_findByAggregatorReference (wh_aggregatorReference payload)
       else handle_claimed X C payload event))"

section \<open>Executing a bank instruction\<close>

text \<open>
  The entity handed to \<^verbatim>\<open>executeBankInstruction\<close> is changed in place, and the worker goes on with it after a
  failure: the functions return the entity as they leave it, and the outcome.
\<close>

definition success_update :: "string \<Rightarrow> exchange \<Rightarrow> date \<Rightarrow> Transaction \<Rightarrow> Transaction" where
  "success_update words exch now t =
     t\<lparr>tx_status := Tx_COMPLETED, tx_bankStatus := Some Bank_COMPLETED, tx_amountInWords := Some words,
       tx_soapOperation := Some (ex_operation exch), tx_soapDurationMs := Some (ex_durationMs exch),
       tx_soapAttempts := Some (ex_attempts exch), tx_processedAt := Some now\<rparr>"

definition complete_bank :: "externals \<Rightarrow> TransactionState \<Rightarrow> exchange \<Rightarrow> Transaction \<Rightarrow> Transaction io" where
  "complete_bank X before exch t =
     transaction
       (bnd (save_transaction X t) (\<lambda>persisted.
        bnd (assert_transition before persisted) (\<lambda>_.
        bnd (record_event X True ((fact BANK_PROCESSING_COMPLETED persisted)\<lparr>re_detail :=
               Some (''Instruction bancaire executee en '' @ int_dec (ex_durationMs exch) @ '' ms'')\<rparr>) []) (\<lambda>_.
        ret persisted))))"

definition applyBankSuccess ::
  "externals \<Rightarrow> Transaction \<Rightarrow> TransactionState \<Rightarrow> string \<Rightarrow> exchange \<Rightarrow> (Transaction \<times> (exn + Transaction)) io" where
  "applyBankSuccess X t before words exch =
     bnd (draw (clock X)) (\<lambda>now.
       let t' = success_update words exch now t in
       bnd (observing (complete_bank X before exch t')) (\<lambda>r.
         case r of Inl e \<Rightarrow> ret (t', Inl e) | Inr completed \<Rightarrow> reconcile X completed))"

definition bank_failure_update :: "externals \<Rightarrow> exn \<Rightarrow> date \<Rightarrow> Transaction \<Rightarrow> Transaction" where
  "bank_failure_update X error now t =
     (let t' = t\<lparr>tx_status := Tx_FAILED, tx_bankStatus := Some Bank_FAILED,
                 tx_reconciliationStatus := Some Recon_MANUAL_REVIEW,
                 tx_reconciliationReason := Some ''Confirmation Mobile Money recue mais echec du traitement bancaire SOAP'',
                 tx_failureReason := Some (message_of X error), tx_processedAt := Some now,
                 tx_refundStatus := Refund_REQUIRED, tx_caseStatus := Case_MANUAL_REVIEW,
                 tx_caseReason := Some (''Encaissement fournisseur confirme, instruction bancaire en echec : '' @
                   ''remboursement du payeur a instruire'')\<rparr> in
      case error of
        SoapFault operation faultCode faultString \<Rightarrow>
          t'\<lparr>tx_soapOperation := Some operation, tx_faultCode := Some faultCode, tx_faultString := Some faultString\<rparr>
      | SoapCommunication operation timedOut attempts \<Rightarrow>
          t'\<lparr>tx_soapOperation := Some operation, tx_soapAttempts := Some (int attempts)\<rparr>
      | _ \<Rightarrow> t')"

text \<open>The failure and the debt it opens, written together; the dead letter ends the same way.\<close>

definition open_debt :: "externals \<Rightarrow> TransactionState \<Rightarrow> Transaction \<Rightarrow> Transaction io" where
  "open_debt X before t =
     bnd (save_transaction X t) (\<lambda>failed.
     bnd (assert_transition before failed) (\<lambda>_.
     bnd (record_event X True ((fact BANK_PROCESSING_FAILED failed)\<lparr>re_detail := tx_failureReason failed\<rparr>) []) (\<lambda>_.
     bnd (record_event X True ((fact CASE_OPENED failed)\<lparr>re_detail := tx_caseReason failed\<rparr>) []) (\<lambda>_.
     ret failed))))"

definition handleBankFailure ::
  "externals \<Rightarrow> Transaction \<Rightarrow> TransactionState \<Rightarrow> exn \<Rightarrow> (Transaction \<times> (exn + Transaction)) io" where
  "handleBankFailure X t before error =
     bnd (draw (clock X)) (\<lambda>now.
       let t' = bank_failure_update X error now t in
       bnd (observing (transaction (open_debt X before t'))) (\<lambda>r. ret (written t' r)))"

definition is_fault :: "exn \<Rightarrow> bool" where
  "is_fault e = (case e of SoapFault _ _ _ \<Rightarrow> True | _ \<Rightarrow> False)"

text \<open>The call to the back office, and its trace.\<close>

definition call_bank :: "externals \<Rightarrow> Transaction \<Rightarrow> (exn + string \<times> exchange) io" where
  "call_bank X t =
     bnd (draw (convertAmountToWords X)) (\<lambda>answer.
     bnd (modifies (\<lambda>w. w\<lparr>wd_bank_calls := wd_bank_calls w @ [(tx_reference t, tx_amount t)]\<rparr>)) (\<lambda>_.
     ret (answer (tx_amount t))))"

definition executeBankInstruction :: "externals \<Rightarrow> Transaction \<Rightarrow> (Transaction \<times> (exn + Transaction)) io" where
  "executeBankInstruction X t =
     bnd (call_bank X t) (\<lambda>answer.
       case answer of
         Inl error \<Rightarrow> if is_fault error then handleBankFailure X t (stateOf t) error else ret (t, Inl error)
       | Inr (words, exch) \<Rightarrow> applyBankSuccess X t (stateOf t) words exch)"

section \<open>The contract of the register is kept\<close>

context store_contract
begin

lemma keeps_callbacks:
  "keeps (db_inv P) (verifySignature X C payload signature)" "keeps (db_inv P) (registerAndClaim X payload)"
  "keeps (db_inv P) (save_webhook X e)"
  unfolding verifySignature_def registerAndClaim_def insert_webhook_def same_callback_def claim_webhook_def
    isClaimExpired_def save_webhook_def
  by (intro keeps_intros keeps_write; simp add: put_webhook_def)+

lemma keeps_handle: "keeps (db_inv P) (handle X C payload signature)"
  unfolding handle_def handle_claimed_def handleConfirmation_def reconcile_value_def
  by (intro keeps_intros keeps_callbacks keeps_provider keeps_reconcile)

lemma keeps_open_debt: "keeps (db_inv (Q d0)) (open_debt X before t)"
  unfolding open_debt_def by (intro keeps_intros keeps_inside)

lemma keeps_call_bank: "keeps (db_inv P) (call_bank X t)"
  unfolding call_bank_def by (intro keeps_intros) (simp add: db_inv_def)

lemma keeps_execute: "keeps (db_inv P) (executeBankInstruction X t)"
proof -
  have "keeps (db_inv P) (complete_bank X before exch t')" for before exch t'
    unfolding complete_bank_def by (intro keeps_commit keeps_intros keeps_inside)
  then show ?thesis
    unfolding executeBankInstruction_def applyBankSuccess_def handleBankFailure_def
    by (intro keeps_intros keeps_call_bank keeps_reconcile keeps_commit keeps_open_debt)
qed

end

section \<open>Properties\<close>

text \<open>
  Reading the signed text back: the decimal length, a colon, that many bytes, a separator.
\<close>

fun parse_fields :: "nat \<Rightarrow> string \<Rightarrow> string list" where
  "parse_fields 0 s = []"
| "parse_fields (Suc n) s =
     (let ds = takeWhile is_digit s; body = drop (length ds + 1) s; k = dec_value ds in
      take k body # parse_fields n (drop (k + 1) body))"

lemma nat_dec_digits: "list_all is_digit (nat_dec n)"
proof (induction n rule: nat_dec.induct)
  case (1 n)
  have "is_digit (digit_char k)" if "k < 10" for k
    using that by (auto simp: is_digit_def digit_char_def less_eq_char_def of_char_of)
  then show ?case using 1 by (subst nat_dec.simps) auto
qed

lemma takeWhile_nat_dec: "takeWhile is_digit (nat_dec n @ CHR '':'' # s) = nat_dec n"
proof -
  have "takeWhile is_digit (xs @ CHR '':'' # s) = xs" if "list_all is_digit xs" for xs
    using that by (induction xs) (auto simp: is_digit_def)
  then show ?thesis using nat_dec_digits by blast
qed

lemma parse_step: "parse_fields (Suc n) (nat_dec (length x) @ CHR '':'' # x @ s) = x # parse_fields n (drop 1 s)"
  by (simp add: takeWhile_nat_dec dec_value_nat_dec Let_def)

declare parse_fields.simps(2) [simp del]

lemma parse_joined:
  "parse_fields (length fs) (join ''|'' (map (\<lambda>v. nat_dec (length v) @ '':'' @ v) fs)) = fs"
proof (induction fs rule: induct_list012)
  case (2 x)
  show ?case using parse_step [of 0 x "[]"] by simp
next
  case (3 x y ys)
  define rest where "rest = join ''|'' (map (\<lambda>v. nat_dec (length v) @ '':'' @ v) (y # ys))"
  have "join ''|'' (map (\<lambda>v. nat_dec (length v) @ '':'' @ v) (x # y # ys)) = nat_dec (length x) @ CHR '':'' # x @ ''|'' @ rest"
    by (simp add: rest_def)
  then show ?case using parse_step [of "length (y # ys)" x "''|'' @ rest"] 3(2) by (simp add: rest_def)
qed simp

text \<open>
  C24. The text that callbacks are signed over can be read back: cutting it by the announced lengths returns
  exactly the seven signed fields, whatever characters they hold, so no two callbacks that differ in
  a field share the signed text.
\<close>

theorem signed_text_roundtrip: "parse_fields 7 (canonicalPayload payload) = payload_fields payload"
proof -
  have "length (payload_fields payload) = 7" by (simp add: payload_fields_def)
  then show ?thesis using parse_joined [of "payload_fields payload"] by (simp add: canonicalPayload_def)
qed

lemma canonicalPayload_inj: "canonicalPayload p = canonicalPayload q \<Longrightarrow> payload_fields p = payload_fields q"
proof -
  have len: "length (payload_fields p) = length (payload_fields q)" for p q by (simp add: payload_fields_def)
  show "canonicalPayload p = canonicalPayload q \<Longrightarrow> payload_fields p = payload_fields q"
    using parse_joined [of "payload_fields p"] parse_joined [of "payload_fields q"] len [of p q]
    by (simp add: canonicalPayload_def)
qed

text \<open>
  C25. A signature serves its own callback only. Presented with any other content, even one that moves the
  boundary between two fields, it is refused with 401 before anything is read or written, unless the two
  signed texts are an explicit collision of the HMAC.
\<close>

theorem transplanted_signature_refused:
  assumes "payload_fields payload \<noteq> payload_fields genuine"
  shows "handle X C payload (sign X C genuine) w = (Inl (HttpException Unauthorized ''INVALID_WEBHOOK_SIGNATURE''), w) \<or>
    (canonicalPayload payload \<noteq> canonicalPayload genuine \<and>
     hmac_sha256 X (cf_webhookSecret C) (canonicalPayload payload) =
     hmac_sha256 X (cf_webhookSecret C) (canonicalPayload genuine))"
proof (cases "sign X C genuine = sign X C payload")
  case True
  then have "hmac_sha256 X (cf_webhookSecret C) (canonicalPayload payload) = hmac_sha256 X (cf_webhookSecret C) (canonicalPayload genuine)"
    by (simp add: sign_def)
  then show ?thesis using assms canonicalPayload_inj by blast
next
  case False
  then show ?thesis by (simp add: handle_def verifySignature_def action_simps)
qed

definition sample_callback :: MobileMoneyWebhookDto where
  "sample_callback = \<lparr>wh_eventId = ''EVT-1'', wh_aggregatorReference = ''AGG-1'', wh_status = Webhook_CONFIRMED,
     wh_amount = of_cents 125075, wh_currency = ''CDF'', wh_occurredAt = ''2026-07-25T10:12:33.827Z'', wh_failureReason = None\<rparr>"

theorem transplanted_signature_refused_witness:
  "handle sample_externals sample_settings (sample_callback\<lparr>wh_eventId := ''EVT-1|A'', wh_aggregatorReference := ''GG-1''\<rparr>)
     (sign sample_externals sample_settings sample_callback) sample_world =
   (Inl (HttpException Unauthorized ''INVALID_WEBHOOK_SIGNATURE''), sample_world)"
proof -
  let ?moved = "sample_callback\<lparr>wh_eventId := ''EVT-1|A'', wh_aggregatorReference := ''GG-1''\<rparr>"
  have "payload_fields ?moved \<noteq> payload_fields sample_callback" by (simp add: payload_fields_def sample_callback_def)
  from transplanted_signature_refused [OF this, of sample_externals sample_settings sample_world]
  show ?thesis by (simp add: sample_externals_def)
qed

text \<open>A callback that is known and processed, or being processed, is not claimed again.\<close>

lemma replayed_registration:
  assumes "find (\<lambda>r. we_eventId r = wh_eventId payload) (db_webhooks (wd_db w)) = Some stored"
    and "we_processingStatus stored = Hook_PROCESSED \<or>
         we_processingStatus stored = Hook_PROCESSING \<and>
           clock X (wd_draws w + 2) - we_updatedAt stored \<le> STALE_CLAIM_MS"
  shows "\<exists>n. registerAndClaim X payload w =
    (if we_aggregatorReference stored \<noteq> wh_aggregatorReference payload \<or> payload_fields (we_payload stored) \<noteq> payload_fields payload
     then Inl (HttpException Conflict ''WEBHOOK_EVENT_CONFLICT'') else Inr (stored, False), w\<lparr>wd_draws := n\<rparr>)"
proof -
  let ?d = "wd_db w" and ?other = "we_aggregatorReference stored \<noteq> wh_aggregatorReference payload \<or>
    payload_fields (we_payload stored) \<noteq> payload_fields payload"
  have known: "list_ex (\<lambda>r. we_eventId r = wh_eventId payload) (db_webhooks ?d)"
    using assms(1) by (auto simp: find_Some_iff list_ex_iff)
  have same: "canonicalPayload p = canonicalPayload q \<longleftrightarrow> payload_fields p = payload_fields q" for p q
    using canonicalPayload_inj by (auto simp: canonicalPayload_def)
  define w2 where "w2 = w\<lparr>wd_draws := wd_draws w + 2\<rparr>"
  have ins: "insert_webhook X payload w = (Inl (unique_violation ''UQ_mobile_money_webhook_events_event_id''), w2)"
    by (simp add: insert_webhook_def action_simps known w2_def)
  have taken: "same_callback payload w2 =
      (if ?other then Inl (HttpException Conflict ''WEBHOOK_EVENT_CONFLICT'') else Inr stored, w2)"
    by (simp add: same_callback_def action_simps w2_def assms(1) same)
  have caught: "catching (insert_webhook X payload) (\<lambda>error.
        if webhook_isUniqueViolation error then same_callback payload else throw error) w =
      (if ?other then Inl (HttpException Conflict ''WEBHOOK_EVENT_CONFLICT'') else Inr stored, w2)"
    using taken by (simp add: run_catching_Inl [of "insert_webhook X payload", OF ins] webhook_isUniqueViolation_def unique_violation_def)
  show ?thesis
  proof (cases ?other)
    case True
    then show ?thesis
      using caught by (auto simp: registerAndClaim_def run_bnd_Inl [of "catching _ _"] w2_def)
  next
    case False
    then have "catching (insert_webhook X payload) (\<lambda>error.
        if webhook_isUniqueViolation error then same_callback payload else throw error) w = (Inr stored, w2)"
      using caught by simp
    then show ?thesis
      using assms(2) False
      by (auto simp: registerAndClaim_def run_bnd_Inr [of "catching _ _"] run_bnd [of "Pair _"] isClaimExpired_def action_simps w2_def)
  qed
qed

text \<open>
  C26. A callback is taken once. When its identifier is stored and processed, or in process under a claim of
  five minutes at most, a genuine replay changes no table and calls no bank: it answers with the current
  payment, or with 409 when the content stored under the identifier is another one.
\<close>

theorem replayed_callback_is_inert:
  assumes "find (\<lambda>r. we_eventId r = wh_eventId payload) (db_webhooks (wd_db w)) = Some stored"
    and "we_processingStatus stored = Hook_PROCESSED \<or>
         we_processingStatus stored = Hook_PROCESSING \<and>
           clock X (wd_draws w + 2) - we_updatedAt stored \<le> STALE_CLAIM_MS"
  shows "\<exists>r w'. handle X C payload (sign X C payload) w = (r, w') \<and> wd_db w' = wd_db w \<and>
    wd_bank_calls w' = wd_bank_calls w \<and>
    r = (if we_aggregatorReference stored \<noteq> wh_aggregatorReference payload \<or>
            payload_fields (we_payload stored) \<noteq> payload_fields payload
         then Inl (HttpException Conflict ''WEBHOOK_EVENT_CONFLICT'')
         else fst (mm_findByAggregatorReference (wh_aggregatorReference payload) w))"
proof -
  let ?d = "wd_db w" and ?other = "we_aggregatorReference stored \<noteq> wh_aggregatorReference payload \<or>
    payload_fields (we_payload stored) \<noteq> payload_fields payload"
  have found: "mm_findByAggregatorReference a v = (fst (mm_findByAggregatorReference a w), v)"
    if "wd_db v = ?d" for a and v :: world
    using that by (auto simp: mm_findByAggregatorReference_def repo_findByAggregatorReference_def action_simps split: option.split)
  obtain n where n: "registerAndClaim X payload w =
      (if ?other then Inl (HttpException Conflict ''WEBHOOK_EVENT_CONFLICT'') else Inr (stored, False), w\<lparr>wd_draws := n\<rparr>)"
    using replayed_registration [OF assms] by blast
  have signed: "handle X C payload (sign X C payload) w = bnd (registerAndClaim X payload) (\<lambda>(event, claimed).
       if \<not> claimed then mm_findByAggregatorReference (wh_aggregatorReference payload) else handle_claimed X C payload event) w"
    by (simp add: handle_def handle_claimed_def verifySignature_def)
  show ?thesis
  proof (cases ?other)
    case True
    then show ?thesis using n by (simp add: signed run_bnd_Inl)
  next
    case False
    then have "handle X C payload (sign X C payload) w =
        mm_findByAggregatorReference (wh_aggregatorReference payload) (w\<lparr>wd_draws := n\<rparr>)"
      using n by (simp add: signed run_bnd_Inr)
    then show ?thesis using False found [of "w\<lparr>wd_draws := n\<rparr>" "wh_aggregatorReference payload"] by simp
  qed
qed

theorem replayed_callback_is_inert_witness:
  "\<exists>r w'. handle sample_externals sample_settings sample_callback (sign sample_externals sample_settings sample_callback)
       (sample_world\<lparr>wd_db := (wd_db sample_world)\<lparr>db_webhooks := [\<lparr>we_id = ''h1'', we_eventId = ''EVT-1'',
          we_aggregatorReference = ''AGG-1'', we_processingStatus = Hook_PROCESSED, we_payload = sample_callback,
          we_failureReason = None, we_processedAt = Some 0, we_createdAt = 0, we_updatedAt = 0\<rparr>]\<rparr>\<rparr>) = (r, w') \<and>
     r = Inr sample_transaction \<and> wd_bank_calls w' = []"
proof -
  define stored where "stored = \<lparr>we_id = ''h1'', we_eventId = ''EVT-1'', we_aggregatorReference = ''AGG-1'',
    we_processingStatus = Hook_PROCESSED, we_payload = sample_callback, we_failureReason = None, we_processedAt = Some 0,
    we_createdAt = 0, we_updatedAt = 0\<rparr>"
  define w where "w = sample_world\<lparr>wd_db := (wd_db sample_world)\<lparr>db_webhooks := [stored]\<rparr>\<rparr>"
  have found: "find (\<lambda>r. we_eventId r = wh_eventId sample_callback) (db_webhooks (wd_db w)) = Some stored"
    by (simp add: w_def stored_def sample_callback_def)
  have processed: "we_processingStatus stored = Hook_PROCESSED" by (simp add: stored_def)
  have same: "we_aggregatorReference stored = wh_aggregatorReference sample_callback" "we_payload stored = sample_callback"
    by (simp_all add: stored_def sample_callback_def)
  have "mm_findByAggregatorReference (wh_aggregatorReference sample_callback) w = (Inr sample_transaction, w)"
    by (simp add: mm_findByAggregatorReference_def repo_findByAggregatorReference_def action_simps w_def sample_world_def
        empty_db_def sample_callback_def sample_transaction_def)
  moreover have "wd_bank_calls w = []" by (simp add: w_def sample_world_def)
  ultimately show ?thesis
    using replayed_callback_is_inert [OF found disjI1 [OF processed], of sample_externals sample_settings] same
    unfolding w_def stored_def by auto
qed

end
