(* ===== verification/Bank_Worker.thy ===== *)
theory Bank_Worker
  imports Webhook
begin

text \<open>
  The worker that drains the bank instructions (\<^verbatim>\<open>mobile-money/bank-instruction.worker.ts\<close>): the claim
  of a due instruction under a lease, an attempt with its backoff, the dead letter that opens a debt, and
  the bounded drain. The scheduler that starts it periodically is not modelled.
\<close>

definition backoffMs :: "nat \<Rightarrow> int" where
  "backoffMs attempts = min (2 ^ attempts * 1000) 30000"

definition IN_FLIGHT_LEASE_MS :: int where
  "IN_FLIGHT_LEASE_MS = 5 * 60000"

record DrainOutcome =
  do_claimed :: nat
  do_completed :: nat
  do_deadLettered :: nat

datatype settlement = COMPLETED | RETRY | DEAD_LETTER

definition put_instruction :: "BankInstruction \<Rightarrow> db \<Rightarrow> db" where
  "put_instruction i d = d\<lparr>db_instructions := map (\<lambda>r. if bi_id r = bi_id i then i else r) (db_instructions d)\<rparr>"

definition save_instruction :: "externals \<Rightarrow> BankInstruction \<Rightarrow> BankInstruction io" where
  "save_instruction X i =
     bnd (draw (clock X)) (\<lambda>now.
     bnd (modifies (on_db (put_instruction (i\<lparr>bi_updatedAt := now\<rparr>)))) (\<lambda>_. ret (i\<lparr>bi_updatedAt := now\<rparr>)))"

definition claimable :: "date \<Rightarrow> date \<Rightarrow> BankInstruction \<Rightarrow> bool" where
  "claimable now leaseExpiredAt i \<longleftrightarrow>
     (bi_status i = Instr_PENDING \<and> bi_nextAttemptAt i \<le> now) \<or>
     (bi_status i = Instr_IN_FLIGHT \<and> bi_updatedAt i \<le> leaseExpiredAt)"

definition claimNext :: "externals \<Rightarrow> (BankInstruction \<times> Transaction) option io" where
  "claimNext X =
     transaction
       (bnd (draw (clock X)) (\<lambda>now.
        bnd (draw (clock X)) (\<lambda>now'.
        bnd get_db (\<lambda>d.
          case sort_key bi_nextAttemptAt (filter (claimable now (now' - IN_FLIGHT_LEASE_MS)) (db_instructions d)) of
            [] \<Rightarrow> ret None
          | i # _ \<Rightarrow>
              (case find (\<lambda>t. tx_reference t = bi_transactionReference i) (db_transactions d) of
                 None \<Rightarrow>
                   bnd (save_instruction X (i\<lparr>bi_status := Instr_DEAD_LETTER,
                          bi_lastError := Some ''Transaction introuvable'', bi_retryable := False\<rparr>)) (\<lambda>_.
                   ret None)
               | Some t \<Rightarrow>
                   bnd (save_instruction X (i\<lparr>bi_status := Instr_IN_FLIGHT, bi_attempts := bi_attempts i + 1\<rparr>)) (\<lambda>i'.
                   ret (Some (i', t))))))))"

definition dead_letter_update :: "BankInstruction \<Rightarrow> string \<Rightarrow> date \<Rightarrow> Transaction \<Rightarrow> Transaction" where
  "dead_letter_update i reason now t =
     t\<lparr>tx_status := Tx_FAILED, tx_bankStatus := Some Bank_FAILED, tx_reconciliationStatus := Some Recon_MANUAL_REVIEW,
       tx_reconciliationReason :=
         Some ''Confirmation Mobile Money recue mais traitement bancaire abandonne apres reprises'',
       tx_refundStatus := Refund_REQUIRED, tx_caseStatus := Case_MANUAL_REVIEW,
       tx_failureReason := Some (js_slice 1024 reason), tx_processedAt := Some now,
       tx_caseReason := Some (''Instruction bancaire abandonnee apres '' @ nat_dec (bi_attempts i) @ '' tentatives : '' @
         ''encaissement confirme sans contrepartie, remboursement du payeur a instruire'')\<rparr>"

definition deadLetter :: "externals \<Rightarrow> BankInstruction \<Rightarrow> Transaction \<Rightarrow> string \<Rightarrow> unit io" where
  "deadLetter X i t reason =
     transaction
       (bnd (save_instruction X (i\<lparr>bi_status := Instr_DEAD_LETTER, bi_lastError := Some (js_slice 1024 reason),
               bi_retryable := False\<rparr>)) (\<lambda>i'.
        bnd (draw (clock X)) (\<lambda>now.
        bnd (open_debt X (stateOf t) (dead_letter_update i' reason now t)) (\<lambda>_.
        ret ()))))"

definition settled_bank :: "Transaction \<Rightarrow> bool" where
  "settled_bank t \<longleftrightarrow>
     tx_bankStatus t = Some Bank_COMPLETED \<or> tx_bankStatus t = Some Bank_FAILED \<or> tx_bankStatus t = Some Bank_BLOCKED"

definition complete_instruction :: "externals \<Rightarrow> BankInstruction \<Rightarrow> settlement io" where
  "complete_instruction X i =
     bnd (save_instruction X (i\<lparr>bi_status := Instr_COMPLETED, bi_lastError := None\<rparr>)) (\<lambda>_. ret COMPLETED)"

text \<open>The handler of a failed attempt, with the entity as the execution left it.\<close>

definition attempt_failed :: "externals \<Rightarrow> settings \<Rightarrow> BankInstruction \<Rightarrow> Transaction \<Rightarrow> exn \<Rightarrow> settlement io" where
  "attempt_failed X C i t error =
     (if \<not> cf_bankWorkerMaxAttempts C \<le> bi_attempts i
      then
        bnd (draw (clock X)) (\<lambda>now.
        bnd (save_instruction X (i\<lparr>bi_status := Instr_PENDING, bi_lastError := Some (js_slice 1024 (message_of X error)),
               bi_nextAttemptAt := now + backoffMs (bi_attempts i)\<rparr>)) (\<lambda>_.
        ret RETRY))
      else bnd (deadLetter X i t (message_of X error)) (\<lambda>_. ret DEAD_LETTER))"

definition attempt :: "externals \<Rightarrow> settings \<Rightarrow> BankInstruction \<Rightarrow> Transaction \<Rightarrow> settlement io" where
  "attempt X C i t =
     (if settled_bank t then complete_instruction X i
      else
        bnd (executeBankInstruction X t) (\<lambda>(t', r).
          case r of Inr _ \<Rightarrow> complete_instruction X i | Inl error \<Rightarrow> attempt_failed X C i t' error))"

definition counted :: "settlement \<Rightarrow> DrainOutcome \<Rightarrow> DrainOutcome" where
  "counted settled outcome =
     outcome\<lparr>do_claimed := do_claimed outcome + 1,
             do_completed := do_completed outcome + (if settled = COMPLETED then 1 else 0),
             do_deadLettered := do_deadLettered outcome + (if settled = DEAD_LETTER then 1 else 0)\<rparr>"

text \<open>The loop of the drain, counted down from its limit.\<close>

fun drain_loop :: "nat \<Rightarrow> externals \<Rightarrow> settings \<Rightarrow> DrainOutcome \<Rightarrow> DrainOutcome io" where
  "drain_loop 0 X C outcome = ret outcome"
| "drain_loop (Suc n) X C outcome =
     bnd (claimNext X) (\<lambda>claimed.
       case claimed of
         None \<Rightarrow> ret outcome
       | Some (i, t) \<Rightarrow>
           bnd (attempt X C i t) (\<lambda>settled. drain_loop n X C (counted settled outcome)))"

definition drain :: "externals \<Rightarrow> settings \<Rightarrow> nat \<Rightarrow> DrainOutcome io" where
  "drain X C limit =
     (let zero = \<lparr>do_claimed = 0, do_completed = 0, do_deadLettered = 0\<rparr> in
      bnd (reads wd_draining) (\<lambda>running.
        if running then ret zero
        else
          bnd (modifies (\<lambda>w. w\<lparr>wd_draining := True\<rparr>)) (\<lambda>_.
          bnd (observing (drain_loop limit X C zero)) (\<lambda>r.
          bnd (modifies (\<lambda>w. w\<lparr>wd_draining := False\<rparr>)) (\<lambda>_.
          lift_result r)))))"

definition findDeadLettered :: "db \<Rightarrow> BankInstruction list" where
  "findDeadLettered d = sort_key (\<lambda>i. - bi_updatedAt i) (filter (\<lambda>i. bi_status i = Instr_DEAD_LETTER) (db_instructions d))"

definition countDue :: "db \<Rightarrow> date \<Rightarrow> nat" where
  "countDue d now = length (filter (\<lambda>i. bi_status i = Instr_PENDING \<and> bi_nextAttemptAt i \<le> now) (db_instructions d))"

section \<open>The contract of the register is kept\<close>

context store_contract
begin

lemma keeps_save_instruction:
  "keeps (db_inv P) (save_instruction X i)" "keeps (db_inv (Q d0)) (save_instruction X i)"
  unfolding save_instruction_def by (intro keeps_intros keeps_write; simp add: put_instruction_def)+

lemma keeps_claimNext: "keeps (db_inv P) (claimNext X)"
  unfolding claimNext_def by (intro keeps_commit keeps_intros keeps_save_instruction)

lemma keeps_attempt: "keeps (db_inv P) (attempt X C i t)"
  unfolding attempt_def attempt_failed_def complete_instruction_def deadLetter_def
  by (intro keeps_intros keeps_save_instruction keeps_execute keeps_commit keeps_open_debt)

lemma keeps_drain: "keeps (db_inv P) (drain X C limit)"
proof -
  have "keeps (db_inv P) (drain_loop n X C outcome)" for n outcome
    by (induction n arbitrary: outcome) (auto intro!: keeps_intros keeps_claimNext keeps_attempt)
  then show ?thesis unfolding drain_def by (intro keeps_intros) (simp_all add: db_inv_def)
qed

end

section \<open>What the worker does\<close>

lemma keeps_outside_bank [local_intros]:
  "keeps (\<lambda>w. outside w = c) (save_instruction X i)"
  "keeps (\<lambda>w. outside w = c) (open_debt X before t)"
  "keeps (\<lambda>w. outside w = c) (reconcile X t)"
  "keeps (\<lambda>w. outside w = c) (complete_bank X before exch t)"
  unfolding save_instruction_def open_debt_def reconcile_def record_verdict_def complete_bank_def assert_transition_def
  by (intro keeps_intros local_intros)+

lemma keeps_outside_worker [local_intros]:
  "keeps (\<lambda>w. outside w = c) (claimNext X)"
  "keeps (\<lambda>w. outside w = c) (complete_instruction X i)"
  "keeps (\<lambda>w. outside w = c) (attempt_failed X C i t error)"
  "keeps (\<lambda>w. outside w = c) (handleBankFailure X t before error)"
  "keeps (\<lambda>w. outside w = c) (applyBankSuccess X t before words exch)"
  unfolding claimNext_def complete_instruction_def attempt_failed_def deadLetter_def handleBankFailure_def applyBankSuccess_def
  by (intro keeps_intros local_intros)+

lemma call_bank_run:
  "bnd (call_bank X t) f w =
   f (convertAmountToWords X (wd_draws w) (tx_amount t))
     (w\<lparr>wd_draws := Suc (wd_draws w), wd_bank_calls := wd_bank_calls w @ [(tx_reference t, tx_amount t)]\<rparr>)"
  by (simp add: call_bank_def action_simps)

text \<open>An attempt calls the bank at most once, for its own row.\<close>

lemma attempt_calls:
  assumes "attempt X C i t w = (r, w')"
  shows "wd_draining w' = wd_draining w \<and>
    wd_bank_calls w' = wd_bank_calls w @ (if settled_bank t then [] else [(tx_reference t, tx_amount t)])"
proof (cases "settled_bank t")
  case True
  then have "outside w' = outside w" using assms local_run [OF keeps_outside_worker(2)] by (simp add: attempt_def)
  then show ?thesis using True by (simp add: outside_def)
next
  case False
  let ?v = "w\<lparr>wd_draws := Suc (wd_draws w), wd_bank_calls := wd_bank_calls w @ [(tx_reference t, tx_amount t)]\<rparr>"
  let ?rest = "\<lambda>answer. bnd (case answer of
      Inl error \<Rightarrow> if is_fault error then handleBankFailure X t (stateOf t) error else ret (t, Inl error)
    | Inr (words, exch) \<Rightarrow> applyBankSuccess X t (stateOf t) words exch)
    (\<lambda>(t', r). case r of Inr _ \<Rightarrow> complete_instruction X i | Inl error \<Rightarrow> attempt_failed X C i t' error)"
  have run: "?rest (convertAmountToWords X (wd_draws w) (tx_amount t)) ?v = (r, w')"
    using assms False by (simp add: attempt_def executeBankInstruction_def bnd_assoc call_bank_run)
  have "keeps (\<lambda>w. outside w = c) (?rest answer)" for c answer by (intro keeps_intros local_intros)
  from local_run [OF this run] show ?thesis using False by (simp add: outside_def)
qed

lemma drain_loop_run:
  assumes "drain_loop n X C outcome w = (r, w')" "do_completed outcome + do_deadLettered outcome \<le> do_claimed outcome"
  shows "\<exists>calls. wd_bank_calls w' = wd_bank_calls w @ calls \<and> length calls \<le> n \<and> wd_draining w' = wd_draining w \<and>
    (\<forall>out. r = Inr out \<longrightarrow> do_completed out + do_deadLettered out \<le> do_claimed out \<and>
       do_claimed out \<le> do_claimed outcome + n \<and> do_claimed outcome + length calls \<le> do_claimed out)"
  using assms
proof (induction n arbitrary: outcome w)
  case (Suc n)
  obtain q v where claim: "claimNext X w = (q, v)" by (cases "claimNext X w")
  have v: "wd_bank_calls v = wd_bank_calls w" "wd_draining v = wd_draining w"
    using local_run [OF keeps_outside_worker(1) claim] by (simp_all add: outside_def)
  consider (none) "\<And>p. q \<noteq> Inr (Some p)" | (some) i t where "q = Inr (Some (i, t))"
    by (cases q) (auto split: option.splits intro: that)
  then show ?case
  proof cases
    case none
    then have "w' = v" "\<forall>out. r = Inr out \<longrightarrow> out = outcome"
      using Suc.prems(1) claim by (auto simp: run_bnd action_simps split: sum.splits option.splits)
    then show ?thesis using v Suc.prems(2) by auto
  next
    case some
    obtain s u where att: "attempt X C i t v = (s, u)" by (cases "attempt X C i t v")
    define calls where "calls = (if settled_bank t then [] else [(tx_reference t, tx_amount t)])"
    have u: "wd_bank_calls u = wd_bank_calls w @ calls" "wd_draining u = wd_draining w" "length calls \<le> 1"
      using attempt_calls [OF att] v by (simp_all add: calls_def)
    show ?thesis
    proof (cases s)
      case (Inl e)
      then show ?thesis using Suc.prems(1) claim some att u by (auto simp: run_bnd)
    next
      case (Inr settled)
      then have "drain_loop n X C (counted settled outcome) u = (r, w')"
        using Suc.prems(1) claim some att by (simp add: run_bnd)
      moreover have "do_completed (counted settled outcome) + do_deadLettered (counted settled outcome) \<le> do_claimed (counted settled outcome)"
        using Suc.prems(2) by (cases settled) (simp_all add: counted_def)
      ultimately obtain more where more: "wd_bank_calls w' = wd_bank_calls u @ more" "length more \<le> n" "wd_draining w' = wd_draining u"
        "\<forall>out. r = Inr out \<longrightarrow> do_completed out + do_deadLettered out \<le> do_claimed out \<and>
           do_claimed out \<le> do_claimed (counted settled outcome) + n \<and>
           do_claimed (counted settled outcome) + length more \<le> do_claimed out"
        using Suc.IH by blast
      have "do_claimed (counted settled outcome) = Suc (do_claimed outcome)" by (simp add: counted_def)
      then show ?thesis using more u by (intro exI [of _ "calls @ more"]) (auto simp del: One_nat_def)
    qed
  qed
qed (auto simp: action_simps)

lemma open_debt_run:
  assumes run: "open_debt X before t w = (Inr failed, w')" and ok: "ledger_ok X (wd_db w)"
  shows "failed \<in> set (db_transactions (wd_db w')) \<and> db_instructions (wd_db w') = db_instructions (wd_db w) \<and>
    (\<exists>created updated version. failed = t\<lparr>tx_createdAt := created, tx_updatedAt := updated, tx_version := version\<rparr>) \<and>
    (\<exists>e f. findChain (wd_db w') (tx_reference t) = findChain (wd_db w) (tx_reference t) @ [e, f] \<and>
       ev_eventType e = BANK_PROCESSING_FAILED \<and> ev_eventType f = CASE_OPENED)"
proof -
  from run [unfolded open_debt_def] obtain u v created updated version where
    rest: "bnd (assert_transition before u) (\<lambda>_.
      bnd (record_event X True ((fact BANK_PROCESSING_FAILED u)\<lparr>re_detail := tx_failureReason u\<rparr>) []) (\<lambda>_.
      bnd (record_event X True ((fact CASE_OPENED u)\<lparr>re_detail := tx_caseReason u\<rparr>) []) (\<lambda>_. ret u))) v = (Inr failed, w')"
    and v: "ledger_ok X (wd_db v)" "u \<in> set (db_transactions (wd_db v))"
      "u = t\<lparr>tx_createdAt := created, tx_updatedAt := updated, tx_version := version\<rparr>"
      "wd_db v = (wd_db w)\<lparr>db_transactions := db_transactions (wd_db v)\<rparr>" "findChain (wd_db v) = findChain (wd_db w)"
    using ok by (rule save_thenE)
  have ref: "tx_reference u = tx_reference t" and ins: "db_instructions (wd_db v) = db_instructions (wd_db w)"
    using v(3) arg_cong [OF v(4), of db_instructions] by simp_all
  from assert_thenE [OF rest] obtain e v1 where
    rest1: "bnd (record_event X True ((fact CASE_OPENED u)\<lparr>re_detail := tx_caseReason u\<rparr>) []) (\<lambda>_. ret u) v1 = (Inr failed, w')"
    and e: "ledger_ok X (wd_db v1)" "other_tables (wd_db v1) = other_tables (wd_db v)" "ev_eventType e = BANK_PROCESSING_FAILED"
      "findChain (wd_db v1) (tx_reference u) = findChain (wd_db v) (tx_reference u) @ [e]"
    by (rule record_thenE) (use v(1) in \<open>auto simp: fact_def\<close>)
  from rest1 obtain f where f: "failed = u" "other_tables (wd_db w') = other_tables (wd_db v1)" "ev_eventType f = CASE_OPENED"
      "findChain (wd_db w') (tx_reference u) = findChain (wd_db v1) (tx_reference u) @ [f]"
    using e(1) by (rule record_thenE) (simp add: fact_def action_simps)
  have "db_instructions (wd_db w') = db_instructions (wd_db w)" "u \<in> set (db_transactions (wd_db w'))"
    "findChain (wd_db w') (tx_reference t) = findChain (wd_db w) (tx_reference t) @ [e, f]"
    using v(2,5) e(2,4) f(2,4) ref ins by (simp_all add: other_tables_def)
  then show ?thesis using f(1,3) e(3) v(3) by blast
qed

lemma deadLetter_run:
  assumes run: "deadLetter X i t reason w = (r, w')" and ok: "ledger_ok X (wd_db w)"
  shows "(\<exists>err. r = Inl err \<and> wd_db w' = wd_db w) \<or>
    (r = Inr () \<and>
     (\<exists>u\<in>set (db_transactions (wd_db w')). tx_reference u = tx_reference t \<and> tx_status u = Tx_FAILED \<and>
        tx_bankStatus u = Some Bank_FAILED \<and> tx_refundStatus u = Refund_REQUIRED \<and> tx_caseStatus u = Case_MANUAL_REVIEW) \<and>
     (\<exists>e f. findChain (wd_db w') (tx_reference t) = findChain (wd_db w) (tx_reference t) @ [e, f] \<and>
        ev_eventType e = BANK_PROCESSING_FAILED \<and> ev_eventType f = CASE_OPENED) \<and>
     (\<forall>j\<in>set (db_instructions (wd_db w')). bi_id j = bi_id i \<longrightarrow> bi_status j = Instr_DEAD_LETTER \<and> \<not> bi_retryable j))"
  using transaction_run [OF run [unfolded deadLetter_def]]
proof (elim disjE exE conjE)
  fix a assume r: "r = Inr a"
  define i' where "i' = i\<lparr>bi_status := Instr_DEAD_LETTER, bi_lastError := Some (js_slice 1024 reason), bi_retryable := False,
    bi_updatedAt := clock X (wd_draws w)\<rparr>"
  define v where "v = on_db (put_instruction i') (w\<lparr>wd_draws := Suc (wd_draws w)\<rparr>)"
  define u where "u = dead_letter_update i' reason (clock X (wd_draws v)) t"
  assume "bnd (save_instruction X (i\<lparr>bi_status := Instr_DEAD_LETTER, bi_lastError := Some (js_slice 1024 reason),
      bi_retryable := False\<rparr>)) (\<lambda>i'. bnd (draw (clock X)) (\<lambda>now.
        bnd (open_debt X (stateOf t) (dead_letter_update i' reason now t)) (\<lambda>_. ret ()))) w = (Inr a, w')"
  then have "bnd (open_debt X (stateOf t) u) (\<lambda>_. ret ()) (v\<lparr>wd_draws := Suc (wd_draws v)\<rparr>) = (Inr a, w')"
    by (simp add: save_instruction_def action_simps i'_def v_def u_def)
  then obtain failed where debt: "open_debt X (stateOf t) u (v\<lparr>wd_draws := Suc (wd_draws v)\<rparr>) = (Inr failed, w')"
    by (rule bnd_Inr_E) (simp add: action_simps)
  have same: "db_events (wd_db v) = db_events (wd_db w)" by (simp add: v_def on_db_def put_instruction_def)
  have fields: "tx_reference u = tx_reference t" "tx_status u = Tx_FAILED" "tx_bankStatus u = Some Bank_FAILED"
    "tx_refundStatus u = Refund_REQUIRED" "tx_caseStatus u = Case_MANUAL_REVIEW"
    by (simp_all add: u_def dead_letter_update_def)
  have ids: "bi_id i' = bi_id i" "bi_status i' = Instr_DEAD_LETTER" "\<not> bi_retryable i'" by (simp_all add: i'_def)
  have ins: "\<forall>j\<in>set (db_instructions (wd_db v)). bi_id j = bi_id i \<longrightarrow> bi_status j = Instr_DEAD_LETTER \<and> \<not> bi_retryable j"
    using ids by (auto simp: v_def on_db_def put_instruction_def)
  have okv: "ledger_ok X (wd_db (v\<lparr>wd_draws := Suc (wd_draws v)\<rparr>))" using ok ledger_ok_events [OF same] by simp
  note d = open_debt_run [OF debt okv]
  have mem: "failed \<in> set (db_transactions (wd_db w'))" and instr: "db_instructions (wd_db w') = db_instructions (wd_db v)"
    using d by simp_all
  have "tx_reference failed = tx_reference t \<and> tx_status failed = Tx_FAILED \<and> tx_bankStatus failed = Some Bank_FAILED \<and>
      tx_refundStatus failed = Refund_REQUIRED \<and> tx_caseStatus failed = Case_MANUAL_REVIEW"
    using d fields by (elim conjE exE) simp
  then show ?thesis using mem instr ins d r findChain_events [OF same] fields(1) by (auto intro!: bexI [of _ failed])
qed auto

section \<open>Properties\<close>

text \<open>
  A drain always returns after at most \<open>limit\<close> claims, with at most one call to the bank per claim, and
  releases its guard however it ends, so that the next one can start; the counts it returns add up. A drain started
  while another runs does nothing.
\<close>

theorem drain_is_bounded:
  assumes "drain X C limit w = (r, w')"
  shows "(wd_draining w \<longrightarrow> w' = w \<and> r = Inr \<lparr>do_claimed = 0, do_completed = 0, do_deadLettered = 0\<rparr>) \<and>
    (\<not> wd_draining w \<longrightarrow> \<not> wd_draining w' \<and>
      (\<exists>calls. wd_bank_calls w' = wd_bank_calls w @ calls \<and> length calls \<le> limit \<and>
        (\<forall>out. r = Inr out \<longrightarrow> do_completed out + do_deadLettered out \<le> do_claimed out \<and> do_claimed out \<le> limit \<and>
           length calls \<le> do_claimed out)))"
proof (cases "wd_draining w")
  case False
  let ?zero = "\<lparr>do_claimed = 0, do_completed = 0, do_deadLettered = 0\<rparr>"
  obtain q v where loop: "drain_loop limit X C ?zero (w\<lparr>wd_draining := True\<rparr>) = (q, v)"
    by (cases "drain_loop limit X C ?zero (w\<lparr>wd_draining := True\<rparr>)")
  have "w' = v\<lparr>wd_draining := False\<rparr>" "r = q"
    using assms False loop by (simp_all add: drain_def Let_def action_simps bnd_observing)
  then show ?thesis using drain_loop_run [OF loop] False by auto
qed (use assms in \<open>simp add: drain_def Let_def action_simps\<close>)

theorem drain_is_bounded_witness:
  "\<exists>r w'. drain sample_externals sample_settings 20 sample_world = (r, w') \<and> \<not> wd_draining w' \<and> length (wd_bank_calls w') \<le> 20"
proof -
  obtain r w' where run: "drain sample_externals sample_settings 20 sample_world = (r, w')"
    by (cases "drain sample_externals sample_settings 20 sample_world")
  have "\<not> wd_draining sample_world" "wd_bank_calls sample_world = []" by (simp_all add: sample_world_def)
  then show ?thesis using drain_is_bounded [OF run] run by auto
qed

text \<open>
  An incident of transport says nothing of the outcome: the row and the register are left alone and the
  instruction waits \<open>min (2 ^ n s) 30 s\<close> for its next attempt. When the attempts are exhausted the instruction is
  abandoned for good and the debt is opened with both facts, or the store is left as it was. The bank was called once.
\<close>

theorem transport_incident_outcome:
  assumes "attempt X C i t w = (r, w')" "ledger_ok X (wd_db w)" "\<not> settled_bank t"
    and "convertAmountToWords X (wd_draws w) (tx_amount t) = Inl error" "\<not> is_fault error"
  shows "wd_bank_calls w' = wd_bank_calls w @ [(tx_reference t, tx_amount t)] \<and>
    (if bi_attempts i < cf_bankWorkerMaxAttempts C
     then r = Inr RETRY \<and>
       (\<exists>now. wd_db w' = put_instruction (i\<lparr>bi_status := Instr_PENDING, bi_lastError := Some (js_slice 1024 (message_of X error)),
          bi_nextAttemptAt := clock X (Suc (wd_draws w)) + min (2 ^ bi_attempts i * 1000) 30000, bi_updatedAt := now\<rparr>) (wd_db w))
     else (\<exists>err. r = Inl err \<and> wd_db w' = wd_db w) \<or>
       (r = Inr DEAD_LETTER \<and>
        (\<exists>u\<in>set (db_transactions (wd_db w')). tx_reference u = tx_reference t \<and> tx_status u = Tx_FAILED \<and>
           tx_bankStatus u = Some Bank_FAILED \<and> tx_refundStatus u = Refund_REQUIRED \<and> tx_caseStatus u = Case_MANUAL_REVIEW) \<and>
        (\<exists>e f. findChain (wd_db w') (tx_reference t) = findChain (wd_db w) (tx_reference t) @ [e, f] \<and>
           ev_eventType e = BANK_PROCESSING_FAILED \<and> ev_eventType f = CASE_OPENED) \<and>
        (\<forall>j\<in>set (db_instructions (wd_db w')). bi_id j = bi_id i \<longrightarrow> bi_status j = Instr_DEAD_LETTER \<and> \<not> bi_retryable j)))"
proof -
  let ?v = "w\<lparr>wd_draws := Suc (wd_draws w), wd_bank_calls := wd_bank_calls w @ [(tx_reference t, tx_amount t)]\<rparr>"
  have run: "attempt_failed X C i t error ?v = (r, w')"
    using assms(1,3-5) by (simp add: attempt_def executeBankInstruction_def bnd_assoc call_bank_run action_simps)
  have calls: "wd_bank_calls w' = wd_bank_calls w @ [(tx_reference t, tx_amount t)]"
    using attempt_calls [OF assms(1)] assms(3) by simp
  show ?thesis
  proof (cases "bi_attempts i < cf_bankWorkerMaxAttempts C")
    case True
    then show ?thesis
      using run calls by (auto simp: attempt_failed_def save_instruction_def action_simps on_db_def backoffMs_def)
  next
    case False
    obtain q u where dead: "deadLetter X i t (message_of X error) ?v = (q, u)" by (cases "deadLetter X i t (message_of X error) ?v")
    have "w' = u" "r = map_sum id (\<lambda>_. DEAD_LETTER) q"
      using run False dead by (auto simp: attempt_failed_def run_bnd action_simps split: sum.splits)
    then show ?thesis using deadLetter_run [OF dead] assms(2) False calls by auto
  qed
qed

text \<open>A back office that cannot be reached, and an instruction that was claimed \<open>n\<close> times.\<close>

definition unreachable_bank :: "string \<Rightarrow> externals" where
  "unreachable_bank reason = sample_externals
     \<lparr>convertAmountToWords := (\<lambda>n amount. Inl (SoapCommunication ''NumberToDollars'' True 3)), message_of := (\<lambda>e. reason)\<rparr>"

definition sample_instruction :: "nat \<Rightarrow> BankInstruction" where
  "sample_instruction n = \<lparr>bi_id = ''i1'', bi_transactionReference = ''MM-1'', bi_status = Instr_IN_FLIGHT, bi_attempts = n,
     bi_nextAttemptAt = 0, bi_lastError = None, bi_retryable = True, bi_correlationId = ''c1'', bi_createdAt = 0, bi_updatedAt = 0\<rparr>"

lemma sample_unsettled: "\<not> settled_bank sample_transaction" "\<not> is_fault (SoapCommunication ''NumberToDollars'' True 3)"
  "convertAmountToWords (unreachable_bank reason) n a = Inl (SoapCommunication ''NumberToDollars'' True 3)"
  "message_of (unreachable_bank reason) e = reason"
  by (simp_all add: settled_bank_def is_fault_def sample_transaction_def unreachable_bank_def)

theorem transport_incident_outcome_witness:
  "\<exists>w'. attempt (unreachable_bank ''timeout'') sample_settings (sample_instruction 1) sample_transaction sample_world = (Inr RETRY, w') \<and>
     wd_bank_calls w' = [(tx_reference sample_transaction, tx_amount sample_transaction)]"
proof -
  obtain r w' where run: "attempt (unreachable_bank ''timeout'') sample_settings (sample_instruction 1) sample_transaction sample_world = (r, w')"
    by (cases "attempt (unreachable_bank ''timeout'') sample_settings (sample_instruction 1) sample_transaction sample_world")
  have "bi_attempts (sample_instruction 1) < cf_bankWorkerMaxAttempts sample_settings" "wd_bank_calls sample_world = []"
    by (simp_all add: sample_instruction_def sample_settings_def sample_world_def)
  then show ?thesis
    using transport_incident_outcome [OF run sample_world_ok sample_unsettled(1,3,2)] run by simp
qed

text \<open>
  When the message of the last incident has more than 512 characters, abandoning the instruction fails: the worker
  cuts it to 1024 characters, the column holds 512, and the transaction that was to record the dead letter, the failure
  and the debt is rolled back. The instruction keeps its lease and the debt is never opened.
\<close>

theorem long_reason_blocks_dead_letter:
  assumes "attempt X C i t w = (r, w')" "\<not> settled_bank t"
    and "convertAmountToWords X (wd_draws w) (tx_amount t) = Inl error" "\<not> is_fault error"
    and "cf_bankWorkerMaxAttempts C \<le> bi_attempts i" "512 < char_length (js_slice 1024 (message_of X error))"
  shows "r = Inl (QueryFailed ''22001'' []) \<and> wd_db w' = wd_db w"
proof -
  have wide: "\<not> transaction_widths (dead_letter_update j (message_of X error) now t)" for j now
    using assms(6) by (simp add: transaction_widths_def fits_def dead_letter_update_def)
  have "attempt_failed X C i t error
      (w\<lparr>wd_draws := Suc (wd_draws w), wd_bank_calls := wd_bank_calls w @ [(tx_reference t, tx_amount t)]\<rparr>) = (r, w')"
    using assms(1-4) by (simp add: attempt_def executeBankInstruction_def bnd_assoc call_bank_run action_simps)
  then show ?thesis
    using assms(5) save_too_wide [OF wide]
    by (auto simp: attempt_failed_def deadLetter_def open_debt_def transaction_def save_instruction_def action_simps
        run_bnd_Inl on_db_def)
qed

theorem long_reason_blocks_dead_letter_witness:
  "\<exists>w'. attempt (unreachable_bank (replicate 600 CHR ''x'')) sample_settings (sample_instruction 4) sample_transaction sample_world =
      (Inl (QueryFailed ''22001'' []), w') \<and> wd_db w' = wd_db sample_world"
proof -
  define reason where "reason = replicate 600 CHR ''x''"
  obtain r w' where run: "attempt (unreachable_bank reason) sample_settings (sample_instruction 4) sample_transaction sample_world = (r, w')"
    by (cases "attempt (unreachable_bank reason) sample_settings (sample_instruction 4) sample_transaction sample_world")
  have n: "char_length (replicate k CHR ''x'') = k" for k by (induction k) (simp_all add: char_length_def is_continuation_def)
  have long: "char_length reason = 600" unfolding reason_def by (rule n)
  then have "512 < char_length (js_slice 1024 (message_of (unreachable_bank reason) (SoapCommunication ''NumberToDollars'' True 3)))"
    by (simp add: sample_unsettled(4) slice_short)
  moreover have "cf_bankWorkerMaxAttempts sample_settings \<le> bi_attempts (sample_instruction 4)"
    by (simp add: sample_instruction_def sample_settings_def)
  ultimately show ?thesis
    using long_reason_blocks_dead_letter [OF run sample_unsettled(1,3,2)] run unfolding reason_def by blast
qed

end
