(* ===== verification/Refunds.thy ===== *)
theory Refunds
  imports Mobile_Money
begin

text \<open>
  The refund of the payer (\<^verbatim>\<open>refunds/refunds.service.ts\<close>, \<^verbatim>\<open>refunds/refund-retry.worker.ts\<close>): the request, the
  attempt at the provider with what follows its success or failure, the reopening after a refusal, and
  the retry of undecided attempts. The provider is the field \<open>provider_refund\<close> of the externals.
\<close>

section \<open>The table of refunds\<close>

definition put_refund :: "Refund \<Rightarrow> db \<Rightarrow> db" where
  "put_refund r d = d\<lparr>db_refunds := map (\<lambda>x. if rf_id x = rf_id r then r else x) (db_refunds d)\<rparr>"

definition find_refund :: "string \<Rightarrow> Refund option io" where
  "find_refund reference = bnd get_db (\<lambda>d. ret (find (\<lambda>r. rf_transactionReference r = reference) (db_refunds d)))"

definition save_refund :: "externals \<Rightarrow> Refund \<Rightarrow> Refund io" where
  "save_refund X r =
     bnd (draw (clock X)) (\<lambda>now.
     bnd (modifies (on_db (put_refund (r\<lparr>rf_updatedAt := now\<rparr>)))) (\<lambda>_. ret (r\<lparr>rf_updatedAt := now\<rparr>)))"

definition insert_refund :: "externals \<Rightarrow> Refund \<Rightarrow> Refund io" where
  "insert_refund X r =
     bnd (draw (clock X)) (\<lambda>now.
     bnd get_db (\<lambda>d.
       if list_ex (\<lambda>x. rf_transactionReference x = rf_transactionReference r) (db_refunds d)
       then throw (unique_violation ''idx_refunds_transaction_reference'')
       else if list_ex (\<lambda>x. rf_providerIdempotencyKey x = rf_providerIdempotencyKey r) (db_refunds d)
       then throw (unique_violation ''UQ_refunds_provider_idempotency_key'')
       else
         let r' = r\<lparr>rf_createdAt := now, rf_updatedAt := now\<rparr> in
         bnd (modifies (on_db (\<lambda>d. d\<lparr>db_refunds := db_refunds d @ [r']\<rparr>))) (\<lambda>_. ret r')))"

definition refund_isUniqueViolation :: "exn \<Rightarrow> bool" where
  "refund_isUniqueViolation error =
     (case error of QueryFailed code constraint \<Rightarrow> code = ''23505'' | _ \<Rightarrow> False)"

section \<open>Opening the file\<close>

definition ATTEMPTABLE :: "RefundStatus \<Rightarrow> bool" where
  "ATTEMPTABLE s \<longleftrightarrow> s = Refund_REQUIRED \<or> s = Refund_REQUESTED \<or> s = Refund_FAILED"

record AttemptActor =
  aa_actorId :: string
  aa_actorRole :: EventActorRole
  aa_actionOrigin :: EventActionOrigin
  aa_manual :: bool

definition loadRefundable :: "string \<Rightarrow> Transaction io" where
  "loadRefundable reference =
     bnd (repo_findByReference reference) (\<lambda>r.
       case r of
         None \<Rightarrow> throw (HttpException NotFound ''TRANSACTION_NOT_FOUND'')
       | Some t \<Rightarrow>
           if tx_refundStatus t = Refund_NOT_REQUIRED
           then throw (HttpException UnprocessableEntity ''REFUND_NOT_REQUIRED'')
           else if tx_aggregatorAmount t = None \<or> tx_aggregatorCurrency t = None
           then throw (HttpException UnprocessableEntity ''REFUND_AMOUNT_UNKNOWN'')
           else ret t)"

definition lower_hex :: "nat list \<Rightarrow> string" where
  "lower_hex bytes = concat (map (\<lambda>b. [hex_digit (b div 16), hex_digit (b mod 16)]) bytes)"

definition draft_refund :: "externals \<Rightarrow> Transaction \<Rightarrow> string option \<Rightarrow> Refund io" where
  "draft_refund X t requestedBy =
     bnd (draw (randomUUID X)) (\<lambda>row_id.
     bnd (draw (random_bytes X)) (\<lambda>bytes.
     bnd (if tx_correlationId t \<noteq> [] then ret (tx_correlationId t) else getCorrelationId X) (\<lambda>correlation.
     ret \<lparr>rf_id = row_id, rf_transactionReference = tx_reference t, rf_status = Refund_REQUIRED,
          rf_amount = the (tx_aggregatorAmount t), rf_currency = the (tx_aggregatorCurrency t),
          rf_reason = (case tx_caseReason t of Some r \<Rightarrow> Some r | None \<Rightarrow> tx_failureReason t),
          rf_providerIdempotencyKey = ''RFD-'' @ lower_hex (bytes 16), rf_providerRefundReference = None,
          rf_attempts = 0, rf_lastError = None, rf_retryable = True, rf_requestedAt = None, rf_completedAt = None,
          rf_createdBy = requestedBy, rf_lastRequestedBy = None, rf_lastApprovedBy = None,
          rf_correlationId = correlation, rf_createdAt = 0, rf_updatedAt = 0\<rparr>)))"

definition findOrCreate :: "externals \<Rightarrow> Transaction \<Rightarrow> string option \<Rightarrow> Refund io" where
  "findOrCreate X t requestedBy =
     bnd (find_refund (tx_reference t)) (\<lambda>existing.
       case existing of
         Some r \<Rightarrow> ret r
       | None \<Rightarrow>
           bnd (draft_refund X t requestedBy) (\<lambda>draft.
           catching (insert_refund X draft) (\<lambda>error.
             if refund_isUniqueViolation error
             then bnd (find_refund (tx_reference t)) (\<lambda>winner.
                  case winner of Some r \<Rightarrow> ret r | None \<Rightarrow> throw (HttpException Conflict ''REFUND_CONFLICT''))
             else throw error)))"

section \<open>An attempt\<close>

text \<open>
  \<open>syncTransaction\<close> returns the row read back, and the entity of its caller with the two statuses copied
  into it.
\<close>

definition syncTransaction ::
  "externals \<Rightarrow> Transaction \<Rightarrow> RefundStatus \<Rightarrow> CaseStatus option \<Rightarrow> (Transaction \<times> Transaction) io" where
  "syncTransaction X t refundStatus caseStatus =
     bnd (update_transaction X (tx_id t) (\<lambda>_. True)
            (\<lambda>r. r\<lparr>tx_refundStatus := refundStatus,
                    tx_caseStatus := (case caseStatus of Some c \<Rightarrow> c | None \<Rightarrow> tx_caseStatus r)\<rparr>)) (\<lambda>_.
     bnd (findOneByOrFail_id (tx_id t)) (\<lambda>updated.
     bnd (assert_transition (stateOf t) updated) (\<lambda>_.
     ret (updated, t\<lparr>tx_refundStatus := tx_refundStatus updated, tx_caseStatus := tx_caseStatus updated\<rparr>))))"

definition refund_fact ::
  "TransactionEventType \<Rightarrow> Transaction \<Rightarrow> Refund \<Rightarrow> string \<Rightarrow> AttemptActor option \<Rightarrow> RecordEventInput" where
  "refund_fact ty t refund detail actor =
     (fact ty t)\<lparr>re_observedAmount := Some (rf_amount refund), re_observedCurrency := Some (rf_currency refund),
       re_detail := Some detail, re_actorId := map_option aa_actorId actor,
       re_actorRole := map_option aa_actorRole actor, re_actionOrigin := map_option aa_actionOrigin actor\<rparr>"

text \<open>
  An SQL transaction whose body changes an entity of the caller: the change is seen even when the writes
  are taken back. The body returns the entity and its outcome; an exception aborts the transaction.
\<close>

definition transaction_entity :: "('s \<times> (exn + 'a)) io \<Rightarrow> ('s \<times> (exn + 'a)) io" where
  "transaction_entity m =
     (\<lambda>w. case transaction (bnd m (\<lambda>(s, r). lift_result r)) w of
        (r, w') \<Rightarrow> (map_sum id (\<lambda>(s, _). (s, r)) (fst (m w)), w'))"

definition em_dash :: string where
  "em_dash = [CHR 0xE2, CHR 0x80, CHR 0x94]"

definition completed_refund :: "string \<Rightarrow> date \<Rightarrow> Refund \<Rightarrow> Refund" where
  "completed_refund providerRef now refund =
     refund\<lparr>rf_status := Refund_COMPLETED, rf_providerRefundReference := Some providerRef,
            rf_completedAt := Some now, rf_lastError := None, rf_retryable := False\<rparr>"

definition close_refunded :: "externals \<Rightarrow> Refund \<Rightarrow> Transaction \<Rightarrow> string \<Rightarrow> bool \<Rightarrow> AttemptActor option \<Rightarrow> unit io" where
  "close_refunded X persisted updated providerRef deduplicated actor =
     bnd (record_event X True (refund_fact REFUND_COMPLETED updated persisted
            (''Remboursement confirme ('' @ providerRef @ '')'' @
             (if deduplicated then '' '' @ em_dash @ '' reprise d une demande anterieure'' else [])) actor) []) (\<lambda>_.
     bnd (closeCase X True updated (Some ''Dossier clos apres remboursement du payeur'') []) (\<lambda>_. ret ()))"

text \<open>The success: the refund, the transaction entity and the outcome as they are left.\<close>

definition recordSuccess ::
  "externals \<Rightarrow> Refund \<Rightarrow> Transaction \<Rightarrow> string \<Rightarrow> bool \<Rightarrow> AttemptActor option \<Rightarrow>
     (Refund \<times> Transaction \<times> (exn + Refund)) io" where
  "recordSuccess X refund t providerRef deduplicated actor =
     bnd (draw (clock X)) (\<lambda>now.
       let refund' = completed_refund providerRef now refund in
       bnd (transaction_entity
              (bnd (save_refund X refund') (\<lambda>persisted.
               bnd (observing (syncTransaction X t Refund_COMPLETED (Some Case_RESOLVED))) (\<lambda>synced.
                 case synced of
                   Inl e \<Rightarrow> ret (t, Inl e)
                 | Inr (updated, t') \<Rightarrow>
                     bnd (observing (close_refunded X persisted updated providerRef deduplicated actor)) (\<lambda>r.
                     ret (t', map_sum id (\<lambda>_. persisted) r)))))) (\<lambda>(t', r).
       ret (refund', t', r)))"

definition failure_reason :: "externals \<Rightarrow> exn \<Rightarrow> string" where
  "failure_reason X error =
     (case error of ProviderRefundRejected reason \<Rightarrow> reason | ProviderRefundUnavailable reason \<Rightarrow> reason
      | _ \<Rightarrow> message_of X error)"

definition is_rejection :: "exn \<Rightarrow> bool" where
  "is_rejection error = (case error of ProviderRefundRejected _ \<Rightarrow> True | _ \<Rightarrow> False)"

definition recordFailure :: "externals \<Rightarrow> Refund \<Rightarrow> Transaction \<Rightarrow> exn \<Rightarrow> AttemptActor option \<Rightarrow> Refund io" where
  "recordFailure X refund t error actor =
     (let reason = failure_reason X error;
          refund' = refund\<lparr>rf_status := Refund_FAILED, rf_lastError := Some (js_slice 1024 reason),
                          rf_retryable := \<not> is_rejection error\<rparr> in
      transaction
        (bnd (save_refund X refund') (\<lambda>persisted.
         bnd (syncTransaction X t Refund_FAILED None) (\<lambda>(updated, t').
         bnd (record_event X True (refund_fact REFUND_FAILED updated persisted
                (''Tentative '' @ nat_dec (rf_attempts persisted) @ '' en echec : '' @ reason) actor) []) (\<lambda>_.
         ret persisted)))))"

definition requested_refund :: "AttemptActor option \<Rightarrow> date \<Rightarrow> Refund \<Rightarrow> Refund" where
  "requested_refund actor now refund =
     refund\<lparr>rf_status := Refund_REQUESTED, rf_attempts := rf_attempts refund + 1,
            rf_requestedAt := (case rf_requestedAt refund of Some d \<Rightarrow> Some d | None \<Rightarrow> Some now),
            rf_lastRequestedBy := (case actor of Some a \<Rightarrow> if aa_manual a then Some (aa_actorId a) else rf_lastRequestedBy refund
              | None \<Rightarrow> rf_lastRequestedBy refund)\<rparr>"

text \<open>The transaction that closes before the provider is solicited.\<close>

definition go_in_flight ::
  "externals \<Rightarrow> Refund \<Rightarrow> Transaction \<Rightarrow> AttemptActor option \<Rightarrow> (Refund \<times> Transaction) io" where
  "go_in_flight X refund t actor =
     transaction
       (bnd (save_refund X refund) (\<lambda>persisted.
        bnd (syncTransaction X t Refund_REQUESTED None) (\<lambda>(_, t').
        bnd (record_event X True (refund_fact REFUND_REQUESTED t' persisted
               (''Tentative '' @ nat_dec (rf_attempts persisted) @ '' de remboursement de '' @
                toFixed2 (rf_amount persisted) @ '' '' @ rf_currency persisted) actor) []) (\<lambda>_.
        ret (persisted, t')))))"

definition call_provider :: "externals \<Rightarrow> Refund \<Rightarrow> Transaction \<Rightarrow> (exn + string \<times> bool) io" where
  "call_provider X refund t =
     (let request = \<lparr>pr_idempotencyKey = rf_providerIdempotencyKey refund, pr_providerReference = tx_aggregatorReference t,
                     pr_amount = rf_amount refund, pr_currency = rf_currency refund\<rparr> in
      bnd (draw (provider_refund X)) (\<lambda>answer.
      bnd (modifies (\<lambda>w. w\<lparr>wd_refund_calls := wd_refund_calls w @ [request]\<rparr>)) (\<lambda>_.
      ret (answer request))))"

definition refund_attempt :: "externals \<Rightarrow> Refund \<Rightarrow> Transaction \<Rightarrow> AttemptActor option \<Rightarrow> Refund io" where
  "refund_attempt X refund t actor =
     (if \<not> ATTEMPTABLE (rf_status refund) \<or> (rf_status refund = Refund_FAILED \<and> \<not> rf_retryable refund) then ret refund
      else
        bnd (draw (clock X)) (\<lambda>now.
        bnd (go_in_flight X (requested_refund actor now refund) t actor) (\<lambda>(inFlight, t').
        bnd (call_provider X inFlight t') (\<lambda>answer.
          case answer of
            Inl error \<Rightarrow> recordFailure X inFlight t' error actor
          | Inr (providerRef, deduplicated) \<Rightarrow>
              bnd (recordSuccess X inFlight t' providerRef deduplicated actor) (\<lambda>(refund', t'', r).
                case r of Inr completed \<Rightarrow> ret completed | Inl error \<Rightarrow> recordFailure X refund' t'' error actor)))))"

section \<open>The operations of the service\<close>

definition manual_actor :: "string option \<Rightarrow> AttemptActor option" where
  "manual_actor requestedBy =
     (if truthy requestedBy
      then Some \<lparr>aa_actorId = the requestedBy, aa_actorRole = Role_REFUND_OPERATOR, aa_actionOrigin = Origin_API,
                 aa_manual = True\<rparr>
      else None)"

definition requestRefund :: "externals \<Rightarrow> string \<Rightarrow> string option \<Rightarrow> Refund io" where
  "requestRefund X reference requestedBy =
     bnd (loadRefundable reference) (\<lambda>t.
     bnd (findOrCreate X t requestedBy) (\<lambda>refund.
       if rf_status refund = Refund_COMPLETED
       then bnd (closeCase X False t (Some ''Dossier clos apres remboursement du payeur'') []) (\<lambda>_. ret refund)
       else refund_attempt X refund t (manual_actor requestedBy)))"

definition reopenRefund :: "externals \<Rightarrow> string \<Rightarrow> string option \<Rightarrow> Refund io" where
  "reopenRefund X reference reopenedBy =
     transaction
       (bnd (find_refund reference) (\<lambda>row.
        case row of
          None \<Rightarrow> throw (HttpException NotFound ''REFUND_NOT_FOUND'')
        | Some refund \<Rightarrow>
            if rf_status refund = Refund_COMPLETED
            then throw (HttpException UnprocessableEntity ''REFUND_ALREADY_COMPLETED'')
            else if rf_retryable refund
            then throw (HttpException UnprocessableEntity ''REFUND_ALREADY_RETRYABLE'')
            else if truthy reopenedBy \<and> truthy (rf_lastRequestedBy refund) \<and> rf_lastRequestedBy refund = reopenedBy
            then throw (HttpException Forbidden ''SEGREGATION_OF_DUTIES'')
            else
              bnd (repo_findByReference reference) (\<lambda>r.
              case r of
                None \<Rightarrow> throw EntityNotFound
              | Some t \<Rightarrow>
                  bnd (record_event X True ((fact REFUND_REOPENED t)
                         \<lparr>re_observedAmount := Some (rf_amount refund), re_observedCurrency := Some (rf_currency refund),
                          re_detail := Some ''Dossier rouvert apres levee du refus fournisseur'', re_actorId := reopenedBy,
                          re_actorRole := (if truthy reopenedBy then Some Role_REFUND_APPROVER else None),
                          re_actionOrigin := (if truthy reopenedBy then Some Origin_API else None)\<rparr>) []) (\<lambda>_.
                  save_refund X (refund\<lparr>rf_retryable := True, rf_lastError := None, rf_lastApprovedBy := reopenedBy\<rparr>)))))"

definition refunds_findByTransaction :: "string \<Rightarrow> Refund io" where
  "refunds_findByTransaction reference =
     bnd (find_refund reference) (\<lambda>r.
       case r of None \<Rightarrow> throw (HttpException NotFound ''REFUND_NOT_FOUND'') | Some refund \<Rightarrow> ret refund)"

definition retry_actor :: AttemptActor where
  "retry_actor = \<lparr>aa_actorId = ''refund-retry-worker'', aa_actorRole = Role_SYSTEM,
                  aa_actionOrigin = Origin_RETRY_WORKER, aa_manual = False\<rparr>"

definition retryPending :: "externals \<Rightarrow> nat \<Rightarrow> (nat \<times> nat) io" where
  "retryPending X limit =
     bnd get_db (\<lambda>d.
       let pending = take limit (sort_key rf_updatedAt (filter (\<lambda>r. rf_status r = Refund_REQUESTED \<or>
             (rf_status r = Refund_FAILED \<and> rf_retryable r)) (db_refunds d))) in
       bnd (fold_each (\<lambda>refund completed.
              bnd (repo_findByReference (rf_transactionReference refund)) (\<lambda>row.
                case row of
                  None \<Rightarrow> ret completed
                | Some t \<Rightarrow>
                    bnd (refund_attempt X refund t (Some retry_actor)) (\<lambda>result.
                    ret (if rf_status result = Refund_COMPLETED then completed + 1 else completed))))
            pending 0) (\<lambda>completed.
       ret (length pending, completed)))"

definition runOnce :: "externals \<Rightarrow> (nat \<times> nat) io" where
  "runOnce X =
     bnd (reads wd_retrying) (\<lambda>running.
       if running then ret (0, 0)
       else
         bnd (modifies (\<lambda>w. w\<lparr>wd_retrying := True\<rparr>)) (\<lambda>_.
         bnd (observing (retryPending X 20)) (\<lambda>r.
         bnd (modifies (\<lambda>w. w\<lparr>wd_retrying := False\<rparr>)) (\<lambda>_.
         lift_result r))))"

definition isReconciled :: "Refund \<Rightarrow> Transaction \<Rightarrow> bool" where
  "isReconciled refund t \<longleftrightarrow>
     rf_status refund = Refund_COMPLETED \<and> amountsMatch (Some (rf_amount refund)) (tx_aggregatorAmount t) \<and>
     currenciesMatch (Some (rf_currency refund)) (tx_aggregatorCurrency t)"

section \<open>The contract of the register is kept\<close>

lemma keeps_refund_reads [keeps_intros]:
  "keeps (db_inv P) (find_refund reference)" "keeps (db_inv P) (loadRefundable reference)"
  "keeps (db_inv P) (draft_refund X t requestedBy)" "keeps (db_inv P) (call_provider X refund t)"
  "keeps (db_inv P) (refunds_findByTransaction reference)"
  unfolding find_refund_def loadRefundable_def draft_refund_def call_provider_def refunds_findByTransaction_def
  by (intro keeps_intros; simp add: db_inv_def)+

lemma keeps_transaction_entity:
  "keeps I (transaction (bnd m (\<lambda>(s, r). lift_result r))) \<Longrightarrow> keeps I (transaction_entity m)"
  by (auto simp: keeps_def transaction_entity_def split: prod.split)

context store_contract
begin

lemma keeps_refund_rows:
  "keeps (db_inv P) (save_refund X r)" "keeps (db_inv (Q d0)) (save_refund X r)" "keeps (db_inv P) (insert_refund X r)"
  "keeps (db_inv (Q d0)) (syncTransaction X t refundStatus caseStatus)"
  unfolding save_refund_def insert_refund_def syncTransaction_def
  by (intro keeps_intros keeps_write keeps_inside; simp add: put_refund_def)+

lemma keeps_refund_outcome:
  "keeps (db_inv P) (recordSuccess X refund t providerRef deduplicated actor)"
  "keeps (db_inv P) (recordFailure X refund t error actor)"
  unfolding recordSuccess_def recordFailure_def close_refunded_def
  by (intro keeps_intros keeps_transaction_entity keeps_commit keeps_inside keeps_refund_rows)+

lemma keeps_refund_attempt: "keeps (db_inv P) (refund_attempt X refund t actor)"
proof -
  have "keeps (db_inv P) (go_in_flight X r t a)" for r t a
    unfolding go_in_flight_def by (intro keeps_intros keeps_commit keeps_inside keeps_refund_rows)
  then show ?thesis unfolding refund_attempt_def by (intro keeps_intros keeps_refund_outcome)
qed

lemma keeps_refunds:
  "keeps (db_inv P) (requestRefund X reference requestedBy)"
  "keeps (db_inv P) (reopenRefund X reference requestedBy)" "keeps (db_inv P) (retryPending X limit)"
proof -
  show "keeps (db_inv P) (requestRefund X reference requestedBy)"
    unfolding requestRefund_def findOrCreate_def
    by (intro keeps_intros keeps_outside keeps_refund_rows keeps_refund_attempt)
  show "keeps (db_inv P) (reopenRefund X reference requestedBy)"
    unfolding reopenRefund_def by (intro keeps_commit keeps_intros keeps_inside keeps_refund_rows)
  show "keeps (db_inv P) (retryPending X limit)"
    unfolding retryPending_def by (intro keeps_intros keeps_refund_attempt)
qed

lemma keeps_runOnce: "keeps (db_inv P) (runOnce X)"
  unfolding runOnce_def by (intro keeps_intros keeps_refunds) (simp_all add: db_inv_def)

end

end
