(* ===== verification/Transfers.thy ===== *)
theory Transfers
  imports Webhook
begin

text \<open>
  Classic transfers (\<^verbatim>\<open>transactions/transactions.service.ts\<close>) and the request document they validate
  (\<^verbatim>\<open>xml/transfer-xml.builder.ts\<close>): business rules, idempotence, the row and its opening fact, the call to
  the back office, and the terminal state with its closing fact on both outcomes.
\<close>

section \<open>The request\<close>

record CreateTransferDto =
  ct_debtorIban :: string
  ct_debtorName :: "string option"
  ct_creditorIban :: string
  ct_creditorName :: string
  ct_amount :: number
  ct_currency :: string
  ct_endToEndLabel :: "string option"

definition TRANSFER_NAMESPACE :: string where
  "TRANSFER_NAMESPACE = ''urn:banking:transfer:1.0''"

definition buildTransferRequest :: "CreateTransferDto \<Rightarrow> string" where
  "buildTransferRequest dto =
     (let body = join newline (somes
            [Some (element ''debtorIban'' (ct_debtorIban dto) 1),
             optionalElement ''debtorName'' (ct_debtorName dto) 1,
             Some (element ''creditorIban'' (ct_creditorIban dto) 1),
             Some (element ''creditorName'' (ct_creditorName dto) 1),
             Some (element ''amount'' (formatAmount (ct_amount dto)) 1),
             Some (element ''currency'' (ct_currency dto) 1),
             optionalElement ''endToEndLabel'' (ct_endToEndLabel dto) 1]) in
      join newline
        [''<?xml version='' @ dq @ ''1.0'' @ dq @ '' encoding='' @ dq @ ''UTF-8'' @ dq @ ''?>'',
         ''<TransferRequest xmlns='' @ dq @ TRANSFER_NAMESPACE @ dq @ ''>'', body, ''</TransferRequest>''])"

definition transferRequest_schema :: string where
  "transferRequest_schema = ''transfer-request.xsd''"

definition buildAndValidateRequestDocument :: "externals \<Rightarrow> CreateTransferDto \<Rightarrow> string io" where
  "buildAndValidateRequestDocument X dto =
     (let xml = buildTransferRequest dto in
      bnd (catching (assertValid X xml transferRequest_schema) (\<lambda>error.
             case error of XsdValidation schema violations \<Rightarrow> throw (HttpException UnprocessableEntity ''XSD_VALIDATION_FAILED'')
             | _ \<Rightarrow> throw error)) (\<lambda>_.
      ret xml))"

definition transfer_assertBusinessRules :: "settings \<Rightarrow> CreateTransferDto \<Rightarrow> unit io" where
  "transfer_assertBusinessRules C dto =
     (if ct_currency dto \<notin> set (cf_allowedCurrencies C)
        then throw (HttpException BadRequest ''CURRENCY_NOT_ALLOWED'')
      else if js_lt (cf_maxAmount C) (ct_amount dto)
        then throw (HttpException UnprocessableEntity ''AMOUNT_LIMIT_EXCEEDED'')
      else if ct_debtorIban dto = ct_creditorIban dto
        then throw (HttpException UnprocessableEntity ''SAME_ACCOUNT_TRANSFER'')
      else ret ())"

section \<open>The pending row\<close>

text \<open>\<^verbatim>\<open>repository.create\<close> with the defaults of the columns.\<close>

definition new_transfer :: "CreateTransferDto \<Rightarrow> string option \<Rightarrow> string \<Rightarrow> string \<Rightarrow> string \<Rightarrow> Transaction" where
  "new_transfer dto idempotencyKey row_id reference correlation =
     \<lparr>tx_id = row_id, tx_encryptionVersion = 1, tx_reference = reference, tx_idempotencyKey = idempotencyKey,
      tx_status = Tx_PENDING, tx_paymentChannel = LEGACY_TRANSFER, tx_debtorIban = ct_debtorIban dto,
      tx_debtorName = ct_debtorName dto, tx_creditorIban = ct_creditorIban dto,
      tx_creditorName = ct_creditorName dto, tx_amount = ct_amount dto, tx_currency = ct_currency dto,
      tx_endToEndLabel = ct_endToEndLabel dto, tx_amountInWords = None, tx_soapOperation = None,
      tx_soapDurationMs = None, tx_soapAttempts = None, tx_faultCode = None, tx_faultString = None,
      tx_failureReason = None, tx_correlationId = correlation, tx_processedAt = None,
      tx_mobileMoneyOperator = None, tx_payerMsisdn = None, tx_aggregatorReference = None, tx_providerStatus = None,
      tx_bankStatus = None, tx_reconciliationStatus = None, tx_aggregatorAmount = None, tx_aggregatorCurrency = None,
      tx_feeAmount = Fin 0, tx_mobileMoneyConfirmedAt = None, tx_reconciledAt = None, tx_reconciliationReason = None,
      tx_refundStatus = Refund_NOT_REQUIRED, tx_caseStatus = Case_NONE, tx_caseReason = None,
      tx_createdAt = 0, tx_updatedAt = 0, tx_fingerprint = None, tx_anchorStatus = Anchor_NOT_SEALED,
      tx_batchId = None, tx_leafIndex = None, tx_version = 0\<rparr>"

definition register_transfer :: "externals \<Rightarrow> Transaction \<Rightarrow> Transaction io" where
  "register_transfer X t =
     transaction
       (bnd (save_transaction X t) (\<lambda>persisted.
        bnd (assert_initial persisted) (\<lambda>_.
        bnd (record_event X True ((fact TRANSFER_INITIATED persisted)\<lparr>re_detail :=
               Some ''Virement enregistre, avant appel au back-office''\<rparr>) []) (\<lambda>_.
        ret persisted))))"

fun persist_from ::
  "nat \<Rightarrow> externals \<Rightarrow> CreateTransferDto \<Rightarrow> string option \<Rightarrow> string \<Rightarrow> (Transaction \<times> bool) io" where
  "persist_from 0 X dto idempotencyKey correlation =
     throw (HttpException InternalServerError ''REFERENCE_GENERATION_FAILED'')"
| "persist_from (Suc n) X dto idempotencyKey correlation =
     bnd (draw (randomUUID X)) (\<lambda>row_id.
     bnd (generate_reference X) (\<lambda>reference.
     catching (bnd (register_transfer X (new_transfer dto idempotencyKey row_id reference correlation)) (\<lambda>saved.
                 ret (saved, True))) (\<lambda>error.
       if truthy idempotencyKey \<and> repo_isUniqueViolation error (Some ''idempotency'')
       then bnd (repo_findByIdempotencyKey (the idempotencyKey)) (\<lambda>winner.
              case winner of
                Some r \<Rightarrow> ret (r, False)
              | None \<Rightarrow> throw (HttpException Conflict ''IDEMPOTENCY_CONFLICT''))
       else if repo_isUniqueViolation error None \<and> 0 < n
       then persist_from n X dto idempotencyKey correlation
       else throw error)))"

definition persistPendingTransaction ::
  "externals \<Rightarrow> CreateTransferDto \<Rightarrow> string option \<Rightarrow> (Transaction \<times> bool) io" where
  "persistPendingTransaction X dto idempotencyKey =
     bnd (getCorrelationId X) (\<lambda>correlation.
     persist_from MAX_REFERENCE_ATTEMPTS X dto idempotencyKey correlation)"

section \<open>Processing\<close>

text \<open>The terminal row, its fact and the closing fact, in one SQL transaction.\<close>

definition terminate_transfer ::
  "externals \<Rightarrow> TransactionState \<Rightarrow> Transaction \<Rightarrow> TransactionEventType \<Rightarrow> string option \<Rightarrow> string \<Rightarrow> Transaction io" where
  "terminate_transfer X before t ty detail closing =
     transaction
       (bnd (save_transaction X t) (\<lambda>persisted.
        bnd (assert_transition before persisted) (\<lambda>_.
        bnd (record_event X True ((fact ty persisted)\<lparr>re_detail := detail\<rparr>) []) (\<lambda>_.
        bnd (closeCase X True persisted (Some closing) []) (\<lambda>_.
        ret persisted)))))"

definition persistFailedTransaction :: "externals \<Rightarrow> Transaction \<Rightarrow> TransactionState \<Rightarrow> Transaction io" where
  "persistFailedTransaction X t before =
     terminate_transfer X before t TRANSFER_FAILED (tx_failureReason t) ''Dossier clos apres echec du virement''"

text \<open>What a failure leaves on the entity, and the response it becomes.\<close>

definition transfer_failure :: "externals \<Rightarrow> exn \<Rightarrow> Transaction \<Rightarrow> Transaction \<times> exn" where
  "transfer_failure X error t =
     (case error of
        SoapFault operation faultCode faultString \<Rightarrow>
          (t\<lparr>tx_soapOperation := Some operation, tx_faultCode := Some faultCode, tx_faultString := Some faultString,
             tx_failureReason := Some (message_of X error)\<rparr>, HttpException BadGateway ''SOAP_FAULT'')
      | SoapCommunication operation timedOut attempts \<Rightarrow>
          (t\<lparr>tx_soapOperation := Some operation, tx_soapAttempts := Some (int attempts),
             tx_failureReason := Some (message_of X error)\<rparr>,
           if timedOut then HttpException GatewayTimeout ''SOAP_TIMEOUT'' else HttpException BadGateway ''SOAP_UNAVAILABLE'')
      | SoapParsing operation \<Rightarrow>
          (t\<lparr>tx_soapOperation := Some operation, tx_failureReason := Some (message_of X error)\<rparr>,
           HttpException BadGateway ''SOAP_INVALID_RESPONSE'')
      | _ \<Rightarrow>
          (t\<lparr>tx_failureReason := Some ''Erreur interne pendant le traitement''\<rparr>,
           HttpException InternalServerError ''TRANSFER_PROCESSING_FAILED''))"

definition handleProcessingFailure :: "externals \<Rightarrow> Transaction \<Rightarrow> TransactionState \<Rightarrow> exn \<Rightarrow> Transaction io" where
  "handleProcessingFailure X t before error =
     bnd (draw (clock X)) (\<lambda>now.
       case transfer_failure X error (t\<lparr>tx_status := Tx_FAILED, tx_processedAt := Some now\<rparr>) of
         (t', response) \<Rightarrow> bnd (persistFailedTransaction X t' before) (\<lambda>_. throw response))"

definition transfer_success :: "string \<Rightarrow> exchange \<Rightarrow> date \<Rightarrow> Transaction \<Rightarrow> Transaction" where
  "transfer_success words exch now t =
     t\<lparr>tx_status := Tx_COMPLETED, tx_amountInWords := Some words, tx_soapOperation := Some (ex_operation exch),
       tx_soapDurationMs := Some (ex_durationMs exch), tx_soapAttempts := Some (ex_attempts exch),
       tx_processedAt := Some now\<rparr>"

text \<open>The failure handler receives the entity as the guarded region left it.\<close>

definition processTransaction :: "externals \<Rightarrow> Transaction \<Rightarrow> Transaction io" where
  "processTransaction X t =
     (let before = stateOf t in
      bnd (save_transaction X (t\<lparr>tx_status := Tx_PROCESSING\<rparr>)) (\<lambda>processing.
      bnd (call_bank X processing) (\<lambda>answer.
        case answer of
          Inl error \<Rightarrow> handleProcessingFailure X processing before error
        | Inr (words, exch) \<Rightarrow>
            bnd (draw (clock X)) (\<lambda>now.
              let t' = transfer_success words exch now processing in
              catching
                (terminate_transfer X before t' TRANSFER_COMPLETED
                   (Some (''Back-office traite en '' @ int_dec (ex_durationMs exch) @ '' ms''))
                   ''Dossier clos apres virement abouti'')
                (\<lambda>error. handleProcessingFailure X t' before error)))))"

definition initiateTransfer :: "externals \<Rightarrow> settings \<Rightarrow> CreateTransferDto \<Rightarrow> string option \<Rightarrow> Transaction io" where
  "initiateTransfer X C dto idempotencyKey =
     bnd (transfer_assertBusinessRules C dto) (\<lambda>_.
     bnd (buildAndValidateRequestDocument X dto) (\<lambda>requestXml.
     bnd (if truthy idempotencyKey then repo_findByIdempotencyKey (the idempotencyKey) else ret None) (\<lambda>existing.
       case existing of
         Some r \<Rightarrow> ret r
       | None \<Rightarrow>
           bnd (persistPendingTransaction X dto idempotencyKey) (\<lambda>(t, isNew).
           if \<not> isNew then ret t else processTransaction X t))))"

definition transfers_findByReference :: "string \<Rightarrow> Transaction io" where
  "transfers_findByReference reference =
     bnd (repo_findByReference reference) (\<lambda>r.
       case r of None \<Rightarrow> throw (HttpException NotFound ''TRANSACTION_NOT_FOUND'') | Some t \<Rightarrow> ret t)"

section \<open>The contract of the register is kept\<close>

lemma keeps_transfer_checks [keeps_intros]:
  "keeps (db_inv P) (transfer_assertBusinessRules C dto)" "keeps (db_inv P) (buildAndValidateRequestDocument X dto)"
  "keeps (db_inv P) (transfers_findByReference reference)"
proof -
  show "keeps (db_inv P) (buildAndValidateRequestDocument X dto)"
    unfolding buildAndValidateRequestDocument_def assertValid_def
    by (intro keeps_intros) (simp_all add: keeps_pure split: exn.split)
qed (unfold transfer_assertBusinessRules_def transfers_findByReference_def, (intro keeps_intros)+)

context store_contract
begin

lemma keeps_terminate: "keeps (db_inv P) (terminate_transfer X before t ty detail closing)"
  unfolding terminate_transfer_def by (intro keeps_commit keeps_intros keeps_inside)

lemma keeps_process: "keeps (db_inv P) (processTransaction X t)"
  unfolding processTransaction_def handleProcessingFailure_def persistFailedTransaction_def
  by (intro keeps_intros keeps_outside keeps_call_bank keeps_terminate)

lemma keeps_initiateTransfer: "keeps (db_inv P) (initiateTransfer X C dto key)"
proof -
  have "keeps (db_inv P) (register_transfer X t)" for t
    unfolding register_transfer_def by (intro keeps_commit keeps_intros keeps_inside)
  then have "keeps (db_inv P) (persist_from n X dto key correlation)" for n correlation
    by (induction n) (auto intro!: keeps_intros)
  then show ?thesis
    unfolding initiateTransfer_def persistPendingTransaction_def by (intro keeps_intros keeps_process)
qed

end

end
