(* ===== verification/Anchoring.thy ===== *)
theory Anchoring
  imports Register_Contract
begin

text \<open>
  The anchoring of closing facts by batches (\<^verbatim>\<open>blockchain/anchor.service.ts\<close>): the constitution of a batch
  with its Merkle tree, the recovery of an interrupted one, the publication of the root through the client
  of the contract, and the retries. The advisory lock of the database is granted or not from outside;
  the scheduler and the metrics are not modelled.
\<close>

record anchor_settings =
  as_enabled :: bool
  as_chainId :: string
  as_contractAddress :: string
  as_batchMaxSize :: nat
  as_maxRetries :: nat

record BatchItems =
  it_transactions :: "Transaction list"
  it_events :: "TransactionEvent list"

record BatchOutcome =
  bo_batch :: "AnchorBatch option"
  bo_anchored :: nat
  bo_reason :: "string option"

definition countItems :: "BatchItems \<Rightarrow> nat" where
  "countItems items = length (it_transactions items) + length (it_events items)"

text \<open>What an anchorable row exposes: its identifier, its fingerprint and its leaf index.\<close>

type_synonym anchorable = "string \<times> string option \<times> nat option"

definition anchorables :: "BatchItems \<Rightarrow> anchorable list" where
  "anchorables items =
     map (\<lambda>t. (tx_id t, tx_fingerprint t, tx_leafIndex t)) (it_transactions items) @
     map (\<lambda>e. (ev_id e, Some (ev_fingerprint e), ev_leafIndex e)) (it_events items)"

section \<open>The rows\<close>

definition put_batch :: "AnchorBatch \<Rightarrow> db \<Rightarrow> db" where
  "put_batch b d = d\<lparr>db_batches := map (\<lambda>x. if ab_id x = ab_id b then b else x) (db_batches d)\<rparr>"

definition save_batch :: "externals \<Rightarrow> AnchorBatch \<Rightarrow> AnchorBatch io" where
  "save_batch X b =
     bnd (draw (clock X)) (\<lambda>now.
     bnd (modifies (on_db (put_batch (b\<lparr>ab_updatedAt := now\<rparr>)))) (\<lambda>_. ret (b\<lparr>ab_updatedAt := now\<rparr>)))"

definition insert_batch :: "externals \<Rightarrow> anchor_settings \<Rightarrow> string \<Rightarrow> nat \<Rightarrow> AnchorBatch io" where
  "insert_batch X A merkleRoot leafCount =
     bnd (draw (randomUUID X)) (\<lambda>row_id.
     bnd (draw (clock X)) (\<lambda>now.
       let b = \<lparr>ab_id = row_id, ab_status = Batch_PENDING, ab_merkleRoot = merkleRoot, ab_leafCount = leafCount,
                ab_chainId = Some (as_chainId A), ab_contractAddress = Some (as_contractAddress A), ab_txHash = None,
                ab_blockNumber = None, ab_gasUsed = None, ab_anchoredAt = None, ab_attempts = 0, ab_lastError = None,
                ab_createdAt = now, ab_updatedAt = now\<rparr> in
       bnd get_db (\<lambda>d.
         if list_ex (\<lambda>x. ab_id x = row_id) (db_batches d) then throw (unique_violation ''PK_anchor_batches'')
         else bnd (modifies (on_db (\<lambda>d. d\<lparr>db_batches := db_batches d @ [b]\<rparr>))) (\<lambda>_. ret b))))"

text \<open>The anchoring columns of the events with the given identifiers.\<close>

definition attach :: "string \<Rightarrow> (string \<times> nat \<times> string list) list \<Rightarrow> TransactionEvent \<Rightarrow> TransactionEvent" where
  "attach batch_id places e =
     (case map_of places (ev_id e) of
        None \<Rightarrow> e
      | Some (index, path) \<Rightarrow> e\<lparr>ev_batchId := Some batch_id, ev_leafIndex := Some index, ev_merkleProof := Some path\<rparr>)"

definition set_anchor_status :: "string list \<Rightarrow> AnchorStatus \<Rightarrow> TransactionEvent \<Rightarrow> TransactionEvent" where
  "set_anchor_status ids status e = (if ev_id e \<in> set ids then e\<lparr>ev_anchorStatus := status\<rparr> else e)"

definition markItems :: "externals \<Rightarrow> BatchItems \<Rightarrow> AnchorStatus \<Rightarrow> unit io" where
  "markItems X items status =
     (let ids = map ev_id (it_events items);
          closedReferences = map ev_transactionReference (filter (\<lambda>e. ev_eventType e = CASE_CLOSED) (it_events items)) in
      bnd (draw (clock X)) (\<lambda>now.
      bnd (if it_transactions items \<noteq> []
           then modifies (on_db (project_status (\<lambda>t. tx_id t \<in> set (map tx_id (it_transactions items))) status now))
           else ret ()) (\<lambda>_.
        if it_events items = [] then ret ()
        else
          bnd (modifies (on_db (map_events (set_anchor_status ids status)))) (\<lambda>_.
          if closedReferences \<noteq> []
          then modifies (on_db (project_status (\<lambda>t. tx_reference t \<in> set closedReferences) status now))
          else ret ()))))"

section \<open>Constitution and recovery\<close>

fun leaves_of :: "externals \<Rightarrow> string list \<Rightarrow> string list io" where
  "leaves_of X [] = ret []"
| "leaves_of X (f # fs) =
     bnd (lift_hash (toLeaf (ethers_of X) f)) (\<lambda>l. bnd (leaves_of X fs) (\<lambda>ls. ret (l # ls)))"

fun places_from :: "MerkleTree \<Rightarrow> nat \<Rightarrow> TransactionEvent list \<Rightarrow> (string \<times> nat \<times> string list) list io" where
  "places_from tree i [] = ret []"
| "places_from tree i (e # es) =
     bnd (lift_hash (getProof tree (Fin (of_nat i)))) (\<lambda>path.
     bnd (places_from tree (Suc i) es) (\<lambda>rest. ret ((ev_id e, i, path) # rest)))"

definition pending_closings :: "anchor_settings \<Rightarrow> db \<Rightarrow> TransactionEvent list" where
  "pending_closings A d =
     take (as_batchMaxSize A) (sort_key ev_createdAt (filter (\<lambda>e. ev_anchorStatus e = Anchor_PENDING \<and>
       ev_eventType e = CASE_CLOSED \<and> ev_batchId e = None) (db_events d)))"

definition create_batch :: "externals \<Rightarrow> anchor_settings \<Rightarrow> (AnchorBatch \<times> BatchItems) option io" where
  "create_batch X A =
     transaction
       (bnd get_db (\<lambda>d.
          let pendingEvents = pending_closings A d in
          if pendingEvents = [] then ret None
          else
            bnd (leaves_of X (map ev_fingerprint pendingEvents)) (\<lambda>leaves.
            bnd (lift_hash (buildMerkleTree (ethers_of X) leaves)) (\<lambda>tree.
            bnd (insert_batch X A (mt_root tree) (length pendingEvents)) (\<lambda>batch.
            bnd (places_from tree 0 pendingEvents) (\<lambda>places.
            bnd (modifies (on_db (map_events (attach (ab_id batch) places)))) (\<lambda>_.
            ret (Some (batch, \<lparr>it_transactions = [], it_events = map (attach (ab_id batch) places) pendingEvents\<rparr>)))))))))"

text \<open>Ascending order of a nullable index: the nulls come last.\<close>

definition ascending_by_index :: "('a \<Rightarrow> nat option) \<Rightarrow> 'a list \<Rightarrow> 'a list" where
  "ascending_by_index key xs =
     sort_key (\<lambda>x. the (key x)) (filter (\<lambda>x. key x \<noteq> None) xs) @ filter (\<lambda>x. key x = None) xs"

definition batch_items :: "db \<Rightarrow> string \<Rightarrow> BatchItems" where
  "batch_items d batch_id =
     \<lparr>it_transactions = ascending_by_index tx_leafIndex (filter (\<lambda>t. tx_batchId t = Some batch_id) (db_transactions d)),
      it_events = ascending_by_index ev_leafIndex (filter (\<lambda>e. ev_batchId e = Some batch_id) (db_events d))\<rparr>"

fun resume_from :: "externals \<Rightarrow> AnchorBatch list \<Rightarrow> (AnchorBatch \<times> BatchItems) option io" where
  "resume_from X [] = ret None"
| "resume_from X (batch # rest) =
     bnd get_db (\<lambda>d.
       let items = batch_items d (ab_id batch); n = countItems items in
       if n = ab_leafCount batch \<and> 0 < n then ret (Some (batch, items))
       else
         bnd (save_batch X (batch\<lparr>ab_status := Batch_FAILED, ab_lastError :=
                Some (''Lot incomplet apres reprise : '' @ nat_dec n @ ''/'' @ nat_dec (ab_leafCount batch) @ '' elements'')\<rparr>)) (\<lambda>_.
         bnd (if 0 < n then markItems X items Anchor_FAILED else ret ()) (\<lambda>_.
         resume_from X rest)))"

definition findResumableBatch :: "externals \<Rightarrow> (AnchorBatch \<times> BatchItems) option io" where
  "findResumableBatch X =
     bnd get_db (\<lambda>d.
     resume_from X (sort_key ab_createdAt (filter (\<lambda>b. ab_status b = Batch_PENDING \<or> ab_status b = Batch_ANCHORING) (db_batches d))))"

definition findOrCreateBatch :: "externals \<Rightarrow> anchor_settings \<Rightarrow> (AnchorBatch \<times> BatchItems) option io" where
  "findOrCreateBatch X A =
     bnd (findResumableBatch X) (\<lambda>resumable.
       case resumable of Some claimed \<Rightarrow> ret (Some claimed) | None \<Rightarrow> create_batch X A)"

text \<open>The leaves put back in the order of the persisted indices.\<close>

fun place_leaves :: "externals \<Rightarrow> nat \<Rightarrow> anchorable list \<Rightarrow> string option list \<Rightarrow> exn + string option list" where
  "place_leaves X leafCount [] leaves = Inr leaves"
| "place_leaves X leafCount ((item_id, fingerprint, index) # rest) leaves =
     (case index of
        None \<Rightarrow> Inl (JsError (''Indice de feuille invalide (null) pour l'' @ [CHR 0x27] @ ''element '' @ item_id))
      | Some i \<Rightarrow>
          if leafCount \<le> i
          then Inl (JsError (''Indice de feuille invalide ('' @ nat_dec i @ '') pour l'' @ [CHR 0x27] @ ''element '' @ item_id))
          else
            (case fingerprint of
               None \<Rightarrow> Inl (JsError (''Element '' @ item_id @ '' sans empreinte dans un lot''))
             | Some fp \<Rightarrow>
                 (case toLeaf (ethers_of X) fp of
                    Inl e \<Rightarrow> Inl (HashFailure e)
                  | Inr leaf \<Rightarrow> place_leaves X leafCount rest (leaves[i := Some leaf]))))"

definition orderedLeaves :: "externals \<Rightarrow> BatchItems \<Rightarrow> nat \<Rightarrow> exn + string list" where
  "orderedLeaves X items leafCount =
     (case place_leaves X leafCount (anchorables items) (replicate leafCount None) of
        Inl e \<Rightarrow> Inl e
      | Inr leaves \<Rightarrow>
          (case find (\<lambda>i. leaves ! i = None) [0..<leafCount] of
             Some missing \<Rightarrow> Inl (JsError (''Feuille manquante a l'' @ [CHR 0x27] @ ''indice '' @ nat_dec missing))
           | None \<Rightarrow> Inr (map the leaves)))"

section \<open>Publication\<close>

definition recordBatchFailure ::
  "externals \<Rightarrow> anchor_settings \<Rightarrow> AnchorBatch \<Rightarrow> BatchItems \<Rightarrow> string \<Rightarrow> bool \<Rightarrow> BatchOutcome io" where
  "recordBatchFailure X A batch items reason forceFailure =
     (let exhausted = forceFailure \<or> as_maxRetries A \<le> ab_attempts batch in
      bnd (transaction
             (bnd (save_batch X (batch\<lparr>ab_status := (if exhausted then Batch_FAILED else Batch_PENDING),
                     ab_lastError := Some (js_slice 1024 reason)\<rparr>)) (\<lambda>failed.
              bnd (if exhausted then markItems X items Anchor_FAILED else ret ()) (\<lambda>_.
              ret failed)))) (\<lambda>saved.
      ret \<lparr>bo_batch = Some saved, bo_anchored = 0, bo_reason = Some reason\<rparr>))"

definition anchored_update :: "AnchorReceipt option \<Rightarrow> date \<Rightarrow> AnchorBatch \<Rightarrow> AnchorBatch" where
  "anchored_update receipt anchoredAt batch =
     (let b = batch\<lparr>ab_status := Batch_ANCHORED, ab_anchoredAt := Some anchoredAt, ab_lastError := None\<rparr> in
      case receipt of
        None \<Rightarrow> b
      | Some r \<Rightarrow> b\<lparr>ab_txHash := Some (rc_txHash r), ab_blockNumber := Some (rc_blockNumber r), ab_gasUsed := Some (rc_gasUsed r),
                    ab_chainId := Some (rc_chainId r), ab_contractAddress := Some (rc_contractAddress r)\<rparr>)"

definition finalizeBatch ::
  "externals \<Rightarrow> AnchorBatch \<Rightarrow> BatchItems \<Rightarrow> AnchorReceipt option \<Rightarrow> date \<Rightarrow> BatchOutcome io" where
  "finalizeBatch X batch items receipt anchoredAt =
     bnd (transaction
            (bnd (save_batch X (anchored_update receipt anchoredAt batch)) (\<lambda>anchored.
             bnd (markItems X items Anchor_ANCHORED) (\<lambda>_.
             ret anchored)))) (\<lambda>saved.
     ret \<lparr>bo_batch = Some saved, bo_anchored = countItems items, bo_reason = None\<rparr>)"

definition finalizeRecoveredBatch ::
  "externals \<Rightarrow> anchor_settings \<Rightarrow> AnchorBatch \<Rightarrow> BatchItems \<Rightarrow> OnChainBatch \<Rightarrow> BatchOutcome io" where
  "finalizeRecoveredBatch X A batch items onChain =
     (if toLowerCase (oc_merkleRoot onChain) \<noteq> toLowerCase (ab_merkleRoot batch) \<or> oc_leafCount onChain \<noteq> ab_leafCount batch
      then recordBatchFailure X A batch items ''Le lot existant sur la chaine ne correspond pas au lot persiste'' True
      else finalizeBatch X batch items None (oc_anchoredAt onChain))"

text \<open>The guarded region of an attempt: the batch already on the chain, or the receipt of its publication.\<close>

definition publish ::
  "externals \<Rightarrow> node \<Rightarrow> anchor_settings \<Rightarrow> AnchorBatch \<Rightarrow> string \<Rightarrow> nat \<Rightarrow> (OnChainBatch + AnchorReceipt) io" where
  "publish X N A batch merkleRoot n =
     bnd (client_getBatch X N (ab_id batch)) (\<lambda>existing.
       case existing of
         Some onChain \<Rightarrow> ret (Inl onChain)
       | None \<Rightarrow>
           bnd (client_anchorBatch X N (as_chainId A) (as_contractAddress A) (ab_id batch) merkleRoot n) (\<lambda>receipt.
           ret (Inr receipt)))"

definition anchorBatchItems ::
  "externals \<Rightarrow> node \<Rightarrow> anchor_settings \<Rightarrow> AnchorBatch \<Rightarrow> BatchItems \<Rightarrow> BatchOutcome io" where
  "anchorBatchItems X N A batch items =
     (case orderedLeaves X items (ab_leafCount batch) of
        Inl error \<Rightarrow> recordBatchFailure X A batch items (message_of X error) True
      | Inr leaves \<Rightarrow>
          bnd (lift_hash (buildMerkleTree (ethers_of X) leaves)) (\<lambda>tree.
            if toLowerCase (mt_root tree) \<noteq> toLowerCase (ab_merkleRoot batch)
            then recordBatchFailure X A batch items
                   ''Les empreintes du lot ne correspondent plus a sa racine de Merkle'' True
            else if as_maxRetries A \<le> ab_attempts batch
            then
              bnd (catching (client_getBatch X N (ab_id batch)) (\<lambda>_. ret None)) (\<lambda>existing.
                case existing of
                  Some onChain \<Rightarrow> finalizeRecoveredBatch X A batch items onChain
                | None \<Rightarrow> recordBatchFailure X A batch items
                    (''Nombre maximal de tentatives atteint ('' @ nat_dec (as_maxRetries A) @ '')'') True)
            else
              bnd (save_batch X (batch\<lparr>ab_status := Batch_ANCHORING, ab_attempts := ab_attempts batch + 1\<rparr>)) (\<lambda>started.
              attempting (publish X N A started (mt_root tree) (countItems items))
                (\<lambda>error. recordBatchFailure X A started items (message_of X error) False)
                (\<lambda>published.
                  case published of
                    Inl onChain \<Rightarrow> finalizeRecoveredBatch X A started items onChain
                  | Inr receipt \<Rightarrow>
                      bnd (draw (clock X)) (\<lambda>now. finalizeBatch X started items (Some receipt) now)))))"

definition no_batch :: "string \<Rightarrow> BatchOutcome" where
  "no_batch reason = \<lparr>bo_batch = None, bo_anchored = 0, bo_reason = Some reason\<rparr>"

text \<open>\<open>acquired\<close> is the answer of \<^verbatim>\<open>pg_try_advisory_lock\<close>.\<close>

definition processPendingBatch :: "externals \<Rightarrow> node \<Rightarrow> anchor_settings \<Rightarrow> bool \<Rightarrow> BatchOutcome io" where
  "processPendingBatch X N A acquired =
     (if \<not> as_enabled A then ret (no_batch ''ANCHORING_DISABLED'')
      else
        bnd (reads wd_anchoring) (\<lambda>running.
          if running then ret (no_batch ''ALREADY_RUNNING'')
          else
            bnd (modifies (\<lambda>w. w\<lparr>wd_anchoring := True\<rparr>)) (\<lambda>_.
            bnd (observing
                   (if \<not> acquired then ret (no_batch ''ALREADY_RUNNING'')
                    else
                      bnd (findOrCreateBatch X A) (\<lambda>claimed.
                        case claimed of
                          None \<Rightarrow> ret (no_batch ''NOTHING_TO_ANCHOR'')
                        | Some (batch, items) \<Rightarrow> anchorBatchItems X N A batch items))) (\<lambda>r.
            bnd (modifies (\<lambda>w. w\<lparr>wd_anchoring := False\<rparr>)) (\<lambda>_.
            lift_result r)))))"

section \<open>The contract of the register is kept\<close>

lemma fact_of_attach: "fact_of (attach batch_id places e) = fact_of e"
  by (simp add: attach_def fact_of_def split: option.split)

lemma fact_of_set_anchor_status: "fact_of (set_anchor_status ids status e) = fact_of e"
  by (simp add: set_anchor_status_def fact_of_def)

lemma keeps_anchor_reads [keeps_intros]:
  "keeps (db_inv P) (leaves_of X fs)" "keeps (db_inv P) (places_from tree i es)"
  "keeps (db_inv P) (publish X N A batch merkleRoot n)"
proof -
  show "keeps (db_inv P) (leaves_of X fs)" by (induction fs) (auto intro!: keeps_intros)
  show "keeps (db_inv P) (places_from tree i es)" by (induction es arbitrary: i) (auto intro!: keeps_intros)
  show "keeps (db_inv P) (publish X N A batch merkleRoot n)" unfolding publish_def by (intro keeps_intros)
qed

context store_contract
begin

lemma keeps_batch_rows:
  "keeps (db_inv P) (save_batch X b)" "keeps (db_inv (Q d0)) (save_batch X b)"
  "keeps (db_inv (Q d0)) (insert_batch X A merkleRoot n)"
  unfolding save_batch_def insert_batch_def by (intro keeps_intros keeps_write; simp add: put_batch_def)+

lemma keeps_markItems: "keeps (db_inv P) (markItems X items status)" "keeps (db_inv (Q d0)) (markItems X items status)"
  unfolding markItems_def
  by (intro keeps_intros keeps_anchoring keeps_project; simp add: fact_of_set_anchor_status)+

lemma keeps_findOrCreateBatch: "keeps (db_inv P) (findOrCreateBatch X A)"
proof -
  have "keeps (db_inv P) (resume_from X bs)" for bs
    by (induction bs) (auto simp: Let_def intro!: keeps_intros keeps_batch_rows keeps_markItems)
  moreover have "keeps (db_inv P) (create_batch X A)"
    unfolding create_batch_def
    by (intro keeps_commit keeps_intros keeps_batch_rows keeps_anchoring) (simp add: fact_of_attach)
  ultimately show ?thesis unfolding findOrCreateBatch_def findResumableBatch_def by (intro keeps_intros)
qed

lemma keeps_batch_outcome:
  "keeps (db_inv P) (recordBatchFailure X A batch items reason forced)"
  "keeps (db_inv P) (finalizeBatch X batch items receipt anchoredAt)"
  unfolding recordBatchFailure_def finalizeBatch_def
  by (intro keeps_intros keeps_commit keeps_batch_rows keeps_markItems)+

lemma keeps_processPendingBatch: "keeps (db_inv P) (processPendingBatch X N A acquired)"
proof -
  have "keeps (db_inv P) (anchorBatchItems X N A batch items)" for batch items
    unfolding anchorBatchItems_def finalizeRecoveredBatch_def
    by (intro keeps_intros keeps_batch_outcome keeps_batch_rows)
  then show ?thesis
    unfolding processPendingBatch_def
    by (intro keeps_intros keeps_findOrCreateBatch) (simp_all add: db_inv_def)
qed

end

end
