(* ===== verification/Gateway.thy ===== *)
theory Gateway
  imports Treasury Bank_Worker Refunds Transfers Anchoring
begin

text \<open>
  The gateway as a whole: the operations its endpoints and workers start, one after the other, each in
  its own request context, and the stores that can be reached.
\<close>

datatype operation =
    InitiateTransfer CreateTransferDto "string option"
  | InitiatePayment CreateMobileMoneyTransactionDto "string option"
  | Callback MobileMoneyWebhookDto string
  | DrainInstructions nat
  | RunReconciliation
  | SweepFunds nat
  | RequestRefund string "string option"
  | ReopenRefund string "string option"
  | RetryRefunds
  | AnchorBatchOf node anchor_settings bool
  | VerifyChain node string

definition forget :: "'a io \<Rightarrow> unit io" where
  "forget m = bnd m (\<lambda>_. ret ())"

fun perform :: "externals \<Rightarrow> settings \<Rightarrow> operation \<Rightarrow> unit io" where
  "perform X C (InitiateTransfer dto key) = forget (initiateTransfer X C dto key)"
| "perform X C (InitiatePayment dto key) = forget (initiate X C dto key)"
| "perform X C (Callback payload signature) = forget (handle X C payload signature)"
| "perform X C (DrainInstructions limit) = forget (drain X C limit)"
| "perform X C RunReconciliation = forget (runPending X)"
| "perform X C (SweepFunds limit) = forget (sweep X limit)"
| "perform X C (RequestRefund reference requestedBy) = forget (requestRefund X reference requestedBy)"
| "perform X C (ReopenRefund reference reopenedBy) = forget (reopenRefund X reference reopenedBy)"
| "perform X C RetryRefunds = forget (runOnce X)"
| "perform X C (AnchorBatchOf N A acquired) = forget (processPendingBatch X N A acquired)"
| "perform X C (VerifyChain N reference) = forget (verify X N None reference)"

text \<open>The request context an operation runs in, and the restart of the process.\<close>

definition in_request :: "string \<Rightarrow> world \<Rightarrow> world" where
  "in_request c w = w\<lparr>wd_correlationId := c\<rparr>"

definition restarted :: "world \<Rightarrow> world" where
  "restarted w = w\<lparr>wd_draining := False, wd_retrying := False, wd_anchoring := False\<rparr>"

inductive reachable :: "externals \<Rightarrow> settings \<Rightarrow> world \<Rightarrow> world \<Rightarrow> bool" for X C w0 where
  start: "reachable X C w0 w0"
| operation: "reachable X C w0 w \<Longrightarrow> perform X C op (in_request c w) = (r, w') \<Longrightarrow> reachable X C w0 w'"
| restart: "reachable X C w0 w \<Longrightarrow> reachable X C w0 (restarted w)"

inductive_cases reachableE: "reachable X C w0 w"

lemma db_inv_context [simp]: "db_inv P (in_request c w) = db_inv P w" "db_inv P (restarted w) = db_inv P w"
  by (simp_all add: db_inv_def in_request_def restarted_def)

context store_contract
begin

lemma keeps_perform: "keeps (db_inv P) (perform X C op)"
  by (cases op)
     (auto simp: forget_def intro!: keeps_intros keeps_initiateTransfer keeps_initiate keeps_handle keeps_drain
        keeps_runPending keeps_sweep keeps_refunds keeps_runOnce keeps_processPendingBatch keeps_verify)

lemma reachable_keeps: "reachable X C w0 w \<Longrightarrow> P (wd_db w0) \<Longrightarrow> P (wd_db w)"
proof (induction rule: reachable.induct)
  case (operation w op c r w')
  then have "db_inv P (in_request c w)" by (simp add: db_inv_def in_request_def)
  from keeps_run [OF keeps_perform this operation.hyps(2)] show ?case by (simp add: db_inv_def)
qed (simp_all add: restarted_def)

end

section \<open>What every history keeps\<close>

text \<open>
  C19. Whatever operations the endpoints and the workers perform, in whatever order, failing or not, the
  register only grows: every chain stays sealed, linked and numbered, every fact once recorded is still
  there with its content and its rank, the journal only gains entries, and each entry is balanced
  with positive lines.
\<close>

theorem register_only_grows:
  assumes "reachable X C w0 w" "ledger_ok X (wd_db w0)" "journal_ok (wd_db w0) (wd_db w0)"
  shows "ledger_ok X (wd_db w) \<and>
    (\<forall>reference. prefix (map fact_of (findChain (wd_db w0) reference)) (map fact_of (findChain (wd_db w) reference))) \<and>
    prefix (db_entries (wd_db w0)) (db_entries (wd_db w)) \<and>
    list_all journal_entries_balanced (db_entries (wd_db w)) \<and> list_all positive_lines (db_entries (wd_db w))"
  using chains.reachable_keeps [OF assms(1) continues_refl [OF assms(2)]] journal.reachable_keeps [OF assms(1,3)]
  by (simp add: continues_def journal_ok_def journal_grew_def)

lemma sample_journal_ok: "journal_ok (wd_db sample_world) (wd_db sample_world)"
  by (simp add: journal_ok_def journal_grew_def sample_world_def empty_db_def)

theorem register_only_grows_witness:
  "\<exists>r w. perform sample_externals sample_settings (SweepFunds 10) (in_request ''c1'' sample_world) = (r, w) \<and>
     ledger_ok sample_externals (wd_db w) \<and> list_all journal_entries_balanced (db_entries (wd_db w))"
proof -
  obtain r w where run: "perform sample_externals sample_settings (SweepFunds 10) (in_request ''c1'' sample_world) = (r, w)"
    by (cases "perform sample_externals sample_settings (SweepFunds 10) (in_request ''c1'' sample_world)")
  have "reachable sample_externals sample_settings sample_world w" using run by (blast intro: reachable.intros)
  from register_only_grows [OF this sample_world_ok sample_journal_ok] show ?thesis using run by blast
qed

text \<open>
  C20. Every history leaves accounts that close: the trial balance of any reachable store, for any
  transaction and any currency, has exact and equal totals and a zero difference, as long as the
  total is one the amounts can represent.
\<close>

theorem trial_balance_always_closes:
  assumes "reachable X C w0 w" "journal_ok (wd_db w0) (wd_db w0)"
    and "debits_of (concat (map je_lines (selected_entries (wd_db w) reference currency))) \<le> max_cents"
    and "trialBalance (wd_db w) reference currency = Inr tb"
  shows "tb_totalDebits tb = of_cents (debits_of (concat (map je_lines (selected_entries (wd_db w) reference currency)))) \<and>
    tb_totalCredits tb = tb_totalDebits tb \<and> tb_difference tb = Fin 0"
proof -
  have "journal_ok (wd_db w0) (wd_db w)" by (rule journal.reachable_keeps [OF assms(1,2)])
  then have "list_all journal_entries_balanced (db_entries (wd_db w))"
    "\<forall>e\<in>set (db_entries (wd_db w)). \<forall>l\<in>set (je_lines e). 0 < jl_amount l"
    by (simp_all add: journal_ok_def journal_grew_def positive_lines_def list_all_iff)
  from trial_balance_exact [OF this assms(3,4)] show ?thesis by blast
qed

theorem trial_balance_always_closes_witness:
  "\<exists>tb. trialBalance (wd_db sample_world) None None = Inr tb \<and> tb_difference tb = Fin 0"
proof -
  have none: "db_entries (wd_db sample_world) = []" by (simp add: sample_world_def empty_db_def)
  obtain tb where tb: "trialBalance (wd_db sample_world) None None = Inr tb" by (simp add: trialBalance_def none Let_def)
  have "debits_of (concat (map je_lines (selected_entries (wd_db sample_world) None None))) \<le> max_cents"
    by (simp add: selected_entries_def none debits_of_def)
  then show ?thesis
    using trial_balance_always_closes [OF reachable.start [of sample_externals sample_settings] sample_journal_ok _ tb] tb by blast
qed

text \<open>
  C21. Every history leaves lawful rows: references, idempotency keys and aggregator references stay
  unique, every row passes the CHECK constraints, and a row whose provider, bank and reconciliation
  statuses are recorded satisfies every invariant of the state machine, even where a handler writes
  without consulting the machine: no bank leg without a confirmed collection, no closed case with a
  pending debt.
\<close>

theorem rows_stay_lawful:
  assumes "reachable X C w0 w" "rows_ok (wd_db w0)"
  shows "distinct (map tx_reference (db_transactions (wd_db w))) \<and>
    (\<forall>t\<in>set (db_transactions (wd_db w)). \<forall>r\<in>set (db_transactions (wd_db w)).
       t \<noteq> r \<longrightarrow> (tx_idempotencyKey t \<noteq> None \<longrightarrow> tx_idempotencyKey t \<noteq> tx_idempotencyKey r) \<and>
         (tx_aggregatorReference t \<noteq> None \<longrightarrow> tx_aggregatorReference t \<noteq> tx_aggregatorReference r)) \<and>
    (\<forall>t\<in>set (db_transactions (wd_db w)). checks_transactions_state (stateOf t) \<and>
       (tx_providerStatus t \<noteq> None \<and> tx_bankStatus t \<noteq> None \<and> tx_reconciliationStatus t \<noteq> None \<longrightarrow>
          invariants_hold (stateOf t)))"
proof -
  let ?ts = "db_transactions (wd_db w)"
  have ok: "rows_ok (wd_db w)" by (rule rows.reachable_keeps [OF assms])
  have apart: "rows_apart t r" if "t \<in> set ?ts" "r \<in> set ?ts" "t \<noteq> r" for t r
    using ok that unfolding rows_ok_iff distinct_map inj_on_def by metis
  have "distinct (map tx_reference ?ts)"
    using ok apart by (auto simp: rows_ok_iff distinct_map inj_on_def rows_apart_def)
  moreover have "checks_transactions_state (stateOf t)" if "t \<in> set ?ts" for t
    using ok that by (auto simp: rows_ok_iff well_typed_row_def)
  ultimately show ?thesis using apart checks_give_invariants by (fastforce simp: rows_apart_def stateOf_def)
qed

lemma sample_rows_ok: "rows_ok (wd_db sample_world)"
  by (simp add: rows_ok_iff well_typed_row_def transaction_widths_def fits_def sample_world_def empty_db_def
      sample_transaction_def stateOf_def checks_transactions_state_def CHK_transactions_defs sql_defs)

theorem rows_stay_lawful_witness:
  "\<exists>r w. perform sample_externals sample_settings (SweepFunds 10) (in_request ''c1'' sample_world) = (r, w) \<and>
     distinct (map tx_reference (db_transactions (wd_db w)))"
proof -
  obtain r w where run: "perform sample_externals sample_settings (SweepFunds 10) (in_request ''c1'' sample_world) = (r, w)"
    by (cases "perform sample_externals sample_settings (SweepFunds 10) (in_request ''c1'' sample_world)")
  have "reachable sample_externals sample_settings sample_world w" using run by (blast intro: reachable.intros)
  from rows_stay_lawful [OF this sample_rows_ok] show ?thesis using run by blast
qed

end
