(* ===== verification/Observability.thy ===== *)
theory Observability
  imports Anchor_Client
begin

text \<open>
  What operations watch: the check of a restored store against the chain (\<^verbatim>\<open>observability/restore-verification.service.ts\<close>),
  the gauges computed when the metrics are scraped (\<^verbatim>\<open>observability/metrics.service.ts\<close>) and the health probes
  (\<^verbatim>\<open>health/health.controller.ts\<close>).
\<close>

section \<open>A restored store\<close>

datatype batch_verdict = COMPLETE | INCOMPLETE | ROOT_MISMATCH | ABSENT_ON_CHAIN | Batch_CHAIN_UNAVAILABLE

record BatchAudit =
  ba_batchId :: string
  ba_anchoredAt :: "date option"
  ba_publishedLeafCount :: "nat option"
  ba_restoredLeafCount :: nat
  ba_missing :: nat
  ba_verdict :: batch_verdict

datatype restore_verdict = CONSISTENT | DATA_LOSS | CHAIN_MISMATCH | Restore_CHAIN_UNAVAILABLE

record RestoreReport =
  rr_verdict :: restore_verdict
  rr_batchesExamined :: nat
  rr_eventsMissing :: nat
  rr_batchesMismatched :: nat
  rr_batches :: "BatchAudit list"
  rr_findings :: "string list"
  rr_verifiedAt :: date

text \<open>A batch has far fewer leaves than \<^verbatim>\<open>Number.MAX_SAFE_INTEGER\<close>, so the count published for it is a number exactly.\<close>

definition auditBatch :: "externals \<Rightarrow> node \<Rightarrow> AnchorBatch \<Rightarrow> nat \<Rightarrow> BatchAudit io" where
  "auditBatch X N batch restoredLeafCount =
     (let base = \<lparr>ba_batchId = ab_id batch, ba_anchoredAt = ab_anchoredAt batch, ba_publishedLeafCount = None,
            ba_restoredLeafCount = restoredLeafCount, ba_missing = 0, ba_verdict = Batch_CHAIN_UNAVAILABLE\<rparr> in
      catching
        (bnd (client_getBatch X N (ab_id batch)) (\<lambda>onChain. ret
          (case onChain of
             None \<Rightarrow> base\<lparr>ba_verdict := ABSENT_ON_CHAIN\<rparr>
           | Some b \<Rightarrow>
               let published = oc_leafCount b in
               if toLowerCase (oc_merkleRoot b) \<noteq> toLowerCase (ab_merkleRoot batch)
               then base\<lparr>ba_publishedLeafCount := Some published, ba_verdict := ROOT_MISMATCH\<rparr>
               else base\<lparr>ba_publishedLeafCount := Some published, ba_missing := published - restoredLeafCount,
                 ba_verdict := (if published = restoredLeafCount then COMPLETE else INCOMPLETE)\<rparr>)))
        (\<lambda>e. ret base))"

text \<open>The anchored batches, oldest first; a batch without a date comes last.\<close>

definition anchored_batches :: "db \<Rightarrow> AnchorBatch list" where
  "anchored_batches d =
     (let bs = filter (\<lambda>b. ab_status b = Batch_ANCHORED) (db_batches d) in
      sort_key (\<lambda>b. the (ab_anchoredAt b)) (filter (\<lambda>b. ab_anchoredAt b \<noteq> None) bs) @ filter (\<lambda>b. ab_anchoredAt b = None) bs)"

definition restored_leaves :: "db \<Rightarrow> AnchorBatch \<Rightarrow> nat" where
  "restored_leaves d batch = length (filter (\<lambda>e. ev_batchId e = Some (ab_id batch)) (db_events d))"

fun audit_batches :: "externals \<Rightarrow> node \<Rightarrow> AnchorBatch list \<Rightarrow> BatchAudit list io" where
  "audit_batches X N [] = ret []"
| "audit_batches X N (batch # batches) =
     bnd get_db (\<lambda>d.
     bnd (auditBatch X N batch (restored_leaves d batch)) (\<lambda>audit.
     bnd (audit_batches X N batches) (\<lambda>audits. ret (audit # audits))))"

definition mismatched :: "BatchAudit \<Rightarrow> bool" where
  "mismatched audit \<longleftrightarrow>
     ba_verdict audit = ABSENT_ON_CHAIN \<or> ba_verdict audit = ROOT_MISMATCH \<or>
     (ba_verdict audit = INCOMPLETE \<and> ba_missing audit = 0)"

definition restore_report :: "BatchAudit list \<Rightarrow> date \<Rightarrow> RestoreReport" where
  "restore_report audits now =
     (let chainUnavailable = list_ex (\<lambda>a. ba_verdict a = Batch_CHAIN_UNAVAILABLE) audits;
          eventsMissing = sum_list (map ba_missing audits);
          batchesMismatched = length (filter mismatched audits);
          findings =
            (if 0 < batchesMismatched
             then [nat_dec batchesMismatched @ '' lot(s) marque(s) ancre(s) en base divergent de la chaine : '' @
               ''publication absente, racine differente ou nombre de feuilles local superieur. '' @
               ''Ne remettez pas le service en ligne avant investigation.''] else []) @
            (if 0 < eventsMissing
             then [nat_dec eventsMissing @ '' fait(s) publie(s) sur la chaine sont absents de la base. '' @
                 ''La sauvegarde restauree est anterieure a ces ancrages : rejouez les journaux '' @
                 ''de transaction jusqu au dernier lot publie avant de remettre le service en ligne.'',
               ''Ne pas confondre avec une alteration : les faits ne sont pas modifies, ils manquent. '' @
                 ''Une attaque laisserait des empreintes qui ne correspondent plus, pas des lots incomplets.''] else []) @
            (if chainUnavailable
             then [''Chaine injoignable : la completude n a pas pu etre etablie. '' @
               ''Ne remettez pas le service en ligne sur la foi de ce rapport.''] else []) @
            (if batchesMismatched = 0 \<and> eventsMissing = 0 \<and> \<not> chainUnavailable
             then [''Les '' @ nat_dec (length audits) @ '' lot(s) ancre(s) sont complets : la base contient tout ce '' @
               ''qui a ete publie. La restauration peut etre consideree comme fidele.''] else []) in
      \<lparr>rr_verdict = (if 0 < batchesMismatched then CHAIN_MISMATCH else if 0 < eventsMissing then DATA_LOSS
         else if chainUnavailable then Restore_CHAIN_UNAVAILABLE else CONSISTENT),
       rr_batchesExamined = length audits, rr_eventsMissing = eventsMissing, rr_batchesMismatched = batchesMismatched,
       rr_batches = audits, rr_findings = findings, rr_verifiedAt = now\<rparr>)"

definition restore_verify :: "externals \<Rightarrow> node \<Rightarrow> RestoreReport io" where
  "restore_verify X N =
     bnd get_db (\<lambda>d.
     bnd (audit_batches X N (anchored_batches d)) (\<lambda>audits.
     bnd (draw (clock X)) (\<lambda>now. ret (restore_report audits now))))"

section \<open>Gauges\<close>

record Gauges =
  gg_debtOutstanding :: "(string \<times> number) list"
  gg_ledgerImbalance :: "(string \<times> number) list"
  gg_eventsUnanchored :: nat
  gg_casesOpen :: nat

text \<open>The lines joined with the currency of their entry, and a signed sum per currency; a \<^verbatim>\<open>float8\<close> is the nearest double.\<close>

definition joined_lines :: "db \<Rightarrow> (string \<times> JournalLine) list" where
  "joined_lines d = concat (map (\<lambda>e. map (Pair (je_currency e)) (je_lines e)) (db_entries d))"

definition signed_sum :: "EntryDirection \<Rightarrow> JournalLine list \<Rightarrow> int" where
  "signed_sum side ls = sum_list (map (\<lambda>l. if jl_direction l = side then jl_amount l else - jl_amount l) ls)"

definition sum_by_currency :: "EntryDirection \<Rightarrow> (string \<times> JournalLine) list \<Rightarrow> (string \<times> number) list" where
  "sum_by_currency side rows =
     map (\<lambda>currency. (currency, of_cents (signed_sum side (map snd (filter (\<lambda>(c, _). c = currency) rows)))))
       (remdups (map fst rows))"

definition refreshGauges :: "db \<Rightarrow> Gauges" where
  "refreshGauges d =
     \<lparr>gg_debtOutstanding = sum_by_currency CREDIT (filter (\<lambda>(_, l). jl_account l = PAYER_PAYABLE) (joined_lines d)),
      gg_ledgerImbalance = sum_by_currency DEBIT (joined_lines d),
      gg_eventsUnanchored = length (filter (\<lambda>e. ev_anchorStatus e = Anchor_PENDING) (db_events d)),
      gg_casesOpen = length (filter (\<lambda>t. tx_caseStatus t = Case_MANUAL_REVIEW) (db_transactions d))\<rparr>"

text \<open>
  The scrape, of which \<open>answered\<close> queries succeed before one fails: two gauges were reset first, the others keep their
  last values. The gauges are exposed in any case.
\<close>

definition scrape :: "nat \<Rightarrow> db \<Rightarrow> Gauges \<Rightarrow> Gauges" where
  "scrape answered d previous =
     (let fresh = refreshGauges d in
      \<lparr>gg_debtOutstanding = (if 1 \<le> answered then gg_debtOutstanding fresh else []),
       gg_ledgerImbalance = (if 2 \<le> answered then gg_ledgerImbalance fresh else []),
       gg_eventsUnanchored = (if 3 \<le> answered then gg_eventsUnanchored fresh else gg_eventsUnanchored previous),
       gg_casesOpen = (if 4 \<le> answered then gg_casesOpen fresh else gg_casesOpen previous)\<rparr>)"

section \<open>Health\<close>

text \<open>The probes: the answer of the store with its latency, the readiness of the SOAP client, the schemas and the contract.\<close>

record probes =
  pr_database :: "string + int"
  pr_soapClient :: bool
  pr_xsd :: bool
  pr_contract :: bool
  pr_chainEnabled :: bool
  pr_contractAddress :: string

record database_health =
  dh_up :: bool
  dh_latencyMs :: "int option"
  dh_error :: "string option"

record chain_health =
  ch_up :: bool
  ch_enabled :: bool
  ch_contractAddress :: "string option"

definition checkDatabase :: "probes \<Rightarrow> database_health" where
  "checkDatabase P =
     (case pr_database P of
        Inr latency \<Rightarrow> \<lparr>dh_up = True, dh_latencyMs = Some latency, dh_error = None\<rparr>
      | Inl reason \<Rightarrow> \<lparr>dh_up = False, dh_latencyMs = None, dh_error = Some reason\<rparr>)"

definition checkBlockchain :: "probes \<Rightarrow> chain_health" where
  "checkBlockchain P =
     (if \<not> pr_chainEnabled P then \<lparr>ch_up = True, ch_enabled = False, ch_contractAddress = None\<rparr>
      else \<lparr>ch_up = pr_contract P, ch_enabled = True, ch_contractAddress = Some (pr_contractAddress P)\<rparr>)"

record HealthReport =
  hr_ok :: bool
  hr_database :: database_health
  hr_soapClient :: bool
  hr_xsdSchemas :: bool
  hr_blockchain :: chain_health

text \<open>The answers with their HTTP status, 200 or 503.\<close>

definition health_ready :: "probes \<Rightarrow> nat \<times> bool" where
  "health_ready P =
     (let ready = (dh_up (checkDatabase P) \<and> pr_soapClient P \<and> pr_xsd P) in (if ready then 200 else 503, ready))"

definition health_check :: "probes \<Rightarrow> nat \<times> HealthReport" where
  "health_check P =
     (let database = checkDatabase P; blockchain = checkBlockchain P;
          healthy = (dh_up database \<and> pr_soapClient P \<and> pr_xsd P \<and> (\<not> ch_enabled blockchain \<or> ch_up blockchain)) in
      (if healthy then 200 else 503,
       \<lparr>hr_ok = healthy, hr_database = database, hr_soapClient = pr_soapClient P, hr_xsdSchemas = pr_xsd P,
        hr_blockchain = blockchain\<rparr>))"

text \<open>An instance in good health is ready; a node that does not answer makes it unhealthy and leaves it ready.\<close>

lemma healthy_is_ready: "fst (health_check P) = 200 \<Longrightarrow> health_ready P = (200, True)"
  by (simp add: health_check_def health_ready_def Let_def split: if_splits)

lemma chain_down_still_ready: "health_ready (P\<lparr>pr_contract := up\<rparr>) = health_ready P"
  by (simp add: health_ready_def checkDatabase_def)

section \<open>What the gauges say\<close>

lemma lines_of_currency:
  "map snd (filter (\<lambda>(c, _). c = currency) (joined_lines d)) =
   concat (map je_lines (filter (\<lambda>e. je_currency e = currency) (db_entries d)))"
proof -
  have "map snd (filter (\<lambda>(c, _). c = currency) (concat (map (\<lambda>e. map (Pair (je_currency e)) (je_lines e)) es))) =
      concat (map je_lines (filter (\<lambda>e. je_currency e = currency) es))" for es :: "JournalEntry list"
    by (induction es) (auto simp: filter_map comp_def)
  then show ?thesis by (simp add: joined_lines_def)
qed

lemma signed_sum_sides: "signed_sum DEBIT ls = debits_of ls - credits_of ls"
proof (induction ls)
  case (Cons l ls)
  then show ?case by (cases "jl_direction l") (simp_all add: signed_sum_def debits_of_def credits_of_def)
qed (simp add: signed_sum_def debits_of_def credits_of_def)

text \<open>The gauge of imbalance of a journal whose entries are balanced reads zero in every currency.\<close>

lemma imbalance_reads_zero:
  assumes "list_all journal_entries_balanced (db_entries d)"
  shows "list_all (\<lambda>(currency, v). v = Fin 0) (gg_ledgerImbalance (refreshGauges d))"
proof -
  have "signed_sum DEBIT (map snd (filter (\<lambda>(c, _). c = currency) (joined_lines d))) = 0" for currency
    using balanced_concat [of "filter (\<lambda>e. je_currency e = currency) (db_entries d)"] assms
    by (simp add: lines_of_currency signed_sum_sides list_all_iff)
  then show ?thesis by (simp add: refreshGauges_def sum_by_currency_def list_all_iff)
qed

text \<open>The gauge of debts reads, for each currency with such lines, the credit balance of the payers.\<close>

lemma debt_lines:
  "map snd (filter (\<lambda>(c, _). c = currency) (filter (\<lambda>(_, l). jl_account l = account) (joined_lines d))) =
   filter (\<lambda>l. jl_account l = account) (concat (map je_lines (filter (\<lambda>e. je_currency e = currency) (db_entries d))))"
proof -
  have "map snd (filter (\<lambda>(c, _). c = currency) (filter (\<lambda>(_, l). jl_account l = account) rows)) =
      filter (\<lambda>l. jl_account l = account) (map snd (filter (\<lambda>(c, _). c = currency) rows))" for rows :: "(string \<times> JournalLine) list"
    by (induction rows) auto
  then show ?thesis by (simp only: lines_of_currency)
qed

lemma signed_sum_credit: "signed_sum CREDIT ls = credits_of ls - debits_of ls"
proof (induction ls)
  case (Cons l ls)
  then show ?case by (cases "jl_direction l") (simp_all add: signed_sum_def debits_of_def credits_of_def)
qed (simp add: signed_sum_def debits_of_def credits_of_def)

lemma debt_reads_balance:
  "list_all (\<lambda>(currency, v). v = of_cents (- account_net PAYER_PAYABLE
     (concat (map je_lines (filter (\<lambda>e. je_currency e = currency) (db_entries d)))))) (gg_debtOutstanding (refreshGauges d))"
  by (simp add: refreshGauges_def sum_by_currency_def list_all_iff debt_lines signed_sum_credit account_net_def del: filter_filter)

section \<open>What a report says\<close>

text \<open>The batch as the node showed it: anchored in a state of the contract, with this root and this number of leaves.\<close>

definition shown_on_chain :: "node \<Rightarrow> AnchorBatch \<Rightarrow> nat \<Rightarrow> bool" where
  "shown_on_chain N batch leaves \<longleftrightarrow>
     (\<exists>n seen contract i B. node_at N n seen = Inr contract \<and> getBatch contract i = Inr B \<and>
        toLowerCase (bytes32_text (bt_merkleRoot B)) = toLowerCase (ab_merkleRoot batch) \<and> unat (bt_leafCount B) = leaves)"

lemma rpc_view:
  assumes "rpc N (view f) w = (Inr a, w')"
  shows "\<exists>n seen contract. node_at N n seen = Inr contract \<and> f contract = Inr a"
  using assms by (auto simp: rpc_def view_def action_simps map_sum_def split: sum.splits) blast

lemma getBatch_shown:
  assumes "client_getBatch X N i w = (Inr (Some b), w')"
  shows "\<exists>n seen contract j B. node_at N n seen = Inr contract \<and> getBatch contract j = Inr B \<and>
    oc_merkleRoot b = bytes32_text (bt_merkleRoot B) \<and> oc_leafCount b = unat (bt_leafCount B)"
  using assms unfolding client_getBatch_def
  by (auto simp: run_bnd ret_def throw_def split: prod.splits sum.splits if_splits dest!: rpc_view) blast

lemma reads_keep_db: "(\<And>P. keeps (db_inv P) m) \<Longrightarrow> m w = (r, w') \<Longrightarrow> wd_db w' = wd_db w"
  using keeps_run [of "db_inv (\<lambda>d. d = wd_db w)" m w r w'] by (simp add: db_inv_def)

text \<open>What is established of a batch and of its audit, in a store \<open>d\<close>.\<close>

definition audited :: "node \<Rightarrow> db \<Rightarrow> AnchorBatch \<Rightarrow> BatchAudit \<Rightarrow> bool" where
  "audited N d batch a \<longleftrightarrow>
     ba_batchId a = ab_id batch \<and> ba_restoredLeafCount a = restored_leaves d batch \<and>
     (ba_verdict a = COMPLETE \<longrightarrow> shown_on_chain N batch (restored_leaves d batch)) \<and>
     (0 < ba_missing a \<longrightarrow> ba_verdict a = INCOMPLETE \<and> shown_on_chain N batch (restored_leaves d batch + ba_missing a)) \<and>
     (ba_verdict a = COMPLETE \<longrightarrow> ba_missing a = 0)"

lemma auditBatch_run:
  "\<exists>a w'. auditBatch X N batch (restored_leaves d batch) w = (Inr a, w') \<and> wd_db w' = wd_db w \<and> audited N d batch a"
proof -
  obtain r v where run: "client_getBatch X N (ab_id batch) w = (r, v)" by (cases "client_getBatch X N (ab_id batch) w")
  have db: "wd_db v = wd_db w" by (rule reads_keep_db [where m = "client_getBatch X N (ab_id batch)"]) (use run db_keeps_client in auto)
  show ?thesis
  proof (cases "\<exists>b. r = Inr (Some b)")
    case True
    then obtain b where r: "r = Inr (Some b)" by blast
    from getBatch_shown [OF run [unfolded r]]
    have shown: "shown_on_chain N batch (oc_leafCount b)" if "toLowerCase (oc_merkleRoot b) = toLowerCase (ab_merkleRoot batch)"
      using that unfolding shown_on_chain_def by metis
    then show ?thesis
      using run r db by (auto simp: auditBatch_def Let_def catching_def run_bnd ret_def audited_def)
  next
    case False
    then show ?thesis
      using run db by (cases r) (auto simp: auditBatch_def Let_def catching_def run_bnd ret_def audited_def split: option.splits)
  qed
qed

lemma audit_batches_run:
  "\<exists>audits w'. audit_batches X N batches w = (Inr audits, w') \<and> wd_db w' = wd_db w \<and> list_all2 (audited N (wd_db w)) batches audits"
proof (induction batches arbitrary: w)
  case (Cons b bs)
  obtain a v where a: "auditBatch X N b (restored_leaves (wd_db w) b) w = (Inr a, v)" "wd_db v = wd_db w" "audited N (wd_db w) b a"
    using auditBatch_run by blast
  obtain audits w' where rest: "audit_batches X N bs v = (Inr audits, w')" "wd_db w' = wd_db v" "list_all2 (audited N (wd_db v)) bs audits"
    using Cons.IH by blast
  have "audit_batches X N (b # bs) w = (Inr (a # audits), w')"
    using a(1) rest(1) by (simp add: run_get_db run_bnd_Inr ret_def)
  then show ?case using a rest by simp
qed (simp add: ret_def)

lemma some_missing: "0 < sum_list (map f xs) \<longleftrightarrow> list_ex (\<lambda>x. 0 < f x) xs" for f :: "'a \<Rightarrow> nat"
  by (induction xs) auto

lemma report_verdicts:
  "rr_verdict (restore_report audits now) = CONSISTENT \<longleftrightarrow>
     list_all (\<lambda>a. \<not> mismatched a \<and> ba_missing a = 0 \<and> ba_verdict a \<noteq> Batch_CHAIN_UNAVAILABLE) audits"
  "rr_verdict (restore_report audits now) = DATA_LOSS \<longleftrightarrow> list_all (\<lambda>a. \<not> mismatched a) audits \<and> list_ex (\<lambda>a. 0 < ba_missing a) audits"
  using some_missing [of ba_missing audits] by (auto simp: restore_report_def Let_def list_all_iff list_ex_iff filter_empty_conv)

text \<open>
  The check of a restored store always returns a report and changes nothing. It calls the store consistent only when the
  node showed every anchored batch with the same root and with exactly the number of facts that the store holds, and conversely
  whenever all of them are complete; it reports a loss only when some batch was shown with more leaves
  than the store has facts, and then the report counts the missing ones.
\<close>

theorem restore_report_is_exact:
  "\<exists>report w'. restore_verify X N w = (Inr report, w') \<and> wd_db w' = wd_db w \<and>
     list_all2 (\<lambda>b a. ba_batchId a = ab_id b \<and> ba_restoredLeafCount a = restored_leaves (wd_db w) b)
       (anchored_batches (wd_db w)) (rr_batches report) \<and>
     (rr_verdict report = CONSISTENT \<longleftrightarrow> list_all (\<lambda>a. ba_verdict a = COMPLETE) (rr_batches report)) \<and>
     (rr_verdict report = CONSISTENT \<longrightarrow>
        list_all (\<lambda>b. shown_on_chain N b (restored_leaves (wd_db w) b)) (anchored_batches (wd_db w))) \<and>
     (rr_verdict report = DATA_LOSS \<longrightarrow>
        (\<exists>b\<in>set (anchored_batches (wd_db w)). \<exists>k. 0 < k \<and> k \<le> rr_eventsMissing report \<and>
           shown_on_chain N b (restored_leaves (wd_db w) b + k)))"
proof -
  obtain audits v where run: "audit_batches X N (anchored_batches (wd_db w)) w = (Inr audits, v)" "wd_db v = wd_db w"
    and all: "list_all2 (audited N (wd_db w)) (anchored_batches (wd_db w)) audits"
    using audit_batches_run by blast
  let ?report = "restore_report audits (clock X (wd_draws v))"
  have verify: "restore_verify X N w = (Inr ?report, v\<lparr>wd_draws := Suc (wd_draws v)\<rparr>)"
    using run by (simp add: restore_verify_def run_get_db run_bnd_Inr run_draw ret_def)
  have batches: "rr_batches ?report = audits" "rr_eventsMissing ?report = sum_list (map ba_missing audits)"
    by (simp_all add: restore_report_def Let_def)
  have complete: "ba_verdict a = COMPLETE" if "\<not> mismatched a" "ba_missing a = 0" "ba_verdict a \<noteq> Batch_CHAIN_UNAVAILABLE" for a
    using that by (cases "ba_verdict a") (auto simp: mismatched_def)
  have per: "\<And>a. a \<in> set audits \<Longrightarrow> \<exists>b\<in>set (anchored_batches (wd_db w)). audited N (wd_db w) b a"
    "\<And>b. b \<in> set (anchored_batches (wd_db w)) \<Longrightarrow> \<exists>a\<in>set audits. audited N (wd_db w) b a"
    using all by (auto simp: list_all2_conv_all_nth in_set_conv_nth) (metis nth_mem)+
  have ok: "rr_verdict ?report = CONSISTENT \<longleftrightarrow> list_all (\<lambda>a. ba_verdict a = COMPLETE) audits"
    unfolding report_verdicts list_all_iff
    using complete per(1) by (fastforce simp: audited_def mismatched_def)
  then have "list_all (\<lambda>b. shown_on_chain N b (restored_leaves (wd_db w) b)) (anchored_batches (wd_db w))"
    if "rr_verdict ?report = CONSISTENT"
    using that per(2) by (fastforce simp: list_all_iff audited_def)
  moreover have "\<exists>b\<in>set (anchored_batches (wd_db w)). \<exists>k. 0 < k \<and> k \<le> rr_eventsMissing ?report \<and>
      shown_on_chain N b (restored_leaves (wd_db w) b + k)" if "rr_verdict ?report = DATA_LOSS"
  proof -
    obtain a where a: "a \<in> set audits" "0 < ba_missing a" using \<open>rr_verdict ?report = DATA_LOSS\<close> by (auto simp: report_verdicts list_ex_iff)
    moreover have "ba_missing a \<le> sum_list (map ba_missing audits)" using a(1) by (simp add: member_le_sum_list)
    ultimately show ?thesis using per(1) [OF a(1)] unfolding batches by (auto simp: audited_def)
  qed
  moreover have "list_all2 (\<lambda>b a. ba_batchId a = ab_id b \<and> ba_restoredLeafCount a = restored_leaves (wd_db w) b)
      (anchored_batches (wd_db w)) audits"
    using all by (rule list_all2_mono) (simp add: audited_def)
  ultimately show ?thesis using verify run(2) ok by (intro exI [of _ ?report]) (auto simp: batches)
qed

text \<open>A store that lost the only fact of its only anchored batch.\<close>

definition sample_batch :: AnchorBatch where
  "sample_batch =
     \<lparr>ab_id = replicate 32 CHR ''0'', ab_status = Batch_ANCHORED, ab_merkleRoot = bytes32_text 5, ab_leafCount = 1, ab_chainId = None,
      ab_contractAddress = None, ab_txHash = None, ab_blockNumber = None, ab_gasUsed = None, ab_anchoredAt = Some 7, ab_attempts = 1,
      ab_lastError = None, ab_createdAt = 0, ab_updatedAt = 0\<rparr>"

definition restored_world :: world where
  "restored_world = sample_world\<lparr>wd_db := empty_db\<lparr>db_batches := [sample_batch]\<rparr>,
     wd_chain := (deploy 1)\<lparr>aa_batches := (\<lambda>_. \<lparr>bt_merkleRoot = 5, bt_leafCount = 1, bt_anchoredAt = 7, bt_submitter = 1\<rparr>)\<rparr>\<rparr>"

definition calm_node :: node where
  "calm_node = \<lparr>node_ready = True, node_at = (\<lambda>n s. Inr s), node_hash = sample_evm, node_sender = 1, node_time = (\<lambda>n. 7),
     node_wait = (\<lambda>n. Inr None)\<rparr>"

lemma zeros: "hex_value (replicate n CHR ''0'') = 0" "replace_char CHR ''-'' [] (replicate n CHR ''0'') = replicate n CHR ''0''"
proof -
  show "hex_value (replicate n CHR ''0'') = 0"
    by (induction n) (simp_all add: hex_value_def char_value_def char_lower_def less_eq_char_def)
  show "replace_char CHR ''-'' [] (replicate n CHR ''0'') = replicate n CHR ''0''"
    by (induction n) (simp_all add: replace_char_def)
qed

lemma sample_batch_id: "uuidToBytes32 sample_ethers (replicate 32 CHR ''0'') = Inr (CHR ''0'' # CHR ''x'' # replicate 64 CHR ''0'')"
  "text_bytes32 (CHR ''0'' # CHR ''x'' # replicate 64 CHR ''0'') = Some 0"
proof -
  have hex: "list_all is_hex_digit (replicate n CHR ''0'')" for n
    by (simp add: list_all_iff is_hex_digit_def is_digit_def less_eq_char_def)
  show "uuidToBytes32 sample_ethers (replicate 32 CHR ''0'') = Inr (CHR ''0'' # CHR ''x'' # replicate 64 CHR ''0'')"
    using hex [of 32] replicate_add [of 32 32 "CHR ''0''"]
    by (simp add: uuidToBytes32_def zeros Let_def sample_ethers_def padStart_def)
  show "text_bytes32 (CHR ''0'' # CHR ''x'' # replicate 64 CHR ''0'') = Some 0"
    using hex [of 64] zeros(1) [of 64] by (simp add: text_bytes32_def is_bytes32_def)
qed

theorem restore_report_is_exact_witness:
  "\<exists>report w'. restore_verify sample_externals calm_node restored_world = (Inr report, w') \<and> rr_verdict report = DATA_LOSS \<and>
     (\<exists>b\<in>set (anchored_batches (wd_db restored_world)). \<exists>k. 0 < k \<and> k \<le> rr_eventsMissing report \<and>
        shown_on_chain calm_node b (restored_leaves (wd_db restored_world) b + k))"
proof -
  have "restore_verify sample_externals calm_node restored_world = (Inr report, w') \<Longrightarrow> rr_verdict report = DATA_LOSS" for report w'
    by (auto simp: restore_verify_def restored_world_def anchored_batches_def sample_batch_def auditBatch_def client_getBatch_def
        getContract_def calm_node_def sample_batch_id lift_hash_def to_word_def rpc_def view_def getBatch_def isAnchored_def
        catching_def bnd_def draw_def reads_def modifies_def get_db_def ret_def lift_result_def restored_leaves_def empty_db_def
        restore_report_def mismatched_def Let_def)
  then show ?thesis using restore_report_is_exact [of sample_externals calm_node restored_world] by metis
qed

end
