(* ===== verification/Ledger_Refinement.thy ===== *)
theory Ledger_Refinement
  imports Gateway Observability
begin

text \<open>
  The ledger as its readers see it, and the whole gateway as an implementation of it. The specification has one step: a
  decision is stated as a fact at the end of the register of its order, and in the same step the journal receives the
  entry that the posting rule of the fact gives, if it gives one. Identifiers, salts, retries, savepoints, batches, concurrent
  commits, rows and queues are left to the implementation. The simulation is proved operation by operation: recording a
  fact is matched by one step, every other write of the services by none, and what an SQL transaction takes back was never a
  step.
\<close>

section \<open>The specification\<close>

record ledger_spec =
  ls_facts :: "string \<Rightarrow> TransactionEvent list"
  ls_entries :: "JournalEntry list"

text \<open>A fact states the decision it is recorded for.\<close>

definition states :: "TransactionEvent \<Rightarrow> RecordEventInput \<Rightarrow> bool" where
  "states f input \<longleftrightarrow>
     ev_transactionReference f = tx_reference (re_transaction input) \<and> ev_eventType f = re_type input \<and>
     ev_expectedAmount f = tx_amount (re_transaction input) \<and> ev_observedAmount f = re_observedAmount input \<and>
     ev_currency f = tx_currency (re_transaction input) \<and> ev_actorId f = re_actorId input"

type_synonym ledger_label = "RecordEventInput \<times> TransactionEvent \<times> JournalEntry list"

inductive ledger_step :: "externals \<Rightarrow> ledger_spec \<Rightarrow> ledger_label \<Rightarrow> ledger_spec \<Rightarrow> bool" for X where
  record_fact: "states f input \<Longrightarrow> ev_transactionReference f = reference \<Longrightarrow>
    follows X (last_option (ls_facts L reference)) f \<Longrightarrow>
    (ev_eventType f = CASE_CLOSED \<longrightarrow> closings (ls_facts L reference) = 0) \<Longrightarrow>
    accounted f (re_transaction input) entries \<Longrightarrow>
    ledger_step X L (input, f, entries)
      (L\<lparr>ls_facts := (ls_facts L)(reference := ls_facts L reference @ [f]), ls_entries := ls_entries L @ entries\<rparr>)"

inductive_cases ledger_stepE: "ledger_step X L label L'"

inductive ledger_run :: "externals \<Rightarrow> ledger_spec \<Rightarrow> ledger_label list \<Rightarrow> ledger_spec \<Rightarrow> bool" for X L where
  idle: "ledger_run X L [] L"
| step: "ledger_run X L trace M \<Longrightarrow> ledger_step X M label N \<Longrightarrow> ledger_run X L (trace @ [label]) N"

definition books_balanced :: "ledger_label \<Rightarrow> bool" where
  "books_balanced = (\<lambda>(input, f, entries). list_all journal_entries_balanced entries)"

text \<open>The abstraction of a store: the facts of each register, without what the anchoring writes on them, and the journal.\<close>

definition ledger_of :: "db \<Rightarrow> ledger_spec" where
  "ledger_of d = \<lparr>ls_facts = (\<lambda>reference. map fact_of (findChain d reference)), ls_entries = db_entries d\<rparr>"

section \<open>What the specification promises\<close>

text \<open>A run is told by its labels: the facts of each register and the entries, in the order of the decisions.\<close>

lemma run_tells_ledger:
  assumes "ledger_run X L trace L'"
  shows "ls_facts L' reference = ls_facts L reference @ filter (\<lambda>f. ev_transactionReference f = reference) (map (\<lambda>(i, f, es). f) trace) \<and>
    ls_entries L' = ls_entries L @ concat (map (\<lambda>(i, f, es). es) trace)"
  using assms by (induction rule: ledger_run.induct) (auto elim!: ledger_stepE)

lemma run_trans:
  assumes "ledger_run X M ts N" "ledger_run X L trace M"
  shows "ledger_run X L (trace @ ts) N"
  using assms
proof (induction rule: ledger_run.induct)
  case (step ts M' label N)
  from ledger_run.step [OF step.IH [OF step.prems] step.hyps(2)] show ?case by simp
qed simp

section \<open>The simulation\<close>

lemma accounted_fact_of: "accounted (fact_of e) t es = accounted e t es"
proof -
  have "posted_lines (fact_of e) t = posted_lines e t" by (simp add: posted_lines_def fact_of_def split: option.split prod.split)
  then show ?thesis by (simp add: accounted_def fact_of_def)
qed

lemma states_fact_of: "prepared X input previous e \<Longrightarrow> states (fact_of e) input"
  by (simp add: states_def prepared_def fact_of_def)

lemma closings_fact_of: "closings (map fact_of es) = closings es"
  by (simp add: closings_def filter_map o_def)

lemma last_fact_of: "last_option (map fact_of es) = map_option fact_of (last_option es)"
  by (simp add: last_option_def last_map)

text \<open>A recorded fact is one step of the specification.\<close>

lemma record_simulates:
  assumes "record_event X nested input [] w = (Inr e, w')" "ledger_ok X (wd_db w)"
  shows "\<exists>es. ledger_step X (ledger_of (wd_db w)) (input, fact_of e, es) (ledger_of (wd_db w')) \<and>
    (POSTING_RULES (re_type input) = None \<longrightarrow> es = [])"
proof -
  let ?ref = "tx_reference (re_transaction input)" and ?d = "wd_db w" and ?d' = "wd_db w'"
  have e: "findChain ?d' ?ref = findChain ?d ?ref @ [e]" "follows X (findLatest ?d ?ref) e" "prepared X input (findLatest ?d ?ref) e"
    using record_alone [OF assms(1) [unfolded record_event_Suc] assms(2)] by auto
  obtain es where es: "?d' = (append_event e ?d)\<lparr>db_entries := db_entries ?d @ es\<rparr>" "accounted e (re_transaction input) es"
    using record_accounts [OF assms(1) [unfolded record_event_Suc] assms(2)] by blast
  have ref: "ev_transactionReference e = ?ref" "ev_eventType e = re_type input" using e(3) by (simp_all add: prepared_def)
  have "ledger_ok X ?d'"
    using record_from_chains [OF assms(1) [unfolded record_event_def] assms(2)] by (simp add: extends_def)
  then have closed: "ev_eventType e = CASE_CLOSED \<longrightarrow> closings (findChain ?d ?ref) = 0"
    using e(1) chain_ok_snoc [of X "findChain ?d ?ref" e] unfolding ledger_ok_def by metis
  have ev: "db_events ?d' = db_events (append_event e ?d)" using es(1) by simp
  have "findChain ?d' q = findChain ?d q" if "q \<noteq> ?ref" for q
    using that ref(1) findChain_append_other [of e q ?d] findChain_events [OF ev] by simp
  then have "ls_facts (ledger_of ?d') = (ls_facts (ledger_of ?d))(?ref := ls_facts (ledger_of ?d) ?ref @ [fact_of e])"
    using e(1) by (auto simp: ledger_of_def fun_eq_iff)
  moreover have "ls_entries (ledger_of ?d') = ls_entries (ledger_of ?d) @ es" using es(1) by (simp add: ledger_of_def)
  ultimately have L': "ledger_of ?d' = (ledger_of ?d)\<lparr>ls_facts := (ls_facts (ledger_of ?d))(?ref := ls_facts (ledger_of ?d) ?ref @ [fact_of e]),
      ls_entries := ls_entries (ledger_of ?d) @ es\<rparr>" by simp
  have "ledger_step X (ledger_of ?d) (input, fact_of e, es) (ledger_of ?d')"
    unfolding L'
  proof (rule record_fact)
    show "states (fact_of e) input" by (rule states_fact_of [OF e(3)])
    show "follows X (last_option (ls_facts (ledger_of ?d) ?ref)) (fact_of e)"
      using e(2) follows_fact_of [of X "findLatest ?d ?ref" e] by (simp add: ledger_of_def last_fact_of findLatest_last)
    show "accounted (fact_of e) (re_transaction input) es" using es(2) by (simp add: accounted_fact_of)
  qed (use closed ref in \<open>simp_all add: ledger_of_def closings_fact_of\<close>)
  moreover have "es = []" if "POSTING_RULES (re_type input) = None"
    using that es(2) ref(2) by (simp add: accounted_def posted_lines_def)
  ultimately show ?thesis by (intro exI [of _ es] conjI impI)
qed

text \<open>
  The simulation relation: inside an SQL transaction the store is a run away from where the transaction started, and
  between transactions it is a run of balanced books away from the first ledger.
\<close>

definition continues_run :: "externals \<Rightarrow> db \<Rightarrow> db \<Rightarrow> bool" where
  "continues_run X d0 d \<longleftrightarrow> ledger_ok X d \<and> (\<exists>trace. ledger_run X (ledger_of d0) trace (ledger_of d))"

definition simulates :: "externals \<Rightarrow> ledger_spec \<Rightarrow> db \<Rightarrow> bool" where
  "simulates X L d \<longleftrightarrow> ledger_ok X d \<and> (\<exists>trace. ledger_run X L trace (ledger_of d) \<and> list_all books_balanced trace)"

lemma ledger_of_frame: "db_events d = db_events d' \<Longrightarrow> db_entries d = db_entries d' \<Longrightarrow> ledger_of d = ledger_of d'"
  using findChain_events [of d d'] by (simp add: ledger_of_def)

lemma ledger_of_anchoring: "(\<And>e. fact_of (f e) = fact_of e) \<Longrightarrow> ledger_of (map_events f d) = ledger_of d"
  by (simp add: ledger_of_def findChain_map_events o_def) (simp add: map_events_def)

lemma ledger_ok_anchoring: "(\<And>e. fact_of (f e) = fact_of e) \<Longrightarrow> ledger_ok X (map_events f d) = ledger_ok X d"
  by (simp add: ledger_ok_def findChain_map_events chain_ok_map_events)

lemma record_in_simulates: "keeps (db_inv (continues_run X d0)) (record_event X True input [])"
proof (rule keepsI)
  fix w assume "db_inv (continues_run X d0) w"
  then obtain trace where w: "ledger_ok X (wd_db w)" "ledger_run X (ledger_of d0) trace (ledger_of (wd_db w))"
    by (auto simp: db_inv_def continues_run_def)
  obtain r w' where run: "record_event X True input [] w = (r, w')" by (cases "record_event X True input [] w")
  have "continues_run X d0 (wd_db w')"
  proof (cases r)
    case (Inl err)
    then show ?thesis using record_alone [OF run [unfolded record_event_Suc] w(1)] w by (auto simp: continues_run_def)
  next
    case (Inr e)
    have "ledger_ok X (wd_db w')"
      using record_from_chains [OF run [unfolded record_event_def] w(1)] by (simp add: extends_def)
    then show ?thesis
      using record_simulates [OF run [unfolded Inr] w(1)] ledger_run.step [OF w(2)] unfolding continues_run_def by blast
  qed
  then show "db_inv (continues_run X d0) (snd (record_event X True input [] w))" using run by (simp add: db_inv_def)
qed

lemma record_out_simulates:
  assumes "POSTING_RULES (re_type input) = None"
  shows "keeps (db_inv (simulates X L)) (record_event X False input [])"
proof (rule keepsI)
  fix w assume "db_inv (simulates X L) w"
  then obtain trace where w: "ledger_ok X (wd_db w)" "ledger_run X L trace (ledger_of (wd_db w))" "list_all books_balanced trace"
    by (auto simp: db_inv_def simulates_def)
  obtain r w' where run: "record_event X False input [] w = (r, w')" by (cases "record_event X False input [] w")
  have "simulates X L (wd_db w')"
  proof (cases r)
    case (Inl err)
    then show ?thesis using record_alone [OF run [unfolded record_event_Suc] w(1)] w assms by (auto simp: simulates_def)
  next
    case (Inr e)
    obtain es where st: "ledger_step X (ledger_of (wd_db w)) (input, fact_of e, es) (ledger_of (wd_db w'))" "es = []"
      using record_simulates [OF run [unfolded Inr] w(1)] assms by blast
    have "list_all books_balanced (trace @ [(input, fact_of e, es)])" using w(3) st(2) by (simp add: books_balanced_def)
    moreover have "ledger_ok X (wd_db w')"
      using record_from_chains [OF run [unfolded record_event_def] w(1)] by (simp add: extends_def)
    ultimately show ?thesis using ledger_run.step [OF w(2) st(1)] unfolding simulates_def by blast
  qed
  then show "db_inv (simulates X L) (snd (record_event X False input [] w))" using run by (simp add: db_inv_def)
qed

text \<open>A commit: the deferred check on the new entries makes the steps of the transaction steps of balanced books.\<close>

lemma commit_simulates:
  assumes "simulates X L d" "continues_run X d d'" "list_all journal_entries_balanced (new_entries d d')"
  shows "simulates X L d'"
proof -
  obtain trace where t: "ledger_run X L trace (ledger_of d)" "list_all books_balanced trace" using assms(1) by (auto simp: simulates_def)
  obtain ts where ts: "ledger_ok X d'" "ledger_run X (ledger_of d) ts (ledger_of d')" using assms(2) by (auto simp: continues_run_def)
  have "db_entries d' = db_entries d @ concat (map (\<lambda>(i, f, es). es) ts)"
    using run_tells_ledger [OF ts(2)] by (simp add: ledger_of_def)
  then have "list_all journal_entries_balanced (concat (map (\<lambda>(i, f, es). es) ts))" using assms(3) by (simp add: new_entries_def)
  then have "list_all books_balanced ts" by (auto simp: list_all_iff books_balanced_def)
  then show ?thesis using run_trans [OF ts(2) t(1)] t(2) ts(1) unfolding simulates_def by (metis list_all_append)
qed

interpretation simulation: register_contract X "simulates X L" "continues_run X" for X L
proof
  show "simulates X L d \<longleftrightarrow> simulates X L d'" if "db_events d = db_events d'" "db_entries d = db_entries d'" for d d'
    using ledger_of_frame [OF that] ledger_ok_events [OF that(1)] by (simp add: simulates_def)
  show "continues_run X d0 d \<longleftrightarrow> continues_run X d0 d'" if "db_events d = db_events d'" "db_entries d = db_entries d'" for d0 d d'
    using ledger_of_frame [OF that] ledger_ok_events [OF that(1)] by (simp add: continues_run_def)
  show "continues_run X d d" if "simulates X L d" for d
    using that ledger_run.idle by (auto simp: simulates_def continues_run_def)
  show "simulates X L (map_events f d)" if "\<And>e. fact_of (f e) = fact_of e" "simulates X L d" for f d
    using that by (simp add: simulates_def ledger_of_anchoring ledger_ok_anchoring)
  show "continues_run X d0 (map_events f d)" if "\<And>e. fact_of (f e) = fact_of e" "continues_run X d0 d" for f d0 d
    using that by (simp add: continues_run_def ledger_of_anchoring ledger_ok_anchoring)
qed (fact record_in_simulates record_out_simulates commit_simulates)+

section \<open>Properties\<close>

text \<open>
  C29. The gateway refines the specification of the ledger by forward simulation: whatever the endpoints and the workers do, in
  whatever order and with whatever failures, the ledger that results is the one the specification reaches by recording a
  sequence of decisions one at a time. Each of them adds one sealed fact that states the decision, follows the last fact of
  its order and is not a second closing, and together with the fact, in the same step, exactly the entry that the posting
  rule of the fact gives for its order, balanced. Every fact and every entry of the store comes from one of these steps,
  in their order.
\<close>

theorem gateway_refines_ledger:
  assumes "reachable X C w0 w" "ledger_ok X (wd_db w0)"
  shows "\<exists>trace. ledger_run X (ledger_of (wd_db w0)) trace (ledger_of (wd_db w)) \<and> list_all books_balanced trace \<and>
    (\<forall>reference. map fact_of (findChain (wd_db w) reference) = map fact_of (findChain (wd_db w0) reference) @
       filter (\<lambda>f. ev_transactionReference f = reference) (map (\<lambda>(i, f, es). f) trace)) \<and>
    db_entries (wd_db w) = db_entries (wd_db w0) @ concat (map (\<lambda>(i, f, es). es) trace)"
proof -
  have "simulates X (ledger_of (wd_db w0)) (wd_db w0)"
    using assms(2) ledger_run.idle [of X "ledger_of (wd_db w0)"] by (auto simp: simulates_def intro!: exI [of _ "[]"])
  from simulation.reachable_keeps [OF assms(1) this] obtain trace where
    "ledger_run X (ledger_of (wd_db w0)) trace (ledger_of (wd_db w))" "list_all books_balanced trace"
    by (auto simp: simulates_def)
  then show ?thesis using run_tells_ledger [of X "ledger_of (wd_db w0)" trace "ledger_of (wd_db w)"] by (auto simp: ledger_of_def)
qed

text \<open>A sweep of the delivered collection, as an operation of the gateway.\<close>

lemma recordable_in_request:
  "tx_correlationId (re_transaction input) \<noteq> [] \<Longrightarrow> recordable X input (in_request c w) = recordable X input w"
  by (simp add: recordable_def store_ready_def services_ok_def fact_fits_def correlation_of_def in_request_def)

theorem gateway_refines_ledger_witness:
  "\<exists>(w0 :: world) w trace en. reachable sample_externals sample_settings w0 w \<and>
     ledger_run sample_externals (ledger_of (wd_db w0)) trace (ledger_of (wd_db w)) \<and>
     concat (map (\<lambda>(i, f, es). es) trace) = [en] \<and> je_transactionReference en = tx_reference sample_delivered \<and>
     debits_of (je_lines en) = 125075 \<and> credits_of (je_lines en) = 125075"
proof -
  obtain w0 :: world where w0: "db_transactions (wd_db w0) = [sample_delivered]" "ledger_ok sample_externals (wd_db w0)"
    "\<forall>reference. sweeps_of (wd_db w0) reference = []"
    "recordable sample_externals (sweep_fact sample_delivered (of_cents 125075)) w0"
    using sample_closed by blast
  let ?w = "in_request ''c1'' w0"
  have c: "tx_correlationId (re_transaction (sweep_fact sample_delivered (of_cents 125075))) \<noteq> []"
    by (simp add: sweep_fact_def fact_def sample_delivered_def sample_transaction_def)
  have d: "wd_db ?w = wd_db w0" by (simp add: in_request_def)
  obtain out w e en where sw: "sweep sample_externals 100 ?w = (Inr out, w)" "db_entries (wd_db w) = db_entries (wd_db w0) @ [en]"
    "repatriation sample_delivered e en"
    using sample_sweep [of ?w] w0 recordable_in_request [OF c, of sample_externals "''c1''" w0] unfolding d by blast
  have "perform sample_externals sample_settings (SweepFunds 100) ?w = (Inr (), w)" using sw(1) by (simp add: forget_def run_bnd_Inr ret_def)
  then have reach: "reachable sample_externals sample_settings w0 w" by (blast intro: reachable.intros)
  obtain trace where "ledger_run sample_externals (ledger_of (wd_db w0)) trace (ledger_of (wd_db w))"
    "concat (map (\<lambda>(i, f, es). es) trace) = [en]"
    using gateway_refines_ledger [OF reach w0(2)] sw(2) by (metis same_append_eq)
  moreover have "je_transactionReference en = tx_reference sample_delivered" "debits_of (je_lines en) = 125075" "credits_of (je_lines en) = 125075"
    using sw(3) sample_whole_cents(1) by (simp_all add: repatriation_def debits_of_def credits_of_def)
  ultimately show ?thesis using reach by blast
qed

text \<open>
  The supervision of a running gateway never cries wolf about its books: after any history, the gauge of imbalance reads
  zero in every currency, and the gauge of debts reads exactly the credit balance of the payers in the journal.
\<close>

theorem gauges_tell_the_journal:
  assumes "reachable X C w0 w" "journal_ok (wd_db w0) (wd_db w0)" "2 \<le> answered"
  shows "list_all (\<lambda>(currency, v). v = Fin 0) (gg_ledgerImbalance (scrape answered (wd_db w) previous)) \<and>
    list_all (\<lambda>(currency, v). v = of_cents (- account_net PAYER_PAYABLE
      (concat (map je_lines (filter (\<lambda>e. je_currency e = currency) (db_entries (wd_db w)))))))
      (gg_debtOutstanding (scrape answered (wd_db w) previous))"
proof -
  have "journal_ok (wd_db w0) (wd_db w)" by (rule journal.reachable_keeps [OF assms(1,2)])
  then have "list_all journal_entries_balanced (db_entries (wd_db w))" by (simp add: journal_ok_def)
  from imbalance_reads_zero [OF this] show ?thesis using debt_reads_balance [of "wd_db w"] assms(3) by (simp add: scrape_def Let_def)
qed

theorem gauges_tell_the_journal_witness:
  "list_all (\<lambda>(currency, v). v = Fin 0)
     (gg_ledgerImbalance (scrape 4 (empty_db\<lparr>db_entries := [sample_entry]\<rparr>)
       \<lparr>gg_debtOutstanding = [], gg_ledgerImbalance = [], gg_eventsUnanchored = 0, gg_casesOpen = 0\<rparr>)) \<and>
   map fst (gg_ledgerImbalance (scrape 4 (empty_db\<lparr>db_entries := [sample_entry]\<rparr>)
       \<lparr>gg_debtOutstanding = [], gg_ledgerImbalance = [], gg_eventsUnanchored = 0, gg_casesOpen = 0\<rparr>)) = [''USD'']"
proof -
  let ?w = "sample_world\<lparr>wd_db := empty_db\<lparr>db_entries := [sample_entry]\<rparr>\<rparr>"
  have "journal_ok (wd_db ?w) (wd_db ?w)"
    by (simp add: journal_ok_def journal_grew_def positive_lines_def journal_entries_balanced_def sample_entry_def debits_of_def credits_of_def)
  from gauges_tell_the_journal [OF reachable.start [of sample_externals sample_settings ?w] this, of 4]
  show ?thesis
    by (simp add: scrape_def refreshGauges_def sum_by_currency_def joined_lines_def sample_entry_def Let_def)
qed

end
