(* ===== verification/Simulators.thy ===== *)
theory Simulators
  imports Refunds Webhook
begin

text \<open>
  The two simulators that stand for the outside: the aggregator, which builds and signs real callbacks
  (\<^verbatim>\<open>mobile-money/aggregator-simulator.service.ts\<close>, \<^verbatim>\<open>mobile-money/aggregator-simulator.controller.ts\<close>), and the provider of refunds,
  which remembers what it has paid (\<^verbatim>\<open>refunds/simulator-refund.adapter.ts\<close>).
\<close>

section \<open>The aggregator\<close>

record SimulateMobileMoneyDto =
  sm_status :: "MobileMoneyWebhookStatus option"
  sm_amount :: "number option"
  sm_currency :: "string option"

definition compact_date :: "date \<Rightarrow> string" where
  "compact_date now = replace_char (CHR ''-'') [] (take 10 (toISOString now))"

text \<open>The row of a payment carries its aggregator reference.\<close>

definition buildWebhook ::
  "Transaction \<Rightarrow> SimulateMobileMoneyDto \<Rightarrow> date \<Rightarrow> nat list \<Rightarrow> MobileMoneyWebhookDto" where
  "buildWebhook t input now bytes =
     (let status = (case sm_status input of None \<Rightarrow> Webhook_CONFIRMED | Some s \<Rightarrow> s) in
      \<lparr>wh_eventId = ''EVT-'' @ compact_date now @ ''-'' @ upper_hex bytes,
       wh_aggregatorReference = the (tx_aggregatorReference t),
       wh_status = status,
       wh_amount = (case sm_amount input of None \<Rightarrow> tx_amount t | Some a \<Rightarrow> a),
       wh_currency = wide_upper (js_trim (case sm_currency input of None \<Rightarrow> tx_currency t | Some c \<Rightarrow> c)),
       wh_occurredAt = toISOString now,
       wh_failureReason = (if status = Webhook_FAILED then Some ''Paiement refuse par le simulateur'' else None)\<rparr>)"

definition assertEnabled :: "bool \<Rightarrow> unit io" where
  "assertEnabled simulatorEnabled =
     (if \<not> simulatorEnabled then throw (HttpException NotFound ''SIMULATOR_DISABLED'') else ret ())"

definition simulator_findOne :: "bool \<Rightarrow> string \<Rightarrow> Transaction io" where
  "simulator_findOne simulatorEnabled aggregatorReference =
     bnd (assertEnabled simulatorEnabled) (\<lambda>_. mm_findByAggregatorReference aggregatorReference)"

definition simulator_confirm ::
  "externals \<Rightarrow> settings \<Rightarrow> bool \<Rightarrow> string \<Rightarrow> SimulateMobileMoneyDto \<Rightarrow> Transaction io" where
  "simulator_confirm X C simulatorEnabled aggregatorReference input =
     bnd (assertEnabled simulatorEnabled) (\<lambda>_.
     bnd (mm_findByAggregatorReference aggregatorReference) (\<lambda>t.
     bnd (draw (clock X)) (\<lambda>now.
     bnd (draw (random_bytes X)) (\<lambda>bytes.
       let payload = buildWebhook t input now (bytes 6) in handle X C payload (sign X C payload)))))"

text \<open>A callback of the simulator always carries a valid signature.\<close>

lemma simulated_signature_accepted: "verifySignature X C payload (sign X C payload) = ret ()"
  by (simp add: verifySignature_def)

context store_contract
begin

lemma keeps_simulator:
  "keeps (db_inv P) (simulator_findOne enabled reference)" "keeps (db_inv P) (simulator_confirm X C enabled reference input)"
  unfolding simulator_findOne_def simulator_confirm_def assertEnabled_def Let_def
  by (intro keeps_intros keeps_handle)+

end

section \<open>The provider of refunds\<close>

text \<open>\<open>Math.round(amount * 100) % 100\<close>; the remainder has the sign of the amount.\<close>

definition refund_cents :: "number \<Rightarrow> int option" where
  "refund_cents amount =
     (case Math_round (js_mul amount (Fin 100)) of
        Fin x \<Rightarrow> Some (sgn \<lfloor>x\<rfloor> * (\<bar>\<lfloor>x\<rfloor>\<bar> mod 100))
      | _ \<Rightarrow> None)"

text \<open>\<open>processed\<close> holds the reference given to each key; the answer carries whether it was a repetition.\<close>

definition simulator_refund ::
  "ProviderRefundRequest \<Rightarrow> nat list \<Rightarrow> (string \<rightharpoonup> string) \<Rightarrow> (exn + string \<times> bool) \<times> (string \<rightharpoonup> string)" where
  "simulator_refund request bytes processed =
     (case processed (pr_idempotencyKey request) of
        Some alreadyDone \<Rightarrow> (Inr (alreadyDone, True), processed)
      | None \<Rightarrow>
          if refund_cents (pr_amount request) = Some 13
          then (Inl (ProviderRefundRejected ''Solde marchand insuffisant''), processed)
          else if refund_cents (pr_amount request) = Some 99
          then (Inl (ProviderRefundUnavailable ''Delai d attente depasse''), processed)
          else
            let reference = ''RFN-'' @ upper_hex bytes in
            (Inr (reference, False), processed(pr_idempotencyKey request \<mapsto> reference)))"

text \<open>The answers to a sequence of requests.\<close>

fun simulator_serve ::
  "(ProviderRefundRequest \<times> nat list) list \<Rightarrow> (string \<rightharpoonup> string) \<Rightarrow> (string \<times> (exn + string \<times> bool)) list" where
  "simulator_serve [] processed = []"
| "simulator_serve ((request, bytes) # rest) processed =
     (case simulator_refund request bytes processed of
        (answer, processed') \<Rightarrow> (pr_idempotencyKey request, answer) # simulator_serve rest processed')"

text \<open>The payments granted under a key, in order.\<close>

definition granted :: "string \<Rightarrow> (string \<times> (exn + string \<times> bool)) list \<Rightarrow> (string \<times> bool) list" where
  "granted key answers = List.map_filter (\<lambda>(k, answer). case answer of Inr a \<Rightarrow> if k = key then Some a else None | Inl _ \<Rightarrow> None) answers"

lemma granted_Cons:
  "granted key ((k, answer) # rest) = (case answer of Inr a \<Rightarrow> if k = key then [a] else [] | Inl _ \<Rightarrow> []) @ granted key rest"
  by (simp add: granted_def List.map_filter_simps split: sum.split)

lemma granted_after: "processed key = Some r \<Longrightarrow> \<exists>n. granted key (simulator_serve requests processed) = replicate n (r, True)"
proof (induction requests processed rule: simulator_serve.induct)
  case (2 request bytes rest processed)
  obtain answer processed' where step: "simulator_refund request bytes processed = (answer, processed')"
    by (cases "simulator_refund request bytes processed")
  have keeps: "processed' key = Some r" and hit: "pr_idempotencyKey request = key \<Longrightarrow> answer = Inr (r, True)"
    using step 2(2) by (auto simp: simulator_refund_def Let_def split: option.splits if_splits)
  obtain n where n: "granted key (simulator_serve rest processed') = replicate n (r, True)" using "2.IH" [OF step [symmetric] keeps] by blast
  show ?case
  proof (cases "pr_idempotencyKey request = key")
    case True
    then have "granted key (simulator_serve ((request, bytes) # rest) processed) = replicate (Suc n) (r, True)"
      using step hit n by (simp add: granted_Cons)
    then show ?thesis by blast
  next
    case False
    then show ?thesis using step n by (auto simp: granted_Cons split: sum.split)
  qed
qed (simp add: granted_def List.map_filter_simps)

section \<open>Properties\<close>

text \<open>
  Whatever requests reach the provider of refunds, in whatever order, a key is paid at most once: the payments granted
  under it are one, which is not a repetition, followed by repetitions that give the same reference.
\<close>

theorem refund_paid_once_per_key:
  "\<exists>r n. granted key (simulator_serve requests Map.empty) \<in> {[], (r, False) # replicate n (r, True)}"
proof -
  have "\<exists>r n. granted key (simulator_serve requests processed) \<in> {[], (r, False) # replicate n (r, True)}" if "processed key = None" for processed
    using that
  proof (induction requests processed rule: simulator_serve.induct)
    case (2 request bytes rest processed)
    obtain answer processed' where step: "simulator_refund request bytes processed = (answer, processed')"
      by (cases "simulator_refund request bytes processed")
    show ?case
    proof (cases "processed' key")
      case None
      then have "pr_idempotencyKey request \<noteq> key \<or> (\<exists>e. answer = Inl e)"
        using step "2.prems" by (auto simp: simulator_refund_def Let_def split: option.splits if_splits)
      then show ?thesis using "2.IH" [OF step [symmetric] None] step by (auto simp: granted_Cons split: sum.split)
    next
      case (Some r)
      then have "answer = Inr (r, False)" "pr_idempotencyKey request = key"
        using step "2.prems" by (auto simp: simulator_refund_def Let_def split: option.splits if_splits)
      then show ?thesis using granted_after [where processed = processed' and key = key and requests = rest] Some step by (auto simp: granted_Cons)
    qed
  qed (simp add: granted_def List.map_filter_simps)
  then show ?thesis by simp
qed

end
