(* ===== verification/Access.thy ===== *)
theory Access
  imports Database
begin

text \<open>
  Access to the API (\<^verbatim>\<open>auth/api-key.service.ts\<close>, \<^verbatim>\<open>auth/guards/api-key.guard.ts\<close>, \<^verbatim>\<open>auth/scopes.ts\<close>): the keys
  read from the configuration, the bearer a request presents, and the guard that every route goes through. SHA-256 is an
  argument; secrets and digests are byte sequences.
\<close>

definition ALL_SCOPES :: "string list" where
  "ALL_SCOPES =
     [''transfers:read'', ''transfers:write'', ''refunds:write'', ''refunds:approve'', ''reconciliation:write'',
      ''ledger:read'', ''treasury:write'', ''anchors:read'', ''anchors:write'', ''simulator:write'']"

record ApiKeyIdentity =
  ak_keyId :: string
  ak_label :: string
  ak_scopes :: "string list"

record RegisteredKey = ApiKeyIdentity +
  rk_secretHash :: string

section \<open>Reading the configuration\<close>

text \<open>\<^verbatim>\<open>/^[A-Za-z0-9_-]{1,64}$/\<close>.\<close>

definition API_KEY_ID_PATTERN :: "string \<Rightarrow> bool" where
  "API_KEY_ID_PATTERN s \<longleftrightarrow>
     1 \<le> length s \<and> length s \<le> 64 \<and>
     list_all (\<lambda>c. is_upper c \<or> is_lower c \<or> is_digit c \<or> c = CHR ''_'' \<or> c = CHR ''-'') s"

text \<open>\<^verbatim>\<open>Buffer.from(s, 'hex')\<close> of an even number of hexadecimal digits.\<close>

definition hex_digit_value :: "char \<Rightarrow> nat" where
  "hex_digit_value c = (if is_digit c then of_char c - 48 else of_char (char_lower c) - 87)"

fun unhex :: "string \<Rightarrow> string" where
  "unhex (a # b # rest) = char_of (16 * hex_digit_value a + hex_digit_value b) # unhex rest"
| "unhex _ = []"

text \<open>\<^verbatim>\<open>[...new Set(xs)]\<close>: the first occurrences.\<close>

definition unique_first :: "'a list \<Rightarrow> 'a list" where
  "unique_first xs = rev (remdups (rev xs))"

definition granted_scopes :: "string \<Rightarrow> string list" where
  "granted_scopes scopes = unique_first (filter (\<lambda>s. s \<noteq> []) (map js_trim (split_char CHR '','' scopes)))"

definition parseEntry :: "string \<Rightarrow> RegisteredKey option" where
  "parseEntry entry =
     (let parts = split_char CHR ''|'' entry in
      if length parts < 3 \<or> 4 < length parts then None
      else
        let keyId = js_trim (parts ! 0); hash = js_trim (parts ! 1);
            label = (if length parts = 4 then js_trim (parts ! 3) else []);
            granted = granted_scopes (parts ! 2) in
        if \<not> API_KEY_ID_PATTERN keyId \<or> \<not> (length hash = 64 \<and> list_all is_hex_digit hash) then None
        else if filter (\<lambda>scope. scope \<notin> set ALL_SCOPES) granted \<noteq> [] then None
        else Some \<lparr>ak_keyId = keyId, ak_label = (if label = [] then keyId else label), ak_scopes = granted,
                   rk_secretHash = unhex (toLowerCase hash)\<rparr>)"

text \<open>The loop over the entries: the keys kept and the identifiers met twice.\<close>

definition load_entry ::
  "string \<Rightarrow> (string \<times> RegisteredKey) list \<times> string list \<Rightarrow> (string \<times> RegisteredKey) list \<times> string list" where
  "load_entry entry = (\<lambda>(keys, duplicateIds).
     case parseEntry entry of
       None \<Rightarrow> (keys, duplicateIds)
     | Some key \<Rightarrow>
         if ak_keyId key \<in> set duplicateIds then (keys, duplicateIds)
         else if map_of keys (ak_keyId key) \<noteq> None
         then (filter (\<lambda>(k, _). k \<noteq> ak_keyId key) keys, ak_keyId key # duplicateIds)
         else (keys @ [(ak_keyId key, key)], duplicateIds))"

definition load_keys :: "string list \<Rightarrow> (string \<times> RegisteredKey) list" where
  "load_keys apiKeys = fst (fold load_entry apiKeys ([], []))"

section \<open>Authenticating a request\<close>

text \<open>\<^verbatim>\<open>/^Bearer\s+(.+)$/i\<close> on the trimmed header; the dot stands for anything but a line terminator.\<close>

definition has_line_end :: "string \<Rightarrow> bool" where
  "has_line_end s \<longleftrightarrow>
     CHR 0x0A \<in> set s \<or> CHR 0x0D \<in> set s \<or>
     sublist [CHR 0xE2, CHR 0x80, CHR 0xA8] s \<or> sublist [CHR 0xE2, CHR 0x80, CHR 0xA9] s"

definition extractBearer :: "string option \<Rightarrow> string option" where
  "extractBearer header =
     (case header of
        None \<Rightarrow> None
      | Some h \<Rightarrow>
          let trimmed = js_trim h; rest = drop 6 trimmed; val = trim_start rest in
          if toLowerCase (take 6 trimmed) = ''bearer'' \<and> space_width rest \<noteq> 0 \<and> val \<noteq> [] \<and> \<not> has_line_end val
          then Some (js_trim val) else None)"

text \<open>The identifier and the secret that a header presents.\<close>

definition presented_key :: "string option \<Rightarrow> (string \<times> string) option" where
  "presented_key header =
     (case extractBearer header of
        None \<Rightarrow> None
      | Some presented \<Rightarrow>
          let keyId = takeWhile (\<lambda>c. c \<noteq> CHR ''.'') presented; secret = drop (Suc (length keyId)) presented in
          if length keyId = length presented \<or> keyId = [] \<or> secret = [] then None else Some (keyId, secret))"

definition authenticate ::
  "(string \<Rightarrow> string) \<Rightarrow> (string \<times> RegisteredKey) list \<Rightarrow> string option \<Rightarrow> ApiKeyIdentity option" where
  "authenticate sha256 keys header =
     (case presented_key header of
        None \<Rightarrow> None
      | Some (keyId, secret) \<Rightarrow>
          let candidate = sha256 secret in
          (case map_of keys keyId of
             None \<Rightarrow> None
           | Some registered \<Rightarrow>
               if length candidate \<noteq> length (rk_secretHash registered) \<or> candidate \<noteq> rk_secretHash registered then None
               else Some (ApiKeyIdentity.truncate registered)))"

text \<open>
  The guard, for a route that may be public and may require scopes: the identity it attaches to the request, none when the
  request goes through without one.
\<close>

definition canActivate ::
  "(string \<Rightarrow> string) \<Rightarrow> (string \<times> RegisteredKey) list \<Rightarrow> bool \<Rightarrow> bool \<Rightarrow> bool \<Rightarrow> string option \<Rightarrow> string list option \<Rightarrow>
   exn + ApiKeyIdentity option" where
  "canActivate sha256 keys isHttp isPublic enabled header required =
     (if \<not> isHttp then Inr None
      else if isPublic then Inr None
      else if \<not> enabled then Inr None
      else
        (case authenticate sha256 keys header of
           None \<Rightarrow> Inl (HttpException Unauthorized ''Cle d API absente ou invalide'')
         | Some identity \<Rightarrow>
             let missing = filter (\<lambda>scope. scope \<notin> set (ak_scopes identity)) (case required of None \<Rightarrow> [] | Some r \<Rightarrow> r) in
             if missing \<noteq> [] then Inl (HttpException Forbidden (''Habilitation manquante : '' @ join '', '' missing))
             else Inr (Some identity)))"

section \<open>Which keys are active\<close>

lemma parsed_key:
  assumes "parseEntry entry = Some key"
  shows "API_KEY_ID_PATTERN (ak_keyId key)" "set (ak_scopes key) \<subseteq> set ALL_SCOPES"
  using assms by (auto simp: parseEntry_def Let_def filter_empty_conv split: if_splits)

text \<open>An identifier is active when exactly one well-formed entry carries it.\<close>

definition entries_for :: "string list \<Rightarrow> string \<Rightarrow> RegisteredKey list" where
  "entries_for apiKeys keyId = filter (\<lambda>k. ak_keyId k = keyId) (List.map_filter parseEntry apiKeys)"

lemma load_entries:
  "fold load_entry es ([], []) = (keys, dups) \<Longrightarrow>
   (\<forall>keyId. map_of keys keyId = (case entries_for es keyId of [k] \<Rightarrow> Some k | _ \<Rightarrow> None)) \<and>
   (\<forall>keyId. keyId \<in> set dups \<longleftrightarrow> 2 \<le> length (entries_for es keyId))"
proof (induction es arbitrary: keys dups rule: rev_induct)
  case Nil
  then show ?case by (simp add: entries_for_def List.map_filter_simps)
next
  case (snoc e es)
  obtain ks ds where prev: "fold load_entry es ([], []) = (ks, ds)" by (cases "fold load_entry es ([], [])")
  note IH = snoc.IH [OF prev]
  have step: "load_entry e (ks, ds) = (keys, dups)" using snoc.prems prev by simp
  show ?case
  proof (cases "parseEntry e")
    case None
    then have "entries_for (es @ [e]) = entries_for es" by (auto simp: entries_for_def List.map_filter_def)
    then show ?thesis using IH step None by (simp add: load_entry_def)
  next
    case (Some key)
    let ?id = "ak_keyId key"
    have ent: "entries_for (es @ [e]) i = (if i = ?id then entries_for es i @ [key] else entries_for es i)" for i
      using Some by (simp add: entries_for_def List.map_filter_def)
    consider (none) "entries_for es ?id = []" | (one) k where "entries_for es ?id = [k]" | (more) "2 \<le> length (entries_for es ?id)"
      by (cases "entries_for es ?id" rule: remdups_adj.cases) auto
    then show ?thesis
    proof cases
      case none
      then have "keys = ks @ [(?id, key)]" "dups = ds" using step Some IH by (auto simp: load_entry_def)
      moreover have "map_of ks ?id = None" using IH none by simp
      ultimately show ?thesis using IH ent none by (auto simp: map_add_def split: option.split)
    next
      case one
      then have "keys = filter (\<lambda>(k, _). k \<noteq> ?id) ks" "dups = ?id # ds"
        using step Some IH by (auto simp: load_entry_def)
      moreover have "map_of (filter (\<lambda>(k, _). k \<noteq> ?id) ks) i = (if i = ?id then None else map_of ks i)" for i
        by (induction ks) auto
      ultimately show ?thesis using IH ent one by auto
    next
      case more
      then have "keys = ks" "dups = ds" using step Some IH by (auto simp: load_entry_def)
      moreover have "(case entries_for es ?id @ [key] of [k] \<Rightarrow> Some k | _ \<Rightarrow> None) = None" "map_of ks ?id = None"
        using more IH by (auto split: list.splits)
      ultimately show ?thesis using IH ent more by auto
    qed
  qed
qed

lemma loaded_keys: "map_of (load_keys apiKeys) keyId = (case entries_for apiKeys keyId of [k] \<Rightarrow> Some k | _ \<Rightarrow> None)"
proof -
  obtain keys dups where "fold load_entry apiKeys ([], []) = (keys, dups)" by (cases "fold load_entry apiKeys ([], [])")
  then show ?thesis using load_entries by (simp add: load_keys_def)
qed

lemma entries_parsed: "k \<in> set (entries_for apiKeys keyId) \<Longrightarrow> \<exists>entry\<in>set apiKeys. parseEntry entry = Some k"
  by (auto simp: entries_for_def List.map_filter_def)

section \<open>Properties\<close>

text \<open>
  C36. On a protected route, when authentication is on, a request goes through exactly when its header presents an
  identifier that one and only one well-formed entry of the configuration carries, the digest of its secret is the one of that
  entry, and the entry grants every scope the route requires; the identity attached is that entry's, and its scopes are
  known ones. Otherwise it is refused, with 401 for the key and 403 for the scopes; it never goes through without an identity.
\<close>

theorem access_granted_exactly:
  "(canActivate sha256 (load_keys apiKeys) True False True header required = Inr (Some identity) \<longleftrightarrow>
     (\<exists>keyId secret k. presented_key header = Some (keyId, secret) \<and> entries_for apiKeys keyId = [k] \<and>
        sha256 secret = rk_secretHash k \<and> identity = ApiKeyIdentity.truncate k \<and>
        set (case required of None \<Rightarrow> [] | Some r \<Rightarrow> r) \<subseteq> set (ak_scopes k) \<and> set (ak_scopes k) \<subseteq> set ALL_SCOPES)) \<and>
   canActivate sha256 (load_keys apiKeys) True False True header required \<in>
     range (\<lambda>i. Inr (Some i)) \<union> range (\<lambda>m. Inl (HttpException Unauthorized m)) \<union> range (\<lambda>m. Inl (HttpException Forbidden m))"
proof -
  define req where "req = (case required of None \<Rightarrow> [] | Some r \<Rightarrow> r)"
  have auth: "authenticate sha256 (load_keys apiKeys) header = Some i \<longleftrightarrow>
      (\<exists>keyId secret k. presented_key header = Some (keyId, secret) \<and> entries_for apiKeys keyId = [k] \<and>
        sha256 secret = rk_secretHash k \<and> i = ApiKeyIdentity.truncate k)" for i
    by (auto simp: authenticate_def Let_def loaded_keys split: option.splits list.splits if_splits)
  have scopes: "ak_scopes (ApiKeyIdentity.truncate k) = ak_scopes k" for k :: RegisteredKey
    by (simp add: ApiKeyIdentity.truncate_def)
  have known: "set (ak_scopes k) \<subseteq> set ALL_SCOPES" if "entries_for apiKeys keyId = [k]" for k keyId
    using entries_parsed [of k apiKeys keyId] that parsed_key(2) by auto
  have "canActivate sha256 (load_keys apiKeys) True False True header required = Inr (Some identity) \<longleftrightarrow>
      authenticate sha256 (load_keys apiKeys) header = Some identity \<and> set req \<subseteq> set (ak_scopes identity)"
    by (auto simp: canActivate_def Let_def req_def [symmetric] filter_empty_conv split: option.splits if_splits)
  then have "canActivate sha256 (load_keys apiKeys) True False True header required = Inr (Some identity) \<longleftrightarrow>
     (\<exists>keyId secret k. presented_key header = Some (keyId, secret) \<and> entries_for apiKeys keyId = [k] \<and>
        sha256 secret = rk_secretHash k \<and> identity = ApiKeyIdentity.truncate k \<and>
        set req \<subseteq> set (ak_scopes k) \<and> set (ak_scopes k) \<subseteq> set ALL_SCOPES)"
    unfolding auth using known by (auto simp: scopes)
  moreover have "canActivate sha256 (load_keys apiKeys) True False True header required \<in>
     range (\<lambda>i. Inr (Some i)) \<union> range (\<lambda>m. Inl (HttpException Unauthorized m)) \<union> range (\<lambda>m. Inl (HttpException Forbidden m))"
    by (auto simp: canActivate_def Let_def split: option.splits)
  ultimately show ?thesis unfolding req_def by blast
qed

end
