(* ===== verification/Field_Cipher.thy ===== *)
theory Field_Cipher
  imports Js_Text "HOL-Library.AList"
begin

text \<open>
  The encryption of the sensitive columns (\<^verbatim>\<open>security/field-cipher.ts\<close>), the derivation of its keys
  (\<^verbatim>\<open>security/key-derivation.ts\<close>) and the key ring the local custody hands out
  (\<^verbatim>\<open>security/env-key-custody.adapter.ts\<close>). AES-256-GCM and HKDF are arguments; a buffer is a byte sequence, and so is a
  text, which is its own UTF-8 encoding. An \<^verbatim>\<open>Error\<close> is its message.
\<close>

record crypto =
  gcm_seal :: "string \<Rightarrow> string \<Rightarrow> string \<Rightarrow> string \<Rightarrow> string \<times> string"
  gcm_open :: "string \<Rightarrow> string \<Rightarrow> string \<Rightarrow> string \<Rightarrow> string \<Rightarrow> string option"
  hkdf :: "string \<Rightarrow> string \<Rightarrow> string \<Rightarrow> nat \<Rightarrow> string"

text \<open>
  Documented behaviour of the cipher: \<open>gcm_seal key iv aad plaintext\<close> gives the ciphertext and a tag of 16 bytes, and
  \<open>gcm_open key iv aad tag ciphertext\<close> accepts exactly what was sealed so.
\<close>

definition gcm_ok :: "crypto \<Rightarrow> bool" where
  "gcm_ok C \<longleftrightarrow>
     (\<forall>key iv aad plain. length (snd (gcm_seal C key iv aad plain)) = 16) \<and>
     (\<forall>key iv aad tag c plain. gcm_open C key iv aad tag c = Some plain \<longleftrightarrow> gcm_seal C key iv aad plain = (c, tag))"

section \<open>Base64\<close>

definition b64_char :: "nat \<Rightarrow> char" where
  "b64_char n =
     (if n < 26 then char_of (65 + n) else if n < 52 then char_of (71 + n) else if n < 62 then char_of (n - 4)
      else if n = 62 then CHR ''-'' else CHR ''_'')"

text \<open>The decoder takes both alphabets.\<close>

definition b64_value :: "char \<Rightarrow> nat" where
  "b64_value c =
     (if is_upper c then of_char c - 65 else if is_lower c then of_char c - 71 else if is_digit c then of_char c + 4
      else if c = CHR ''-'' \<or> c = CHR ''+'' then 62 else 63)"

text \<open>\<^verbatim>\<open>buffer.toString('base64url')\<close>.\<close>

fun b64url :: "string \<Rightarrow> string" where
  "b64url [] = []"
| "b64url [a] = [b64_char (of_char a div 4), b64_char (of_char a mod 4 * 16)]"
| "b64url [a, b] =
     [b64_char (of_char a div 4), b64_char (of_char a mod 4 * 16 + of_char b div 16), b64_char (of_char b mod 16 * 4)]"
| "b64url (a # b # c # rest) =
     b64_char (of_char a div 4) # b64_char (of_char a mod 4 * 16 + of_char b div 16) #
     b64_char (of_char b mod 16 * 4 + of_char c div 64) # b64_char (of_char c mod 64) # b64url rest"

text \<open>\<^verbatim>\<open>Buffer.from(s, 'base64url')\<close> and \<^verbatim>\<open>Buffer.from(s, 'base64')\<close> of characters of the alphabet.\<close>

fun unb64 :: "string \<Rightarrow> string" where
  "unb64 (x # y # z # u # rest) =
     char_of (b64_value x * 4 + b64_value y div 16) # char_of (b64_value y mod 16 * 16 + b64_value z div 4) #
     char_of (b64_value z mod 4 * 64 + b64_value u) # unb64 rest"
| "unb64 [x, y, z] =
     [char_of (b64_value x * 4 + b64_value y div 16), char_of (b64_value y mod 16 * 16 + b64_value z div 4)]"
| "unb64 [x, y] = [char_of (b64_value x * 4 + b64_value y div 16)]"
| "unb64 _ = []"

section \<open>The key ring\<close>

definition PREFIX :: string where "PREFIX = ''enc.v1''"
definition IV_BYTES :: nat where "IV_BYTES = 12"
definition TAG_BYTES :: nat where "TAG_BYTES = 16"
definition DATA_KEY_BYTES :: nat where "DATA_KEY_BYTES = 32"

definition is_b64url :: "char \<Rightarrow> bool" where
  "is_b64url c \<longleftrightarrow> is_upper c \<or> is_lower c \<or> is_digit c \<or> c = CHR ''_'' \<or> c = CHR ''-''"

text \<open>\<^verbatim>\<open>/^[A-Za-z0-9_-]{1,32}$/\<close>.\<close>

definition KEY_ID_PATTERN :: "string \<Rightarrow> bool" where
  "KEY_ID_PATTERN s \<longleftrightarrow> 1 \<le> length s \<and> length s \<le> 32 \<and> list_all is_b64url s"

record FieldCipher =
  fc_currentKeyId :: "string option"
  fc_keys :: "(string \<times> string) list"

definition forgetKey :: FieldCipher where
  "forgetKey = \<lparr>fc_currentKeyId = None, fc_keys = []\<rparr>"

definition check_key :: "string \<times> string \<Rightarrow> string option" where
  "check_key = (\<lambda>(keyId, key).
     if \<not> KEY_ID_PATTERN keyId then Some (''Identifiant de cle invalide : '' @ keyId)
     else if length key \<noteq> 32
     then Some (''Cle '' @ keyId @ '' invalide : '' @ nat_dec (length key) @ '' octets au lieu de 32'') else None)"

definition useKeyRing :: "string \<Rightarrow> (string \<times> string) list \<Rightarrow> string + FieldCipher" where
  "useKeyRing currentKeyId keys =
     (if \<not> KEY_ID_PATTERN currentKeyId then Inl (''Identifiant de cle invalide : '' @ currentKeyId)
      else if map_of keys currentKeyId = None then Inl (''Cle courante absente du keyring : '' @ currentKeyId)
      else
        (case List.map_filter check_key keys of
           m # _ \<Rightarrow> Inl m
         | [] \<Rightarrow> Inr \<lparr>fc_currentKeyId = Some currentKeyId, fc_keys = keys\<rparr>))"

definition useKey :: "string \<Rightarrow> string + FieldCipher" where
  "useKey key = useKeyRing ''test'' [(''test'', key)]"

section \<open>Encrypting and decrypting a field\<close>

definition encrypt :: "crypto \<Rightarrow> FieldCipher \<Rightarrow> string \<Rightarrow> string option \<Rightarrow> string \<Rightarrow> string + string option" where
  "encrypt C ring iv val aad =
     (case val of
        None \<Rightarrow> Inr None
      | Some plain \<Rightarrow>
          (case fc_currentKeyId ring of
             None \<Rightarrow> Inl ''Chiffrement indisponible : aucune cle installee. Ecrire en clair reviendrait a croire la base protegee sans qu elle le soit.''
           | Some keyId \<Rightarrow>
               (case map_of (fc_keys ring) keyId of
                  None \<Rightarrow> Inl ''Chiffrement indisponible : aucune cle installee. Ecrire en clair reviendrait a croire la base protegee sans qu elle le soit.''
                | Some key \<Rightarrow>
                    let (ciphertext, tag) = gcm_seal C key iv aad plain in
                    Inr (Some (PREFIX @ ''.'' @ keyId @ ''.'' @ b64url (iv @ tag @ ciphertext))))))"

text \<open>\<^verbatim>\<open>/^enc\.v1\.([A-Za-z0-9_-]{1,32})\.([A-Za-z0-9_-]+)$/\<close> and \<^verbatim>\<open>/^enc\.v1\.([A-Za-z0-9_-]+)$/\<close>.\<close>

definition match_stored :: "string \<Rightarrow> (string \<times> string) option" where
  "match_stored stored =
     (let rest = drop 7 stored; keyId = takeWhile is_b64url rest; payload = drop (Suc (length keyId)) rest in
      if take 7 stored = PREFIX @ ''.'' \<and> KEY_ID_PATTERN keyId \<and> take 1 (drop (length keyId) rest) = ''.'' \<and>
         payload \<noteq> [] \<and> list_all is_b64url payload
      then Some (keyId, payload) else None)"

definition match_legacy :: "string \<Rightarrow> string option" where
  "match_legacy stored =
     (let payload = drop 7 stored in
      if take 7 stored = PREFIX @ ''.'' \<and> payload \<noteq> [] \<and> list_all is_b64url payload then Some payload else None)"

text \<open>The opening of a payload with a key, common to both formats.\<close>

definition open_payload :: "crypto \<Rightarrow> string \<Rightarrow> string \<Rightarrow> string \<Rightarrow> string + string" where
  "open_payload C key payload aad =
     (let raw = unb64 payload in
      if length raw < IV_BYTES + TAG_BYTES then Inl ''Valeur chiffree invalide : charge utile tronquee''
      else
        (case gcm_open C key (take IV_BYTES raw) aad (take TAG_BYTES (drop IV_BYTES raw)) (drop (IV_BYTES + TAG_BYTES) raw) of
           None \<Rightarrow> Inl ''Unsupported state or unable to authenticate data''
         | Some plain \<Rightarrow> Inr plain))"

definition decrypt :: "crypto \<Rightarrow> FieldCipher \<Rightarrow> string option \<Rightarrow> string \<Rightarrow> string + string option" where
  "decrypt C ring stored aad =
     (case stored of
        None \<Rightarrow> Inr None
      | Some s \<Rightarrow>
          (case match_stored s of
             None \<Rightarrow> Inl ''Valeur sensible non chiffree refusee : un retour au clair constituerait un downgrade''
           | Some (keyId, payload) \<Rightarrow>
               (case map_of (fc_keys ring) keyId of
                  None \<Rightarrow> Inl (''Dechiffrement impossible : cle '' @ keyId @ '' absente du keyring'')
                | Some key \<Rightarrow> map_sum id Some (open_payload C key payload aad))))"

definition decryptLegacyV1 :: "crypto \<Rightarrow> string \<Rightarrow> string \<Rightarrow> string \<Rightarrow> string + string" where
  "decryptLegacyV1 C stored aad legacyKey =
     (case match_legacy stored of
        None \<Rightarrow> Inl ''Ancien chiffre v1 illisible''
      | Some payload \<Rightarrow>
          if length legacyKey \<noteq> 32 then Inl ''Ancien chiffre v1 illisible'' else open_payload C legacyKey payload aad)"

section \<open>Keys of the local custody\<close>

definition is_b64 :: "char \<Rightarrow> bool" where
  "is_b64 c \<longleftrightarrow> is_upper c \<or> is_lower c \<or> is_digit c \<or> c = CHR ''+'' \<or> c = CHR ''/''"

text \<open>The padding of the decoded form ends the last group: 43 characters carry 32 bytes.\<close>

definition decodeMasterKey :: "string \<Rightarrow> string + string" where
  "decodeMasterKey encoded =
     (if \<not> (length encoded = 44 \<and> list_all is_b64 (take 43 encoded) \<and> drop 43 encoded = ''='')
      then Inl ''Cle maitresse invalide : format Base64-32-octets attendu''
      else
        let decoded = unb64 (take 43 encoded) in
        if length decoded \<noteq> DATA_KEY_BYTES
        then Inl (''Cle maitresse invalide : '' @ nat_dec (length decoded) @ '' octets decodes au lieu de '' @ nat_dec DATA_KEY_BYTES)
        else if card (set decoded) < 4 then Inl ''Cle maitresse invalide : entropie manifestement insuffisante''
        else Inr decoded)"

definition deriveDataEncryptionKey :: "crypto \<Rightarrow> string \<Rightarrow> string \<Rightarrow> string" where
  "deriveDataEncryptionKey C masterKey keySalt = hkdf C masterKey keySalt ''iban-at-rest'' DATA_KEY_BYTES"

definition parse_previous :: "string \<Rightarrow> string + (string \<times> string)" where
  "parse_previous entry =
     (let keyId = takeWhile (\<lambda>c. c \<noteq> CHR ''|'') entry in
      if keyId = [] \<or> length keyId = length entry then Inl ''Entree SECURITY_PREVIOUS_KEYS invalide''
      else Inr (keyId, drop (Suc (length keyId)) entry))"

text \<open>\<^verbatim>\<open>xs.map(f)\<close> for an \<open>f\<close> that may throw.\<close>

fun map_throwing :: "('a \<Rightarrow> 'e + 'b) \<Rightarrow> 'a list \<Rightarrow> 'e + 'b list" where
  "map_throwing f [] = Inr []"
| "map_throwing f (x # xs) =
     (case f x of Inl e \<Rightarrow> Inl e | Inr y \<Rightarrow> (case map_throwing f xs of Inl e \<Rightarrow> Inl e | Inr ys \<Rightarrow> Inr (y # ys)))"

definition parsePreviousKeys :: "string \<Rightarrow> string + (string \<times> string) list" where
  "parsePreviousKeys raw = map_throwing parse_previous (filter (\<lambda>e. e \<noteq> []) (map js_trim (split_char CHR '','' raw)))"

record securityConfig =
  sc_currentKeyId :: string
  sc_masterKey :: string
  sc_keySalt :: string
  sc_previousKeys :: "(string \<times> string) list"

text \<open>\<^verbatim>\<open>keys.set(..)\<close> for each key, the current one first: an identifier met again takes the later value.\<close>

definition derive_key :: "crypto \<Rightarrow> string \<Rightarrow> string \<times> string \<Rightarrow> string + (string \<times> string)" where
  "derive_key C keySalt = (\<lambda>(keyId, masterKey).
     map_sum id (\<lambda>decoded. (keyId, deriveDataEncryptionKey C decoded keySalt)) (decodeMasterKey masterKey))"

definition getDataEncryptionKeyRing :: "crypto \<Rightarrow> securityConfig \<Rightarrow> string + (string \<times> (string \<times> string) list)" where
  "getDataEncryptionKeyRing C S =
     map_sum id (\<lambda>keys. (sc_currentKeyId S, fold (\<lambda>(k, v). AList.update k v) keys []))
       (map_throwing (derive_key C (sc_keySalt S)) ((sc_currentKeyId S, sc_masterKey S) # sc_previousKeys S))"

definition install_key_ring :: "crypto \<Rightarrow> securityConfig \<Rightarrow> string + FieldCipher" where
  "install_key_ring C S =
     (case getDataEncryptionKeyRing C S of Inl e \<Rightarrow> Inl e | Inr (currentKeyId, keys) \<Rightarrow> useKeyRing currentKeyId keys)"

section \<open>Base64 gives the bytes back\<close>

lemma b64_of_char: "n < 64 \<Longrightarrow> b64_value (b64_char n) = n" "n < 64 \<Longrightarrow> is_b64url (b64_char n)"
  by (auto simp: b64_value_def b64_char_def is_b64url_def is_upper_def is_lower_def is_digit_def less_eq_char_def of_char_of)

lemma six_bits:
  "(of_char a :: nat) div 4 < 64" "(of_char a :: nat) mod 4 * 16 < 64" "(of_char a :: nat) mod 4 * 16 + of_char b div 16 < 64"
  "(of_char b :: nat) mod 16 * 4 < 64" "(of_char b :: nat) mod 16 * 4 + of_char c div 64 < 64" "(of_char c :: nat) mod 64 < 64"
  using nat_of_char_less_256 [of a] nat_of_char_less_256 [of b] nat_of_char_less_256 [of c] by linarith+

lemma bytes_back:
  "(of_char b :: nat) div 16 div 16 = 0" "(of_char b :: nat) div 16 mod 16 * 16 + of_char b mod 16 = of_char b"
  "(of_char c :: nat) div 64 div 4 = 0" "(of_char c :: nat) div 64 mod 4 * 64 + of_char c mod 64 = of_char c"
  using nat_of_char_less_256 [of b] nat_of_char_less_256 [of c] by (simp_all add: div_mult2_eq [symmetric] div_less mod_less less_mult_imp_div_less)

lemma unb64_b64url: "unb64 (b64url s) = s"
  by (induction s rule: b64url.induct) (simp_all add: b64_of_char(1) six_bits bytes_back)

lemma b64url_class: "list_all is_b64url (b64url s)" "b64url s = [] \<longleftrightarrow> s = []"
  by (induction s rule: b64url.induct) (simp_all add: b64_of_char(2) six_bits)

section \<open>A stored value is read back\<close>

lemma ring_installed:
  assumes "useKeyRing cur keys = Inr ring"
  shows "ring = \<lparr>fc_currentKeyId = Some cur, fc_keys = keys\<rparr>" "KEY_ID_PATTERN cur" "\<exists>key. map_of keys cur = Some key \<and> length key = 32"
proof -
  show ring: "ring = \<lparr>fc_currentKeyId = Some cur, fc_keys = keys\<rparr>" and "KEY_ID_PATTERN cur"
    using assms by (auto simp: useKeyRing_def split: if_splits list.splits)
  obtain key where key: "map_of keys cur = Some key"
    using assms by (auto simp: useKeyRing_def split: if_splits)
  have "List.map_filter check_key keys = []" using assms by (auto simp: useKeyRing_def split: if_splits list.splits)
  then have "check_key (cur, key) = None"
    using map_of_SomeD [OF key] by (fastforce simp: List.map_filter_def filter_empty_conv)
  then show "\<exists>key. map_of keys cur = Some key \<and> length key = 32" using key by (auto simp: check_key_def split: if_splits)
qed

lemma match_stored_written:
  assumes "KEY_ID_PATTERN keyId" "payload \<noteq> []" "list_all is_b64url payload"
  shows "match_stored (PREFIX @ ''.'' @ keyId @ ''.'' @ payload) = Some (keyId, payload)"
proof -
  have "takeWhile is_b64url (keyId @ CHR ''.'' # payload) = keyId"
    using assms(1) by (simp add: KEY_ID_PATTERN_def list_all_iff takeWhile_append2 is_b64url_def is_upper_def is_lower_def is_digit_def)
  then show ?thesis using assms by (simp add: match_stored_def Let_def PREFIX_def)
qed

lemma open_written:
  assumes "gcm_ok C" "length iv = IV_BYTES" "gcm_seal C key iv aad plain = (c, tag)"
  shows "open_payload C key (b64url (iv @ tag @ c)) aad' =
    (case gcm_open C key iv aad' tag c of None \<Rightarrow> Inl ''Unsupported state or unable to authenticate data'' | Some p \<Rightarrow> Inr p)"
proof -
  have "length tag = TAG_BYTES" using assms(1,3) unfolding gcm_ok_def TAG_BYTES_def by (metis snd_conv)
  then show ?thesis using assms(2) by (simp add: open_payload_def Let_def unb64_b64url)
qed

text \<open>What \<open>encrypt\<close> stores under a ring, and how a ring that holds the key reads it.\<close>

lemma stored_form:
  assumes "gcm_ok C" "useKeyRing cur keys = Inr ring" "map_of keys cur = Some key" "gcm_seal C key iv aad plain = (c, tag)"
    and "length iv = IV_BYTES" "s = PREFIX @ ''.'' @ cur @ ''.'' @ b64url (iv @ tag @ c)"
  shows "encrypt C ring iv (Some plain) aad = Inr (Some s)" "match_stored s = Some (cur, b64url (iv @ tag @ c))"
    and "useKeyRing cur' keys' = Inr ring' \<Longrightarrow> map_of keys' cur = Some key \<Longrightarrow> decrypt C ring' (Some s) aad' =
      map_sum id Some (case gcm_open C key iv aad' tag c of
        None \<Rightarrow> Inl ''Unsupported state or unable to authenticate data'' | Some p \<Rightarrow> Inr p)"
proof -
  note R = ring_installed [OF assms(2)]
  show "encrypt C ring iv (Some plain) aad = Inr (Some s)" using R(1) assms(3,4,6) by (simp add: encrypt_def)
  have "b64url (iv @ tag @ c) \<noteq> []" using assms(5) by (auto simp: b64url_class(2) IV_BYTES_def)
  from match_stored_written [OF R(2) this b64url_class(1)]
  show m: "match_stored s = Some (cur, b64url (iv @ tag @ c))" by (simp add: assms(6))
  show "decrypt C ring' (Some s) aad' = map_sum id Some (case gcm_open C key iv aad' tag c of
        None \<Rightarrow> Inl ''Unsupported state or unable to authenticate data'' | Some p \<Rightarrow> Inr p)"
    if "useKeyRing cur' keys' = Inr ring'" "map_of keys' cur = Some key"
    using ring_installed(1) [OF that(1)] that(2) m open_written [OF assms(1,5,4)] by (simp add: decrypt_def)
qed

section \<open>Properties\<close>

text \<open>
  C32. A field encrypted under the current key is read back unchanged in its own context, also after a rotation, as long
  as the ring still holds that key; read in another context it is refused, unless the cipher sealed two texts alike. A text that
  does not have the form of an encrypted value is never read as one.
\<close>

theorem encrypted_field_roundtrip:
  assumes "gcm_ok C" "useKeyRing cur keys = Inr ring" "useKeyRing cur' keys' = Inr ring'" "map_of keys' cur = map_of keys cur"
    and "length iv = IV_BYTES"
  shows "\<exists>s key. encrypt C ring iv (Some plain) aad = Inr (Some s) \<and> decrypt C ring' (Some s) aad = Inr (Some plain) \<and>
    map_of keys cur = Some key \<and>
    (\<forall>aad' p. decrypt C ring' (Some s) aad' = Inr p \<longrightarrow>
       (\<exists>q. p = Some q \<and> gcm_seal C key iv aad' q = gcm_seal C key iv aad plain)) \<and>
    (\<forall>t. match_stored t = None \<longrightarrow> (\<exists>err. decrypt C ring' (Some t) aad = Inl err))"
proof -
  obtain key where key: "map_of keys cur = Some key" using ring_installed(3) [OF assms(2)] by blast
  obtain c tag where seal: "gcm_seal C key iv aad plain = (c, tag)" by (cases "gcm_seal C key iv aad plain")
  define s where "s = PREFIX @ ''.'' @ cur @ ''.'' @ b64url (iv @ tag @ c)"
  note form = stored_form [OF assms(1,2) key seal assms(5) s_def]
  have enc: "encrypt C ring iv (Some plain) aad = Inr (Some s)" by (rule form(1))
  have dec: "decrypt C ring' (Some s) aad' = map_sum id Some (case gcm_open C key iv aad' tag c of
      None \<Rightarrow> Inl ''Unsupported state or unable to authenticate data'' | Some p \<Rightarrow> Inr p)" for aad'
    using form(3) [OF assms(3)] key assms(4) by simp
  have sealed: "gcm_open C key iv aad' tag c = Some q \<longleftrightarrow> gcm_seal C key iv aad' q = (c, tag)" for aad' q
    using assms(1) by (simp add: gcm_ok_def)
  have "gcm_open C key iv aad tag c = Some plain" using sealed seal by simp
  then have "decrypt C ring' (Some s) aad = Inr (Some plain)" by (simp add: dec)
  moreover have "\<exists>q. p = Some q \<and> gcm_seal C key iv aad' q = gcm_seal C key iv aad plain"
    if "decrypt C ring' (Some s) aad' = Inr p" for aad' p
  proof (cases "gcm_open C key iv aad' tag c")
    case (Some q)
    then show ?thesis using that sealed [of aad' q] seal by (auto simp: dec)
  qed (use that in \<open>simp add: dec\<close>)
  moreover have "\<exists>err. decrypt C ring' (Some t) aad = Inl err" if "match_stored t = None" for t
    using that by (simp add: decrypt_def)
  ultimately show ?thesis using enc key by blast
qed

text \<open>A cipher with these laws, which does not hide anything: the tag is a digest of the key, the context and the text.\<close>

definition sample_crypto :: crypto where
  "sample_crypto =
     \<lparr>gcm_seal = (\<lambda>key iv aad plain. (plain, take 16 (aad @ replicate 16 CHR ''x''))),
      gcm_open = (\<lambda>key iv aad tag c. if tag = take 16 (aad @ replicate 16 CHR ''x'') then Some c else None),
      hkdf = (\<lambda>ikm salt info n. take n (ikm @ replicate n CHR ''k''))\<rparr>"

theorem encrypted_field_roundtrip_witness:
  "\<exists>ring ring' s. useKeyRing ''k1'' [(''k1'', replicate 32 CHR ''a'')] = Inr ring \<and>
     useKeyRing ''k2'' [(''k2'', replicate 32 CHR ''b''), (''k1'', replicate 32 CHR ''a'')] = Inr ring' \<and>
     encrypt sample_crypto ring (replicate 12 CHR ''i'') (Some ''FR76'') ''transactions.debtor_iban'' = Inr (Some s) \<and>
     decrypt sample_crypto ring' (Some s) ''transactions.debtor_iban'' = Inr (Some ''FR76'')"
proof -
  have ok: "gcm_ok sample_crypto" by (auto simp: gcm_ok_def sample_crypto_def)
  have id: "KEY_ID_PATTERN ''k1''" "KEY_ID_PATTERN ''k2''"
    by (simp_all add: KEY_ID_PATTERN_def is_b64url_def is_lower_def is_digit_def)
  obtain ring ring' where r: "useKeyRing ''k1'' [(''k1'', replicate 32 CHR ''a'')] = Inr ring"
    "useKeyRing ''k2'' [(''k2'', replicate 32 CHR ''b''), (''k1'', replicate 32 CHR ''a'')] = Inr ring'"
    using id by (simp add: useKeyRing_def check_key_def List.map_filter_simps)
  from encrypted_field_roundtrip [OF ok r, of "replicate 12 CHR ''i''" "''FR76''" "''transactions.debtor_iban''"]
  show ?thesis using r by (auto simp: IV_BYTES_def)
qed

text \<open>
  A key among the previous ones that carries the identifier of the current key replaces it: the ring then encrypts under the
  old key.
\<close>

theorem previous_key_replaces_current:
  assumes "decodeMasterKey new = Inr a" "decodeMasterKey old = Inr b"
  shows "getDataEncryptionKeyRing C \<lparr>sc_currentKeyId = k, sc_masterKey = new, sc_keySalt = salt, sc_previousKeys = [(k, old)]\<rparr> =
    Inr (k, [(k, deriveDataEncryptionKey C b salt)])"
  using assms by (simp add: getDataEncryptionKeyRing_def derive_key_def)

end
