(* ===== verification/Configuration.thy ===== *)
theory Configuration
  imports Access Field_Cipher
begin

text \<open>
  The environment of the process: its validation before anything starts (\<^verbatim>\<open>config/env.validation.ts\<close>) and the settings
  read from it (\<^verbatim>\<open>config/configuration.ts\<close>). The variables are texts; the validated ones are those the settings are read
  from. The URL parser of the platform is an argument: the protocol of a text, none when it is not a URL.
\<close>

type_synonym env = "string \<Rightarrow> string option"

section \<open>Numerals\<close>

text \<open>\<^verbatim>\<open>Number.parseInt(s, 10)\<close> and \<^verbatim>\<open>Number.parseFloat(s)\<close>: the longest numeral the text begins with.\<close>

definition sign_of :: "string \<Rightarrow> rat" where
  "sign_of s = (if take 1 s = ''-'' then - 1 else 1)"

definition drop_sign :: "string \<Rightarrow> string" where
  "drop_sign s = (if take 1 s = ''-'' \<or> take 1 s = ''+'' then drop 1 s else s)"

definition parseInt :: "string \<Rightarrow> number" where
  "parseInt s =
     (let t = trim_start s; digits = takeWhile is_digit (drop_sign t) in
      if digits = [] then NaN else fl (sign_of t * of_nat (dec_value digits)))"

definition exponent_part :: "string \<Rightarrow> int" where
  "exponent_part s =
     (let t = drop 1 s; digits = takeWhile is_digit (drop_sign t); n = int (dec_value digits) in
      if (take 1 s = ''e'' \<or> take 1 s = ''E'') \<and> digits \<noteq> [] then (if take 1 t = ''-'' then - n else n) else 0)"

definition parseFloat :: "string \<Rightarrow> number" where
  "parseFloat s =
     (let t = trim_start s; u = drop_sign t; whole = takeWhile is_digit u; rest = drop (length whole) u;
          fraction = (if take 1 rest = ''.'' then takeWhile is_digit (drop 1 rest) else []);
          tail = (if take 1 rest = ''.'' then drop (Suc (length fraction)) rest else rest) in
      if prefix ''Infinity'' u then signed_inf (sign_of t)
      else if whole = [] \<and> fraction = [] then NaN
      else fl (sign_of t * of_nat (dec_value (whole @ fraction)) * 10 powi (exponent_part tail - int (length fraction))))"

text \<open>\<^verbatim>\<open>String(n)\<close> of a number that is whole or not finite.\<close>

fun whole_text :: "number \<Rightarrow> string" where
  "whole_text (Fin x) =
     (let (d, v) = shortest_decimal \<bar>x\<bar>; sign = (if x < 0 then ''-'' else []); digits = nat_dec (nat \<lfloor>v * 10 powi d\<rfloor>);
          e = int (length digits) - 1 - d in
      if x = 0 then ''0''
      else if \<bar>x\<bar> < 10 ^ 21 then sign @ nat_dec (nat \<lfloor>v\<rfloor>)
      else sign @ take 1 digits @ (if length digits = 1 then [] else ''.'' @ drop 1 digits) @ ''e+'' @ int_dec e)"
| "whole_text PosInf = ''Infinity''"
| "whole_text NegInf = ''-Infinity''"
| "whole_text NaN = ''NaN''"

section \<open>Rules\<close>

datatype rule_kind = Kind_string | Kind_int | Kind_float | Kind_boolean | Kind_url | Kind_enum | Kind_pattern

record Rule =
  rl_key :: string
  rl_required :: bool
  rl_kind :: rule_kind
  rl_values :: "string list"
  rl_min :: "int option"
  rl_max :: "int option"
  rl_exclusiveMax :: bool
  rl_minLength :: "nat option"
  rl_pattern :: "string \<Rightarrow> bool"
  rl_expected :: string
  rl_secret :: bool

definition rule_for :: "string \<Rightarrow> rule_kind \<Rightarrow> Rule" where
  "rule_for key kind =
     \<lparr>rl_key = key, rl_required = False, rl_kind = kind, rl_values = [], rl_min = None, rl_max = None, rl_exclusiveMax = False,
      rl_minLength = None, rl_pattern = (\<lambda>_. False), rl_expected = ''au format attendu'', rl_secret = False\<rparr>"

definition int_rule :: "string \<Rightarrow> int \<Rightarrow> Rule" where
  "int_rule key least = (rule_for key Kind_int)\<lparr>rl_min := Some least\<rparr>"

definition pattern_rule :: "string \<Rightarrow> (string \<Rightarrow> bool) \<Rightarrow> string \<Rightarrow> Rule" where
  "pattern_rule key pattern expected = (rule_for key Kind_pattern)\<lparr>rl_pattern := pattern, rl_expected := expected\<rparr>"

text \<open>The patterns of the rules.\<close>

definition settlement_pattern :: "string \<Rightarrow> bool" where
  "settlement_pattern s \<longleftrightarrow>
     15 \<le> length s \<and> length s \<le> 34 \<and> list_all is_upper (take 2 s) \<and> list_all is_digit (take 2 (drop 2 s)) \<and>
     list_all (\<lambda>c. is_upper c \<or> is_digit c) (drop 4 s)"

definition master_key_pattern :: "string \<Rightarrow> bool" where
  "master_key_pattern s \<longleftrightarrow> length s = 44 \<and> list_all is_b64 (take 43 s) \<and> drop 43 s = ''=''"

definition hex_pattern :: "nat \<Rightarrow> string \<Rightarrow> bool" where
  "hex_pattern n s \<longleftrightarrow> take 2 s = ''0x'' \<and> length s = n + 2 \<and> list_all is_hex_digit (drop 2 s)"

definition RULES :: "Rule list" where
  "RULES =
     [(rule_for ''NODE_ENV'' Kind_enum)\<lparr>rl_values := [''development'', ''test'', ''staging'', ''production'']\<rparr>,
      int_rule ''PORT'' 1,
      (rule_for ''DB_HOST'' Kind_string)\<lparr>rl_required := True\<rparr>,
      (int_rule ''DB_PORT'' 1)\<lparr>rl_required := True\<rparr>,
      (rule_for ''DB_USERNAME'' Kind_string)\<lparr>rl_required := True\<rparr>,
      (rule_for ''DB_PASSWORD'' Kind_string)\<lparr>rl_required := True\<rparr>,
      (rule_for ''DB_NAME'' Kind_string)\<lparr>rl_required := True\<rparr>,
      rule_for ''DB_SYNCHRONIZE'' Kind_boolean,
      rule_for ''DB_LOGGING'' Kind_boolean,
      rule_for ''DB_SSL'' Kind_boolean,
      (rule_for ''SOAP_ENDPOINT'' Kind_url)\<lparr>rl_required := True\<rparr>,
      (rule_for ''SOAP_WSDL_SOURCE'' Kind_enum)\<lparr>rl_values := [''local'', ''remote'']\<rparr>,
      rule_for ''SOAP_WSDL_URL'' Kind_url,
      int_rule ''SOAP_TIMEOUT_MS'' 100,
      int_rule ''SOAP_MAX_RETRIES'' 0,
      int_rule ''SOAP_RETRY_DELAY_MS'' 0,
      int_rule ''SOAP_MAX_RESPONSE_BYTES'' 1024,
      (rule_for ''TRANSFER_MAX_AMOUNT'' Kind_float)\<lparr>rl_min := Some 0\<rparr>,
      (rule_for ''MOBILE_MONEY_FEE_RATE'' Kind_float)\<lparr>rl_min := Some 0, rl_max := Some 1, rl_exclusiveMax := True\<rparr>,
      pattern_rule ''MOBILE_MONEY_SETTLEMENT_IBAN'' settlement_pattern ''un IBAN sans espaces'',
      rule_for ''MOBILE_MONEY_SETTLEMENT_NAME'' Kind_string,
      (rule_for ''MOBILE_MONEY_WEBHOOK_SECRET'' Kind_string)\<lparr>rl_secret := True\<rparr>,
      rule_for ''MOBILE_MONEY_SIMULATOR_ENABLED'' Kind_boolean,
      rule_for ''MOBILE_MONEY_BANK_WORKER_ENABLED'' Kind_boolean,
      int_rule ''MOBILE_MONEY_BANK_WORKER_INTERVAL_MS'' 100,
      int_rule ''MOBILE_MONEY_BANK_WORKER_MAX_ATTEMPTS'' 1,
      rule_for ''MOBILE_MONEY_REFUND_WORKER_ENABLED'' Kind_boolean,
      int_rule ''MOBILE_MONEY_REFUND_WORKER_INTERVAL_MS'' 100,
      int_rule ''AUDIT_MAX_PAYLOAD_CHARS'' 0,
      rule_for ''AUDIT_PERSIST_PAYLOADS'' Kind_boolean,
      rule_for ''SWAGGER_ENABLED'' Kind_boolean,
      rule_for ''AUTH_ENABLED'' Kind_boolean,
      (pattern_rule ''SECURITY_MASTER_KEY'' master_key_pattern ''une cle Base64 representant exactement 32 octets'')
        \<lparr>rl_secret := True\<rparr>,
      pattern_rule ''SECURITY_CURRENT_KEY_ID'' KEY_ID_PATTERN
        ''un identifiant de cle (1 a 32 lettres, chiffres, _ ou -)'',
      (rule_for ''SECURITY_KEY_SALT'' Kind_string)\<lparr>rl_minLength := Some 16\<rparr>,
      rule_for ''BLOCKCHAIN_ENABLED'' Kind_boolean,
      rule_for ''BLOCKCHAIN_RPC_URL'' Kind_url,
      rule_for ''BLOCKCHAIN_EXPLORER_TX_URL'' Kind_url,
      int_rule ''BLOCKCHAIN_CHAIN_ID'' 1,
      pattern_rule ''BLOCKCHAIN_CONTRACT_ADDRESS'' (hex_pattern 40)
        ''une adresse Ethereum (0x + 40 caracteres hexadecimaux)'',
      (pattern_rule ''BLOCKCHAIN_PRIVATE_KEY'' (hex_pattern 64) ''une cle privee (0x + 64 caracteres hexadecimaux)'')
        \<lparr>rl_secret := True\<rparr>,
      int_rule ''BLOCKCHAIN_CONFIRMATIONS'' 0,
      int_rule ''ANCHOR_BATCH_MAX_SIZE'' 1,
      int_rule ''ANCHOR_INTERVAL_MS'' 1000,
      int_rule ''ANCHOR_MAX_RETRIES'' 1]"

definition BOOLEANS :: "string list" where
  "BOOLEANS = [''1'', ''0'', ''true'', ''false'', ''yes'', ''no'', ''on'', ''off'']"

definition received :: "string \<Rightarrow> string" where
  "received raw = '' (recu: '' @ [CHR 0x22] @ raw @ [CHR 0x22] @ '')''"

text \<open>The bounds of a number, for both kinds of numbers.\<close>

definition check_min :: "Rule \<Rightarrow> string \<Rightarrow> number \<Rightarrow> string option" where
  "check_min rule raw parsed =
     (case rl_min rule of
        Some least \<Rightarrow>
          if js_lt parsed (Fin (of_int least)) then Some (rl_key rule @ '' doit etre >= '' @ int_dec least @ received raw)
          else None
      | None \<Rightarrow> None)"

definition check_max :: "Rule \<Rightarrow> string \<Rightarrow> number \<Rightarrow> string option" where
  "check_max rule raw parsed =
     (case rl_max rule of
        Some most \<Rightarrow>
          if (if rl_exclusiveMax rule then parsed \<noteq> NaN \<and> \<not> js_lt parsed (Fin (of_int most)) else js_lt (Fin (of_int most)) parsed)
          then Some (rl_key rule @ '' doit etre '' @ (if rl_exclusiveMax rule then ''<'' else ''<='') @ '' '' @ int_dec most @
            received raw)
          else None
      | None \<Rightarrow> None)"

text \<open>\<^verbatim>\<open>/^-?\d+$/\<close>.\<close>

definition integer_pattern :: "string \<Rightarrow> bool" where
  "integer_pattern raw \<longleftrightarrow>
     (let digits = (if take 1 raw = ''-'' then drop 1 raw else raw) in digits \<noteq> [] \<and> list_all is_digit digits)"

text \<open>
  The letters of the words compared with are the lower cases of ASCII letters only, so ASCII case folding decides.
\<close>

definition checkRule :: "(string \<Rightarrow> string option) \<Rightarrow> Rule \<Rightarrow> string option \<Rightarrow> string option" where
  "checkRule url_protocol rule raw_value =
     (case raw_value of
        None \<Rightarrow> if rl_required rule then Some (rl_key rule @ '' est requis mais absent'') else None
      | Some raw \<Rightarrow>
          if raw = [] then (if rl_required rule then Some (rl_key rule @ '' est requis mais absent'') else None)
          else if (case rl_minLength rule of None \<Rightarrow> False | Some n \<Rightarrow> char_length raw < n)
          then Some (rl_key rule @ '' doit contenir au moins '' @ nat_dec (the (rl_minLength rule)) @ '' caracteres'' @
            (if rl_secret rule then '' (valeur masquee)'' else []))
          else
            (case rl_kind rule of
               Kind_pattern \<Rightarrow>
                 if rl_pattern rule raw then None
                 else Some (rl_key rule @ '' doit etre '' @ rl_expected rule @
                   (if rl_secret rule then '' (valeur masquee)'' else received raw))
             | Kind_int \<Rightarrow>
                 if \<not> integer_pattern raw then Some (rl_key rule @ '' doit etre un entier'' @ received raw)
                 else
                   (case check_min rule raw (parseInt raw) of
                      Some e \<Rightarrow> Some e
                    | None \<Rightarrow> check_max rule raw (parseInt raw))
             | Kind_float \<Rightarrow>
                 if \<not> isFinite (parseFloat raw) then Some (rl_key rule @ '' doit etre un nombre'' @ received raw)
                 else
                   (case check_min rule raw (parseFloat raw) of
                      Some e \<Rightarrow> Some e
                    | None \<Rightarrow> check_max rule raw (parseFloat raw))
             | Kind_boolean \<Rightarrow>
                 if toLowerCase raw \<in> set BOOLEANS then None else Some (rl_key rule @ '' doit etre un booleen'' @ received raw)
             | Kind_url \<Rightarrow>
                 (case url_protocol raw of
                    None \<Rightarrow> Some (rl_key rule @ '' doit etre une URL valide'' @ received raw)
                  | Some protocol \<Rightarrow>
                      if protocol \<in> {''http:'', ''https:''} then None
                      else Some (rl_key rule @ '' doit utiliser http(s)'' @ received raw))
             | Kind_enum \<Rightarrow>
                 if toLowerCase raw \<in> set (rl_values rule) then None
                 else Some (rl_key rule @ '' doit valoir l'' @ [CHR 0x27] @ ''une de ['' @ join '', '' (rl_values rule) @ '']'' @
                   received raw)
             | Kind_string \<Rightarrow> None))"

section \<open>Validation\<close>

definition LOCAL_CHAIN_IDS :: "number list" where
  "LOCAL_CHAIN_IDS = [Fin 31337, Fin 1337, Fin 5777]"

definition WELL_KNOWN_DEV_KEY :: string where
  "WELL_KNOWN_DEV_KEY = ''0xac0974bec39a17e36ba4a6b4d238ff944bacb478cbed5efcae784d7bf4f2ff80''"

text \<open>\<^verbatim>\<open>buffer.toString('base64')\<close> of 32 bytes.\<close>

definition b64_of_32 :: "string \<Rightarrow> string" where
  "b64_of_32 bytes = map (\<lambda>c. if c = CHR ''-'' then CHR ''+'' else if c = CHR ''_'' then CHR ''/'' else c) (b64url bytes) @ ''=''"

definition LOCAL_SECURITY_MASTER_KEY :: string where
  "LOCAL_SECURITY_MASTER_KEY = b64_of_32 ''local-demo-master-key-32-bytes!!''"

definition LOCAL_SECURITY_KEY_ID :: string where
  "LOCAL_SECURITY_KEY_ID = ''local-v1''"

definition DEFAULT_SECURITY_KEY_SALT :: string where
  "DEFAULT_SECURITY_KEY_SALT = ''banking-gateway-hkdf-salt''"

text \<open>\<^verbatim>\<open>read\<close> and \<^verbatim>\<open>config[key] ?? fallback\<close>.\<close>

definition read_env :: "env \<Rightarrow> string \<Rightarrow> string" where
  "read_env env key = (case env key of None \<Rightarrow> [] | Some v \<Rightarrow> v)"

definition env_or :: "env \<Rightarrow> string \<Rightarrow> string \<Rightarrow> string" where
  "env_or env key fallback = (case env key of None \<Rightarrow> fallback | Some v \<Rightarrow> v)"

definition too_weak :: "string \<Rightarrow> bool" where
  "too_weak encoded \<longleftrightarrow> card (set (unb64 (take 43 encoded))) < 4"

definition rule_errors :: "(string \<Rightarrow> string option) \<Rightarrow> env \<Rightarrow> string list" where
  "rule_errors url_protocol env = List.map_filter (\<lambda>rule. checkRule url_protocol rule (env (rl_key rule))) RULES"

definition production_errors :: "env \<Rightarrow> string list" where
  "production_errors env =
     (if read_env env ''NODE_ENV'' = ''production''
      then
        (if toLowerCase (read_env env ''AUTH_ENABLED'') \<in> {''0'', ''false'', ''no'', ''off''}
         then [''AUTH_ENABLED ne peut pas valoir false en production''] else []) @
        (if js_trim (read_env env ''API_KEYS'') = []
         then [''API_KEYS est requis en production : aucune cle declaree''] else []) @
        (if read_env env ''SECURITY_MASTER_KEY'' = [] \<or> read_env env ''SECURITY_MASTER_KEY'' = LOCAL_SECURITY_MASTER_KEY
         then [''SECURITY_MASTER_KEY doit etre un secret explicite en production (valeur masquee)''] else []) @
        (if read_env env ''SECURITY_CURRENT_KEY_ID'' = [] \<or> read_env env ''SECURITY_CURRENT_KEY_ID'' = ''local-v1''
         then [''SECURITY_CURRENT_KEY_ID doit etre explicite en production''] else [])
      else [])"

definition entropy_errors :: "env \<Rightarrow> string list" where
  "entropy_errors env =
     (let currentMasterKey = read_env env ''SECURITY_MASTER_KEY'' in
      if master_key_pattern currentMasterKey \<and> too_weak currentMasterKey
      then [''SECURITY_MASTER_KEY presente une entropie manifestement insuffisante (valeur masquee)''] else [])"

text \<open>The loop over the entries of the previous keys, which stops at the first bad one.\<close>

definition previous_entry_ok :: "string \<Rightarrow> string list \<Rightarrow> string list \<Rightarrow> bool" where
  "previous_entry_ok current seen parts =
     (let keyId = hd parts; encoded = (case drop 1 parts of [] \<Rightarrow> [] | e # _ \<Rightarrow> e) in
      \<not> (drop 2 parts \<noteq> [] \<or> \<not> KEY_ID_PATTERN keyId \<or> \<not> master_key_pattern encoded \<or> too_weak encoded \<or>
         keyId \<in> set seen \<or> keyId = current))"

fun previous_errors :: "string \<Rightarrow> string list \<Rightarrow> string list \<Rightarrow> string list" where
  "previous_errors current seen [] = []"
| "previous_errors current seen (entry # entries) =
     (let parts = split_char CHR ''|'' (js_trim entry) in
      if previous_entry_ok current seen parts then previous_errors current (hd parts # seen) entries
      else [''SECURITY_PREVIOUS_KEYS doit contenir des entrees uniques keyId|Base64-32-octets '' @
            ''(valeurs masquees), distinctes de SECURITY_CURRENT_KEY_ID''])"

definition webhook_errors :: "env \<Rightarrow> string list" where
  "webhook_errors env =
     (if env ''NODE_ENV'' = Some ''production'' \<and>
         (read_env env ''MOBILE_MONEY_WEBHOOK_SECRET'' = [] \<or>
          env ''MOBILE_MONEY_WEBHOOK_SECRET'' = Some ''local-demo-webhook-secret'')
      then [''MOBILE_MONEY_WEBHOOK_SECRET doit etre un secret explicite en production''] else [])"

definition chain_errors :: "env \<Rightarrow> string list" where
  "chain_errors env =
     (let chainId = parseInt (env_or env ''BLOCKCHAIN_CHAIN_ID'' ''31337'');
          anchoringEnabled = (toLowerCase (env_or env ''BLOCKCHAIN_ENABLED'' ''true'') \<notin> {''false'', ''0'', ''no'', ''off''});
          privateKey = env_or env ''BLOCKCHAIN_PRIVATE_KEY'' WELL_KNOWN_DEV_KEY in
      if anchoringEnabled \<and> chainId \<notin> set LOCAL_CHAIN_IDS \<and> privateKey = WELL_KNOWN_DEV_KEY
      then [''BLOCKCHAIN_PRIVATE_KEY est la cle de developpement publique d'' @ [CHR 0x27] @ ''Anvil, inutilisable sur la chaine '' @
            whole_text chainId @ '' : quiconque la connait pourrait ancrer a votre place'']
      else [])"

definition env_errors :: "(string \<Rightarrow> string option) \<Rightarrow> env \<Rightarrow> string list" where
  "env_errors url_protocol env =
     rule_errors url_protocol env @ production_errors env @ entropy_errors env @
     (if read_env env ''SECURITY_PREVIOUS_KEYS'' = [] then []
      else previous_errors (read_env env ''SECURITY_CURRENT_KEY_ID'') [] (split_char CHR '','' (read_env env ''SECURITY_PREVIOUS_KEYS''))) @
     webhook_errors env @ chain_errors env"

definition validateEnv :: "(string \<Rightarrow> string option) \<Rightarrow> env \<Rightarrow> string + env" where
  "validateEnv url_protocol env =
     (let errors = env_errors url_protocol env; separator = CHR 0x0A # ''  - '' in
      if errors \<noteq> []
      then Inl (''Configuration invalide '' @ [CHR 0xE2, CHR 0x80, CHR 0x94] @ '' corrigez votre fichier .env :'' @ separator @
        join separator errors)
      else Inr env)"

section \<open>Settings\<close>

definition toBool :: "string option \<Rightarrow> bool \<Rightarrow> bool" where
  "toBool val fallback =
     (case val of
        None \<Rightarrow> fallback
      | Some v \<Rightarrow> if v = [] then fallback else toLowerCase v \<in> {''1'', ''true'', ''yes'', ''on''})"

definition toInt :: "string option \<Rightarrow> number \<Rightarrow> number" where
  "toInt val fallback =
     (let parsed = parseInt (case val of None \<Rightarrow> [] | Some v \<Rightarrow> v) in if isFinite parsed then parsed else fallback)"

definition toFloat :: "string option \<Rightarrow> number \<Rightarrow> number" where
  "toFloat val fallback =
     (let parsed = parseFloat (case val of None \<Rightarrow> [] | Some v \<Rightarrow> v) in if isFinite parsed then parsed else fallback)"

definition toList :: "string option \<Rightarrow> string list \<Rightarrow> string list" where
  "toList val fallback =
     (case val of
        None \<Rightarrow> fallback
      | Some v \<Rightarrow>
          if v = [] then fallback
          else
            let items = filter (\<lambda>s. s \<noteq> []) (map (\<lambda>item. wide_upper (js_trim item)) (split_char CHR '','' v)) in
            if items \<noteq> [] then items else fallback)"

record app_settings =
  ap_env :: string
  ap_port :: number
  ap_apiPrefix :: string
  ap_swaggerEnabled :: bool
  ap_swaggerPath :: string
  ap_logLevel :: string

definition appConfig :: "env \<Rightarrow> app_settings" where
  "appConfig env =
     \<lparr>ap_env = env_or env ''NODE_ENV'' ''development'', ap_port = toInt (env ''PORT'') (Fin 3000),
      ap_apiPrefix = env_or env ''API_PREFIX'' ''api/v1'', ap_swaggerEnabled = toBool (env ''SWAGGER_ENABLED'') True,
      ap_swaggerPath = env_or env ''SWAGGER_PATH'' ''api/docs'', ap_logLevel = env_or env ''LOG_LEVEL'' ''log''\<rparr>"

record database_settings =
  dc_host :: string
  dc_port :: number
  dc_username :: string
  dc_password :: string
  dc_database :: string
  dc_synchronize :: bool
  dc_logging :: bool
  dc_ssl :: bool

definition databaseConfig :: "env \<Rightarrow> database_settings" where
  "databaseConfig env =
     \<lparr>dc_host = env_or env ''DB_HOST'' ''localhost'', dc_port = toInt (env ''DB_PORT'') (Fin 5432),
      dc_username = env_or env ''DB_USERNAME'' ''banking'', dc_password = env_or env ''DB_PASSWORD'' ''banking'',
      dc_database = env_or env ''DB_NAME'' ''banking_soap'', dc_synchronize = toBool (env ''DB_SYNCHRONIZE'') False,
      dc_logging = toBool (env ''DB_LOGGING'') False, dc_ssl = toBool (env ''DB_SSL'') False\<rparr>"

text \<open>\<open>wsdl_path\<close> is where the WSDL lies beside the compiled file.\<close>

record soap_settings =
  so_endpoint :: string
  so_wsdlSource :: string
  so_wsdlUrl :: string
  so_wsdlPath :: string
  so_timeoutMs :: number
  so_maxRetries :: number
  so_retryDelayMs :: number
  so_maxResponseBytes :: number

definition soap_config :: "string \<Rightarrow> env \<Rightarrow> soap_settings" where
  "soap_config wsdl_path env =
     \<lparr>so_endpoint = env_or env ''SOAP_ENDPOINT'' ''https://www.dataaccess.com/webservicesserver/NumberConversion.wso'',
      so_wsdlSource = toLowerCase (env_or env ''SOAP_WSDL_SOURCE'' ''local''),
      so_wsdlUrl = env_or env ''SOAP_WSDL_URL'' ''https://www.dataaccess.com/webservicesserver/NumberConversion.wso?WSDL'',
      so_wsdlPath = wsdl_path, so_timeoutMs = toInt (env ''SOAP_TIMEOUT_MS'') (Fin 8000),
      so_maxRetries = toInt (env ''SOAP_MAX_RETRIES'') (Fin 2), so_retryDelayMs = toInt (env ''SOAP_RETRY_DELAY_MS'') (Fin 300),
      so_maxResponseBytes = toInt (env ''SOAP_MAX_RESPONSE_BYTES'') (Fin 1048576)\<rparr>"

record business_settings =
  bs_allowedCurrencies :: "string list"
  bs_maxAmount :: number

definition businessConfig :: "env \<Rightarrow> business_settings" where
  "businessConfig env =
     \<lparr>bs_allowedCurrencies = toList (env ''ALLOWED_CURRENCIES'') [''EUR'', ''USD'', ''GBP'', ''CHF'', ''XOF'', ''XAF'', ''CDF''],
      bs_maxAmount = toFloat (env ''TRANSFER_MAX_AMOUNT'') (fl (99999999999 / 100))\<rparr>"

record mobile_money_settings =
  mc_settlementIban :: string
  mc_settlementName :: string
  mc_feeRate :: number
  mc_bankWorkerEnabled :: bool
  mc_bankWorkerIntervalMs :: number
  mc_bankWorkerMaxAttempts :: number
  mc_refundWorkerEnabled :: bool
  mc_refundWorkerIntervalMs :: number
  mc_webhookSecret :: string
  mc_simulatorEnabled :: bool

definition mobileMoneyConfig :: "env \<Rightarrow> mobile_money_settings" where
  "mobileMoneyConfig env =
     \<lparr>mc_settlementIban = env_or env ''MOBILE_MONEY_SETTLEMENT_IBAN'' ''FR7630006000011234567890189'',
      mc_settlementName = env_or env ''MOBILE_MONEY_SETTLEMENT_NAME'' ''Mobile Money Settlement'',
      mc_feeRate = toFloat (env ''MOBILE_MONEY_FEE_RATE'') (fl (15 / 1000)),
      mc_bankWorkerEnabled = toBool (env ''MOBILE_MONEY_BANK_WORKER_ENABLED'') True,
      mc_bankWorkerIntervalMs = toInt (env ''MOBILE_MONEY_BANK_WORKER_INTERVAL_MS'') (Fin 2000),
      mc_bankWorkerMaxAttempts = toInt (env ''MOBILE_MONEY_BANK_WORKER_MAX_ATTEMPTS'') (Fin 4),
      mc_refundWorkerEnabled = toBool (env ''MOBILE_MONEY_REFUND_WORKER_ENABLED'') True,
      mc_refundWorkerIntervalMs = toInt (env ''MOBILE_MONEY_REFUND_WORKER_INTERVAL_MS'') (Fin 30000),
      mc_webhookSecret = env_or env ''MOBILE_MONEY_WEBHOOK_SECRET'' ''local-demo-webhook-secret'',
      mc_simulatorEnabled = toBool (env ''MOBILE_MONEY_SIMULATOR_ENABLED'') (env ''NODE_ENV'' \<noteq> Some ''production'')\<rparr>"

record audit_settings =
  ac_maxPayloadChars :: number
  ac_persistPayloads :: bool

definition auditConfig :: "env \<Rightarrow> audit_settings" where
  "auditConfig env =
     \<lparr>ac_maxPayloadChars = toInt (env ''AUDIT_MAX_PAYLOAD_CHARS'') (Fin 8000),
      ac_persistPayloads = toBool (env ''AUDIT_PERSIST_PAYLOADS'') True\<rparr>"

text \<open>The previous keys may be malformed, in which case the settings do not load.\<close>

definition security_config :: "env \<Rightarrow> string + securityConfig" where
  "security_config env =
     map_sum id
       (\<lambda>previous. \<lparr>sc_currentKeyId = env_or env ''SECURITY_CURRENT_KEY_ID'' LOCAL_SECURITY_KEY_ID,
          sc_masterKey = env_or env ''SECURITY_MASTER_KEY'' LOCAL_SECURITY_MASTER_KEY,
          sc_keySalt = env_or env ''SECURITY_KEY_SALT'' DEFAULT_SECURITY_KEY_SALT, sc_previousKeys = previous\<rparr>)
       (parsePreviousKeys (env_or env ''SECURITY_PREVIOUS_KEYS'' []))"

record blockchain_settings =
  bc_enabled :: bool
  bc_rpcUrl :: string
  bc_chainId :: number
  bc_contractAddress :: string
  bc_explorerTxUrl :: string
  bc_privateKey :: string
  bc_confirmations :: number

definition blockchainConfig :: "env \<Rightarrow> blockchain_settings" where
  "blockchainConfig env =
     \<lparr>bc_enabled = toBool (env ''BLOCKCHAIN_ENABLED'') True, bc_rpcUrl = env_or env ''BLOCKCHAIN_RPC_URL'' ''http://127.0.0.1:8545'',
      bc_chainId = toInt (env ''BLOCKCHAIN_CHAIN_ID'') (Fin 31337), bc_contractAddress = env_or env ''BLOCKCHAIN_CONTRACT_ADDRESS'' [],
      bc_explorerTxUrl = env_or env ''BLOCKCHAIN_EXPLORER_TX_URL'' [],
      bc_privateKey = env_or env ''BLOCKCHAIN_PRIVATE_KEY'' WELL_KNOWN_DEV_KEY,
      bc_confirmations = toInt (env ''BLOCKCHAIN_CONFIRMATIONS'') (Fin 1)\<rparr>"

record anchoring_settings =
  an_batchMaxSize :: number
  an_intervalMs :: number
  an_maxRetries :: number

definition anchorConfig :: "env \<Rightarrow> anchoring_settings" where
  "anchorConfig env =
     \<lparr>an_batchMaxSize = toInt (env ''ANCHOR_BATCH_MAX_SIZE'') (Fin 50), an_intervalMs = toInt (env ''ANCHOR_INTERVAL_MS'') (Fin 15000),
      an_maxRetries = toInt (env ''ANCHOR_MAX_RETRIES'') (Fin 3)\<rparr>"

record auth_settings =
  au_enabled :: bool
  au_apiKeys :: "string list"

definition authConfig :: "env \<Rightarrow> auth_settings" where
  "authConfig env =
     \<lparr>au_enabled = toBool (env ''AUTH_ENABLED'') True,
      au_apiKeys = filter (\<lambda>e. e \<noteq> []) (map js_trim (split_char CHR '';'' (env_or env ''API_KEYS'' [])))\<rparr>"

section \<open>What an accepted environment satisfies\<close>

lemma accepted: "validateEnv U env = Inr env' \<longleftrightarrow> env_errors U env = [] \<and> env' = env"
  by (auto simp: validateEnv_def Let_def)

lemma accepted_rule:
  assumes "env_errors U env = []" "rule \<in> set RULES"
  shows "checkRule U rule (env (rl_key rule)) = None"
  using assms by (fastforce simp: env_errors_def rule_errors_def List.map_filter_def filter_empty_conv)

text \<open>A boolean variable that passed its rule is read as true unless it says no.\<close>

lemma accepted_boolean:
  assumes "env_errors U env = []" "rule_for key Kind_boolean \<in> set RULES"
  shows "toBool (env key) d \<longleftrightarrow>
    (if env key = None \<or> env key = Some [] then d else toLowerCase (the (env key)) \<notin> {''0'', ''false'', ''no'', ''off''})"
proof (cases "env key = None \<or> env key = Some []")
  case False
  then obtain raw where raw: "env key = Some raw" "raw \<noteq> []" by auto
  have "toLowerCase raw \<in> set BOOLEANS"
    using accepted_rule [OF assms] raw by (simp add: checkRule_def rule_for_def split: if_splits)
  then have "toLowerCase raw \<in> {''1'', ''true'', ''yes'', ''on''} \<longleftrightarrow> toLowerCase raw \<notin> {''0'', ''false'', ''no'', ''off''}"
    unfolding BOOLEANS_def list.set by (elim insertE emptyE) simp_all
  then show ?thesis using raw by (simp add: toBool_def)
qed (auto simp: toBool_def)

lemma lower_true: "toLowerCase ''true'' = ''true''"
  by (simp add: toLowerCase_def char_lower_def is_upper_def less_eq_char_def)

lemma parseInt_none: "parseInt [] = NaN"
  by (simp add: parseInt_def drop_sign_def trim_start.simps space_width_def)

lemma local_chain: "Fin 31337 \<in> set LOCAL_CHAIN_IDS"
  by (simp add: LOCAL_CHAIN_IDS_def)

lemma accepted_chain:
  assumes "env_errors U env = []" "bc_enabled (blockchainConfig env)" "bc_chainId (blockchainConfig env) \<notin> set LOCAL_CHAIN_IDS"
  shows "bc_privateKey (blockchainConfig env) \<noteq> WELL_KNOWN_DEV_KEY"
proof -
  have rule: "rule_for ''BLOCKCHAIN_ENABLED'' Kind_boolean \<in> set RULES" unfolding RULES_def by (simp only: list.set insert_iff simp_thms)
  have "toLowerCase (env_or env ''BLOCKCHAIN_ENABLED'' ''true'') \<notin> {''false'', ''0'', ''no'', ''off''}"
    using assms(2) accepted_boolean [OF assms(1) rule, of True]
    by (cases "env ''BLOCKCHAIN_ENABLED'' = None \<or> env ''BLOCKCHAIN_ENABLED'' = Some []")
      (auto simp: blockchainConfig_def env_or_def lower_true toLowerCase_def)
  moreover have "parseInt (env_or env ''BLOCKCHAIN_CHAIN_ID'' ''31337'') \<notin> set LOCAL_CHAIN_IDS"
    using assms(3) local_chain
    by (auto simp: blockchainConfig_def toInt_def Let_def env_or_def parseInt_none split: option.splits if_splits)
  moreover have "chain_errors env = []" using assms(1) by (simp add: env_errors_def)
  ultimately show ?thesis by (auto simp: chain_errors_def Let_def blockchainConfig_def split: if_splits)
qed

section \<open>The key ring of an accepted environment\<close>

lemma split_first:
  assumes "split_char c s = a # b # bs"
  shows "\<exists>t. s = a @ c # t \<and> c \<notin> set a \<and> split_char c t = b # bs"
  using assms
proof (induction s arbitrary: a)
  case (Cons x xs)
  show ?case
  proof (cases "x = c")
    case False
    then obtain a' where "a = x # a'" "split_char c xs = a' # b # bs"
      using Cons.prems by (auto split: list.splits)
    then show ?thesis using Cons.IH False by (auto intro: exI)
  qed (use Cons.prems in auto)
qed simp

lemma split_nonempty: "split_char c s \<noteq> []"
  by (induction s) (auto split: list.splits)

lemma split_single: "split_char c s = [a] \<Longrightarrow> s = a"
  by (induction s arbitrary: a) (auto simp: split_nonempty split: if_splits list.splits)

lemma length_unb64: "length (unb64 s) = 3 * (length s div 4) + (length s mod 4 - 1)"
  by (induction s rule: unb64.induct) auto

lemma strong_key_decodes:
  assumes "master_key_pattern m" "\<not> too_weak m"
  shows "decodeMasterKey m = Inr (unb64 (take 43 m))"
  using assms by (simp add: master_key_pattern_def too_weak_def decodeMasterKey_def length_unb64 DATA_KEY_BYTES_def Let_def)

lemma previous_entry_parsed:
  assumes "previous_entry_ok cur seen (split_char CHR ''|'' e)"
  shows "\<exists>k m. e = k @ CHR ''|'' # m \<and> hd (split_char CHR ''|'' e) = k \<and> parse_previous e = Inr (k, m) \<and> KEY_ID_PATTERN k \<and>
    k \<notin> set seen \<and> k \<noteq> cur \<and> decodeMasterKey m = Inr (unb64 (take 43 m))"
proof -
  obtain k m where parts: "split_char CHR ''|'' e = [k, m]"
    using assms by (cases "split_char CHR ''|'' e" rule: remdups_adj.cases)
      (auto simp: previous_entry_ok_def split_nonempty master_key_pattern_def)
  then obtain t where t: "e = k @ CHR ''|'' # t" "CHR ''|'' \<notin> set k" "split_char CHR ''|'' t = [m]"
    using split_first by blast
  have m: "t = m" using split_single [OF t(3)] .
  have ok: "KEY_ID_PATTERN k" "k \<notin> set seen" "k \<noteq> cur" "decodeMasterKey m = Inr (unb64 (take 43 m))"
    using assms strong_key_decodes by (auto simp: previous_entry_ok_def parts)
  have "takeWhile (\<lambda>c. c \<noteq> CHR ''|'') (k @ CHR ''|'' # m) = k"
    using t(2) by (subst takeWhile_append2) auto
  then have "parse_previous e = Inr (k, m)"
    using ok(1) by (simp add: parse_previous_def Let_def t(1) m KEY_ID_PATTERN_def) auto
  then show ?thesis using ok t(1) m parts by auto
qed

lemma previous_keys_parsed:
  assumes "previous_errors cur seen entries = []"
  shows "\<exists>pairs. map_throwing parse_previous (filter (\<lambda>e. e \<noteq> []) (map js_trim entries)) = Inr pairs \<and>
    distinct (map fst pairs) \<and> fst ` set pairs \<inter> insert cur (set seen) = {} \<and>
    (\<forall>(k, m) \<in> set pairs. KEY_ID_PATTERN k \<and> decodeMasterKey m = Inr (unb64 (take 43 m)))"
  using assms
proof (induction entries arbitrary: seen)
  case (Cons e es)
  let ?parts = "split_char CHR ''|'' (js_trim e)"
  have ok: "previous_entry_ok cur seen ?parts" and rest: "previous_errors cur (hd ?parts # seen) es = []"
    using Cons.prems by (auto simp: Let_def split: if_splits)
  obtain k m where k: "js_trim e = k @ CHR ''|'' # m" "hd ?parts = k" "parse_previous (js_trim e) = Inr (k, m)" "KEY_ID_PATTERN k"
    "k \<notin> set seen" "k \<noteq> cur" "decodeMasterKey m = Inr (unb64 (take 43 m))"
    using previous_entry_parsed [OF ok] by blast
  from Cons.IH [OF rest] obtain pairs where
    "map_throwing parse_previous (filter (\<lambda>e. e \<noteq> []) (map js_trim es)) = Inr pairs" "distinct (map fst pairs)"
    "fst ` set pairs \<inter> insert cur (set (k # seen)) = {}"
    "\<forall>(k, m) \<in> set pairs. KEY_ID_PATTERN k \<and> decodeMasterKey m = Inr (unb64 (take 43 m))"
    using k(2) by blast
  moreover have "js_trim e \<noteq> []" by (simp add: k(1))
  ultimately show ?case using k(3-) by (intro exI [of _ "(k, m) # pairs"]) auto
qed simp

lemma map_throwing_all: "(\<And>x. x \<in> set xs \<Longrightarrow> f x = Inr (g x)) \<Longrightarrow> map_throwing f xs = Inr (map g xs)"
  by (induction xs) auto

lemma map_of_fold_update: "map_of (fold (\<lambda>(k, v). AList.update k v) kvs al) = map_of (rev kvs @ al)"
  by (induction kvs arbitrary: al) (auto simp: AList.update_conv')

lemma distinct_fold_update: "distinct (map fst al) \<Longrightarrow> distinct (map fst (fold (\<lambda>(k, v). AList.update k v) kvs al))"
  by (induction kvs arbitrary: al) (auto simp: AList.distinct_update)

lemma ring_of_distinct:
  assumes "distinct (map fst kvs)"
  shows "map_of (fold (\<lambda>(k, v). AList.update k v) kvs []) k = Some v \<longleftrightarrow> (k, v) \<in> set kvs"
proof -
  have "distinct (map fst (rev kvs))" using assms by (simp add: rev_map [symmetric])
  then show ?thesis using map_of_eq_Some_iff [of "rev kvs" k v] by (simp add: map_of_fold_update)
qed

lemma ring_accepted:
  assumes "distinct (map fst kvs)" "(cur, key) \<in> set kvs" "\<And>k v. (k, v) \<in> set kvs \<Longrightarrow> KEY_ID_PATTERN k \<and> length v = 32"
  defines "keys \<equiv> fold (\<lambda>(k, v). AList.update k v) kvs []"
  shows "useKeyRing cur keys = Inr \<lparr>fc_currentKeyId = Some cur, fc_keys = keys\<rparr>"
proof -
  have "distinct (map fst keys)" unfolding keys_def by (rule distinct_fold_update) simp
  then have "check_key kv = None" if "kv \<in> set keys" for kv
    using that assms(3) ring_of_distinct [OF assms(1)] by (cases kv) (auto simp: check_key_def keys_def)
  then have "List.map_filter check_key keys = []" by (simp add: List.map_filter_def filter_empty_conv)
  moreover have "map_of keys cur = Some key" using assms(2) ring_of_distinct [OF assms(1)] by (simp add: keys_def)
  moreover have "KEY_ID_PATTERN cur" using assms(2,3) by blast
  ultimately show ?thesis by (simp add: useKeyRing_def)
qed

lemma accepted_current_key:
  assumes "env_errors U env = []" "read_env env ''SECURITY_CURRENT_KEY_ID'' = k" "k \<noteq> []" "read_env env ''SECURITY_MASTER_KEY'' = m" "m \<noteq> []"
  shows "KEY_ID_PATTERN k" "decodeMasterKey m = Inr (unb64 (take 43 m))"
    "env ''SECURITY_CURRENT_KEY_ID'' = Some k" "env ''SECURITY_MASTER_KEY'' = Some m"
proof -
  show env: "env ''SECURITY_CURRENT_KEY_ID'' = Some k" "env ''SECURITY_MASTER_KEY'' = Some m"
    using assms(2-5) by (auto simp: read_env_def split: option.splits)
  have "pattern_rule ''SECURITY_CURRENT_KEY_ID'' KEY_ID_PATTERN ''un identifiant de cle (1 a 32 lettres, chiffres, _ ou -)'' \<in> set RULES"
    unfolding RULES_def by (simp only: list.set insert_iff simp_thms)
  from accepted_rule [OF assms(1) this] show "KEY_ID_PATTERN k"
    using env(1) assms(3) by (simp add: checkRule_def pattern_rule_def rule_for_def split: if_splits)
  have "(pattern_rule ''SECURITY_MASTER_KEY'' master_key_pattern ''une cle Base64 representant exactement 32 octets'')
      \<lparr>rl_secret := True\<rparr> \<in> set RULES"
    unfolding RULES_def by (simp only: list.set insert_iff simp_thms)
  from accepted_rule [OF assms(1) this] have "master_key_pattern m"
    using env(2) assms(5) by (simp add: checkRule_def pattern_rule_def rule_for_def split: if_splits)
  moreover have "entropy_errors env = []" using assms(1) by (simp add: env_errors_def)
  ultimately show "decodeMasterKey m = Inr (unb64 (take 43 m))"
    using assms(4) strong_key_decodes by (simp add: entropy_errors_def Let_def split: if_splits)
qed

lemma accepted_previous_keys:
  assumes "env_errors U env = []"
  shows "\<exists>pairs. parsePreviousKeys (read_env env ''SECURITY_PREVIOUS_KEYS'') = Inr pairs \<and> distinct (map fst pairs) \<and>
    read_env env ''SECURITY_CURRENT_KEY_ID'' \<notin> fst ` set pairs \<and>
    (\<forall>(k, m) \<in> set pairs. KEY_ID_PATTERN k \<and> decodeMasterKey m = Inr (unb64 (take 43 m)))"
proof (cases "read_env env ''SECURITY_PREVIOUS_KEYS'' = []")
  case True
  then show ?thesis by (simp add: parsePreviousKeys_def js_trim_def trim_start.simps space_width_def)
next
  case False
  then have "previous_errors (read_env env ''SECURITY_CURRENT_KEY_ID'') []
      (split_char CHR '','' (read_env env ''SECURITY_PREVIOUS_KEYS'')) = []"
    using assms by (simp add: env_errors_def)
  from previous_keys_parsed [OF this] show ?thesis unfolding parsePreviousKeys_def by blast
qed

section \<open>Properties\<close>

text \<open>
  An accepted environment that names its current key and gives its master key starts the encryption: the previous keys
  are read, the ring is installed, new values are encrypted under the key derived from the master key, and every previous
  identifier keeps the key derived from its own secret.
\<close>

theorem validated_key_ring_installs:
  assumes "\<forall>ikm salt info n. length (hkdf C ikm salt info n) = n" "validateEnv U env = Inr env'"
    and "read_env env ''SECURITY_CURRENT_KEY_ID'' = k" "k \<noteq> []" "read_env env ''SECURITY_MASTER_KEY'' = m" "m \<noteq> []"
  shows "\<exists>S ring. security_config env = Inr S \<and> install_key_ring C S = Inr ring \<and> fc_currentKeyId ring = Some k \<and>
    (\<forall>(k', m') \<in> set ((k, m) # sc_previousKeys S). \<exists>d. decodeMasterKey m' = Inr d \<and>
       map_of (fc_keys ring) k' = Some (deriveDataEncryptionKey C d (sc_keySalt S)))"
proof -
  have ok: "env_errors U env = []" using assms(2) by (simp add: accepted)
  note cur = accepted_current_key [OF ok assms(3-6)]
  obtain pairs where pairs: "parsePreviousKeys (read_env env ''SECURITY_PREVIOUS_KEYS'') = Inr pairs" "distinct (map fst pairs)"
    "k \<notin> fst ` set pairs" "\<forall>(k, m) \<in> set pairs. KEY_ID_PATTERN k \<and> decodeMasterKey m = Inr (unb64 (take 43 m))"
    using accepted_previous_keys [OF ok] assms(3) by blast
  define S where "S = \<lparr>sc_currentKeyId = k, sc_masterKey = m,
    sc_keySalt = env_or env ''SECURITY_KEY_SALT'' DEFAULT_SECURITY_KEY_SALT, sc_previousKeys = pairs\<rparr>"
  have S: "security_config env = Inr S"
    using pairs(1) cur(3,4) by (simp add: security_config_def S_def env_or_def read_env_def)
  let ?g = "\<lambda>(k, m). (k, deriveDataEncryptionKey C (unb64 (take 43 m)) (sc_keySalt S))"
  define kvs where "kvs = map ?g ((k, m) # pairs)"
  define keys where "keys = fold (\<lambda>(k, v). AList.update k v) kvs []"
  have dec: "KEY_ID_PATTERN (fst e) \<and> decodeMasterKey (snd e) = Inr (unb64 (take 43 (snd e)))" if "e \<in> set ((k, m) # pairs)" for e
    using that cur(1,2) pairs(4) by auto
  have "map_throwing (derive_key C (sc_keySalt S)) ((k, m) # pairs) = Inr kvs"
    unfolding kvs_def using dec by (intro map_throwing_all) (fastforce simp: derive_key_def)
  then have ring: "getDataEncryptionKeyRing C S = Inr (k, keys)"
    by (simp add: getDataEncryptionKeyRing_def keys_def S_def)
  have "map fst kvs = k # map fst pairs" by (auto simp: kvs_def)
  then have distinct: "distinct (map fst kvs)" using pairs(2,3) by simp
  have mem: "(fst e, deriveDataEncryptionKey C (unb64 (take 43 (snd e))) (sc_keySalt S)) \<in> set kvs" if "e \<in> set ((k, m) # pairs)" for e
    using that by (force simp: kvs_def)
  have "KEY_ID_PATTERN i \<and> length v = 32" if "(i, v) \<in> set kvs" for i v
    using that dec assms(1) by (fastforce simp: kvs_def deriveDataEncryptionKey_def DATA_KEY_BYTES_def)
  from ring_accepted [OF distinct mem [of "(k, m)", simplified] this]
  have "install_key_ring C S = Inr \<lparr>fc_currentKeyId = Some k, fc_keys = keys\<rparr>"
    by (simp add: install_key_ring_def ring keys_def)
  moreover have "map_of keys (fst e) = Some (deriveDataEncryptionKey C (unb64 (take 43 (snd e))) (sc_keySalt S))"
    if "e \<in> set ((k, m) # pairs)" for e
    using mem [OF that] ring_of_distinct [OF distinct] by (simp add: keys_def)
  moreover have "sc_previousKeys S = pairs" by (simp add: S_def)
  ultimately show ?thesis using S dec by (intro exI [of _ S]) fastforce
qed


text \<open>An environment of production, and the same with a capital.\<close>

definition sample_variables :: "(string \<times> string) list" where
  "sample_variables =
     [(''DB_HOST'', ''db''), (''DB_PORT'', ''5432''), (''DB_USERNAME'', ''gateway''), (''DB_PASSWORD'', ''secret''),
      (''DB_NAME'', ''gateway''), (''SOAP_ENDPOINT'', ''https://office''), (''API_KEYS'', ''key''),
      (''SECURITY_MASTER_KEY'', ''MDEyMzQ1Njc4OWFiY2RlZjAxMjM0NTY3ODlhYmNkZWY=''), (''SECURITY_CURRENT_KEY_ID'', ''k1''),
      (''MOBILE_MONEY_WEBHOOK_SECRET'', ''hook'')]"

definition sample_env :: env where
  "sample_env = map_of ((''NODE_ENV'', ''production'') # sample_variables)"

definition capital_env :: env where
  "capital_env = map_of ((''NODE_ENV'', ''Production'') # (''AUTH_ENABLED'', ''false'') # sample_variables)"

definition any_https :: "string \<Rightarrow> string option" where
  "any_https url = Some ''https:''"

lemma parseInt_digits:
  assumes "s \<noteq> []" "list_all is_digit s" "int (dec_value s) < 2 ^ 53"
  shows "parseInt s = Fin (of_nat (dec_value s))"
proof -
  obtain c cs where s: "s = c # cs" "is_digit c" using assms(1,2) by (cases s) auto
  have "trim_start s = s" using s by (subst trim_start.simps) (simp add: ascii_heads plain_ascii plain_not_space)
  moreover have "drop_sign s = s" "sign_of s = 1" using s by (auto simp: drop_sign_def sign_of_def is_digit_def)
  moreover have "takeWhile is_digit s = s" using assms(2) by (simp add: takeWhile_eq_all_conv list_all_iff)
  moreover have "fl (of_nat (dec_value s)) = Fin (of_nat (dec_value s))" using assms(3) fl_of_int [of "int (dec_value s)"] by simp
  ultimately show ?thesis using assms(1) by (simp add: parseInt_def del: takeWhile_eq_all_conv)
qed

lemma sample_port: "integer_pattern ''5432'' \<and> parseInt ''5432'' = Fin 5432" "parseInt ''31337'' = Fin 31337"
proof -
  have d: "list_all is_digit ''5432''" "dec_value ''5432'' = 5432" "list_all is_digit ''31337''" "dec_value ''31337'' = 31337"
    by (simp_all add: is_digit_def less_eq_char_def dec_value_def)
  show "integer_pattern ''5432'' \<and> parseInt ''5432'' = Fin 5432" "parseInt ''31337'' = Fin 31337"
    using parseInt_digits [OF _ d(1)] parseInt_digits [OF _ d(3)] d by (simp_all add: integer_pattern_def)
qed

text \<open>The texts of the sample, evaluated.\<close>

lemma sample_texts:
  "master_key_pattern ''MDEyMzQ1Njc4OWFiY2RlZjAxMjM0NTY3ODlhYmNkZWY='' \<and> \<not> too_weak ''MDEyMzQ1Njc4OWFiY2RlZjAxMjM0NTY3ODlhYmNkZWY='' \<and>
   ''MDEyMzQ1Njc4OWFiY2RlZjAxMjM0NTY3ODlhYmNkZWY='' \<noteq> LOCAL_SECURITY_MASTER_KEY \<and> KEY_ID_PATTERN ''k1'' \<and> js_trim ''key'' = ''key'' \<and>
   toLowerCase ''production'' = ''production'' \<and> toLowerCase ''Production'' = ''production'' \<and> toLowerCase ''false'' = ''false'' \<and>
   toLowerCase [] = []"
  by code_simp

lemma sample_rules: "rule_errors any_https sample_env = []" "rule_errors any_https capital_env = []"
  by (simp_all add: rule_errors_def RULES_def List.map_filter_simps checkRule_def sample_env_def capital_env_def sample_variables_def
      rule_for_def int_rule_def pattern_rule_def any_https_def sample_port sample_texts check_min_def
      check_max_def BOOLEANS_def)

lemma sample_accepted: "validateEnv any_https sample_env = Inr sample_env"
  using sample_rules(1) sample_texts
  by (simp add: accepted env_errors_def production_errors_def entropy_errors_def webhook_errors_def chain_errors_def
      read_env_def env_or_def sample_env_def sample_variables_def sample_texts sample_port LOCAL_CHAIN_IDS_def Let_def)

theorem validated_key_ring_installs_witness:
  "\<exists>S ring. security_config sample_env = Inr S \<and> install_key_ring sample_crypto S = Inr ring \<and> fc_currentKeyId ring = Some ''k1''"
proof -
  have hkdf: "\<forall>ikm salt info n. length (hkdf sample_crypto ikm salt info n) = n" by (simp add: sample_crypto_def min_def)
  have env: "read_env sample_env ''SECURITY_CURRENT_KEY_ID'' = ''k1''"
    "read_env sample_env ''SECURITY_MASTER_KEY'' = ''MDEyMzQ1Njc4OWFiY2RlZjAxMjM0NTY3ODlhYmNkZWY=''"
    by (simp_all add: read_env_def sample_env_def sample_variables_def)
  from validated_key_ring_installs [OF hkdf sample_accepted env(1) _ env(2)] show ?thesis by blast
qed


text \<open>
  The rule on \<^verbatim>\<open>NODE_ENV\<close> ignores case and the guards do not: with a capital, production starts without authentication and with
  its simulator.
\<close>

theorem capital_production_is_open:
  "validateEnv any_https capital_env = Inr capital_env \<and> \<not> au_enabled (authConfig capital_env) \<and>
   mc_simulatorEnabled (mobileMoneyConfig capital_env)"
  using sample_rules(2) sample_texts
  by (simp add: accepted env_errors_def production_errors_def entropy_errors_def webhook_errors_def chain_errors_def
      read_env_def env_or_def capital_env_def sample_variables_def sample_texts sample_port LOCAL_CHAIN_IDS_def Let_def
      authConfig_def mobileMoneyConfig_def toBool_def)

end
