(* ===== verification/Iban.thy ===== *)
theory Iban
  imports Js_Text
begin

text \<open>
  The IBAN validator (\<^verbatim>\<open>common/validators/is-iban.validator.ts\<close>): normalisation, the generic structure, the length
  of the country and the check digits of ISO 7064 MOD 97-10, computed digit by digit.
\<close>

definition IBAN_LENGTH_BY_COUNTRY :: "(string \<times> nat) list" where
  "IBAN_LENGTH_BY_COUNTRY =
     [(''AD'', 24), (''AE'', 23), (''AL'', 28), (''AT'', 20), (''AZ'', 28), (''BA'', 20), (''BE'', 16),
      (''BG'', 22), (''BH'', 22), (''BR'', 29), (''BY'', 28), (''CH'', 21), (''CR'', 22), (''CY'', 28),
      (''CZ'', 24), (''DE'', 22), (''DK'', 18), (''DO'', 28), (''EE'', 20), (''EG'', 29), (''ES'', 24),
      (''FI'', 18), (''FO'', 18), (''FR'', 27), (''GB'', 22), (''GE'', 22), (''GI'', 23), (''GL'', 18),
      (''GR'', 27), (''GT'', 28), (''HR'', 21), (''HU'', 28), (''IE'', 22), (''IL'', 23), (''IQ'', 23),
      (''IS'', 26), (''IT'', 27), (''JO'', 30), (''KW'', 30), (''KZ'', 20), (''LB'', 28), (''LC'', 32),
      (''LI'', 21), (''LT'', 20), (''LU'', 20), (''LV'', 21), (''LY'', 25), (''MC'', 27), (''MD'', 24),
      (''ME'', 22), (''MK'', 19), (''MR'', 27), (''MT'', 31), (''MU'', 30), (''NL'', 18), (''NO'', 15),
      (''PK'', 24), (''PL'', 28), (''PS'', 29), (''PT'', 25), (''QA'', 29), (''RO'', 24), (''RS'', 22),
      (''SA'', 24), (''SC'', 31), (''SE'', 24), (''SI'', 19), (''SK'', 24), (''SM'', 27), (''ST'', 25),
      (''SV'', 28), (''TL'', 23), (''TN'', 24), (''TR'', 26), (''UA'', 29), (''VA'', 22), (''VG'', 24),
      (''XK'', 20)]"

text \<open>The hyphens go with the white space, then the capitals are taken.\<close>

definition normalizeIban :: "string \<Rightarrow> string" where
  "normalizeIban val = wide_upper (filter (\<lambda>c. c \<noteq> CHR ''-'') (remove_spaces val))"

definition digit_value :: "char \<Rightarrow> nat" where
  "digit_value c = of_char c - 48"

definition mod97 :: "string \<Rightarrow> nat" where
  "mod97 input = foldl (\<lambda>remainder c. (remainder * 10 + digit_value c) mod 97) 0 input"

text \<open>\<^verbatim>\<open>/^[A-Z]{2}\d{2}[A-Z0-9]{11,30}$/\<close>.\<close>

definition iban_structure :: "string \<Rightarrow> bool" where
  "iban_structure iban \<longleftrightarrow>
     15 \<le> length iban \<and> length iban \<le> 34 \<and> list_all is_upper (take 2 iban) \<and>
     list_all is_digit (take 2 (drop 2 iban)) \<and> list_all (\<lambda>c. is_upper c \<or> is_digit c) (drop 4 iban)"

definition numeric_of :: "string \<Rightarrow> string" where
  "numeric_of s = concat (map (\<lambda>c. if is_upper c then nat_dec (of_char c - 55) else [c]) s)"

definition isValidIban :: "js \<Rightarrow> bool" where
  "isValidIban val =
     (case val of
        JString s \<Rightarrow>
          let iban = normalizeIban s;
              expectedLength = map_of IBAN_LENGTH_BY_COUNTRY (take 2 iban);
              rearranged = drop 4 iban @ take 4 iban in
          if \<not> iban_structure iban then False
          else if expectedLength \<noteq> None \<and> Some (length iban) \<noteq> expectedLength then False
          else mod97 (numeric_of rearranged) = 1
      | _ \<Rightarrow> False)"

section \<open>The remainder computed by digits is that of the number\<close>

lemma mod97_snoc: "mod97 (s @ [c]) = (mod97 s * 10 + digit_value c) mod 97"
  by (simp add: mod97_def)

lemma mod97_value: "mod97 s = dec_value s mod 97"
proof (induction s rule: rev_induct)
  case (snoc c s)
  have "dec_value (s @ [c]) = dec_value s * 10 + digit_value c" by (simp add: dec_value_def digit_value_def)
  then show ?case unfolding mod97_snoc snoc by (metis mod_add_left_eq mod_mult_left_eq)
qed (simp add: mod97_def dec_value_def)

lemma foldl_dec: "foldl (\<lambda>n c. 10 * n + (of_char c - 48)) k s = k * 10 ^ length s + dec_value s"
proof (induction s arbitrary: k)
  case (Cons c s)
  show ?case using Cons [of "10 * k + (of_char c - 48)"] Cons [of "of_char c - 48"]
    by (simp add: dec_value_def algebra_simps)
qed (simp add: dec_value_def)

lemma dec_value_append: "dec_value (s @ t) = dec_value s * 10 ^ length t + dec_value t"
  using foldl_dec [of "dec_value s" t] by (simp add: dec_value_def)

text \<open>Two numbers that differ in one group of digits have different remainders.\<close>

lemma remainder_changes:
  fixes a b :: nat
  assumes "a \<noteq> b" "a < 97" "b < 97"
  shows "(h * 10 ^ (k + m) + a * 10 ^ m + l) mod 97 \<noteq> (h * 10 ^ (k + m) + b * 10 ^ m + l) mod 97"
proof
  assume eq: "(h * 10 ^ (k + m) + a * 10 ^ m + l) mod 97 = (h * 10 ^ (k + m) + b * 10 ^ m + l) mod 97"
  then have "int (h * 10 ^ (k + m) + a * 10 ^ m + l) mod 97 = int (h * 10 ^ (k + m) + b * 10 ^ m + l) mod 97"
    by (simp only: zmod_int [symmetric] of_nat_numeral [symmetric, where 'a = int])
  then have "97 dvd (int a - int b) * 10 ^ m" by (simp add: mod_eq_dvd_iff algebra_simps)
  moreover have "coprime (97 :: int) (10 ^ m)"
  proof -
    have "coprime (97 :: int) 10"
    proof (rule coprimeI)
      fix c :: int
      assume "c dvd 97" "c dvd 10"
      then have "c dvd 97 * 3 - 10 * 29" by (intro dvd_diff dvd_mult2)
      then show "is_unit c" by simp
    qed
    then show ?thesis by simp
  qed
  ultimately have "(97 :: int) dvd int a - int b" by (simp add: coprime_dvd_mult_left_iff)
  then show False using assms zdvd_not_zless [of "int a - int b" 97] zdvd_not_zless [of "int b - int a" 97]
    by (cases "a < b") (auto simp: dvd_diff_commute)
qed

section \<open>Single errors\<close>

definition code_of :: "char \<Rightarrow> string" where
  "code_of c = (if is_upper c then nat_dec (of_char c - 55) else [c])"

text \<open>Two characters of the same class: their codes have as many digits and different values below 97.\<close>

definition same_class :: "char \<Rightarrow> char \<Rightarrow> bool" where
  "same_class c d \<longleftrightarrow> (is_digit c \<and> is_digit d) \<or> (is_upper c \<and> is_upper d)"

lemma code_of_digit: "is_digit c \<Longrightarrow> code_of c = [c]" "is_digit c \<Longrightarrow> dec_value (code_of c) = of_char c - 48"
  by (auto simp: code_of_def is_digit_def is_upper_def less_eq_char_def dec_value_def)

lemma code_of_upper:
  assumes "is_upper c"
  shows "dec_value (code_of c) = of_char c - 55" "length (code_of c) = 2"
proof -
  show "dec_value (code_of c) = of_char c - 55" using assms by (simp add: code_of_def dec_value_nat_dec)
  have "10 \<le> (of_char c :: nat) - 55" "(of_char c :: nat) - 55 < 100"
    using assms by (auto simp: is_upper_def less_eq_char_def)
  then show "length (code_of c) = 2" using assms
    by (simp add: code_of_def) (subst nat_dec.simps, simp, subst nat_dec.simps, simp)
qed

lemma same_class_codes:
  assumes "same_class c d" "c \<noteq> d"
  shows "length (code_of c) = length (code_of d)" "dec_value (code_of c) \<noteq> dec_value (code_of d)"
    "dec_value (code_of c) < 97" "dec_value (code_of d) < 97"
proof -
  have range: "48 \<le> (of_char x :: nat)" "(of_char x :: nat) \<le> 57" if "is_digit x" for x
    using that by (simp_all add: is_digit_def less_eq_char_def)
  have range': "65 \<le> (of_char x :: nat)" "(of_char x :: nat) \<le> 90" if "is_upper x" for x
    using that by (simp_all add: is_upper_def less_eq_char_def)
  have ne: "(of_char c :: nat) \<noteq> of_char d" using assms(2) by simp
  consider "is_digit c" "is_digit d" | "is_upper c" "is_upper d" using assms(1) by (auto simp: same_class_def)
  then show "length (code_of c) = length (code_of d)" "dec_value (code_of c) \<noteq> dec_value (code_of d)"
    "dec_value (code_of c) < 97" "dec_value (code_of d) < 97"
    by (cases; use ne range [of c] range [of d] range' [of c] range' [of d] code_of_digit code_of_upper in \<open>simp; linarith?\<close>)+
qed

lemma numeric_of_codes: "numeric_of s = concat (map code_of s)"
  by (simp add: numeric_of_def code_of_def [abs_def])

lemma substitution_changes_remainder:
  assumes "same_class c d" "c \<noteq> d"
  shows "mod97 (numeric_of (pre @ c # post)) \<noteq> mod97 (numeric_of (pre @ d # post))"
proof -
  let ?n = "\<lambda>x. concat (map code_of x)"
  have "dec_value (?n (pre @ x # post)) =
      dec_value (?n pre) * 10 ^ (length (code_of c) + length (?n post)) + dec_value (code_of x) * 10 ^ length (?n post) +
      dec_value (?n post)" if "length (code_of x) = length (code_of c)" for x
    using that by (simp add: dec_value_append power_add algebra_simps)
  then show ?thesis
    using remainder_changes [OF same_class_codes(2-4) [OF assms]] same_class_codes(1) [OF assms]
    by (simp add: numeric_of_codes mod97_value)
qed

lemma rearranged_update:
  assumes "i < length s"
  obtains pre post where "\<And>c. drop 4 (s[i := c]) @ take 4 (s[i := c]) = pre @ c # post"
proof (cases "i < 4")
  case True
  then have "drop 4 (s[i := c]) @ take 4 (s[i := c]) = (drop 4 s @ take i s) @ c # drop (Suc i) (take 4 s)" for c
    using assms True
    by (simp add: upd_conv_take_nth_drop take_Cons' drop_Cons' drop_take)
  then show ?thesis using that by blast
next
  case False
  then have "drop 4 (s[i := c]) @ take 4 (s[i := c]) = take (i - 4) (drop 4 s) @ c # drop (Suc (i - 4)) (drop 4 s) @ take 4 s" for c
    using assms by (simp add: drop_update_swap take_update_cancel upd_conv_take_nth_drop drop_take)
  then show ?thesis using that by blast
qed

lemma normalized_plain:
  assumes "list_all (\<lambda>c. is_upper c \<or> is_digit c) s"
  shows "normalizeIban s = s"
proof -
  have "list_all is_ascii s" "list_all (\<lambda>c. \<not> is_space c) s" "list_all (\<lambda>c. c \<noteq> CHR ''-'') s" "map char_upper s = s"
    using assms by (induction s) (auto simp: plain_ascii plain_not_space plain_upper is_upper_def is_digit_def less_eq_char_def)
  then show ?thesis
    by (simp add: normalizeIban_def ascii_remove_spaces ascii_wide_upper toUpperCase_def filter_id_conv list_all_iff)
qed

lemma structure_plain: "iban_structure s \<Longrightarrow> list_all (\<lambda>c. is_upper c \<or> is_digit c) s"
  by (metis (no_types, lifting) append_take_drop_id iban_structure_def list_all_append list_all_iff add_2_eq_Suc'
      drop_drop numeral_Bit0)

lemma isValidIban_checks:
  assumes "isValidIban (JString s)"
  shows "iban_structure (normalizeIban s)"
    "mod97 (numeric_of (drop 4 (normalizeIban s) @ take 4 (normalizeIban s))) = 1"
  using assms by (simp_all add: isValidIban_def Let_def split: if_splits)

section \<open>Properties\<close>

text \<open>
  C40. The validator catches every error in a single character: when an accepted IBAN has one digit replaced by
  another digit, or one letter by another letter, anywhere, the result is refused. The remainder is the exact one of the
  number the rearranged IBAN spells, however long it is.
\<close>

theorem iban_catches_substitution:
  assumes "isValidIban (JString val)" "iban = normalizeIban val" "i < length iban" "c \<noteq> iban ! i" "same_class (iban ! i) c"
  shows "\<not> isValidIban (JString (iban[i := c])) \<and>
    dec_value (numeric_of (drop 4 iban @ take 4 iban)) mod 97 = 1"
proof -
  obtain pre post where split: "\<And>c. drop 4 (iban[i := c]) @ take 4 (iban[i := c]) = pre @ c # post"
    using rearranged_update [OF assms(3)] by blast
  have one: "mod97 (numeric_of (pre @ iban ! i # post)) = 1"
    using isValidIban_checks(2) [OF assms(1)] split [of "iban ! i"] assms(2) by simp
  have plain: "list_all (\<lambda>c. is_upper c \<or> is_digit c) iban"
    using structure_plain [OF isValidIban_checks(1) [OF assms(1)]] assms(2) by simp
  then have "list_all (\<lambda>c. is_upper c \<or> is_digit c) (iban[i := c])"
    using assms(5) set_update_subset_insert [of iban i c] by (auto simp: list_all_iff same_class_def)
  then have "normalizeIban (iban[i := c]) = iban[i := c]" by (rule normalized_plain)
  moreover have "mod97 (numeric_of (pre @ c # post)) \<noteq> 1"
    using substitution_changes_remainder [OF assms(5), of pre post] assms(4) one by metis
  ultimately have "\<not> isValidIban (JString (iban[i := c]))" using isValidIban_checks(2) [of "iban[i := c]"] split by auto
  then show ?thesis using isValidIban_checks(2) [OF assms(1)] assms(2) by (simp add: mod97_value)
qed

theorem iban_catches_substitution_witness:
  "isValidIban (JString ''fr76 3000-6000 0112 3456 7890 189'') \<and>
   \<not> isValidIban (JString ''FR7630006000011234567890188'')"
proof -
  have n: "normalizeIban ''fr76 3000-6000 0112 3456 7890 189'' = ''FR7630006000011234567890189''"
    by (simp add: normalizeIban_def ascii_remove_spaces ascii_wide_upper is_ascii_def is_space_def toUpperCase_def char_upper_def char_of_def bit_0)
  have "mod97 (numeric_of ''30006000011234567890189FR76'') = 1"
    by (simp add: numeric_of_def is_upper_def nat_dec.simps digit_char_def mod97_def digit_value_def)
  then have v: "isValidIban (JString ''fr76 3000-6000 0112 3456 7890 189'')"
    by (simp add: isValidIban_def n iban_structure_def is_upper_def is_digit_def IBAN_LENGTH_BY_COUNTRY_def)
  have "\<not> isValidIban (JString (''FR7630006000011234567890189''[26 := CHR ''8'']))"
    using iban_catches_substitution [OF v n [symmetric], of 26 "CHR ''8''"] by (simp add: same_class_def is_digit_def)
  then show ?thesis using v by simp
qed

end
