(* ===== verification/Soap.thy ===== *)
theory Soap
  imports Database
begin

text \<open>
  The SOAP layer: the exceptions (\<^verbatim>\<open>soap/exceptions/soap.exceptions.ts\<close>), the mapping of a response
  (\<^verbatim>\<open>soap/soap-response.mapper.ts\<close>) and the client with its retries (\<^verbatim>\<open>soap/soap-client.service.ts\<close>). The XML parser
  (xml2js) and the transport (node-soap) are arguments; the client keeps its own small world.
\<close>

record SoapFaultDetails =
  sf_faultCode :: string
  sf_faultString :: string
  sf_faultActor :: "string option"
  sf_detail :: "string option"
  sf_soapVersion :: string

datatype soap_exception =
    SoapFaultException SoapFaultDetails string string
  | SoapCommunicationException string string bool nat
  | SoapParsingException string string

text \<open>What the services see of an exception.\<close>

fun exn_of :: "soap_exception \<Rightarrow> exn" where
  "exn_of (SoapFaultException fault operation raw) = SoapFault operation (sf_faultCode fault) (sf_faultString fault)"
| "exn_of (SoapCommunicationException message operation timedOut attempts) = SoapCommunication operation timedOut attempts"
| "exn_of (SoapParsingException message operation) = SoapParsing operation"

fun soap_message :: "soap_exception \<Rightarrow> string" where
  "soap_message (SoapFaultException fault operation raw) =
     ''Faute SOAP sur l'' @ [CHR 0x27] @ ''operation '' @ operation @ '' : '' @ sf_faultString fault"
| "soap_message (SoapCommunicationException message operation timedOut attempts) = message"
| "soap_message (SoapParsingException message operation) = message"

section \<open>The mapper\<close>

definition SOAP_12_NAMESPACE :: string where
  "SOAP_12_NAMESPACE = ''http://www.w3.org/2003/05/soap-envelope''"

definition FORBIDDEN_CONSTRUCTS :: "(string \<times> string) list" where
  "FORBIDDEN_CONSTRUCTS =
     [(''<!doctype'', ''<!DOCTYPE''), (''<!entity'', ''<!ENTITY''), (''<?xml-stylesheet'', ''<'' @ [CHR 0x5C] @ ''?xml-stylesheet'')]"

definition field :: "(string \<times> js) list \<Rightarrow> string \<Rightarrow> js" where
  "field kvs k = (case map_of kvs k of None \<Rightarrow> JUndefined | Some v \<Rightarrow> v)"

lemma field_size: "map_of kvs k = Some v \<Longrightarrow> size v < size (JObject kvs)"
  by (induction kvs) (auto split: if_splits)

function asText :: "js \<Rightarrow> string option" where
  "asText (JString s) = (let trimmed = js_trim s in if trimmed \<noteq> [] then Some trimmed else None)"
| "asText (JNumber t) = Some t"
| "asText (JBool b) = Some (if b then ''true'' else ''false'')"
| "asText (JArray vs) = (case vs of [] \<Rightarrow> None | v # _ \<Rightarrow> asText v)"
| "asText (JObject kvs) = (case map_of kvs ''_'' of None \<Rightarrow> None | Some v \<Rightarrow> asText v)"
| "asText JUndefined = None"
| "asText JNull = None"
| "asText (JDate s) = None"
| "asText JOther = None"
  by pat_completeness auto
termination by (relation "measure size") (auto dest: field_size)

fun asNode :: "js \<Rightarrow> (string \<times> js) list option" where
  "asNode (JArray []) = None"
| "asNode (JArray (v # vs)) = asNode v"
| "asNode (JObject kvs) = Some kvs"
| "asNode (JDate s) = Some []"
| "asNode _ = None"

definition stringifyDetail :: "js \<Rightarrow> string option" where
  "stringifyDetail detail =
     (if detail = JUndefined \<or> detail = JNull then None
      else case asText detail of Some t \<Rightarrow> Some t | None \<Rightarrow> json_stringify detail)"

text \<open>\<^verbatim>\<open>a ?? b\<close>, and \<^verbatim>\<open>node?.[k]\<close>.\<close>

definition or_else :: "'a option \<Rightarrow> 'a option \<Rightarrow> 'a option" where
  "or_else a b = (case a of None \<Rightarrow> b | Some x \<Rightarrow> Some x)"

definition node_field :: "(string \<times> js) list option \<Rightarrow> string \<Rightarrow> js" where
  "node_field node k = (case node of None \<Rightarrow> JUndefined | Some kvs \<Rightarrow> field kvs k)"

definition extractFault :: "(string \<times> js) list \<Rightarrow> string \<Rightarrow> SoapFaultDetails option" where
  "extractFault body rawXml =
     (if map_of body ''Fault'' = None then None
      else
        let fault = (case asNode (field body ''Fault'') of None \<Rightarrow> [] | Some kvs \<Rightarrow> kvs);
            isSoap12 = (sublist SOAP_12_NAMESPACE rawXml \<or> map_of fault ''Code'' \<noteq> None \<or> map_of fault ''Reason'' \<noteq> None) in
        Some
          (if isSoap12
           then
             let code = asNode (field fault ''Code''); reason = asNode (field fault ''Reason'');
                 subcode = (case code of None \<Rightarrow> None | Some c \<Rightarrow> asNode (field c ''Subcode'')) in
             \<lparr>sf_faultCode = the (or_else (asText (node_field code ''Value''))
                (or_else (asText (node_field subcode ''Value'')) (Some ''soap:Receiver''))),
              sf_faultString = the (or_else (asText (node_field reason ''Text''))
                (or_else (asText (field fault ''Reason'')) (Some ''Faute SOAP sans motif fourni''))),
              sf_faultActor = asText (field fault ''Role''), sf_detail = stringifyDetail (field fault ''Detail''),
              sf_soapVersion = ''1.2''\<rparr>
           else
             \<lparr>sf_faultCode = the (or_else (asText (field fault ''faultcode'')) (Some ''soap:Server'')),
              sf_faultString = the (or_else (asText (field fault ''faultstring'')) (Some ''Faute SOAP sans motif fourni'')),
              sf_faultActor = asText (field fault ''faultactor''), sf_detail = stringifyDetail (field fault ''detail''),
              sf_soapVersion = ''1.1''\<rparr>))"

definition quoted_operation :: "string \<Rightarrow> string" where
  "quoted_operation operation = ''l'' @ [CHR 0x27] @ ''operation '' @ operation"

definition assertSafePayload :: "int \<Rightarrow> string \<Rightarrow> string \<Rightarrow> soap_exception + unit" where
  "assertSafePayload maxResponseBytes xml operation =
     (if js_trim xml = [] then Inl (SoapParsingException (''Reponse SOAP vide pour '' @ quoted_operation operation) operation)
      else if maxResponseBytes < int (length xml)
      then Inl (SoapParsingException (''Reponse SOAP trop volumineuse ('' @ nat_dec (length xml) @ '' octets > '' @
             int_dec maxResponseBytes @ '')'') operation)
      else
        (case find (\<lambda>(p, _). sublist p (toLowerCase xml)) FORBIDDEN_CONSTRUCTS of
           Some (_, source) \<Rightarrow>
             Inl (SoapParsingException (''Reponse SOAP rejetee : construction XML interdite detectee ('' @ source @ '')'') operation)
         | None \<Rightarrow> Inr ()))"

text \<open>\<open>xml2js\<close> is the parser: the value of a document, or none when it is malformed.\<close>

definition parseEnvelope ::
  "(string \<Rightarrow> js option) \<Rightarrow> int \<Rightarrow> string \<Rightarrow> string \<Rightarrow> soap_exception + (string \<times> js) list" where
  "parseEnvelope xml2js maxResponseBytes xml operation =
     (case assertSafePayload maxResponseBytes xml operation of
        Inl e \<Rightarrow> Inl e
      | Inr _ \<Rightarrow>
          (case xml2js xml of
             None \<Rightarrow> Inl (SoapParsingException (''Reponse XML malformee pour '' @ quoted_operation operation) operation)
           | Some parsed \<Rightarrow>
               (case asNode (node_field (asNode parsed) ''Envelope'') of
                  None \<Rightarrow> Inl (SoapParsingException
                    (''Enveloppe SOAP absente dans la reponse de '' @ quoted_operation operation) operation)
                | Some envelope \<Rightarrow>
                    (case asNode (field envelope ''Body'') of
                       None \<Rightarrow> Inl (SoapParsingException
                         (''Element <Body> absent dans la reponse de '' @ quoted_operation operation) operation)
                     | Some body \<Rightarrow> Inr body))))"

definition extractOperationResult ::
  "(string \<Rightarrow> js option) \<Rightarrow> int \<Rightarrow> string \<Rightarrow> string \<Rightarrow> soap_exception + string" where
  "extractOperationResult xml2js maxResponseBytes xml operation =
     (case parseEnvelope xml2js maxResponseBytes xml operation of
        Inl e \<Rightarrow> Inl e
      | Inr body \<Rightarrow>
          (case extractFault body xml of
             Some fault \<Rightarrow> Inl (SoapFaultException fault operation xml)
           | None \<Rightarrow>
               (case asNode (field body (operation @ ''Response'')) of
                  None \<Rightarrow> Inl (SoapParsingException (''Element <'' @ operation @ ''Response> absent de la reponse SOAP'') operation)
                | Some responseNode \<Rightarrow>
                    (case asText (field responseNode (operation @ ''Result'')) of
                       None \<Rightarrow> Inl (SoapParsingException
                         (''Element <'' @ operation @ ''Result> absent ou vide dans la reponse SOAP'') operation)
                     | Some val \<Rightarrow> Inr val))))"

section \<open>The client\<close>

record soapConfig =
  sp_endpoint :: string
  sp_maxRetries :: int
  sp_retryDelayMs :: int
  sp_maxResponseBytes :: int
  sp_wsdlRemote :: bool
  sp_wsdlUrl :: string
  sp_wsdlPath :: string
  sp_wsdlExists :: bool

record SoapErrorLike =
  el_message :: "string option"
  el_code :: "string option"
  el_body :: js
  el_status :: "nat option"
  el_data :: js

datatype thrown = Domain soap_exception | Raw SoapErrorLike

text \<open>
  The transport, per moment: the creation of a client from a description for an endpoint, which operations the client knows, the
  answer to a call with the raw response and the raw request (the client's last one when the answer does not give it), and the clock.
\<close>

record soap_env =
  se_xml2js :: "string \<Rightarrow> js option"
  se_create :: "nat \<Rightarrow> string \<Rightarrow> string \<Rightarrow> string + (string \<Rightarrow> bool)"
  se_call :: "nat \<Rightarrow> string \<Rightarrow> number \<Rightarrow> SoapErrorLike + (string option \<times> string option)"
  se_clock :: "nat \<Rightarrow> int"

text \<open>The cached client, the moment, the calls made and the pauses taken.\<close>

record soap_world =
  sw_client :: "(string \<Rightarrow> bool) option"
  sw_now :: nat
  sw_calls :: nat
  sw_slept :: "int list"

definition tick :: "(nat \<Rightarrow> 'a) \<Rightarrow> (soap_world, 'e, 'a) action" where
  "tick source = (\<lambda>w. (Inr (source (sw_now w)), w\<lparr>sw_now := Suc (sw_now w)\<rparr>))"

definition resolveWsdlSource :: "soapConfig \<Rightarrow> soap_exception + string" where
  "resolveWsdlSource C =
     (if sp_wsdlRemote C then Inr (sp_wsdlUrl C)
      else if \<not> sp_wsdlExists C
      then Inl (SoapCommunicationException (''WSDL local introuvable : '' @ sp_wsdlPath C @
             ''. Verifiez la copie des assets (nest-cli.json) ou basculez SOAP_WSDL_SOURCE=remote.'') ''createClient'' False 1)
      else Inr (sp_wsdlPath C))"

definition createClient :: "soap_env \<Rightarrow> soapConfig \<Rightarrow> (soap_world, thrown, string \<Rightarrow> bool) action" where
  "createClient E C =
     (case resolveWsdlSource C of
        Inl e \<Rightarrow> throw (Domain e)
      | Inr source \<Rightarrow>
          bnd (tick (se_create E)) (\<lambda>create.
            case create source (sp_endpoint C) of
              Inr client \<Rightarrow> ret client
            | Inl m \<Rightarrow> throw (Domain (SoapCommunicationException
                (''Initialisation du client SOAP impossible depuis '' @ source @ '' : '' @ m) ''createClient'' False 1))))"

definition getClient :: "soap_env \<Rightarrow> soapConfig \<Rightarrow> (soap_world, thrown, string \<Rightarrow> bool) action" where
  "getClient E C =
     bnd (reads sw_client) (\<lambda>cached.
       case cached of
         Some client \<Rightarrow> ret client
       | None \<Rightarrow>
           bnd (createClient E C) (\<lambda>client.
           bnd (modifies (\<lambda>w. w\<lparr>sw_client := Some client\<rparr>)) (\<lambda>_. ret client)))"

definition extractResponseBody :: "SoapErrorLike \<Rightarrow> string option" where
  "extractResponseBody err =
     (case el_body err of JString s \<Rightarrow> Some s | _ \<Rightarrow> (case el_data err of JString s \<Rightarrow> Some s | _ \<Rightarrow> None))"

definition timed_out :: "SoapErrorLike \<Rightarrow> bool" where
  "timed_out err \<longleftrightarrow>
     el_code err = Some ''ECONNABORTED'' \<or> el_code err = Some ''ETIMEDOUT'' \<or>
     (let message = toLowerCase (case el_message err of None \<Rightarrow> ''Erreur inconnue'' | Some m \<Rightarrow> m) in
      sublist ''timeout'' message \<or> sublist ''timed out'' message)"

definition communication_failure :: "SoapErrorLike \<Rightarrow> string \<Rightarrow> nat \<Rightarrow> soap_exception" where
  "communication_failure err operation attempt =
     (let message = (case el_message err of None \<Rightarrow> ''Erreur inconnue'' | Some m \<Rightarrow> m);
          detail = (case el_status err of
            Some status \<Rightarrow> if status = 0 then message
              else ''HTTP '' @ nat_dec status @ '' '' @ [CHR 0xE2, CHR 0x80, CHR 0x94] @ '' '' @ message
          | None \<Rightarrow> message) in
      SoapCommunicationException (''Appel SOAP '' @ operation @ '' en echec : '' @ detail) operation (timed_out err) attempt)"

definition normalizeError :: "soap_env \<Rightarrow> soapConfig \<Rightarrow> thrown \<Rightarrow> string \<Rightarrow> nat \<Rightarrow> soap_exception" where
  "normalizeError E C error operation attempt =
     (case error of
        Domain e \<Rightarrow> e
      | Raw err \<Rightarrow>
          (case extractResponseBody err of
             Some body \<Rightarrow>
               if sublist ''fault'' (toLowerCase body)
               then (case parseEnvelope (se_xml2js E) (sp_maxResponseBytes C) body operation of
                       Inl parsingError \<Rightarrow> parsingError
                     | Inr parsedBody \<Rightarrow>
                         (case extractFault parsedBody body of
                            Some fault \<Rightarrow> SoapFaultException fault operation body
                          | None \<Rightarrow> communication_failure err operation attempt))
               else communication_failure err operation attempt
           | None \<Rightarrow> communication_failure err operation attempt))"

text \<open>One attempt, and whether its failure may be retried.\<close>

record SoapExchange = exchange +
  sx_endpoint :: string
  sx_rawRequest :: string
  sx_rawResponse :: string

definition attempt_call :: "soap_env \<Rightarrow> soapConfig \<Rightarrow> string \<Rightarrow> number \<Rightarrow> nat \<Rightarrow> (soap_world, thrown, SoapExchange) action" where
  "attempt_call E C operation amount n =
     bnd (tick (se_clock E)) (\<lambda>startedAt.
     bnd (getClient E C) (\<lambda>client.
       if \<not> client operation
       then throw (Domain (SoapParsingException (''Operation '' @ operation @ '' absente du WSDL charge'') operation))
       else
         bnd (modifies (\<lambda>w. w\<lparr>sw_calls := Suc (sw_calls w)\<rparr>)) (\<lambda>_.
         bnd (tick (se_call E)) (\<lambda>call.
           case call operation amount of
             Inl err \<Rightarrow> throw (Raw err)
           | Inr (rawResponse, rawRequest) \<Rightarrow>
               if rawResponse = None \<or> rawResponse = Some []
               then throw (Domain (SoapParsingException (''Reponse SOAP vide pour '' @ quoted_operation operation) operation))
               else
                 bnd (tick (se_clock E)) (\<lambda>endedAt.
                 ret \<lparr>ex_operation = operation, ex_durationMs = endedAt - startedAt, ex_attempts = int n,
                      sx_endpoint = sp_endpoint C, sx_rawRequest = (case rawRequest of None \<Rightarrow> [] | Some q \<Rightarrow> q), sx_rawResponse = the rawResponse\<rparr>)))))"

fun retryable :: "soap_exception \<Rightarrow> bool" where
  "retryable (SoapCommunicationException _ _ _ _) = True"
| "retryable _ = False"

definition sleep :: "int \<Rightarrow> (soap_world, 'e, unit) action" where
  "sleep ms = modifies (\<lambda>w. w\<lparr>sw_slept := sw_slept w @ [ms]\<rparr>)"

text \<open>The loop over the attempts, by the number of attempts that remain.\<close>

fun invoke_from ::
  "nat \<Rightarrow> nat \<Rightarrow> soap_env \<Rightarrow> soapConfig \<Rightarrow> string \<Rightarrow> number \<Rightarrow> (soap_world, soap_exception, SoapExchange) action" where
  "invoke_from 0 n E C operation amount = throw (SoapCommunicationException ''Echec SOAP inconnu'' operation False 1)"
| "invoke_from (Suc remaining) n E C operation amount = (\<lambda>w.
     case attempt_call E C operation amount n w of
       (Inr exch, w') \<Rightarrow> (Inr exch, w')
     | (Inl error, w') \<Rightarrow>
         let lastError = normalizeError E C error operation n in
         if \<not> retryable lastError then (Inl lastError, w')
         else if remaining = 0 then (Inl lastError, w')
         else bnd (sleep (sp_retryDelayMs C * int n)) (\<lambda>_. invoke_from remaining (Suc n) E C operation amount) w')"

definition max_attempts :: "soapConfig \<Rightarrow> nat" where
  "max_attempts C = nat (max 1 (sp_maxRetries C + 1))"

definition invoke :: "soap_env \<Rightarrow> soapConfig \<Rightarrow> string \<Rightarrow> number \<Rightarrow> (soap_world, soap_exception, SoapExchange) action" where
  "invoke E C operation amount = invoke_from (max_attempts C) 1 E C operation amount"

text \<open>The operation the services call; \<open>lift_result\<close> carries the answer of the mapper.\<close>

definition convert_amount ::
  "soap_env \<Rightarrow> soapConfig \<Rightarrow> number \<Rightarrow> (soap_world, soap_exception, string \<times> SoapExchange) action" where
  "convert_amount E C amount =
     bnd (invoke E C ''NumberToDollars'' amount) (\<lambda>exch.
     bnd (lift_result (extractOperationResult (se_xml2js E) (sp_maxResponseBytes C) (sx_rawResponse exch) ''NumberToDollars'')) (\<lambda>amountInWords.
     ret (amountInWords, exch)))"

definition isReady :: "soap_env \<Rightarrow> soapConfig \<Rightarrow> (soap_world, thrown, bool) action" where
  "isReady E C = catching (bnd (getClient E C) (\<lambda>_. ret True)) (\<lambda>_. ret False)"

section \<open>Attempts\<close>

lemma run_tick: "bnd (tick source) f w = f (source (sw_now w)) (w\<lparr>sw_now := Suc (sw_now w)\<rparr>)"
  by (simp add: bnd_def tick_def)

lemma getClient_run:
  assumes "getClient E C w = (r, w')"
  shows "sw_calls w' = sw_calls w \<and> sw_slept w' = sw_slept w"
  using assms
  by (auto simp: getClient_def createClient_def action_simps run_tick split: option.splits sum.splits)

text \<open>An attempt calls the service at most once and never pauses; the exchange it returns carries its rank.\<close>

lemma attempt_call_run:
  assumes "attempt_call E C operation amount n w = (r, w')"
  shows "sw_slept w' = sw_slept w \<and> sw_calls w \<le> sw_calls w' \<and> sw_calls w' \<le> Suc (sw_calls w) \<and>
    (\<forall>x. r = Inr x \<longrightarrow> ex_attempts x = int n \<and> ex_operation x = operation \<and> sx_endpoint x = sp_endpoint C \<and>
       sx_rawResponse x \<noteq> [] \<and> sw_calls w' = Suc (sw_calls w))"
proof -
  obtain q v where client: "getClient E C (w\<lparr>sw_now := Suc (sw_now w)\<rparr>) = (q, v)"
    by (cases "getClient E C (w\<lparr>sw_now := Suc (sw_now w)\<rparr>)")
  have v: "sw_calls v = sw_calls w" "sw_slept v = sw_slept w" using getClient_run [OF client] by simp_all
  show ?thesis
  proof (cases q)
    case (Inl e)
    then show ?thesis using assms client v by (auto simp: attempt_call_def run_tick run_bnd_Inl)
  next
    case (Inr c)
    then show ?thesis
      using assms client v
      by (auto simp: attempt_call_def run_tick run_bnd_Inr action_simps split: if_splits sum.splits)
  qed
qed

text \<open>
  \<open>replayed E C operation amount n w m u\<close>: attempt \<open>m\<close> starts in \<open>u\<close> after the attempts from \<open>n\<close> on, the first of them in
  \<open>w\<close>, ended each in an incident of transport and were followed by their pause.
\<close>

inductive replayed ::
  "soap_env \<Rightarrow> soapConfig \<Rightarrow> string \<Rightarrow> number \<Rightarrow> nat \<Rightarrow> soap_world \<Rightarrow> nat \<Rightarrow> soap_world \<Rightarrow> bool"
  for E C operation amount where
  last: "replayed E C operation amount n w n w"
| again: "attempt_call E C operation amount n w = (Inl error, v) \<Longrightarrow> retryable (normalizeError E C error operation n) \<Longrightarrow>
    replayed E C operation amount (Suc n) (v\<lparr>sw_slept := sw_slept v @ [sp_retryDelayMs C * int n]\<rparr>) m u \<Longrightarrow>
    replayed E C operation amount n w m u"

inductive_cases replayedE: "replayed E C operation amount n w m u"

lemma replayed_run:
  assumes "replayed E C operation amount n w m u"
  shows "n \<le> m \<and> sw_slept u = sw_slept w @ map (\<lambda>i. sp_retryDelayMs C * int i) [n..<m] \<and> sw_calls u \<le> sw_calls w + (m - n)"
  using assms
proof (induction rule: replayed.induct)
  case (again n w error v m u)
  have "[n..<m] = n # [Suc n..<m]" using again.IH by (simp add: upt_conv_Cons)
  then show ?case using again.IH attempt_call_run [OF again.hyps(1)] by auto
qed simp

text \<open>The attempt that decides: what it returns or throws is what the call returns or throws.\<close>

definition decided ::
  "soap_env \<Rightarrow> soapConfig \<Rightarrow> string \<Rightarrow> number \<Rightarrow> nat \<Rightarrow> nat \<Rightarrow> soap_world \<Rightarrow> (soap_exception + SoapExchange) \<times> soap_world \<Rightarrow> bool" where
  "decided E C operation amount final m u outcome \<longleftrightarrow>
     (case attempt_call E C operation amount m u of
        (Inr exch, v) \<Rightarrow> outcome = (Inr exch, v)
      | (Inl error, v) \<Rightarrow> outcome = (Inl (normalizeError E C error operation m), v) \<and>
          (retryable (normalizeError E C error operation m) \<longrightarrow> m = final))"

lemma invoke_from_run:
  assumes "invoke_from (Suc k) n E C operation amount w = out"
  shows "\<exists>m u. replayed E C operation amount n w m u \<and> m \<le> n + k \<and> decided E C operation amount (n + k) m u out"
  using assms
proof (induction k arbitrary: n w)
  case 0
  then show ?case
    by (intro exI [of _ n] exI [of _ w])
       (auto simp: replayed.last decided_def Let_def split: prod.splits sum.splits if_splits)
next
  case (Suc k)
  obtain q v where a: "attempt_call E C operation amount n w = (q, v)" by (cases "attempt_call E C operation amount n w")
  show ?case
  proof (cases "\<exists>error. q = Inl error \<and> retryable (normalizeError E C error operation n)")
    case False
    then have "decided E C operation amount (n + Suc k) n w out"
      using Suc.prems a by (auto simp: decided_def Let_def split: sum.splits)
    then show ?thesis using replayed.last by (intro exI [of _ n] exI [of _ w]) simp
  next
    case True
    then obtain error where q: "q = Inl error" "retryable (normalizeError E C error operation n)" by blast
    let ?v = "v\<lparr>sw_slept := sw_slept v @ [sp_retryDelayMs C * int n]\<rparr>"
    have rest: "invoke_from (Suc k) (Suc n) E C operation amount ?v = out"
      using Suc.prems a q by (simp add: Let_def sleep_def action_simps)
    obtain m u where "replayed E C operation amount (Suc n) ?v m u" "m \<le> Suc n + k" "decided E C operation amount (Suc n + k) m u out"
      using Suc.IH [OF rest] by blast
    then show ?thesis using replayed.again [OF a [unfolded q(1)] q(2)] by (intro exI [of _ m] exI [of _ u]) simp
  qed
qed

section \<open>Properties\<close>

text \<open>
  C31. A call to the back office ends after at most \<open>maxRetries + 1\<close> attempts, each of at most one request, with pauses
  that grow linearly between them, and it replays incidents of transport only: every attempt before the last one ended
  in a communication failure, and the outcome of the last one is the outcome of the call. So a fault or an unusable answer is
  reported at once and never replayed; an incident of transport is reported only when the attempts are spent; an exchange that
  succeeds carries the endpoint, the rank of its attempt and an answer that is not empty.
\<close>

theorem soap_call_is_bounded:
  assumes "invoke E C operation amount w = (r, w')"
  shows "\<exists>m u. replayed E C operation amount 1 w m u \<and> decided E C operation amount (max_attempts C) m u (r, w') \<and>
    1 \<le> m \<and> m \<le> max_attempts C \<and> int (max_attempts C) = max 1 (sp_maxRetries C + 1) \<and>
    sw_slept w' = sw_slept w @ map (\<lambda>i. sp_retryDelayMs C * int i) [1..<m] \<and> sw_calls w' \<le> sw_calls w + m \<and>
    (\<forall>x. r = Inr x \<longrightarrow> ex_attempts x = int m \<and> ex_operation x = operation \<and> sx_endpoint x = sp_endpoint C \<and> sx_rawResponse x \<noteq> []) \<and>
    (\<forall>e. r = Inl e \<and> retryable e \<longrightarrow> m = max_attempts C)"
proof -
  obtain k where k: "max_attempts C = Suc k" "int (Suc k) = max 1 (sp_maxRetries C + 1)"
  proof
    show "max_attempts C = Suc (max_attempts C - 1)" "int (Suc (max_attempts C - 1)) = max 1 (sp_maxRetries C + 1)"
      by (auto simp: max_attempts_def max_def)
  qed
  from invoke_from_run [OF assms [unfolded invoke_def k(1)]] obtain m u where
    m: "replayed E C operation amount 1 w m u" "m \<le> Suc k" "decided E C operation amount (Suc k) m u (r, w')" by auto
  obtain q v where a: "attempt_call E C operation amount m u = (q, v)" by (cases "attempt_call E C operation amount m u")
  have w': "w' = v" using m(3) a by (auto simp: decided_def split: sum.splits)
  note before = replayed_run [OF m(1)]
  have "sw_slept w' = sw_slept w @ map (\<lambda>i. sp_retryDelayMs C * int i) [1..<m] \<and> sw_calls w' \<le> sw_calls w + m"
    using before attempt_call_run [OF a] w' by auto
  moreover have "(\<forall>x. r = Inr x \<longrightarrow> ex_attempts x = int m \<and> ex_operation x = operation \<and> sx_endpoint x = sp_endpoint C \<and> sx_rawResponse x \<noteq> []) \<and>
      (\<forall>e. r = Inl e \<and> retryable e \<longrightarrow> m = Suc k)"
    using m(3) a attempt_call_run [OF a] by (auto simp: decided_def split: sum.splits)
  ultimately show ?thesis using m before k by (intro exI [of _ m] exI [of _ u]) auto
qed

text \<open>A back office that never answers, and one that answers with a fault that cannot be read.\<close>

definition silent_office :: soap_env where
  "silent_office = \<lparr>se_xml2js = (\<lambda>xml. None), se_create = (\<lambda>n source endpoint. Inr (\<lambda>operation. True)),
     se_call = (\<lambda>n operation amount. Inl \<lparr>el_message = Some ''socket hang up'', el_code = None, el_body = JUndefined, el_status = None,
        el_data = JUndefined\<rparr>), se_clock = int\<rparr>"

definition faulty_office :: soap_env where
  "faulty_office = silent_office
     \<lparr>se_call := (\<lambda>n operation amount. Inl \<lparr>el_message = Some ''status 500'', el_code = None, el_body = JString ''<fault'', el_status = Some 500,
        el_data = JUndefined\<rparr>)\<rparr>"

definition sample_soap :: soapConfig where
  "sample_soap = \<lparr>sp_endpoint = ''http://office/soap'', sp_maxRetries = 2, sp_retryDelayMs = 300, sp_maxResponseBytes = 1048576, sp_wsdlRemote = True,
     sp_wsdlUrl = ''http://office'', sp_wsdlPath = [], sp_wsdlExists = False\<rparr>"

definition fresh_soap :: soap_world where
  "fresh_soap = \<lparr>sw_client = None, sw_now = 0, sw_calls = 0, sw_slept = []\<rparr>"

lemmas sample_attempt = attempt_call_def getClient_def createClient_def resolveWsdlSource_def run_tick action_simps
  sample_soap_def fresh_soap_def normalizeError_def extractResponseBody_def Let_def

lemma unreadable_answer: "\<exists>e. parseEnvelope (\<lambda>xml. None) bytes body operation = Inl e \<and> \<not> retryable e"
  by (auto simp: parseEnvelope_def assertSafePayload_def split: sum.splits option.splits)

theorem soap_call_is_bounded_witness:
  "(\<exists>e w'. invoke silent_office sample_soap ''NumberToDollars'' (Fin 1) fresh_soap = (Inl e, w') \<and>
      sw_slept w' = [300, 600] \<and> sw_calls w' \<le> 3) \<and>
   (\<exists>e w'. invoke faulty_office sample_soap ''NumberToDollars'' (Fin 1) fresh_soap = (Inl e, w') \<and>
      \<not> retryable e \<and> sw_slept w' = [] \<and> sw_calls w' \<le> 1)"
proof
  have n: "max_attempts sample_soap = 3" by (simp add: max_attempts_def sample_soap_def)
  obtain r w' where run: "invoke silent_office sample_soap ''NumberToDollars'' (Fin 1) fresh_soap = (r, w')"
    by (cases "invoke silent_office sample_soap ''NumberToDollars'' (Fin 1) fresh_soap")
  have "\<exists>e. r = Inl e \<and> retryable e"
    using run [unfolded invoke_def n numeral_3_eq_3]
    by (simp add: sample_attempt silent_office_def communication_failure_def sleep_def) auto
  then show "\<exists>e w'. invoke silent_office sample_soap ''NumberToDollars'' (Fin 1) fresh_soap = (Inl e, w') \<and>
      sw_slept w' = [300, 600] \<and> sw_calls w' \<le> 3"
    using soap_call_is_bounded [OF run] n run by (auto simp: sample_soap_def fresh_soap_def upt_rec)
  obtain q v where fault: "invoke faulty_office sample_soap ''NumberToDollars'' (Fin 1) fresh_soap = (q, v)"
    by (cases "invoke faulty_office sample_soap ''NumberToDollars'' (Fin 1) fresh_soap")
  obtain error u where once: "attempt_call faulty_office sample_soap ''NumberToDollars'' (Fin 1) 1 fresh_soap = (Inl error, u)"
    "\<not> retryable (normalizeError faulty_office sample_soap error ''NumberToDollars'' 1)"
    using unreadable_answer [of 1048576 "''<fault''" "''NumberToDollars''"]
    by (auto simp: sample_attempt faulty_office_def silent_office_def sublist_Cons_right toLowerCase_def char_lower_def)
  obtain m u' where m: "replayed faulty_office sample_soap ''NumberToDollars'' (Fin 1) 1 fresh_soap m u'"
    "decided faulty_office sample_soap ''NumberToDollars'' (Fin 1) (max_attempts sample_soap) m u' (q, v)"
    "sw_slept v = sw_slept fresh_soap @ map (\<lambda>i. sp_retryDelayMs sample_soap * int i) [1..<m]" "sw_calls v \<le> sw_calls fresh_soap + m"
    using soap_call_is_bounded [OF fault] by blast
  have "m = 1 \<and> u' = fresh_soap" using m(1) by (rule replayedE) (use once in auto)
  then show "\<exists>e w'. invoke faulty_office sample_soap ''NumberToDollars'' (Fin 1) fresh_soap = (Inl e, w') \<and>
      \<not> retryable e \<and> sw_slept w' = [] \<and> sw_calls w' \<le> 1"
    using m once fault by (auto simp: decided_def fresh_soap_def)
qed

end
