(* ===== verification/Masking.thy ===== *)
theory Masking
  imports Js_Text
begin

text \<open>
  The masking of sensitive data before it is logged or audited (\<^verbatim>\<open>common/utils/masking.util.ts\<close>): by the name of a
  field, in free text, through a whole value, and in an XML document.
\<close>

definition REDACTED_KEYS :: "string list" where
  "REDACTED_KEYS =
     [''password'', ''passwd'', ''secret'', ''token'', ''accesstoken'', ''refreshtoken'', ''authorization'', ''apikey'',
      ''api_key'', ''clientsecret'', ''privatekey'', ''cvv'', ''cvc'', ''pin'']"

definition IBAN_KEYS :: "string list" where
  "IBAN_KEYS =
     [''iban'', ''debtoriban'', ''creditoriban'', ''debtoraccount'', ''creditoraccount'', ''accountnumber'',
      ''account_number'', ''compte'']"

definition PARTIAL_KEYS :: "string list" where
  "PARTIAL_KEYS =
     [''bic'', ''swift'', ''pan'', ''cardnumber'', ''card_number'', ''phone'', ''msisdn'', ''payermsisdn'', ''email'']"

definition REDACTED :: string where "REDACTED = ''[REDACTED]''"

definition MAX_DEPTH :: nat where "MAX_DEPTH = 6"

definition MAX_ARRAY_ITEMS :: nat where "MAX_ARRAY_ITEMS = 25"

definition maskIban :: "string \<Rightarrow> string" where
  "maskIban val =
     (let normalized = remove_spaces val in
      if char_length normalized < 8 then REDACTED
      else js_slice 4 normalized @ ''****'' @ js_last 4 normalized)"

definition maskPartial :: "string \<Rightarrow> nat \<Rightarrow> nat \<Rightarrow> string" where
  "maskPartial val keepStart keepEnd =
     (if char_length val \<le> keepStart + keepEnd then REDACTED
      else js_slice keepStart val @ ''****'' @ js_last keepEnd val)"

text \<open>Beyond ASCII, the Kelvin sign alone has an ASCII letter as its small letter.\<close>

fun wide_lower :: "string \<Rightarrow> string" where
  "wide_lower (a # b # c # cs) =
     (if [a, b, c] = [CHR 0xE2, CHR 0x84, CHR 0xAA] then CHR ''k'' # wide_lower cs
      else char_lower a # wide_lower (b # c # cs))"
| "wide_lower s = toLowerCase s"

definition normalizeKey :: "string \<Rightarrow> string" where
  "normalizeKey key = filter (\<lambda>c. c \<noteq> CHR ''-'' \<and> c \<noteq> CHR ''_'') (remove_spaces (wide_lower key))"

definition maskByKey :: "string \<Rightarrow> string \<Rightarrow> string" where
  "maskByKey key val =
     (let normalized = normalizeKey key in
      if normalized \<in> set REDACTED_KEYS then REDACTED
      else if normalized \<in> set IBAN_KEYS then maskIban val
      else if normalized \<in> set PARTIAL_KEYS then maskPartial val 2 2
      else val)"

text \<open>\<^verbatim>\<open>/\b[A-Z]{2}\d{2}[A-Z0-9]{10,30}\b/g\<close> and \<^verbatim>\<open>/\b\d{13,}\b/g\<close>, on a word.\<close>

definition IBAN_PATTERN :: "string \<Rightarrow> bool" where
  "IBAN_PATTERN w \<longleftrightarrow>
     14 \<le> length w \<and> length w \<le> 34 \<and> list_all is_upper (take 2 w) \<and> list_all is_digit (take 2 (drop 2 w)) \<and>
     list_all (\<lambda>c. is_upper c \<or> is_digit c) (drop 4 w)"

definition LONG_DIGITS_PATTERN :: "string \<Rightarrow> bool" where
  "LONG_DIGITS_PATTERN w \<longleftrightarrow> 13 \<le> length w \<and> list_all is_digit w"

definition maskFreeText :: "string \<Rightarrow> string" where
  "maskFreeText text =
     map_words (\<lambda>w. if LONG_DIGITS_PATTERN w then maskPartial w 4 2 else w)
       (map_words (\<lambda>w. if IBAN_PATTERN w then maskIban w else w) text)"

function maskDeep :: "nat \<Rightarrow> js \<Rightarrow> js" where
  "maskDeep depth JUndefined = JUndefined"
| "maskDeep depth JNull = JNull"
| "maskDeep depth (JString s) = (if MAX_DEPTH < depth then JString ''[TRUNCATED]'' else JString (maskFreeText s))"
| "maskDeep depth (JNumber t) = (if MAX_DEPTH < depth then JString ''[TRUNCATED]'' else JNumber t)"
| "maskDeep depth (JBool b) = (if MAX_DEPTH < depth then JString ''[TRUNCATED]'' else JBool b)"
| "maskDeep depth (JDate s) = (if MAX_DEPTH < depth then JString ''[TRUNCATED]'' else JString s)"
| "maskDeep depth (JArray vs) =
     (if MAX_DEPTH < depth then JString ''[TRUNCATED]''
      else JArray (map (maskDeep (depth + 1)) (take MAX_ARRAY_ITEMS vs) @
        (if MAX_ARRAY_ITEMS < length vs
         then [JString (''[... '' @ nat_dec (length vs - MAX_ARRAY_ITEMS) @ '' elements supplementaires]'')] else [])))"
| "maskDeep depth (JObject kvs) =
     (if MAX_DEPTH < depth then JString ''[TRUNCATED]''
      else JObject (map (\<lambda>(key, val). (key,
        case val of
          JString s \<Rightarrow> let masked = maskByKey key s in JString (if masked = s then maskFreeText s else masked)
        | _ \<Rightarrow> if normalizeKey key \<in> set REDACTED_KEYS then JString REDACTED else maskDeep (depth + 1) val)) kvs))"
| "maskDeep depth JOther = (if MAX_DEPTH < depth then JString ''[TRUNCATED]'' else JString REDACTED)"
  by pat_completeness auto
termination by (relation "measure (\<lambda>(depth, v). Suc MAX_DEPTH - depth)") auto

section \<open>XML documents\<close>

definition SENSITIVE_XML_TAGS :: "string list" where
  "SENSITIVE_XML_TAGS = [''iban'', ''debtorIban'', ''creditorIban'', ''accountNumber'', ''bic'', ''password'', ''token'']"

text \<open>\<^verbatim>\<open>(?:[\w.-]+:)?\<close>: what may follow it, with the prefix first.\<close>

definition is_name_char :: "char \<Rightarrow> bool" where
  "is_name_char c \<longleftrightarrow> is_word c \<or> c = CHR ''.'' \<or> c = CHR ''-''"

definition after_prefix :: "string \<Rightarrow> string list" where
  "after_prefix s =
     (case dropWhile is_name_char s of
        c # rest \<Rightarrow> if c = CHR '':'' \<and> takeWhile is_name_char s \<noteq> [] then [rest, s] else [s]
      | [] \<Rightarrow> [s])"

text \<open>The name of a sensitive tag, in any case, at the beginning of a text and up to the end of a word.\<close>

definition tag_at :: "string \<Rightarrow> string option" where
  "tag_at s =
     map_option (\<lambda>t. take (length t) s)
       (find (\<lambda>t. toLowerCase (take (length t) s) = toLowerCase t \<and>
          (case drop (length t) s of [] \<Rightarrow> True | c # _ \<Rightarrow> \<not> is_word c)) SENSITIVE_XML_TAGS)"

text \<open>The opening tag at the beginning of a text: its own text, the names it may have and what follows it.\<close>

definition open_tag :: "string \<Rightarrow> (string \<times> string list \<times> string) option" where
  "open_tag s =
     (case dropWhile (\<lambda>c. c \<noteq> CHR ''>'') s of
        [] \<Rightarrow> None
      | _ # following \<Rightarrow>
          if take 1 s = ''<''
          then Some (takeWhile (\<lambda>c. c \<noteq> CHR ''>'') s @ ''>'', List.map_filter tag_at (after_prefix (drop 1 s)), following)
          else None)"

text \<open>The closing tag of that name at the beginning of a text, and what follows it.\<close>

definition close_tag :: "string \<Rightarrow> string \<Rightarrow> (string \<times> string) option" where
  "close_tag tag s =
     (if take 2 s \<noteq> ''</'' then None
      else
        (case find (\<lambda>body. toLowerCase (take (length tag) body) = toLowerCase tag \<and> take 1 (drop (length tag) body) = ''>'')
                (after_prefix (drop 2 s)) of
           None \<Rightarrow> None
         | Some body \<Rightarrow> let following = drop (Suc (length tag)) body in Some (take (length s - length following) s, following)))"

text \<open>The shortest content before such a closing tag.\<close>

fun content_before :: "string \<Rightarrow> string \<Rightarrow> (string \<times> string \<times> string) option" where
  "content_before tag s =
     (case close_tag tag s of
        Some (close, following) \<Rightarrow> Some ([], close, following)
      | None \<Rightarrow>
          (case s of
             [] \<Rightarrow> None
           | c # cs \<Rightarrow> map_option (\<lambda>(content, close, following). (c # content, close, following)) (content_before tag cs)))"

declare content_before.simps [simp del]

text \<open>A match of the whole pattern at the beginning of a text.\<close>

definition xml_match :: "string \<Rightarrow> (string \<times> string \<times> string \<times> string \<times> string) option" where
  "xml_match s =
     (case open_tag s of
        None \<Rightarrow> None
      | Some (opening, tags, following) \<Rightarrow>
          (case List.map_filter (\<lambda>tag. map_option (\<lambda>(content, close, rest). (opening, tag, content, close, rest))
                  (content_before tag following)) tags of
             [] \<Rightarrow> None
           | m # _ \<Rightarrow> Some m))"

lemma content_before_shorter:
  "content_before tag s = Some (content, close, rest) \<Longrightarrow> length rest \<le> length s"
proof (induction tag s arbitrary: content rule: content_before.induct)
  case (1 tag s)
  show ?case
  proof (cases "close_tag tag s")
    case (Some p)
    then obtain body where b: "rest = drop (Suc (length tag)) body" "body \<in> set (after_prefix (drop 2 s))"
      using "1.prems" by (auto simp: content_before.simps close_tag_def Let_def find_Some_iff split: if_splits option.splits)
    have "length body \<le> length (drop 2 s)"
      using b(2) length_dropWhile_le [of is_name_char "drop 2 s"] by (auto simp: after_prefix_def split: list.splits if_splits)
    then show ?thesis using b(1) by simp
  next
    case None
    then show ?thesis using "1.prems" "1.IH" [OF None] by (subst (asm) content_before.simps) (fastforce split: list.splits)
  qed
qed

lemma first_match:
  "(case List.map_filter g xs of [] \<Rightarrow> None | m # _ \<Rightarrow> Some m) = Some y \<Longrightarrow> \<exists>x\<in>set xs. g x = Some y"
  by (induction xs) (auto simp: List.map_filter_simps split: option.splits)

lemma xml_match_shorter:
  assumes "xml_match s = Some (opening, tag, content, close, rest)"
  shows "length rest < length s"
proof -
  obtain o' tags following where o: "open_tag s = Some (o', tags, following)"
    and "(case List.map_filter (\<lambda>tag. map_option (\<lambda>(content, close, rest). (o', tag, content, close, rest))
        (content_before tag following)) tags of [] \<Rightarrow> None | m # _ \<Rightarrow> Some m) = Some (opening, tag, content, close, rest)"
    using assms by (auto simp: xml_match_def split: option.splits prod.splits)
  from first_match [OF this(2)] have "content_before tag following = Some (content, close, rest)" by auto
  then have "length rest \<le> length following" by (rule content_before_shorter)
  moreover have "length following < length s"
    using o length_dropWhile_le [of "\<lambda>c. c \<noteq> CHR ''>''" s] by (auto simp: open_tag_def split: list.splits if_splits)
  ultimately show ?thesis by simp
qed

function mask_tags :: "string \<Rightarrow> string" where
  "mask_tags s =
     (case xml_match s of
        Some (opening, tag, content, close, rest) \<Rightarrow>
          opening @ (if normalizeKey tag \<in> set IBAN_KEYS then maskIban (trim content) else REDACTED) @ close @ mask_tags rest
      | None \<Rightarrow> (case s of [] \<Rightarrow> [] | c # cs \<Rightarrow> c # mask_tags cs))"
  by pat_completeness auto
termination by (relation "measure length") (auto simp: xml_match_shorter)

declare mask_tags.simps [simp del]

definition maskXml :: "string \<Rightarrow> string" where
  "maskXml xml = maskFreeText (mask_tags xml)"

definition truncate_text :: "string \<Rightarrow> int \<Rightarrow> string" where
  "truncate_text val maxChars =
     (if maxChars \<le> 0 then []
      else if int (char_length val) \<le> maxChars then val
      else js_slice (nat maxChars) val @ ''... [tronque, '' @ nat_dec (char_length val) @ '' caracteres au total]'')"

section \<open>What is left of a masked text\<close>

text \<open>A text is clean when none of its words looks like an IBAN or a long number.\<close>

definition clean :: "string \<Rightarrow> bool" where
  "clean s \<longleftrightarrow> list_all (\<lambda>w. \<not> IBAN_PATTERN w \<and> \<not> LONG_DIGITS_PATTERN w) (words_of s)"

lemma run_append_sep:
  assumes "\<not> is_word c"
  shows "takeWhile is_word (s @ c # t) = takeWhile is_word s" "dropWhile is_word (s @ c # t) = dropWhile is_word s @ c # t"
  using assms by (induction s) simp_all

lemma words_append_sep:
  assumes "\<not> is_word c"
  shows "words_of (s @ c # t) = words_of s @ words_of t"
proof (induction s rule: words_of.induct)
  case (1 s)
  show ?case
  proof (cases s)
    case (Cons d ds)
    then show ?thesis using 1 run_append_sep [OF assms, of ds] by (cases "is_word d") simp_all
  qed (use assms in simp)
qed

lemma words_of_word: "list_all is_word w \<Longrightarrow> words_of w = (if w = [] then [] else [w])"
proof (cases w)
  case (Cons c cs)
  assume "list_all is_word w"
  then have "takeWhile is_word cs = cs" and d: "dropWhile is_word cs = []" and "is_word c"
    using Cons by (auto simp: takeWhile_eq_all_conv list_all_iff)
  then show ?thesis using Cons words_simps(3) [of c cs] unfolding d by simp
qed simp

lemma words_are_words: "w \<in> set (words_of s) \<Longrightarrow> list_all is_word w \<and> w \<noteq> []"
proof (induction s rule: words_of.induct)
  case (1 s)
  show ?case
  proof (cases s)
    case (Cons c cs)
    then show ?thesis using 1 set_takeWhileD [of _ is_word cs] by (cases "is_word c") (auto simp: list_all_iff)
  qed (use "1.prems" in simp)
qed

text \<open>The words of a text whose words were replaced are the words of the replacements.\<close>

lemma words_map_words: "words_of (map_words f s) = concat (map (\<lambda>w. words_of (f w)) (words_of s))"
proof (induction s rule: words_of.induct)
  case (1 s)
  show ?case
  proof (cases s)
    case (Cons c cs)
    show ?thesis
    proof (cases "is_word c")
      case True
      have "words_of (f (c # takeWhile is_word cs) @ map_words f (dropWhile is_word cs)) =
          words_of (f (c # takeWhile is_word cs)) @ words_of (map_words f (dropWhile is_word cs))"
      proof (cases "dropWhile is_word cs")
        case (Cons d ds)
        then have "\<not> is_word d" using hd_dropWhile [of is_word cs] by simp
        then show ?thesis using Cons words_append_sep by simp
      next
        case Nil
        show ?thesis unfolding Nil by simp
      qed
      then show ?thesis using 1(1) [of c cs] Cons True by simp
    qed (use 1 Cons in simp)
  qed simp
qed

lemma word_ascii: "list_all is_word w \<Longrightarrow> list_all is_ascii w \<and> remove_spaces w = w"
proof -
  assume w: "list_all is_word w"
  have "is_ascii c \<and> \<not> is_space c" if "is_word c" for c
    using that plain_ascii [of c] plain_not_space [of c] by (auto simp: is_word_def) (simp_all add: is_ascii_def is_space_def)
  with w have "list_all is_ascii w" "list_all (\<lambda>c. \<not> is_space c) w" by (simp_all add: list_all_iff)
  then show ?thesis by (simp add: ascii_remove_spaces filter_id_conv list_all_iff)
qed

text \<open>A masked word falls apart into two short words.\<close>

lemma words_around_stars:
  assumes "list_all is_word a" "list_all is_word b" "w \<in> set (words_of (a @ ''****'' @ b))"
  shows "w = a \<or> w = b"
  using assms words_append_sep [of "CHR ''*''" a "''***'' @ b"] words_of_word [of a] words_of_word [of b]
  by (simp add: is_word_def is_digit_def is_upper_def is_lower_def split: if_splits)

lemma masked_words_short:
  assumes w: "list_all is_word w" and x: "x \<in> set (words_of y)"
    and y: "y = maskIban w \<and> 8 \<le> length w \<or> y = maskPartial w 4 2 \<and> 6 < length w"
  shows "length x \<le> 4"
proof -
  have a: "list_all is_ascii w" "remove_spaces w = w" using word_ascii [OF w] by auto
  have parts: "list_all is_word (take n w)" "list_all is_word (drop n w)" for n
    using w by (auto simp: list_all_iff dest: in_set_takeD in_set_dropD)
  have "y = take 4 w @ ''****'' @ drop (length w - 4) w \<or> y = take 4 w @ ''****'' @ drop (length w - 2) w"
    using y a by (auto simp: maskIban_def maskPartial_def ascii_length ascii_slice ascii_last)
  then have "x = take 4 w \<or> x = drop (length w - 4) w \<or> x = drop (length w - 2) w"
    using x words_around_stars [OF parts(1) parts(2)] by blast
  then show ?thesis by auto
qed

lemma short_clean: "length w < 13 \<Longrightarrow> \<not> IBAN_PATTERN w \<and> \<not> LONG_DIGITS_PATTERN w"
  by (simp add: IBAN_PATTERN_def LONG_DIGITS_PATTERN_def)

lemma free_text_clean: "clean (maskFreeText t)"
proof -
  let ?f = "\<lambda>w. if IBAN_PATTERN w then maskIban w else w" and ?g = "\<lambda>w. if LONG_DIGITS_PATTERN w then maskPartial w 4 2 else w"
  have "\<not> IBAN_PATTERN w \<and> \<not> LONG_DIGITS_PATTERN w" if masked: "w \<in> set (words_of (maskFreeText t))" for w
  proof -
    obtain v u where u: "u \<in> set (words_of t)" and v: "v \<in> set (words_of (?f u))" and w: "w \<in> set (words_of (?g v))"
      using masked unfolding maskFreeText_def words_map_words set_concat set_map by blast
    note runs = words_are_words [OF u] words_are_words [OF v]
    have "\<not> IBAN_PATTERN v"
    proof (cases "IBAN_PATTERN u")
      case True
      then have "length v \<le> 4" using masked_words_short [of u v "maskIban u"] v runs by (simp add: IBAN_PATTERN_def)
      then show ?thesis using short_clean [of v] by simp
    next
      case False
      then show ?thesis using v runs words_of_word [of u] by simp
    qed
    moreover have "length w \<le> 4" if "LONG_DIGITS_PATTERN v"
      using that masked_words_short [of v w "maskPartial v 4 2"] w runs by (simp add: LONG_DIGITS_PATTERN_def)
    moreover have "w = v" if "\<not> LONG_DIGITS_PATTERN v" using that w runs words_of_word [of v] by simp
    ultimately show ?thesis using short_clean [of w] by (cases "LONG_DIGITS_PATTERN v") auto
  qed
  then show ?thesis by (simp add: clean_def list_all_iff)
qed

section \<open>What is left of a masked value\<close>

lemma word_not_continuation: "is_word c \<Longrightarrow> \<not> is_continuation c"
  using word_ascii [of "[c]"] ascii_not_continuation by simp

lemma word_length: "w \<in> set (words_of s) \<Longrightarrow> length w \<le> char_length s"
proof (induction s rule: words_of.induct)
  case (1 s)
  show ?case
  proof (cases s)
    case (Cons c cs)
    show ?thesis
    proof (cases "is_word c")
      case False
      then show ?thesis using 1 Cons by (auto simp: char_length_def)
    next
      case True
      have run: "filter (\<lambda>c. \<not> is_continuation c) (takeWhile is_word cs) = takeWhile is_word cs"
        using set_takeWhileD [of _ is_word cs] word_not_continuation by (auto simp: filter_id_conv)
      have "char_length cs = length (takeWhile is_word cs) + char_length (dropWhile is_word cs)"
        using run by (metis char_length_def filter_append length_append takeWhile_dropWhile_id)
      then show ?thesis using 1 Cons True word_not_continuation [OF True] by (auto simp: char_length_def)
    qed
  qed (use "1.prems" in simp)
qed

lemma stars_clean:
  assumes "char_length a \<le> 4" "char_length b \<le> 4"
  shows "clean (a @ ''****'' @ b)"
proof -
  have "words_of (a @ ''****'' @ b) = words_of a @ words_of b"
    using words_append_sep [of "CHR ''*''" a "''***'' @ b"] by (simp add: is_word_def is_digit_def is_upper_def is_lower_def)
  moreover have "length w \<le> 4" if "w \<in> set (words_of a) \<union> set (words_of b)" for w
    using that word_length [of w a] word_length [of w b] assms by auto
  ultimately show ?thesis using short_clean by (fastforce simp: clean_def list_all_iff)
qed

lemma marker_clean: "clean REDACTED" "clean ''[TRUNCATED]''"
  by (simp_all add: clean_def REDACTED_def is_word_def is_digit_def is_upper_def is_lower_def IBAN_PATTERN_def LONG_DIGITS_PATTERN_def)

lemma mask_clean: "clean (maskIban val)" "clean (maskPartial val 2 2)"
  using stars_clean [of "js_slice 4 (remove_spaces val)" "js_last 4 (remove_spaces val)"]
    stars_clean [of "js_slice 2 val" "js_last 2 val"] slice_length [of 4 "remove_spaces val"] last_length [of 4 "remove_spaces val"]
    slice_length [of 2 val] last_length [of 2 val] marker_clean
  by (simp_all add: maskIban_def maskPartial_def Let_def)

lemma by_key_clean:
  assumes "maskByKey key val \<noteq> val"
  shows "clean (maskByKey key val)"
  using assms mask_clean marker_clean by (auto simp: maskByKey_def Let_def)

text \<open>
  The texts a value holds as values, the names of fields and the numbers it holds beside them, and how deep it goes; the
  values that occur have short dates and arrays below \<open>2 ^ 32\<close>.
\<close>

fun leaves :: "js \<Rightarrow> string list" where
  "leaves (JString s) = [s]"
| "leaves (JArray vs) = concat (map leaves vs)"
| "leaves (JObject kvs) = concat (map (\<lambda>(k, v). leaves v) kvs)"
| "leaves _ = []"

fun names_and_numbers :: "js \<Rightarrow> string list" where
  "names_and_numbers (JNumber t) = [t]"
| "names_and_numbers (JArray vs) = concat (map names_and_numbers vs)"
| "names_and_numbers (JObject kvs) = concat (map (\<lambda>(k, v). k # names_and_numbers v) kvs)"
| "names_and_numbers _ = []"

fun nesting :: "js \<Rightarrow> nat" where
  "nesting (JArray vs) = Suc (fold max (map nesting vs) 0)"
| "nesting (JObject kvs) = Suc (fold max (map (\<lambda>(k, v). nesting v) kvs) 0)"
| "nesting _ = 0"

fun plausible :: "js \<Rightarrow> bool" where
  "plausible (JDate s) = clean s"
| "plausible (JArray vs) \<longleftrightarrow> length vs < 2 ^ 32 \<and> list_all plausible vs"
| "plausible (JObject kvs) = list_all (\<lambda>(k, v). plausible v) kvs"
| "plausible _ = True"

lemma dec_length: "0 < k \<Longrightarrow> n < 10 ^ k \<Longrightarrow> length (nat_dec n) \<le> k"
proof (induction k arbitrary: n)
  case (Suc k)
  show ?case
  proof (cases "n < 10")
    case False
    then have "n div 10 < 10 ^ k" "0 < k" using Suc.prems by (auto intro: Suc_leI gr0I)
    then show ?thesis using Suc.IH [of "n div 10"] False by (subst nat_dec.simps) simp
  qed (subst nat_dec.simps, simp)
qed simp

lemma dec_digits: "list_all is_digit (nat_dec n)"
proof (induction n rule: nat_dec.induct)
  case (1 n)
  have "is_digit (digit_char k)" if "k < 10" for k
    using that by (simp add: is_digit_def digit_char_def less_eq_char_def of_char_of)
  then show ?case using 1 by (subst nat_dec.simps) simp
qed

lemma more_items_clean:
  assumes "n < 2 ^ 32"
  shows "clean (''[... '' @ nat_dec n @ '' elements supplementaires]'')"
proof -
  have w: "list_all is_word (nat_dec n)" "nat_dec n \<noteq> []"
    using dec_digits [of n] by (auto simp: list_all_iff is_word_def) (metis append_is_Nil_conv list.distinct(1) nat_dec.simps)
  have "n < 10 ^ 12" using assms by simp
  then have "length (nat_dec n) \<le> 12" using dec_length [of 12 n] by simp
  moreover have "words_of (''[... '' @ nat_dec n @ '' elements supplementaires]'') = [nat_dec n, ''elements'', ''supplementaires'']"
    using words_append_sep [of "CHR '' ''" "nat_dec n" "''elements supplementaires]''"] words_of_word [OF w(1)] w(2)
    by (simp add: is_word_def is_digit_def is_upper_def is_lower_def)
  ultimately show ?thesis using short_clean
    by (simp add: clean_def IBAN_PATTERN_def LONG_DIGITS_PATTERN_def is_digit_def)
qed

text \<open>What an entry of an object becomes.\<close>

definition mask_entry :: "nat \<Rightarrow> string \<Rightarrow> js \<Rightarrow> js" where
  "mask_entry depth key val =
     (case val of
        JString s \<Rightarrow> let masked = maskByKey key s in JString (if masked = s then maskFreeText s else masked)
      | _ \<Rightarrow> if normalizeKey key \<in> set REDACTED_KEYS then JString REDACTED else maskDeep (depth + 1) val)"

lemma mask_entry_cases:
  "(\<exists>s. val = JString s \<and> (\<exists>m. mask_entry depth key val = JString m \<and> clean m)) \<or>
   mask_entry depth key val = JString REDACTED \<or> mask_entry depth key val = maskDeep (depth + 1) val"
  using free_text_clean by_key_clean by (cases val) (auto simp: mask_entry_def Let_def)

lemma mask_object: "maskDeep depth (JObject kvs) =
  (if MAX_DEPTH < depth then JString ''[TRUNCATED]'' else JObject (map (\<lambda>(key, val). (key, mask_entry depth key val)) kvs))"
  by (simp add: mask_entry_def)

lemma fold_max_le: "fold max xs a \<le> (b :: nat) \<longleftrightarrow> a \<le> b \<and> (\<forall>x\<in>set xs. x \<le> b)"
  by (induction xs arbitrary: a) auto

lemma masked_value:
  "plausible v \<Longrightarrow> (\<forall>s\<in>set (leaves (maskDeep depth v)). clean s) \<and> nesting (maskDeep depth v) \<le> Suc MAX_DEPTH - depth"
proof (induction "Suc MAX_DEPTH - depth" arbitrary: depth v rule: less_induct)
  case less
  show ?case
  proof (cases "MAX_DEPTH < depth")
    case True
    then show ?thesis using marker_clean by (cases v) auto
  next
    case False
    then have IH: "plausible u \<Longrightarrow> (\<forall>s\<in>set (leaves (maskDeep (Suc depth) u)). clean s) \<and>
        nesting (maskDeep (Suc depth) u) \<le> MAX_DEPTH - depth" for u
      using less.hyps [of "Suc depth" u] by simp
    show ?thesis
    proof (cases v)
      case (JArray vs)
      have "clean (''[... '' @ nat_dec (length vs - MAX_ARRAY_ITEMS) @ '' elements supplementaires]'')"
        using less.prems JArray by (intro more_items_clean) (simp add: less_imp_diff_less)
      then show ?thesis
        using False JArray less.prems IH
        by (auto simp: fold_max_le list_all_iff Suc_diff_le dest!: in_set_takeD)
    next
      case (JObject kvs)
      have "(\<forall>s\<in>set (leaves (mask_entry depth k u)). clean s) \<and> nesting (mask_entry depth k u) \<le> MAX_DEPTH - depth"
        if "(k, u) \<in> set kvs" for k u
        using mask_entry_cases [of u depth k] IH [of u] less.prems JObject that marker_clean by (auto simp: list_all_iff)
      then show ?thesis
        unfolding JObject mask_object using False by (fastforce simp: fold_max_le Suc_diff_le)
    qed (use False less.prems free_text_clean marker_clean in auto)
  qed
qed

text \<open>Masking adds no name and no number to those of a value.\<close>

lemma masked_names_and_numbers: "set (names_and_numbers (maskDeep depth v)) \<subseteq> set (names_and_numbers v)"
proof (induction "Suc MAX_DEPTH - depth" arbitrary: depth v rule: less_induct)
  case less
  show ?case
  proof (cases "MAX_DEPTH < depth")
    case True
    then show ?thesis by (cases v) auto
  next
    case False
    then have IH: "set (names_and_numbers (maskDeep (Suc depth) u)) \<subseteq> set (names_and_numbers u)" for u
      using less.hyps [of "Suc depth" u] by simp
    show ?thesis
    proof (cases v)
      case (JArray vs)
      then show ?thesis using False IH by (fastforce dest: in_set_takeD)
    next
      case (JObject kvs)
      have "set (names_and_numbers (mask_entry depth k u)) \<subseteq> set (names_and_numbers u)" for k u
        using mask_entry_cases [of u depth k] IH [of u] by auto
      then show ?thesis unfolding JObject mask_object using False by fastforce
    qed (use False in auto)
  qed
qed

lemma secret_entry: "normalizeKey key \<in> set REDACTED_KEYS \<Longrightarrow> mask_entry depth key val = JString REDACTED"
proof -
  assume "normalizeKey key \<in> set REDACTED_KEYS"
  moreover have "maskFreeText REDACTED = REDACTED"
    by (simp add: maskFreeText_def REDACTED_def is_word_def is_digit_def is_upper_def is_lower_def IBAN_PATTERN_def
        LONG_DIGITS_PATTERN_def)
  ultimately show ?thesis by (cases val) (auto simp: mask_entry_def maskByKey_def Let_def)
qed

section \<open>Properties\<close>



text \<open>
  Three things the rules let through, while the header of the module promises that no full account number reaches the logs:
  an account number of exactly eight characters is shown in full, four characters on each side of the stars, a number under
  the name of an account or a card is not masked at all, and neither is an IBAN that is the name of a field.
\<close>

theorem short_account_shown:
  assumes "list_all is_ascii s" "list_all (\<lambda>c. \<not> is_space c) s" "length s = 8"
  shows "maskIban s = take 4 s @ ''****'' @ drop 4 s"
proof -
  have "remove_spaces s = s" using assms by (simp add: ascii_remove_spaces filter_id_conv list_all_iff)
  then show ?thesis using assms by (simp add: maskIban_def ascii_length ascii_slice ascii_last)
qed

theorem numeric_account_shown:
  "maskDeep 0 (JObject [(''accountNumber'', JNumber ''4111111111111111'')]) = JObject [(''accountNumber'', JNumber ''4111111111111111'')]"
proof -
  have "normalizeKey ''accountNumber'' = ''accountnumber''"
    by (simp add: normalizeKey_def ascii_remove_spaces is_ascii_def is_space_def toLowerCase_def char_lower_def char_of_def bit_0)
  then show ?thesis by (simp add: REDACTED_KEYS_def MAX_DEPTH_def)
qed

theorem iban_as_name_shown:
  "\<exists>v. maskDeep 0 (JObject [(''FR7630006000011234567890189'', JNumber t)]) = JObject [(''FR7630006000011234567890189'', v)] \<and>
    \<not> clean ''FR7630006000011234567890189''"
proof -
  have "\<not> clean ''FR7630006000011234567890189''"
    by (simp add: clean_def is_word_def is_digit_def is_upper_def is_lower_def IBAN_PATTERN_def)
  then show ?thesis unfolding mask_object by (simp add: MAX_DEPTH_def)
qed

end
