(* ===== verification/Http_Layer.thy ===== *)
theory Http_Layer
  imports Soap Masking
begin

text \<open>
  What surrounds every request: the correlation identifier (\<^verbatim>\<open>common/middleware/correlation-id.middleware.ts\<close>,
  \<^verbatim>\<open>common/context/request-context.ts\<close>), the line logged for a request (\<^verbatim>\<open>common/interceptors/logging.interceptor.ts\<close>) and
  the filter that turns whatever was thrown into one envelope (\<^verbatim>\<open>common/filters/all-exceptions.filter.ts\<close>). The names that
  the framework gives to HTTP codes are an argument.
\<close>

section \<open>Correlation\<close>

text \<open>\<^verbatim>\<open>/^[A-Za-z0-9._:-]{8,128}$/\<close>.\<close>

definition SAFE_CORRELATION_ID :: "string \<Rightarrow> bool" where
  "SAFE_CORRELATION_ID s \<longleftrightarrow>
     8 \<le> length s \<and> length s \<le> 128 \<and>
     list_all (\<lambda>c. is_upper c \<or> is_lower c \<or> is_digit c \<or> c \<in> {CHR ''.'', CHR ''_'', CHR '':'', CHR ''-''}) s"

record http_request =
  rq_method :: string
  rq_originalUrl :: "string option"
  rq_url :: string
  rq_body :: js
  rq_correlationId :: "string option"

text \<open>The request as it goes on, and the value of the header of the response.\<close>

definition use_correlation :: "string option \<Rightarrow> string \<Rightarrow> http_request \<Rightarrow> http_request \<times> string" where
  "use_correlation incoming uuid req =
     (let correlationId =
            (case incoming of None \<Rightarrow> uuid
             | Some h \<Rightarrow> if h \<noteq> [] \<and> SAFE_CORRELATION_ID h then h else uuid) in
      (req\<lparr>rq_correlationId := Some correlationId\<rparr>, correlationId))"

text \<open>\<^verbatim>\<open>getCorrelationId()\<close>, in a context or out of any.\<close>

definition current_correlation :: "string option \<Rightarrow> string \<Rightarrow> string" where
  "current_correlation store uuid = (case store of None \<Rightarrow> uuid | Some c \<Rightarrow> c)"

definition correlation_of :: "http_request \<Rightarrow> string \<Rightarrow> string" where
  "correlation_of req current = (case rq_correlationId req of None \<Rightarrow> current | Some c \<Rightarrow> c)"

definition request_path :: "http_request \<Rightarrow> string" where
  "request_path req = (case rq_originalUrl req of None \<Rightarrow> rq_url req | Some u \<Rightarrow> u)"

section \<open>The line of a request\<close>

definition describeBody :: "js \<Rightarrow> js" where
  "describeBody body =
     (case body of
        JUndefined \<Rightarrow> JUndefined
      | JNull \<Rightarrow> JUndefined
      | JObject [] \<Rightarrow> JUndefined
      | JArray [] \<Rightarrow> JUndefined
      | JDate _ \<Rightarrow> JUndefined
      | _ \<Rightarrow> maskDeep 0 body)"

record received_line =
  rv_correlationId :: string
  rv_method :: string
  rv_path :: string
  rv_body :: js

definition request_received :: "http_request \<Rightarrow> string \<Rightarrow> received_line" where
  "request_received req current =
     \<lparr>rv_correlationId = correlation_of req current, rv_method = rq_method req, rv_path = request_path req,
      rv_body = describeBody (rq_body req)\<rparr>"

section \<open>Exceptions\<close>

text \<open>
  What may be thrown: an exception of the framework with its status, its response and its message, one of the SOAP layer, a
  failed query with the code of the driver, another error with its message, or any value with its text.
\<close>

datatype exception_value =
    Thrown_http nat js string
  | Thrown_soap soap_exception
  | Thrown_query "string option" string
  | Thrown_error string
  | Thrown_value string

definition PG_UNIQUE_VIOLATION :: string where "PG_UNIQUE_VIOLATION = ''23505''"

definition SERVER_ERROR_THRESHOLD :: nat where "SERVER_ERROR_THRESHOLD = 500"

record NormalizedError =
  ne_statusCode :: nat
  ne_error :: string
  ne_message :: js
  ne_reference :: "string option"
  ne_details :: "js option"
  ne_internal :: "string option"

text \<open>\<^verbatim>\<open>/\s/.test(value) || /^[A-Z][a-z]/.test(value)\<close>.\<close>

definition looksLikeStatusText :: "string \<Rightarrow> bool" where
  "looksLikeStatusText val \<longleftrightarrow>
     remove_spaces val \<noteq> val \<or> (case val of a # b # _ \<Rightarrow> is_upper a \<and> is_lower b | _ \<Rightarrow> False)"

definition codeFromStatus :: "(nat \<Rightarrow> string option) \<Rightarrow> nat \<Rightarrow> string" where
  "codeFromStatus status_name statusCode =
     (case status_name statusCode of
        Some n \<Rightarrow> n
      | None \<Rightarrow> if 500 \<le> statusCode then ''INTERNAL_SERVER_ERROR'' else ''REQUEST_ERROR'')"

definition nullish :: "js \<Rightarrow> bool" where
  "nullish v \<longleftrightarrow> v = JUndefined \<or> v = JNull"

definition payload_field :: "js \<Rightarrow> string \<Rightarrow> js" where
  "payload_field payload k = (case payload of JObject kvs \<Rightarrow> field kvs k | _ \<Rightarrow> JUndefined)"

definition fromHttpException :: "(nat \<Rightarrow> string option) \<Rightarrow> nat \<Rightarrow> js \<Rightarrow> string \<Rightarrow> NormalizedError" where
  "fromHttpException status_name statusCode payload exn_message =
     (case payload of
        JString s \<Rightarrow>
          \<lparr>ne_statusCode = statusCode, ne_error = codeFromStatus status_name statusCode, ne_message = JString s,
           ne_reference = None, ne_details = None, ne_internal = None\<rparr>
      | _ \<Rightarrow>
          let given = payload_field payload ''message'';
              message = (if nullish given then JString exn_message else given);
              isValidationError = (case message of JArray _ \<Rightarrow> True | _ \<Rightarrow> False);
              fallback = (if isValidationError then ''VALIDATION_ERROR'' else codeFromStatus status_name statusCode) in
          \<lparr>ne_statusCode = statusCode,
           ne_error = (case payload_field payload ''error'' of
              JString e \<Rightarrow> if \<not> looksLikeStatusText e then e else fallback | _ \<Rightarrow> fallback),
           ne_message = message,
           ne_reference = (case payload_field payload ''reference'' of JString r \<Rightarrow> Some r | _ \<Rightarrow> None),
           ne_details = (case payload_field payload ''details'' of
              JObject kvs \<Rightarrow> Some (JObject kvs) | JArray vs \<Rightarrow> Some (JArray vs) | JDate d \<Rightarrow> Some (JDate d) | _ \<Rightarrow> None),
           ne_internal = None\<rparr>)"

definition fromSoapFault :: "SoapFaultDetails \<Rightarrow> string \<Rightarrow> NormalizedError" where
  "fromSoapFault fault operation =
     \<lparr>ne_statusCode = 502, ne_error = ''SOAP_FAULT'',
      ne_message = JString (''Le service externe a retourne une faute : '' @ sf_faultString fault),
      ne_reference = None,
      ne_details = Some (JObject
        [(''faultCode'', JString (sf_faultCode fault)), (''faultString'', JString (sf_faultString fault)),
         (''soapVersion'', JString (sf_soapVersion fault)), (''operation'', JString operation)]),
      ne_internal = None\<rparr>"

definition fromSoapCommunication :: "string \<Rightarrow> string \<Rightarrow> bool \<Rightarrow> nat \<Rightarrow> NormalizedError" where
  "fromSoapCommunication message operation timedOut attempts =
     \<lparr>ne_statusCode = (if timedOut then 504 else 502), ne_error = (if timedOut then ''SOAP_TIMEOUT'' else ''SOAP_UNAVAILABLE''),
      ne_message = JString (if timedOut then ''Le service externe n a pas repondu dans le delai imparti''
        else ''Le service externe est injoignable''),
      ne_reference = None,
      ne_details = Some (JObject [(''operation'', JString operation), (''attempts'', JNumber (nat_dec attempts))]),
      ne_internal = Some message\<rparr>"

definition fromQueryFailed :: "string option \<Rightarrow> string \<Rightarrow> NormalizedError" where
  "fromQueryFailed code message =
     (if code = Some PG_UNIQUE_VIOLATION
      then \<lparr>ne_statusCode = 409, ne_error = ''RESOURCE_CONFLICT'', ne_message = JString ''La ressource existe deja'',
        ne_reference = None, ne_details = None, ne_internal = Some message\<rparr>
      else \<lparr>ne_statusCode = 500, ne_error = ''DATABASE_ERROR'', ne_message = JString ''Une erreur de persistance est survenue'',
        ne_reference = None, ne_details = None, ne_internal = Some message\<rparr>)"

definition internal_error :: "string \<Rightarrow> NormalizedError" where
  "internal_error message =
     \<lparr>ne_statusCode = 500, ne_error = ''INTERNAL_SERVER_ERROR'', ne_message = JString ''Une erreur interne est survenue'',
      ne_reference = None, ne_details = None, ne_internal = Some message\<rparr>"

fun normalize :: "(nat \<Rightarrow> string option) \<Rightarrow> exception_value \<Rightarrow> NormalizedError" where
  "normalize status_name (Thrown_http statusCode payload message) = fromHttpException status_name statusCode payload message"
| "normalize status_name (Thrown_soap (SoapFaultException fault operation raw)) = fromSoapFault fault operation"
| "normalize status_name (Thrown_soap (SoapCommunicationException message operation timedOut attempts)) =
     fromSoapCommunication message operation timedOut attempts"
| "normalize status_name (Thrown_soap (SoapParsingException message operation)) =
     \<lparr>ne_statusCode = 502, ne_error = ''SOAP_INVALID_RESPONSE'',
      ne_message = JString ''La reponse du service externe est inexploitable'', ne_reference = None,
      ne_details = Some (JObject [(''operation'', JString operation)]), ne_internal = Some message\<rparr>"
| "normalize status_name (Thrown_query code message) = fromQueryFailed code message"
| "normalize status_name (Thrown_error message) = internal_error message"
| "normalize status_name (Thrown_value text) = internal_error text"

record ErrorResponse =
  er_statusCode :: nat
  er_error :: string
  er_message :: js
  er_correlationId :: string
  er_timestamp :: string
  er_path :: string
  er_reference :: "string option"
  er_details :: "js option"

record exception_line =
  xl_as_error :: bool
  xl_correlationId :: string
  xl_method :: string
  xl_path :: string
  xl_statusCode :: nat
  xl_error :: string
  xl_message :: js
  xl_internal :: "string option"
  xl_stack :: "string option"

fun is_error :: "exception_value \<Rightarrow> bool" where
  "is_error (Thrown_value _) = False"
| "is_error _ = True"

text \<open>The body sent to the client and the line that is logged; an empty text is left out.\<close>

definition handle_exception ::
  "(nat \<Rightarrow> string option) \<Rightarrow> http_request \<Rightarrow> string \<Rightarrow> string \<Rightarrow> exception_value \<Rightarrow> string \<Rightarrow> ErrorResponse \<times> exception_line" where
  "handle_exception status_name req current now exception stack =
     (let normalized = normalize status_name exception; correlationId = correlation_of req current;
          body = \<lparr>er_statusCode = ne_statusCode normalized, er_error = ne_error normalized, er_message = ne_message normalized,
            er_correlationId = correlationId, er_timestamp = now, er_path = request_path req,
            er_reference = (if ne_reference normalized = Some [] then None else ne_reference normalized),
            er_details = ne_details normalized\<rparr>;
          as_error = (SERVER_ERROR_THRESHOLD \<le> ne_statusCode normalized) in
      (body,
       \<lparr>xl_as_error = as_error, xl_correlationId = correlationId, xl_method = rq_method req, xl_path = er_path body,
        xl_statusCode = er_statusCode body, xl_error = er_error body, xl_message = maskDeep 0 (ne_message normalized),
        xl_internal = (if ne_internal normalized = Some [] then None else ne_internal normalized),
        xl_stack = (if as_error \<and> is_error exception then Some stack else None)\<rparr>))"

definition catch_exception ::
  "bool \<Rightarrow> (nat \<Rightarrow> string option) \<Rightarrow> http_request \<Rightarrow> string \<Rightarrow> string \<Rightarrow> exception_value \<Rightarrow> string \<Rightarrow> exception_value + ErrorResponse \<times> exception_line" where
  "catch_exception is_http status_name req current now exception stack =
     (if \<not> is_http then Inl exception else Inr (handle_exception status_name req current now exception stack))"

section \<open>Properties\<close>

text \<open>An exception without its inner details: messages, texts of the driver, the raw answer and the detail of a fault.\<close>

fun scrub :: "exception_value \<Rightarrow> exception_value" where
  "scrub (Thrown_http statusCode payload message) = Thrown_http statusCode payload message"
| "scrub (Thrown_soap (SoapFaultException fault operation raw)) =
     Thrown_soap (SoapFaultException (fault\<lparr>sf_faultActor := None, sf_detail := None\<rparr>) operation [])"
| "scrub (Thrown_soap (SoapCommunicationException message operation timedOut attempts)) =
     Thrown_soap (SoapCommunicationException [] operation timedOut attempts)"
| "scrub (Thrown_soap (SoapParsingException message operation)) = Thrown_soap (SoapParsingException [] operation)"
| "scrub (Thrown_query code message) = Thrown_query (if code = Some PG_UNIQUE_VIOLATION then code else None) []"
| "scrub (Thrown_error message) = Thrown_error []"
| "scrub (Thrown_value text) = Thrown_error []"

lemma scrubbed_normalize:
  "normalize names (scrub e) = (normalize names e)\<lparr>ne_internal := ne_internal (normalize names (scrub e))\<rparr>"
  by (cases "(names, e)" rule: normalize.cases)
    (simp_all add: fromSoapFault_def fromSoapCommunication_def fromQueryFailed_def internal_error_def)

lemma correlation_safe: "SAFE_CORRELATION_ID uuid \<Longrightarrow> SAFE_CORRELATION_ID (snd (use_correlation incoming uuid req))"
  by (simp add: use_correlation_def Let_def split: option.splits)

text \<open>The status of an answer.\<close>

fun answered_status :: "exception_value \<Rightarrow> nat" where
  "answered_status (Thrown_http statusCode payload message) = statusCode"
| "answered_status (Thrown_soap (SoapCommunicationException message operation timedOut attempts)) = (if timedOut then 504 else 502)"
| "answered_status (Thrown_soap _) = 502"
| "answered_status (Thrown_query code message) = (if code = Some PG_UNIQUE_VIOLATION then 409 else 500)"
| "answered_status _ = 500"

lemma normalized_status: "ne_statusCode (normalize names e) = answered_status e"
  by (cases "(names, e)" rule: normalize.cases)
    (simp_all add: fromHttpException_def fromSoapFault_def fromSoapCommunication_def fromQueryFailed_def internal_error_def Let_def
      split: js.splits)



end
