(* ===== verification/Audit_Trail.thy ===== *)
theory Audit_Trail
  imports Masking Database
begin

text \<open>
  The trail of the exchanges with the back office (\<^verbatim>\<open>audit/audit.service.ts\<close>): an entry is masked, cut to the widths of its
  columns and written on a best-effort basis. The trail is the list of its rows, oldest first.
\<close>

datatype AuditDirection = DOCUMENT_VALIDATED | OUTBOUND_REQUEST | INBOUND_RESPONSE | INBOUND_FAULT | COMMUNICATION_ERROR

datatype AuditOutcome = Audit_SUCCESS | Audit_FAULT | Audit_ERROR

record AuditEntryInput =
  ai_direction :: AuditDirection
  ai_outcome :: AuditOutcome
  ai_operation :: string
  ai_transactionReference :: "string option"
  ai_correlationId :: "string option"
  ai_endpoint :: "string option"
  ai_rawPayload :: "string option"
  ai_httpStatus :: "int option"
  ai_durationMs :: "int option"
  ai_faultCode :: "string option"
  ai_faultString :: "string option"
  ai_message :: "string option"

record AuditLog =
  al_id :: string
  al_correlationId :: string
  al_transactionReference :: "string option"
  al_direction :: AuditDirection
  al_outcome :: AuditOutcome
  al_operation :: string
  al_endpoint :: "string option"
  al_payload :: "string option"
  al_payloadBytes :: "nat option"
  al_httpStatus :: "int option"
  al_durationMs :: "int option"
  al_faultCode :: "string option"
  al_faultString :: "string option"
  al_message :: "string option"
  al_createdAt :: date

record audit_config =
  ag_maxPayloadChars :: int
  ag_persistPayloads :: bool

definition preparePayload :: "audit_config \<Rightarrow> string option \<Rightarrow> string option" where
  "preparePayload C rawPayload =
     (case rawPayload of
        None \<Rightarrow> None
      | Some raw \<Rightarrow>
          if raw = [] \<or> \<not> ag_persistPayloads C then None else Some (truncate_text (maskXml raw) (ag_maxPayloadChars C)))"

definition clamp :: "string option \<Rightarrow> nat \<Rightarrow> string option" where
  "clamp val most =
     (case val of
        None \<Rightarrow> None
      | Some v \<Rightarrow> if v = [] then None else Some (if char_length v \<le> most then v else js_slice most v))"

text \<open>The widths of the columns; the payload is a \<^verbatim>\<open>text\<close>.\<close>

definition audit_widths :: "AuditLog \<Rightarrow> bool" where
  "audit_widths l \<longleftrightarrow>
     char_length (al_correlationId l) \<le> 128 \<and> fits 32 (al_transactionReference l) \<and> char_length (al_operation l) \<le> 64 \<and>
     fits 512 (al_endpoint l) \<and> fits 128 (al_faultCode l) \<and> fits 1024 (al_faultString l) \<and> fits 1024 (al_message l)"

definition create_log :: "audit_config \<Rightarrow> string \<Rightarrow> string \<Rightarrow> date \<Rightarrow> AuditEntryInput \<Rightarrow> AuditLog" where
  "create_log C row_id current now entry =
     \<lparr>al_id = row_id, al_correlationId = (case ai_correlationId entry of None \<Rightarrow> current | Some c \<Rightarrow> c),
      al_transactionReference = ai_transactionReference entry, al_direction = ai_direction entry, al_outcome = ai_outcome entry,
      al_operation = ai_operation entry, al_endpoint = ai_endpoint entry, al_payload = preparePayload C (ai_rawPayload entry),
      al_payloadBytes = (case ai_rawPayload entry of None \<Rightarrow> None | Some raw \<Rightarrow> if raw = [] then None else Some (length raw)),
      al_httpStatus = ai_httpStatus entry, al_durationMs = ai_durationMs entry, al_faultCode = ai_faultCode entry,
      al_faultString = clamp (ai_faultString entry) 1024, al_message = clamp (ai_message entry) 1024, al_createdAt = now\<rparr>"

text \<open>\<open>available\<close> is whether the store takes the row; a failure is logged and absorbed.\<close>

definition audit_record ::
  "audit_config \<Rightarrow> bool \<Rightarrow> string \<Rightarrow> string \<Rightarrow> date \<Rightarrow> AuditEntryInput \<Rightarrow> AuditLog list \<Rightarrow> AuditLog option \<times> AuditLog list" where
  "audit_record C available row_id current now entry trail =
     (let log = create_log C row_id current now entry in
      if available \<and> audit_widths log then (Some log, trail @ [log]) else (None, trail))"

definition findByTransactionReference :: "string \<Rightarrow> AuditLog list \<Rightarrow> AuditLog list" where
  "findByTransactionReference reference trail =
     sort_key al_createdAt (filter (\<lambda>l. al_transactionReference l = Some reference) trail)"

section \<open>What is written\<close>

text \<open>
  The texts that an answer of the back office controls never make a row too wide: only its own identifiers can.
\<close>

lemma clamp_fits: "fits n (clamp val n)"
  using slice_length by (auto simp: fits_def clamp_def split: option.split)

lemma audit_row_accepted:
  assumes "char_length (case ai_correlationId entry of None \<Rightarrow> current | Some c \<Rightarrow> c) \<le> 128" "fits 32 (ai_transactionReference entry)"
    and "char_length (ai_operation entry) \<le> 64" "fits 512 (ai_endpoint entry)" "fits 128 (ai_faultCode entry)"
  shows "audit_record C True row_id current now entry trail =
    (Some (create_log C row_id current now entry), trail @ [create_log C row_id current now entry])"
  using assms clamp_fits by (simp add: audit_record_def audit_widths_def create_log_def Let_def)

text \<open>The trail only grows, by at most one row, and keeps the readings of other transactions.\<close>

lemma audit_trail_grows:
  assumes "audit_record C available row_id current now entry trail = (written, trail')"
  shows "trail' = trail @ (case written of None \<Rightarrow> [] | Some l \<Rightarrow> [l])"
    "ai_transactionReference entry \<noteq> Some reference \<Longrightarrow>
      findByTransactionReference reference trail' = findByTransactionReference reference trail"
  using assms by (auto simp: audit_record_def Let_def findByTransactionReference_def create_log_def split: if_splits)

end
