(* ===== verification/Schema_Guards.thy ===== *)
theory Schema_Guards
  imports Gateway
begin

text \<open>
  What the database itself refuses, whoever sends the statement: the append-only trigger of the register
  (\<^verbatim>\<open>2026072503000-AddTransactionEvents.ts\<close>), the balance and append-only triggers of the journal (\<^verbatim>\<open>accounting/ledger-guards.ts\<close>,
  \<^verbatim>\<open>2026072509000-AddDoubleEntryLedger.ts\<close>), the two installers that put them back at start-up
  (\<^verbatim>\<open>events/append-only-guard.installer.ts\<close>, \<^verbatim>\<open>accounting/ledger-guards.installer.ts\<close>), and the rows that
  \<^verbatim>\<open>2026072502000-SplitPaymentStatuses.ts\<close> rewrites. A row statement is an \<^verbatim>\<open>INSERT\<close>, \<^verbatim>\<open>UPDATE\<close> or \<^verbatim>\<open>DELETE\<close> with any
  condition and any assignment; \<^verbatim>\<open>TRUNCATE\<close> fires no row trigger and is not one of them.
\<close>

section \<open>The register\<close>

text \<open>\<open>transaction_events_append_only old new\<close> is the trigger function; \<^term>\<open>None\<close> stands for \<^verbatim>\<open>TG_OP = 'DELETE'\<close>.\<close>

definition transaction_events_append_only :: "TransactionEvent \<Rightarrow> TransactionEvent option \<Rightarrow> exn + TransactionEvent option" where
  "transaction_events_append_only old new =
     (case new of
        None \<Rightarrow> Inl (QueryFailed ''23001'' (''transaction_events est append-only : suppression interdite (id='' @ ev_id old @ '')''))
      | Some row \<Rightarrow>
          if fact_of old \<noteq> fact_of row
          then Inl (QueryFailed ''23001'' (''transaction_events est append-only : seules les colonnes d'' @ [CHR 0x27] @ ''ancrage sont modifiables (id='' @ ev_id old @ '')''))
          else Inr (Some row))"

datatype register_statement =
    Insert_fact TransactionEvent
  | Update_facts "TransactionEvent \<Rightarrow> bool" "TransactionEvent \<Rightarrow> TransactionEvent"
  | Delete_facts "TransactionEvent \<Rightarrow> bool"

text \<open>The rows of a statement, one by one: what becomes of the row, or the exception of the trigger.\<close>

definition touch_row ::
  "bool \<Rightarrow> (TransactionEvent \<Rightarrow> bool) \<Rightarrow> (TransactionEvent \<Rightarrow> TransactionEvent option) \<Rightarrow> TransactionEvent \<Rightarrow> exn + TransactionEvent option" where
  "touch_row guarded cond f row =
     (if \<not> cond row then Inr (Some row) else if guarded then transaction_events_append_only row (f row) else Inr (f row))"

fun touch_rows ::
  "bool \<Rightarrow> (TransactionEvent \<Rightarrow> bool) \<Rightarrow> (TransactionEvent \<Rightarrow> TransactionEvent option) \<Rightarrow> TransactionEvent list \<Rightarrow> exn + TransactionEvent list" where
  "touch_rows guarded cond f [] = Inr []"
| "touch_rows guarded cond f (r # rs) =
     (case touch_row guarded cond f r of
        Inl e \<Rightarrow> Inl e
      | Inr kept \<Rightarrow>
          (case touch_rows guarded cond f rs of
             Inl e \<Rightarrow> Inl e
           | Inr rs' \<Rightarrow> Inr (case kept of None \<Rightarrow> rs' | Some r' \<Rightarrow> r' # rs')))"

fun run_register :: "bool \<Rightarrow> register_statement \<Rightarrow> TransactionEvent list \<Rightarrow> exn + TransactionEvent list" where
  "run_register guarded (Insert_fact e) rows = Inr (rows @ [e])"
| "run_register guarded (Update_facts cond f) rows = touch_rows guarded cond (\<lambda>r. Some (f r)) rows"
| "run_register guarded (Delete_facts cond) rows = touch_rows guarded cond (\<lambda>r. None) rows"

text \<open>A refused statement changes nothing.\<close>

definition register_after :: "bool \<Rightarrow> register_statement list \<Rightarrow> TransactionEvent list \<Rightarrow> TransactionEvent list" where
  "register_after guarded statements rows =
     fold (\<lambda>s rs. case run_register guarded s rs of Inl e \<Rightarrow> rs | Inr rs' \<Rightarrow> rs') statements rows"

lemma guarded_rows:
  assumes "touch_rows True cond f rows = Inr rows'"
  shows "map fact_of rows' = map fact_of rows"
  using assms
proof (induction rows arbitrary: rows')
  case (Cons r rs)
  then show ?case
    by (auto simp: touch_row_def transaction_events_append_only_def split: if_splits sum.splits option.splits)
qed simp

lemma accepted_rows:
  assumes "\<And>r. r \<in> set rows \<Longrightarrow> fact_of (f r) = fact_of r"
  shows "touch_rows True cond (\<lambda>r. Some (f r)) rows = Inr (map (\<lambda>r. if cond r then f r else r) rows)"
  using assms by (induction rows) (auto simp: touch_row_def transaction_events_append_only_def)

lemma anchoring_keeps_fact: "fact_of (attach batch_id places e) = fact_of e" "fact_of (set_anchor_status ids status e) = fact_of e"
  by (simp_all add: attach_def set_anchor_status_def fact_of_def split: option.split)

text \<open>
  C22. With its trigger, no sequence of row statements, by whomever, removes or rewrites a recorded fact: the facts stay where
  they are with everything but their anchoring columns, and rows are only added. The two updates of the anchoring service
  are accepted. Without the trigger a single statement rewrites a sealed fact.
\<close>

theorem register_trigger_seals:
  "prefix (map fact_of rows) (map fact_of (register_after True statements rows)) \<and>
   run_register True (Update_facts cond (attach batch_id places)) rows = Inr (map (\<lambda>r. if cond r then attach batch_id places r else r) rows) \<and>
   run_register True (Update_facts cond (set_anchor_status ids status)) rows = Inr (map (\<lambda>r. if cond r then set_anchor_status ids status r else r) rows) \<and>
   (rows \<noteq> [] \<longrightarrow> (\<exists>s. map fact_of (register_after False [s] rows) \<noteq> map fact_of rows))"
proof -
  have step: "prefix (map fact_of rs) (map fact_of (case run_register True s rs of Inl e \<Rightarrow> rs | Inr rs' \<Rightarrow> rs'))" for s rs
    by (cases s) (auto simp: guarded_rows split: sum.split)
  have "prefix (map fact_of rows) (map fact_of (register_after True statements rows))"
    unfolding register_after_def
  proof (induction statements arbitrary: rows)
    case (Cons s ss)
    show ?case using prefix_order.trans [OF step Cons.IH] by simp
  qed simp
  moreover have "map fact_of (register_after False [Delete_facts (\<lambda>_. True)] rows) \<noteq> map fact_of rows" if "rows \<noteq> []"
  proof -
    have "touch_rows False (\<lambda>_. True) (\<lambda>r. None) rows = Inr []" by (induction rows) (simp_all add: touch_row_def)
    then show ?thesis using that by (simp add: register_after_def)
  qed
  ultimately show ?thesis by (auto simp: accepted_rows anchoring_keeps_fact)
qed

definition sample_fact :: TransactionEvent where
  "sample_fact = draft_event (fact PROVIDER_CONFIRMED sample_transaction) None ''e1'' 0 ''c1''"

theorem register_trigger_seals_witness:
  "prefix (map fact_of [sample_fact]) (map fact_of (register_after True [Delete_facts (\<lambda>_. True)] [sample_fact])) \<and>
   (\<exists>s. map fact_of (register_after False [s] [sample_fact]) \<noteq> map fact_of [sample_fact])"
  using register_trigger_seals [of "[sample_fact]" "[Delete_facts (\<lambda>_. True)]"] by blast

section \<open>The journal\<close>

text \<open>A line row is the entry it belongs to and its columns; an entry row carries no lines of its own.\<close>

record journal_tables =
  jt_entries :: "JournalEntry list"
  jt_lines :: "(string \<times> JournalLine) list"

definition lines_of_entry :: "journal_tables \<Rightarrow> string \<Rightarrow> JournalLine list" where
  "lines_of_entry t entry_id = map snd (filter (\<lambda>(e, l). e = entry_id) (jt_lines t))"

text \<open>The trigger functions \<^verbatim>\<open>journal_entries_balanced\<close> and \<^verbatim>\<open>journal_lines_balanced\<close>, as they read the tables at the commit.\<close>

definition entry_row_balanced :: "journal_tables \<Rightarrow> string \<Rightarrow> bool" where
  "entry_row_balanced t new_id \<longleftrightarrow>
     (let debits = debits_of (lines_of_entry t new_id); credits = credits_of (lines_of_entry t new_id) in
      \<not> (debits = 0 \<and> credits = 0) \<and> debits = credits)"

definition journal_lines_balanced :: "journal_tables \<Rightarrow> string \<Rightarrow> bool" where
  "journal_lines_balanced t target \<longleftrightarrow> debits_of (lines_of_entry t target) = credits_of (lines_of_entry t target)"

datatype journal_statement =
    Insert_entry JournalEntry
  | Insert_line string JournalLine
  | Update_entries "JournalEntry \<Rightarrow> bool" "JournalEntry \<Rightarrow> JournalEntry"
  | Delete_entries "JournalEntry \<Rightarrow> bool"
  | Update_lines "string \<times> JournalLine \<Rightarrow> bool" "string \<times> JournalLine \<Rightarrow> string \<times> JournalLine"
  | Delete_lines "string \<times> JournalLine \<Rightarrow> bool"

definition journal_append_only :: "string \<Rightarrow> string \<Rightarrow> exn" where
  "journal_append_only table operation =
     QueryFailed ''23001'' (''le journal est append-only : une erreur se corrige par contre-passation (table='' @ table @ '', op='' @ operation @ '')'')"

text \<open>\<open>facts\<close> are the identifiers of the register, to which an entry refers.\<close>

fun run_journal :: "string list \<Rightarrow> journal_statement \<Rightarrow> journal_tables \<Rightarrow> exn + journal_tables" where
  "run_journal facts (Insert_entry e) t =
     (if list_ex (\<lambda>r. je_id r = je_id e) (jt_entries t) then Inl (unique_violation ''PK_journal_entries'')
      else if list_ex (\<lambda>r. je_eventId r = je_eventId e) (jt_entries t) then Inl (unique_violation ''uq_journal_entries_event'')
      else if je_eventId e \<notin> set facts then Inl (QueryFailed ''23503'' ''FK_journal_entries_event'')
      else Inr (t\<lparr>jt_entries := jt_entries t @ [e]\<rparr>))"
| "run_journal facts (Insert_line entry_id l) t =
     (if \<not> 0 < jl_amount l then Inl (check_violation ''CHK_journal_lines_amount_positive'')
      else if \<not> list_ex (\<lambda>r. je_id r = entry_id) (jt_entries t) then Inl (QueryFailed ''23503'' ''FK_journal_lines_entry'')
      else Inr (t\<lparr>jt_lines := jt_lines t @ [(entry_id, l)]\<rparr>))"
| "run_journal facts (Update_entries cond f) t =
     (if list_ex cond (jt_entries t) then Inl (journal_append_only ''journal_entries'' ''UPDATE'') else Inr t)"
| "run_journal facts (Delete_entries cond) t =
     (if list_ex cond (jt_entries t) then Inl (journal_append_only ''journal_entries'' ''DELETE'') else Inr t)"
| "run_journal facts (Update_lines cond f) t =
     (if list_ex cond (jt_lines t) then Inl (journal_append_only ''journal_lines'' ''UPDATE'') else Inr t)"
| "run_journal facts (Delete_lines cond) t =
     (if list_ex cond (jt_lines t) then Inl (journal_append_only ''journal_lines'' ''DELETE'') else Inr t)"

fun run_statements :: "string list \<Rightarrow> journal_statement list \<Rightarrow> journal_tables \<Rightarrow> exn + journal_tables" where
  "run_statements facts [] t = Inr t"
| "run_statements facts (s # ss) t = (case run_journal facts s t of Inl e \<Rightarrow> Inl e | Inr t' \<Rightarrow> run_statements facts ss t')"

text \<open>The checks deferred by the statements, in the order they were queued: one per inserted row.\<close>

fun deferred_check :: "journal_tables \<Rightarrow> journal_statement \<Rightarrow> bool" where
  "deferred_check t (Insert_entry e) = entry_row_balanced t (je_id e)"
| "deferred_check t (Insert_line entry_id l) = journal_lines_balanced t entry_id"
| "deferred_check t _ = True"

definition commit_journal :: "string list \<Rightarrow> journal_statement list \<Rightarrow> journal_tables \<Rightarrow> exn + journal_tables" where
  "commit_journal facts statements t =
     (case run_statements facts statements t of
        Inl e \<Rightarrow> Inl e
      | Inr t' \<Rightarrow>
          if list_all (deferred_check t') statements then Inr t'
          else Inl (QueryFailed ''23001'' ''trg_journal_entries_balanced''))"

definition journal_after :: "string list \<Rightarrow> journal_statement list list \<Rightarrow> journal_tables \<Rightarrow> journal_tables" where
  "journal_after facts transactions t =
     fold (\<lambda>ss t. case commit_journal facts ss t of Inl e \<Rightarrow> t | Inr t' \<Rightarrow> t') transactions t"

text \<open>Every entry is balanced and moves something, every line is positive and belongs to an entry.\<close>

definition journal_sound :: "journal_tables \<Rightarrow> bool" where
  "journal_sound t \<longleftrightarrow>
     list_all (\<lambda>e. entry_row_balanced t (je_id e)) (jt_entries t) \<and>
     list_all (\<lambda>(e, l). 0 < jl_amount l \<and> e \<in> je_id ` set (jt_entries t)) (jt_lines t) \<and>
     distinct (map je_id (jt_entries t)) \<and> distinct (map je_eventId (jt_entries t))"

lemma run_statements_adds:
  assumes "run_statements facts ss t = Inr t'"
  shows "\<exists>es ls. jt_entries t' = jt_entries t @ es \<and> jt_lines t' = jt_lines t @ ls \<and>
    (\<forall>e \<in> set es. Insert_entry e \<in> set ss) \<and> (\<forall>(i, l) \<in> set ls. Insert_line i l \<in> set ss \<and> 0 < jl_amount l \<and> i \<in> je_id ` set (jt_entries t'))"
  using assms
proof (induction ss arbitrary: t)
  case (Cons s ss)
  then obtain t1 where t1: "run_journal facts s t = Inr t1" "run_statements facts ss t1 = Inr t'" by (auto split: sum.splits)
  from Cons.IH [OF t1(2)] obtain es ls where more: "jt_entries t' = jt_entries t1 @ es" "jt_lines t' = jt_lines t1 @ ls"
    "\<forall>e \<in> set es. Insert_entry e \<in> set ss" "\<forall>(i, l) \<in> set ls. Insert_line i l \<in> set ss \<and> 0 < jl_amount l \<and> i \<in> je_id ` set (jt_entries t')"
    by blast
  show ?case
  proof (cases s)
    case (Insert_entry e)
    then have "jt_entries t1 = jt_entries t @ [e]" "jt_lines t1 = jt_lines t" using t1(1) by (auto split: if_splits)
    then show ?thesis using more Insert_entry by (intro exI [of _ "e # es"] exI [of _ ls]) auto
  next
    case (Insert_line i l)
    then have "jt_entries t1 = jt_entries t" "jt_lines t1 = jt_lines t @ [(i, l)]" "0 < jl_amount l" "i \<in> je_id ` set (jt_entries t)"
      using t1(1) by (auto simp: list_ex_iff split: if_splits)
    then show ?thesis using more Insert_line by (intro exI [of _ es] exI [of _ "(i, l) # ls"]) auto
  qed (use t1(1) more in \<open>(auto split: if_splits; intro exI [of _ es] exI [of _ ls]; auto)+\<close>)
qed simp

lemma run_statements_keys:
  assumes "run_statements facts ss t = Inr t'" "distinct (map je_id (jt_entries t))" "distinct (map je_eventId (jt_entries t))"
  shows "distinct (map je_id (jt_entries t')) \<and> distinct (map je_eventId (jt_entries t'))"
  using assms
proof (induction ss arbitrary: t)
  case (Cons s ss)
  then obtain t1 where t1: "run_journal facts s t = Inr t1" "run_statements facts ss t1 = Inr t'" by (auto split: sum.splits)
  have "distinct (map je_id (jt_entries t1)) \<and> distinct (map je_eventId (jt_entries t1))"
    using t1(1) Cons.prems(2,3) by (cases s) (auto simp: list_ex_iff split: if_splits, (metis image_eqI)+)
  then show ?case using Cons.IH [OF t1(2)] by blast
qed simp

text \<open>Lines added to other entries leave the sums of an entry alone; more lines never lower them.\<close>

lemma lines_of_entry_append:
  "lines_of_entry (t\<lparr>jt_lines := ls @ ls'\<rparr>) i = lines_of_entry (t\<lparr>jt_lines := ls\<rparr>) i @ lines_of_entry (t\<lparr>jt_lines := ls'\<rparr>) i"
  by (simp add: lines_of_entry_def)

lemma debits_append: "debits_of (xs @ ys) = debits_of xs + debits_of ys" "credits_of (xs @ ys) = credits_of xs + credits_of ys"
  by (simp_all add: debits_of_def credits_of_def)

lemma debits_nonneg: "\<forall>l \<in> set ls. 0 < jl_amount l \<Longrightarrow> 0 \<le> debits_of ls \<and> 0 \<le> credits_of ls"
  by (induction ls) (auto simp: debits_of_def credits_of_def)

lemma commit_keeps_sound:
  assumes "journal_sound t" "commit_journal facts ss t = Inr t'"
  shows "journal_sound t' \<and> prefix (jt_entries t) (jt_entries t') \<and> prefix (jt_lines t) (jt_lines t')"
proof -
  have run: "run_statements facts ss t = Inr t'" and checks: "list_all (deferred_check t') ss"
    using assms(2) by (auto simp: commit_journal_def split: sum.splits if_splits)
  obtain es ls where add: "jt_entries t' = jt_entries t @ es" "jt_lines t' = jt_lines t @ ls" "\<forall>e \<in> set es. Insert_entry e \<in> set ss"
    "\<forall>(i, l) \<in> set ls. Insert_line i l \<in> set ss \<and> 0 < jl_amount l \<and> i \<in> je_id ` set (jt_entries t')"
    using run_statements_adds [OF run] by blast
  let ?new = "\<lambda>i. map snd (filter (\<lambda>(e, l). e = i) ls)"
  have split: "lines_of_entry t' i = lines_of_entry t i @ ?new i" for i by (simp add: lines_of_entry_def add(2))
  have "entry_row_balanced t' (je_id e)" if e: "e \<in> set (jt_entries t')" for e
  proof (cases "e \<in> set es")
    case True
    then have "Insert_entry e \<in> set ss" using add(3) by blast
    then show ?thesis using checks by (auto simp: list_all_iff)
  next
    case False
    then have old: "entry_row_balanced t (je_id e)" using e assms(1) by (auto simp: add(1) journal_sound_def list_all_iff)
    show ?thesis
    proof (cases "?new (je_id e) = []")
      case True
      then show ?thesis using old by (simp add: entry_row_balanced_def split)
    next
      case False
      then obtain l where "(je_id e, l) \<in> set ls" by (auto simp: filter_empty_conv)
      then have "Insert_line (je_id e) l \<in> set ss" using add(4) by auto
      then have "deferred_check t' (Insert_line (je_id e) l)" using checks unfolding list_all_iff by blast
      moreover have "0 \<le> debits_of (?new (je_id e))" "0 \<le> credits_of (?new (je_id e))"
        using debits_nonneg [of "?new (je_id e)"] add(4) by auto
      moreover have "0 \<le> debits_of (lines_of_entry t (je_id e))" "0 \<le> credits_of (lines_of_entry t (je_id e))"
        using debits_nonneg [of "lines_of_entry t (je_id e)"] assms(1) by (auto simp: lines_of_entry_def journal_sound_def list_all_iff)
      ultimately show ?thesis using old by (auto simp: entry_row_balanced_def journal_lines_balanced_def Let_def split debits_append)
    qed
  qed
  moreover have "0 < jl_amount l \<and> i \<in> je_id ` set (jt_entries t')" if "(i, l) \<in> set (jt_lines t')" for i l
    using that add assms(1) by (auto simp: journal_sound_def list_all_iff)
  moreover have "distinct (map je_id (jt_entries t')) \<and> distinct (map je_eventId (jt_entries t'))"
    using run_statements_keys [OF run] assms(1) by (simp add: journal_sound_def)
  ultimately show ?thesis using add(1,2) by (auto simp: journal_sound_def list_all_iff)
qed

text \<open>
  C23. Whatever transactions are sent to the journal, by the program or by hand, each entry stays balanced and moves something,
  each line stays positive and attached, and no entry and no line is changed or removed: a transaction that would do
  otherwise is refused as a whole.
\<close>

theorem journal_guards_hold:
  assumes "journal_sound t"
  shows "journal_sound (journal_after facts transactions t) \<and>
    prefix (jt_entries t) (jt_entries (journal_after facts transactions t)) \<and>
    prefix (jt_lines t) (jt_lines (journal_after facts transactions t))"
  using assms unfolding journal_after_def
proof (induction transactions arbitrary: t)
  case (Cons ss sss)
  let ?t = "case commit_journal facts ss t of Inl e \<Rightarrow> t | Inr t' \<Rightarrow> t'"
  have "journal_sound ?t \<and> prefix (jt_entries t) (jt_entries ?t) \<and> prefix (jt_lines t) (jt_lines ?t)"
    using commit_keeps_sound [OF Cons.prems] Cons.prems by (auto split: sum.split)
  then show ?case using Cons.IH [of ?t] by (auto intro: prefix_order.trans)
qed simp

text \<open>The entry of a collection, then a hand-made correction that would unbalance it, then an attempt to erase it.\<close>

definition sample_header :: JournalEntry where
  "sample_header = \<lparr>je_id = ''j1'', je_transactionReference = ''MM-1'', je_eventId = ''e1'', je_eventType = PROVIDER_CONFIRMED,
     je_narration = ''Encaissement'', je_currency = ''CDF'', je_lines = [], je_correlationId = ''c1'', je_occurredAt = 0, je_createdAt = 0\<rparr>"

definition sample_transactions :: "journal_statement list list" where
  "sample_transactions =
     [[Insert_entry sample_header, Insert_line ''j1'' \<lparr>jl_account = PROVIDER_FLOAT, jl_direction = DEBIT, jl_amount = 500\<rparr>,
       Insert_line ''j1'' \<lparr>jl_account = CREDITOR_PAYABLE, jl_direction = CREDIT, jl_amount = 500\<rparr>],
      [Insert_line ''j1'' \<lparr>jl_account = FEE_REVENUE, jl_direction = CREDIT, jl_amount = 10\<rparr>],
      [Delete_lines (\<lambda>_. True)]]"

theorem journal_guards_hold_witness:
  "journal_sound (journal_after [''e1''] sample_transactions \<lparr>jt_entries = [], jt_lines = []\<rparr>) \<and>
   length (jt_lines (journal_after [''e1''] sample_transactions \<lparr>jt_entries = [], jt_lines = []\<rparr>)) = 2"
proof -
  have "journal_sound \<lparr>jt_entries = [], jt_lines = []\<rparr>" by (simp add: journal_sound_def)
  from journal_guards_hold [OF this, of "[''e1'']" sample_transactions] show ?thesis
    by (simp add: sample_transactions_def journal_after_def commit_journal_def sample_header_def entry_row_balanced_def
        journal_lines_balanced_def lines_of_entry_def debits_of_def credits_of_def)
qed

text \<open>
  The entry the program posts meets these guards exactly when it meets the checks of \<open>insert_entry\<close> and of the commit: the header
  and its lines are accepted in one transaction when the identifiers are new, the fact exists, the lines are positive and the entry
  is balanced, and then the tables gain that entry.
\<close>

lemma run_lines:
  assumes "list_ex (\<lambda>r. je_id r = i) (jt_entries t)"
  shows "run_statements facts (map (Insert_line i) ls) t =
    (if list_all (\<lambda>l. 0 < jl_amount l) ls then Inr (t\<lparr>jt_lines := jt_lines t @ map (Pair i) ls\<rparr>)
     else Inl (check_violation ''CHK_journal_lines_amount_positive''))"
  using assms by (induction ls arbitrary: t) auto

theorem posted_entry_commits:
  assumes "journal_sound t"
  shows "commit_journal facts (Insert_entry e # map (Insert_line (je_id e)) ls) t =
      Inr (t\<lparr>jt_entries := jt_entries t @ [e], jt_lines := jt_lines t @ map (Pair (je_id e)) ls\<rparr>) \<longleftrightarrow>
    je_id e \<notin> je_id ` set (jt_entries t) \<and> je_eventId e \<notin> je_eventId ` set (jt_entries t) \<and> je_eventId e \<in> set facts \<and>
    list_all (\<lambda>l. 0 < jl_amount l) ls \<and> journal_entries_balanced (e\<lparr>je_lines := ls\<rparr>)"
proof -
  let ?t = "t\<lparr>jt_entries := jt_entries t @ [e], jt_lines := jt_lines t @ map (Pair (je_id e)) ls\<rparr>"
  have mine: "lines_of_entry ?t (je_id e) = ls" if "je_id e \<notin> je_id ` set (jt_entries t)"
  proof -
    have "filter (\<lambda>(i, l). i = je_id e) (jt_lines t) = []"
      using assms that by (fastforce simp: journal_sound_def list_all_iff filter_empty_conv)
    then show ?thesis by (simp add: lines_of_entry_def filter_map o_def)
  qed
  have checks: "list_all (deferred_check ?t) (Insert_entry e # map (Insert_line (je_id e)) ls) \<longleftrightarrow> journal_entries_balanced (e\<lparr>je_lines := ls\<rparr>)"
    if "je_id e \<notin> je_id ` set (jt_entries t)"
    by (auto simp: mine [OF that] entry_row_balanced_def journal_lines_balanced_def journal_entries_balanced_def list_all_iff Let_def)
  show ?thesis
  proof (cases "je_id e \<notin> je_id ` set (jt_entries t) \<and> je_eventId e \<notin> je_eventId ` set (jt_entries t) \<and> je_eventId e \<in> set facts")
    case True
    then have "\<not> list_ex (\<lambda>r. je_id r = je_id e) (jt_entries t)" "\<not> list_ex (\<lambda>r. je_eventId r = je_eventId e) (jt_entries t)"
      by (auto simp: list_ex_iff) (metis image_eqI)+
    then have "run_statements facts (Insert_entry e # map (Insert_line (je_id e)) ls) t =
      (if list_all (\<lambda>l. 0 < jl_amount l) ls then Inr ?t else Inl (check_violation ''CHK_journal_lines_amount_positive''))"
      using run_lines [of "je_id e" "t\<lparr>jt_entries := jt_entries t @ [e]\<rparr>"] True by simp
    then show ?thesis using True checks by (simp add: commit_journal_def del: run_statements.simps)
  next
    case False
    then show ?thesis by (auto simp: commit_journal_def list_ex_iff)
  qed
qed

section \<open>Installing the triggers at start-up\<close>

record pg_trigger =
  tg_name :: string
  tg_table :: string
  tg_enabled :: bool

type_synonym catalog = "pg_trigger list"

text \<open>\<^verbatim>\<open>SELECT 1 FROM pg_trigger .. WHERE tgname = $1 AND relname = $2\<close>: the row is there whether the trigger is enabled or not.\<close>

definition trigger_known :: "catalog \<Rightarrow> string \<times> string \<Rightarrow> bool" where
  "trigger_known cat = (\<lambda>(name, table). list_ex (\<lambda>g. tg_name g = name \<and> tg_table g = table) cat)"

definition trigger_active :: "catalog \<Rightarrow> string \<times> string \<Rightarrow> bool" where
  "trigger_active cat = (\<lambda>(name, table). list_ex (\<lambda>g. tg_name g = name \<and> tg_table g = table \<and> tg_enabled g) cat)"

datatype ddl = Create_function string | Create_trigger string string | Drop_trigger_if_exists string string

text \<open>\<open>denied\<close> is what PostgreSQL answers to a statement the role may not run. Each statement commits on its own.\<close>

fun run_ddl :: "(ddl \<Rightarrow> string option) \<Rightarrow> ddl list \<Rightarrow> catalog \<Rightarrow> string option \<times> catalog" where
  "run_ddl denied [] cat = (None, cat)"
| "run_ddl denied (s # ss) cat =
     (case denied s of
        Some reason \<Rightarrow> (Some reason, cat)
      | None \<Rightarrow>
          (case s of
             Create_function f \<Rightarrow> run_ddl denied ss cat
           | Create_trigger name table \<Rightarrow>
               if trigger_known cat (name, table) then (Some (''trigger already exists : '' @ name), cat)
               else run_ddl denied ss (cat @ [\<lparr>tg_name = name, tg_table = table, tg_enabled = True\<rparr>])
           | Drop_trigger_if_exists name table \<Rightarrow>
               run_ddl denied ss (filter (\<lambda>g. \<not> (tg_name g = name \<and> tg_table g = table)) cat)))"

text \<open>What the installers log; none of them stops the start-up.\<close>

datatype guard_report = Guards_present | Guards_installed "string list" | Guards_missing string

definition TRIGGER_NAME :: string where "TRIGGER_NAME = ''trg_transaction_events_append_only''"
definition TABLE_NAME :: string where "TABLE_NAME = ''transaction_events''"

definition append_only_install :: "ddl list" where
  "append_only_install = [Create_function ''transaction_events_append_only'', Create_trigger TRIGGER_NAME TABLE_NAME]"

definition append_only_onModuleInit :: "(ddl \<Rightarrow> string option) \<Rightarrow> catalog \<Rightarrow> guard_report \<times> catalog" where
  "append_only_onModuleInit denied cat =
     (if trigger_known cat (TRIGGER_NAME, TABLE_NAME) then (Guards_present, cat)
      else
        (case run_ddl denied append_only_install cat of
           (Some reason, cat') \<Rightarrow> (Guards_missing reason, cat')
         | (None, cat') \<Rightarrow> (Guards_installed [TRIGGER_NAME], cat')))"

definition LEDGER_TRIGGERS :: "(string \<times> string) list" where
  "LEDGER_TRIGGERS =
     [(''trg_journal_entries_balanced'', ''journal_entries''), (''trg_journal_lines_balanced'', ''journal_lines''),
      (''trg_journal_entries_append_only'', ''journal_entries''), (''trg_journal_lines_append_only'', ''journal_lines'')]"

definition LEDGER_GUARD_STATEMENTS :: "ddl list" where
  "LEDGER_GUARD_STATEMENTS =
     [Create_function ''journal_entries_balanced'', Create_function ''journal_lines_balanced'', Create_function ''journal_append_only'',
      Create_trigger ''trg_journal_entries_balanced'' ''journal_entries'', Create_trigger ''trg_journal_lines_balanced'' ''journal_lines'',
      Create_trigger ''trg_journal_entries_append_only'' ''journal_entries'', Create_trigger ''trg_journal_lines_append_only'' ''journal_lines'']"

definition missingTriggers :: "catalog \<Rightarrow> string list" where
  "missingTriggers cat = map fst (filter (\<lambda>g. \<not> trigger_known cat g) LEDGER_TRIGGERS)"

definition ledger_install :: "ddl list" where
  "ledger_install = map (\<lambda>(trigger, table). Drop_trigger_if_exists trigger table) LEDGER_TRIGGERS @ LEDGER_GUARD_STATEMENTS"

definition ledger_onModuleInit :: "(ddl \<Rightarrow> string option) \<Rightarrow> catalog \<Rightarrow> guard_report \<times> catalog" where
  "ledger_onModuleInit denied cat =
     (let missing = missingTriggers cat in
      if missing = [] then (Guards_present, cat)
      else
        (case run_ddl denied ledger_install cat of
           (Some reason, cat') \<Rightarrow> (Guards_missing reason, cat')
         | (None, cat') \<Rightarrow> (Guards_installed missing, cat')))"

text \<open>
  A start-up whose statements are allowed leaves every trigger in the catalogue, and those it had to install are active.
\<close>

lemma ledger_install_run:
  assumes "\<And>s. denied s = None"
  shows "run_ddl denied ledger_install cat =
    (None, filter (\<lambda>g. (tg_name g, tg_table g) \<notin> set LEDGER_TRIGGERS) cat @
       map (\<lambda>(n, t). \<lparr>tg_name = n, tg_table = t, tg_enabled = True\<rparr>) LEDGER_TRIGGERS)"
  using assms
  by (simp add: ledger_install_def LEDGER_TRIGGERS_def LEDGER_GUARD_STATEMENTS_def trigger_known_def list_ex_iff conj_commute conj_left_commute)

lemma trigger_append:
  "trigger_known cat g \<Longrightarrow> trigger_known (cat @ cat') g" "trigger_active cat g \<Longrightarrow> trigger_active (cat @ cat') g"
  "trigger_active cat g \<Longrightarrow> trigger_known cat g"
  by (auto simp: trigger_known_def trigger_active_def list_ex_iff)

lemma ledger_startup:
  assumes "\<And>s. denied s = None" "ledger_onModuleInit denied cat = (report, cat1)"
  shows "list_all (trigger_known cat1) LEDGER_TRIGGERS" "missingTriggers cat \<noteq> [] \<Longrightarrow> list_all (trigger_active cat1) LEDGER_TRIGGERS"
proof -
  show active: "list_all (trigger_active cat1) LEDGER_TRIGGERS" if "missingTriggers cat \<noteq> []"
  proof -
    have "cat1 = filter (\<lambda>g. (tg_name g, tg_table g) \<notin> set LEDGER_TRIGGERS) cat @
        map (\<lambda>(n, t). \<lparr>tg_name = n, tg_table = t, tg_enabled = True\<rparr>) LEDGER_TRIGGERS"
      using assms that by (simp add: ledger_onModuleInit_def ledger_install_run)
    then show ?thesis by (simp add: LEDGER_TRIGGERS_def trigger_active_def)
  qed
  show "list_all (trigger_known cat1) LEDGER_TRIGGERS"
  proof (cases "missingTriggers cat = []")
    case True
    then have "cat1 = cat" using assms(2) by (simp add: ledger_onModuleInit_def)
    then show ?thesis using True by (auto simp: missingTriggers_def filter_empty_conv list_all_iff)
  next
    case False
    then show ?thesis using active by (auto simp: list_all_iff trigger_append(3))
  qed
qed

theorem startup_installs_guards:
  assumes "\<And>s. denied s = None" "ledger_onModuleInit denied cat = (report, cat1)" "append_only_onModuleInit denied cat1 = (report', cat2)"
  shows "list_all (trigger_known cat2) ((TRIGGER_NAME, TABLE_NAME) # LEDGER_TRIGGERS) \<and>
    (missingTriggers cat \<noteq> [] \<longrightarrow> list_all (trigger_active cat2) LEDGER_TRIGGERS) \<and>
    (\<not> trigger_known cat1 (TRIGGER_NAME, TABLE_NAME) \<longrightarrow> trigger_active cat2 (TRIGGER_NAME, TABLE_NAME))"
proof -
  have cat2: "cat2 = (if trigger_known cat1 (TRIGGER_NAME, TABLE_NAME) then cat1
      else cat1 @ [\<lparr>tg_name = TRIGGER_NAME, tg_table = TABLE_NAME, tg_enabled = True\<rparr>])"
    using assms(1,3) by (simp add: append_only_onModuleInit_def append_only_install_def split: if_splits)
  then have guard: "trigger_known cat2 (TRIGGER_NAME, TABLE_NAME)"
    "\<not> trigger_known cat1 (TRIGGER_NAME, TABLE_NAME) \<longrightarrow> trigger_active cat2 (TRIGGER_NAME, TABLE_NAME)"
    by (auto simp: trigger_known_def trigger_active_def)
  have "trigger_known cat2 g" if "trigger_known cat1 g" for g using that cat2 trigger_append(1) by auto
  moreover have "trigger_active cat2 g" if "trigger_active cat1 g" for g using that cat2 trigger_append(2) by auto
  ultimately show ?thesis using ledger_startup [OF assms(1,2)] guard by (auto simp: list_all_iff)
qed

text \<open>
  Two things the installers do not see. A trigger that exists and is disabled counts as present, so that the register stays
  rewritable under the report \<^verbatim>\<open>append-only.guard.present\<close>; and a statement refused after the triggers were dropped leaves the
  journal without those it had, while the start-up goes on.
\<close>

theorem disabled_guard_reported_present:
  "append_only_onModuleInit denied [\<lparr>tg_name = TRIGGER_NAME, tg_table = TABLE_NAME, tg_enabled = False\<rparr>] =
    (Guards_present, [\<lparr>tg_name = TRIGGER_NAME, tg_table = TABLE_NAME, tg_enabled = False\<rparr>])"
  by (simp add: append_only_onModuleInit_def trigger_known_def)

theorem interrupted_install_unprotects:
  assumes "\<And>t n. denied (Drop_trigger_if_exists n t) = None" "\<And>f. denied (Create_function f) = Some reason"
    and "cat = map (\<lambda>(n, t). \<lparr>tg_name = n, tg_table = t, tg_enabled = True\<rparr>) (tl LEDGER_TRIGGERS)"
  shows "list_all (trigger_active cat) (tl LEDGER_TRIGGERS) \<and> ledger_onModuleInit denied cat = (Guards_missing reason, [])"
  using assms by (simp add: ledger_onModuleInit_def missingTriggers_def ledger_install_def LEDGER_TRIGGERS_def LEDGER_GUARD_STATEMENTS_def
      trigger_known_def trigger_active_def)

section \<open>The rows rewritten by SplitPaymentStatuses\<close>

text \<open>
  The new columns with their defaults, then the \<^verbatim>\<open>UPDATE\<close>: a collection confirmed by the provider whose bank status is known and not
  \<^verbatim>\<open>COMPLETED\<close> becomes a debt under review.
\<close>

definition new_columns :: "Transaction \<Rightarrow> Transaction" where
  "new_columns t = t\<lparr>tx_refundStatus := Refund_NOT_REQUIRED, tx_caseStatus := Case_NONE, tx_caseReason := None\<rparr>"

definition taken_over :: "Transaction \<Rightarrow> bool" where
  "taken_over t \<longleftrightarrow> tx_paymentChannel t = MOBILE_MONEY \<and> tx_providerStatus t = Some Prov_CONFIRMED \<and>
     tx_bankStatus t \<noteq> None \<and> tx_bankStatus t \<noteq> Some Bank_COMPLETED"

definition take_over :: "Transaction \<Rightarrow> Transaction" where
  "take_over t =
     (if taken_over t
      then t\<lparr>tx_refundStatus := Refund_REQUIRED, tx_caseStatus := Case_MANUAL_REVIEW,
             tx_caseReason := Some ''Reprise de migration : encaissement fournisseur sans virement abouti''\<rparr>
      else t)"

definition split_statuses_up :: "Transaction list \<Rightarrow> Transaction list" where
  "split_statuses_up rows = map (take_over \<circ> new_columns) rows"

text \<open>
  After the migration the rows that owe the payer are exactly those taken over, and the condition does not ask whether the bank
  was still working: a payment in flight is marked too, its completion leaves the debt on the row, the state machine accepts
  both, and a refund can then be requested for a payment whose beneficiary was paid.
\<close>

theorem migration_marks_debts:
  "tx_refundStatus (take_over (new_columns t)) = (if taken_over t then Refund_REQUIRED else Refund_NOT_REQUIRED) \<and>
   take_over (take_over (new_columns t)) = take_over (new_columns t)"
  by (simp add: take_over_def taken_over_def new_columns_def)

theorem payment_in_flight_becomes_refundable:
  assumes "tx_paymentChannel t = MOBILE_MONEY" "tx_providerStatus t = Some Prov_CONFIRMED" "tx_bankStatus t = Some Bank_PROCESSING"
    and "tx_status t = Tx_PROCESSING" "tx_reconciliationStatus t = Some Recon_PENDING"
    and "tx_aggregatorAmount t \<noteq> None" "tx_aggregatorCurrency t \<noteq> None"
    and "u = success_update words exch now (take_over (new_columns t))"
    and "find (\<lambda>r. tx_reference r = reference) (db_transactions (wd_db w)) = Some u"
  shows "assertTransition (stateOf (take_over (new_columns t))) (stateOf u) reference = Inr () \<and> tx_bankStatus u = Some Bank_COMPLETED \<and>
    tx_refundStatus u = Refund_REQUIRED \<and> loadRefundable reference w = (Inr u, w)"
proof -
  have "taken_over (new_columns t)" using assms(1-3) by (simp add: taken_over_def new_columns_def)
  then have "assertTransition (stateOf (take_over (new_columns t))) (stateOf u) reference = Inr ()"
    using assms(1-5,8)
    by (simp add: assertTransition_def illegalMoves_def illegalMove_def brokenInvariants_def INVARIANTS_def stateOf_def success_update_def
        take_over_def new_columns_def)
  moreover have "tx_bankStatus u = Some Bank_COMPLETED" "tx_refundStatus u = Refund_REQUIRED"
    using assms(8) \<open>taken_over (new_columns t)\<close> by (simp_all add: success_update_def take_over_def)
  moreover have "tx_aggregatorAmount u \<noteq> None" "tx_aggregatorCurrency u \<noteq> None"
    using assms(6-8) by (simp_all add: success_update_def take_over_def new_columns_def)
  ultimately show ?thesis
    using assms(9) by (simp add: loadRefundable_def repo_findByReference_def get_db_def run_bnd run_action)
qed

end
