(* ===== verification/Schema_History.thy ===== *)
theory Schema_History
  imports Schema_Guards
begin

text \<open>
  Two migrations that depend on the rows they find: \<^verbatim>\<open>2026072508000-AddStateInvariants.ts\<close> installs the constraints on the
  statuses, \<^verbatim>\<open>2026072512000-AddEventActorsAndRefundActors.ts\<close> adds the identities of those who act and refuses to be undone when one would be
  lost. A migration runs in one transaction: an error leaves the tables as they were.
\<close>

section \<open>The constraints on the statuses\<close>

datatype state_constraint =
    Bank_requires_provider | Refund_requires_collection | Resolved_case_needs_extinct_debt | Matched_needs_both_legs | Blocked_bank_needs_gap

fun constraint_name :: "state_constraint \<Rightarrow> string" where
  "constraint_name Bank_requires_provider = ''CHK_transactions_bank_requires_provider''"
| "constraint_name Refund_requires_collection = ''CHK_transactions_refund_requires_collection''"
| "constraint_name Resolved_case_needs_extinct_debt = ''CHK_transactions_resolved_case_needs_extinct_debt''"
| "constraint_name Matched_needs_both_legs = ''CHK_transactions_matched_needs_both_legs''"
| "constraint_name Blocked_bank_needs_gap = ''CHK_transactions_blocked_bank_needs_gap''"

text \<open>The predicates are, word for word, those of the decorators of \<^verbatim>\<open>transaction.entity.ts\<close>.\<close>

fun constraint_predicate :: "state_constraint \<Rightarrow> TransactionState \<Rightarrow> sql_bool" where
  "constraint_predicate Bank_requires_provider = CHK_transactions_bank_requires_provider"
| "constraint_predicate Refund_requires_collection = CHK_transactions_refund_requires_collection"
| "constraint_predicate Resolved_case_needs_extinct_debt = CHK_transactions_resolved_case_needs_extinct_debt"
| "constraint_predicate Matched_needs_both_legs = CHK_transactions_matched_needs_both_legs"
| "constraint_predicate Blocked_bank_needs_gap = CHK_transactions_blocked_bank_needs_gap"

definition state_constraints :: "state_constraint list" where
  "state_constraints =
     [Bank_requires_provider, Refund_requires_collection, Resolved_case_needs_extinct_debt, Matched_needs_both_legs, Blocked_bank_needs_gap]"

definition row_admitted :: "state_constraint \<Rightarrow> Transaction \<Rightarrow> bool" where
  "row_admitted c t \<longleftrightarrow> constraint_predicate c (stateOf t) \<noteq> Some False"

text \<open>
  \<^verbatim>\<open>ADD CONSTRAINT\<close> is refused when the constraint exists or when a row violates it, \<^verbatim>\<open>DROP CONSTRAINT\<close> when it does not exist. The installed
  constraints are a list in the order of their creation.
\<close>

definition add_constraint :: "Transaction list \<Rightarrow> state_constraint \<Rightarrow> state_constraint list \<Rightarrow> exn + state_constraint list" where
  "add_constraint rows c installed =
     (if c \<in> set installed then Inl (QueryFailed ''42710'' (constraint_name c))
      else if \<not> list_all (row_admitted c) rows then Inl (check_violation (constraint_name c))
      else Inr (installed @ [c]))"

definition drop_constraint :: "state_constraint \<Rightarrow> state_constraint list \<Rightarrow> exn + state_constraint list" where
  "drop_constraint c installed =
     (if c \<in> set installed then Inr (removeAll c installed) else Inl (QueryFailed ''42704'' (constraint_name c)))"

fun each_statement :: "('c \<Rightarrow> 's \<Rightarrow> exn + 's) \<Rightarrow> 'c list \<Rightarrow> 's \<Rightarrow> exn + 's" where
  "each_statement f [] s = Inr s"
| "each_statement f (c # cs) s = (case f c s of Inl e \<Rightarrow> Inl e | Inr s' \<Rightarrow> each_statement f cs s')"

definition state_invariants_up :: "Transaction list \<Rightarrow> state_constraint list \<Rightarrow> exn + state_constraint list" where
  "state_invariants_up rows installed = each_statement (add_constraint rows) state_constraints installed"

definition state_invariants_down :: "state_constraint list \<Rightarrow> exn + state_constraint list" where
  "state_invariants_down installed = each_statement drop_constraint (rev state_constraints) installed"

lemma every_constraint: "(\<forall>c. P c) \<longleftrightarrow> list_all P state_constraints"
proof
  assume all: "list_all P state_constraints"
  show "\<forall>c. P c"
  proof
    fix c
    show "P c" using all by (cases c) (simp_all add: state_constraints_def)
  qed
qed (simp add: list_all_iff)

lemma constraints_are_checks: "checks_transactions_state s \<longleftrightarrow> (\<forall>c. constraint_predicate c s \<noteq> Some False)"
  unfolding every_constraint checks_transactions_state_def state_constraints_def by simp

lemma add_each:
  assumes "distinct cs" "set cs \<inter> set installed = {}"
  shows "each_statement (add_constraint rows) cs installed =
    (case find (\<lambda>c. \<not> list_all (row_admitted c) rows) cs of
       None \<Rightarrow> Inr (installed @ cs) | Some c \<Rightarrow> Inl (check_violation (constraint_name c)))"
  using assms by (induction cs arbitrary: installed) (auto simp: add_constraint_def cong: option.case_cong)

text \<open>
  The migration succeeds exactly on the tables whose every row passes the constraints that the program relies on; otherwise it names
  the first constraint that a row violates. Undoing it removes exactly what it installed. The take-over of the old rows by
  \<^verbatim>\<open>SplitPaymentStatuses\<close> never creates a row that the constraints refuse.
\<close>

theorem state_invariants_installed:
  assumes "set installed \<inter> set state_constraints = {}"
  shows "(state_invariants_up rows installed = Inr (installed @ state_constraints) \<longleftrightarrow> (\<forall>t \<in> set rows. checks_transactions_state (stateOf t))) \<and>
    (\<forall>e. state_invariants_up rows installed = Inl e \<longrightarrow>
       (\<exists>c t. t \<in> set rows \<and> constraint_predicate c (stateOf t) = Some False \<and> e = check_violation (constraint_name c))) \<and>
    state_invariants_down (installed @ state_constraints) = Inr installed \<and>
    (checks_transactions_state (stateOf (new_columns t)) \<longrightarrow> checks_transactions_state (stateOf (take_over (new_columns t))))"
proof -
  have distinct: "distinct state_constraints" by (simp add: state_constraints_def)
  have up: "state_invariants_up rows installed =
      (case find (\<lambda>c. \<not> list_all (row_admitted c) rows) state_constraints of
         None \<Rightarrow> Inr (installed @ state_constraints) | Some c \<Rightarrow> Inl (check_violation (constraint_name c)))"
    unfolding state_invariants_up_def using assms by (intro add_each distinct) auto
  have "find (\<lambda>c. \<not> list_all (row_admitted c) rows) state_constraints = None \<longleftrightarrow> (\<forall>c. list_all (row_admitted c) rows)"
    unfolding every_constraint by (auto simp: find_None_iff list_all_iff)
  then have "find (\<lambda>c. \<not> list_all (row_admitted c) rows) state_constraints = None \<longleftrightarrow> (\<forall>t \<in> set rows. checks_transactions_state (stateOf t))"
    by (auto simp: constraints_are_checks row_admitted_def list_all_iff)
  moreover have "\<exists>t. t \<in> set rows \<and> constraint_predicate c (stateOf t) = Some False"
    if "find (\<lambda>c. \<not> list_all (row_admitted c) rows) state_constraints = Some c" for c
    using that by (auto simp: find_Some_iff row_admitted_def list_all_iff)
  moreover have "state_invariants_down (installed @ state_constraints) = Inr installed"
    using assms unfolding state_invariants_down_def state_constraints_def by (simp add: drop_constraint_def removeAll_id)
  moreover have "checks_transactions_state (stateOf (take_over (new_columns t)))" if "checks_transactions_state (stateOf (new_columns t))"
    using that by (auto simp: take_over_def taken_over_def new_columns_def stateOf_def checks_transactions_state_def CHK_transactions_defs sql_defs)
  ultimately show ?thesis unfolding up by (fastforce split: option.split)
qed

section \<open>The identities of those who act\<close>

text \<open>
  The two tables and whether the columns of the migration exist, with its constraint. \<open>rf_createdBy\<close> is the column that the
  migration renames; before it the other columns hold nothing.
\<close>

record actor_tables =
  at_refunds :: "Refund list"
  at_events :: "TransactionEvent list"
  at_columns :: bool

definition without_actors :: "actor_tables \<Rightarrow> bool" where
  "without_actors t \<longleftrightarrow> \<not> at_columns t \<and>
     list_all (\<lambda>r. rf_lastRequestedBy r = None \<and> rf_lastApprovedBy r = None) (at_refunds t) \<and>
     list_all (\<lambda>e. ev_actorId e = None \<and> ev_actorRole e = None \<and> ev_actionOrigin e = None) (at_events t)"

definition actors_up :: "actor_tables \<Rightarrow> exn + actor_tables" where
  "actors_up t =
     (let refunds = map (\<lambda>r. r\<lparr>rf_lastRequestedBy := None, rf_lastApprovedBy := None\<rparr>) (at_refunds t);
          updated = map (\<lambda>r. if rf_createdBy r \<noteq> None then r\<lparr>rf_lastRequestedBy := rf_createdBy r\<rparr> else r) refunds;
          events = map (\<lambda>e. e\<lparr>ev_actorId := None, ev_actorRole := None, ev_actionOrigin := None\<rparr>) (at_events t) in
      if at_columns t then Inl (QueryFailed ''42703'' ''requested_by'')
      else if \<not> list_all (\<lambda>e. CHK_transaction_events_actor_context e \<noteq> Some False) events
      then Inl (check_violation ''CHK_transaction_events_actor_context'')
      else Inr (t\<lparr>at_refunds := updated, at_events := events, at_columns := True\<rparr>))"

definition actor_rows :: "actor_tables \<Rightarrow> nat" where
  "actor_rows t = length (filter (\<lambda>e. ev_actorId e \<noteq> None) (at_events t))"

definition evolved_refunds :: "actor_tables \<Rightarrow> nat" where
  "evolved_refunds t = length (filter (\<lambda>r. rf_lastApprovedBy r \<noteq> None \<or> rf_lastRequestedBy r \<noteq> rf_createdBy r) (at_refunds t))"

definition actors_down :: "actor_tables \<Rightarrow> exn + actor_tables" where
  "actors_down t =
     (if \<not> at_columns t then Inl (QueryFailed ''42703'' ''actor_id'')
      else if actor_rows t > 0 \<or> evolved_refunds t > 0
      then Inl (JsError (''Retour arriere refuse : des identites scellees ou une separation des taches '' @ ''posterieure a la creation seraient perdues.''))
      else Inr (t\<lparr>at_refunds := map (\<lambda>r. r\<lparr>rf_lastRequestedBy := None, rf_lastApprovedBy := None\<rparr>) (at_refunds t),
                 at_events := map (\<lambda>e. e\<lparr>ev_actorId := None, ev_actorRole := None, ev_actionOrigin := None\<rparr>) (at_events t),
                 at_columns := False\<rparr>))"

text \<open>
  The migration loses nothing in either direction: it takes the creator of a refund for its last requester and leaves the rest as it
  was, undoing it at once gives the tables back, and undoing it later is refused exactly when a fact names its actor or a refund
  has an approver or another requester than its creator.
\<close>

theorem actors_migration_loses_nothing:
  assumes "without_actors t"
  shows "(\<exists>t'. actors_up t = Inr t' \<and> actors_down t' = Inr t \<and> at_events t' = at_events t \<and>
      map rf_createdBy (at_refunds t') = map rf_createdBy (at_refunds t) \<and> map rf_lastRequestedBy (at_refunds t') = map rf_createdBy (at_refunds t)) \<and>
    (at_columns u \<longrightarrow> ((\<exists>m. actors_down u = Inl (JsError m)) \<longleftrightarrow>
      (\<exists>e \<in> set (at_events u). ev_actorId e \<noteq> None) \<or>
      (\<exists>r \<in> set (at_refunds u). rf_lastApprovedBy r \<noteq> None \<or> rf_lastRequestedBy r \<noteq> rf_createdBy r)))"
proof -
  have same: "map (\<lambda>r. r\<lparr>rf_lastRequestedBy := None, rf_lastApprovedBy := None\<rparr>) (at_refunds t) = at_refunds t"
    "map (\<lambda>e. e\<lparr>ev_actorId := None, ev_actorRole := None, ev_actionOrigin := None\<rparr>) (at_events t) = at_events t"
    using assms by (auto simp: without_actors_def list_all_iff intro!: map_idI)
  have up: "actors_up t = Inr (t\<lparr>at_refunds := map (\<lambda>r. r\<lparr>rf_lastRequestedBy := rf_createdBy r\<rparr>) (at_refunds t), at_columns := True\<rparr>)"
    using assms same by (auto simp: actors_up_def without_actors_def list_all_iff CHK_transaction_events_actor_context_def sql_is_null_def
        sql_not_null_def intro!: map_cong)
  have "actors_down (t\<lparr>at_refunds := map (\<lambda>r. r\<lparr>rf_lastRequestedBy := rf_createdBy r\<rparr>) (at_refunds t), at_columns := True\<rparr>) = Inr t"
    using assms same by (auto simp: actors_down_def actor_rows_def evolved_refunds_def without_actors_def list_all_iff filter_empty_conv o_def)
  moreover have "(\<exists>m. actors_down u = Inl (JsError m)) \<longleftrightarrow> actor_rows u > 0 \<or> evolved_refunds u > 0" if "at_columns u"
    using that by (auto simp: actors_down_def)
  ultimately show ?thesis using up by (auto simp: actor_rows_def evolved_refunds_def filter_empty_conv o_def)
qed

end
