(* ===== verification/Api_Views.thy ===== *)
theory Api_Views
  imports Gateway Simulators Masking Configuration
begin

text \<open>
  What the API answers: the four mappers from a row to its public form (\<^verbatim>\<open>transactions/dto/transfer-response.dto.ts\<close>,
  \<^verbatim>\<open>mobile-money/dto/mobile-money-response.dto.ts\<close>, \<^verbatim>\<open>refunds/dto/refund-response.dto.ts\<close>,
  \<^verbatim>\<open>events/dto/transaction-event-response.dto.ts\<close>), the search of transfers with its pages, and the controllers, which hand a
  request to a service and its result to a mapper. An \<^verbatim>\<open>undefined\<close> property of an answer is \<^term>\<open>None\<close>.
\<close>

section \<open>Mappers\<close>

record SoapExchangeSummaryDto =
  sx_operation :: "string option"
  sx_durationMs :: "int option"
  sx_attempts :: "int option"
  sx_faultCode :: "string option"
  sx_faultString :: "string option"

record TransferResponseDto =
  tr_reference :: string
  tr_status :: TransactionStatus
  tr_debtorIbanMasked :: string
  tr_debtorName :: "string option"
  tr_creditorIbanMasked :: string
  tr_creditorName :: string
  tr_amount :: number
  tr_currency :: string
  tr_endToEndLabel :: "string option"
  tr_amountInWords :: "string option"
  tr_failureReason :: "string option"
  tr_soap :: SoapExchangeSummaryDto
  tr_correlationId :: string
  tr_processedAt :: "string option"
  tr_createdAt :: string
  tr_updatedAt :: string

definition transfer_response :: "Transaction \<Rightarrow> TransferResponseDto" where
  "transfer_response t =
     \<lparr>tr_reference = tx_reference t,
      tr_status = tx_status t,
      tr_debtorIbanMasked = maskIban (tx_debtorIban t),
      tr_debtorName = tx_debtorName t,
      tr_creditorIbanMasked = maskIban (tx_creditorIban t),
      tr_creditorName = tx_creditorName t,
      tr_amount = tx_amount t,
      tr_currency = tx_currency t,
      tr_endToEndLabel = tx_endToEndLabel t,
      tr_amountInWords = tx_amountInWords t,
      tr_failureReason = tx_failureReason t,
      tr_soap =
        \<lparr>sx_operation = tx_soapOperation t, sx_durationMs = tx_soapDurationMs t, sx_attempts = tx_soapAttempts t,
         sx_faultCode = tx_faultCode t, sx_faultString = tx_faultString t\<rparr>,
      tr_correlationId = tx_correlationId t,
      tr_processedAt = map_option toISOString (tx_processedAt t),
      tr_createdAt = toISOString (tx_createdAt t),
      tr_updatedAt = toISOString (tx_updatedAt t)\<rparr>"

record MobileMoneyResponseDto =
  mr_reference :: string
  mr_aggregatorReference :: "string option"
  mr_status :: TransactionStatus
  mr_operator :: "MobileMoneyOperator option"
  mr_payerMsisdnMasked :: string
  mr_providerStatus :: "ProviderStatus option"
  mr_bankStatus :: "BankProcessingStatus option"
  mr_reconciliationStatus :: "ReconciliationStatus option"
  mr_refundStatus :: RefundStatus
  mr_caseStatus :: CaseStatus
  mr_caseReason :: "string option"
  mr_creditorIbanMasked :: string
  mr_creditorName :: string
  mr_amount :: number
  mr_currency :: string
  mr_amountInWords :: "string option"
  mr_reconciliationReason :: "string option"
  mr_failureReason :: "string option"
  mr_anchored :: bool
  mr_createdAt :: string
  mr_updatedAt :: string

text \<open>\<^verbatim>\<open>maskPartial(null, 3, 2)\<close> reads the length of \<^verbatim>\<open>null\<close>: a row without a payer makes the mapper throw.\<close>

definition mobile_money_response :: "Transaction \<Rightarrow> exn + MobileMoneyResponseDto" where
  "mobile_money_response t =
     (case tx_payerMsisdn t of
        None \<Rightarrow> Inl (JsError ''Cannot read properties of null'')
      | Some msisdn \<Rightarrow> Inr
          \<lparr>mr_reference = tx_reference t,
           mr_aggregatorReference = tx_aggregatorReference t,
           mr_status = tx_status t,
           mr_operator = tx_mobileMoneyOperator t,
           mr_payerMsisdnMasked = maskPartial msisdn 3 2,
           mr_providerStatus = tx_providerStatus t,
           mr_bankStatus = tx_bankStatus t,
           mr_reconciliationStatus = tx_reconciliationStatus t,
           mr_refundStatus = tx_refundStatus t,
           mr_caseStatus = tx_caseStatus t,
           mr_caseReason = tx_caseReason t,
           mr_creditorIbanMasked = maskIban (tx_creditorIban t),
           mr_creditorName = tx_creditorName t,
           mr_amount = tx_amount t,
           mr_currency = tx_currency t,
           mr_amountInWords = tx_amountInWords t,
           mr_reconciliationReason = tx_reconciliationReason t,
           mr_failureReason = tx_failureReason t,
           mr_anchored = (tx_anchorStatus t = Anchor_ANCHORED),
           mr_createdAt = toISOString (tx_createdAt t),
           mr_updatedAt = toISOString (tx_updatedAt t)\<rparr>)"

text \<open>The view of a fact has every property of the fact but its salt and the account numbers.\<close>

record TransactionEventResponseDto =
  te_id :: string
  te_encryptionVersion :: int
  te_eventType :: TransactionEventType
  te_sequence :: nat
  te_transactionReference :: string
  te_providerReference :: "string option"
  te_bankReference :: "string option"
  te_providerStatus :: "ProviderStatus option"
  te_bankStatus :: "BankProcessingStatus option"
  te_reconciliationStatus :: "ReconciliationStatus option"
  te_refundStatus :: "RefundStatus option"
  te_caseStatus :: "CaseStatus option"
  te_expectedAmount :: number
  te_observedAmount :: "number option"
  te_currency :: string
  te_observedCurrency :: "string option"
  te_occurredAt :: date
  te_correlationId :: string
  te_detail :: "string option"
  te_actorId :: "string option"
  te_actorRole :: "EventActorRole option"
  te_actionOrigin :: "EventActionOrigin option"
  te_previousFingerprint :: "string option"
  te_closureEventCount :: "nat option"
  te_closureChainHead :: "string option"
  te_debtorName :: "string option"
  te_creditorName :: "string option"
  te_endToEndLabel :: "string option"
  te_fingerprint :: string
  te_recordFormatVersion :: string
  te_anchorStatus :: AnchorStatus
  te_batchId :: "string option"
  te_leafIndex :: "nat option"
  te_merkleProof :: "string list option"
  te_createdAt :: date
  te_debtorIbanMasked :: "string option"
  te_creditorIbanMasked :: "string option"

definition event_response :: "TransactionEvent \<Rightarrow> TransactionEventResponseDto" where
  "event_response e =
     \<lparr>te_id = ev_id e, te_encryptionVersion = ev_encryptionVersion e, te_eventType = ev_eventType e, te_sequence = ev_sequence e,
      te_transactionReference = ev_transactionReference e, te_providerReference = ev_providerReference e, te_bankReference = ev_bankReference e,
      te_providerStatus = ev_providerStatus e, te_bankStatus = ev_bankStatus e, te_reconciliationStatus = ev_reconciliationStatus e,
      te_refundStatus = ev_refundStatus e, te_caseStatus = ev_caseStatus e, te_expectedAmount = ev_expectedAmount e,
      te_observedAmount = ev_observedAmount e, te_currency = ev_currency e, te_observedCurrency = ev_observedCurrency e,
      te_occurredAt = ev_occurredAt e, te_correlationId = ev_correlationId e, te_detail = ev_detail e,
      te_actorId = ev_actorId e, te_actorRole = ev_actorRole e, te_actionOrigin = ev_actionOrigin e,
      te_previousFingerprint = ev_previousFingerprint e, te_closureEventCount = ev_closureEventCount e, te_closureChainHead = ev_closureChainHead e,
      te_debtorName = ev_debtorName e, te_creditorName = ev_creditorName e, te_endToEndLabel = ev_endToEndLabel e,
      te_fingerprint = ev_fingerprint e, te_recordFormatVersion = ev_recordFormatVersion e, te_anchorStatus = ev_anchorStatus e,
      te_batchId = ev_batchId e, te_leafIndex = ev_leafIndex e, te_merkleProof = ev_merkleProof e,
      te_createdAt = ev_createdAt e,
      te_debtorIbanMasked = map_option maskIban (ev_debtorIban e), te_creditorIbanMasked = map_option maskIban (ev_creditorIban e)\<rparr>"

record RefundResponseDto =
  rr_id :: string
  rr_transactionReference :: string
  rr_status :: RefundStatus
  rr_amount :: number
  rr_currency :: string
  rr_reason :: "string option"
  rr_providerRefundReference :: "string option"
  rr_attempts :: nat
  rr_lastError :: "string option"
  rr_requestedAt :: "date option"
  rr_completedAt :: "date option"
  rr_createdBy :: "string option"
  rr_lastRequestedBy :: "string option"
  rr_lastApprovedBy :: "string option"
  rr_correlationId :: string
  rr_createdAt :: date
  rr_updatedAt :: date

definition refund_response :: "Refund \<Rightarrow> RefundResponseDto" where
  "refund_response r =
     \<lparr>rr_id = rf_id r, rr_transactionReference = rf_transactionReference r, rr_status = rf_status r,
      rr_amount = rf_amount r, rr_currency = rf_currency r, rr_reason = rf_reason r,
      rr_providerRefundReference = rf_providerRefundReference r, rr_attempts = rf_attempts r, rr_lastError = rf_lastError r,
      rr_requestedAt = rf_requestedAt r, rr_completedAt = rf_completedAt r, rr_createdBy = rf_createdBy r,
      rr_lastRequestedBy = rf_lastRequestedBy r, rr_lastApprovedBy = rf_lastApprovedBy r, rr_correlationId = rf_correlationId r,
      rr_createdAt = rf_createdAt r, rr_updatedAt = rf_updatedAt r\<rparr>"

section \<open>Searching transfers\<close>

record QueryTransfersDto =
  qt_status :: "TransactionStatus option"
  qt_currency :: "string option"
  qt_page :: nat
  qt_limit :: nat

text \<open>\<^verbatim>\<open>order: { createdAt: 'DESC' }\<close>; rows of the same millisecond keep the order of the table.\<close>

definition matching :: "QueryTransfersDto \<Rightarrow> Transaction list \<Rightarrow> Transaction list" where
  "matching query rows =
     sort_key (\<lambda>t. - tx_createdAt t)
       (filter (\<lambda>t. (case qt_status query of None \<Rightarrow> True | Some s \<Rightarrow> tx_status t = s) \<and>
          (truthy (qt_currency query) \<longrightarrow> qt_currency query = Some (tx_currency t))) rows)"

definition paginate :: "QueryTransfersDto \<Rightarrow> (Transaction list \<times> nat) io" where
  "paginate query =
     bnd get_db (\<lambda>d.
       let found = matching query (db_transactions d) in
       ret (take (qt_limit query) (drop ((qt_page query - 1) * qt_limit query) found), length found))"

record PaginatedTransfersDto =
  pg_items :: "TransferResponseDto list"
  pg_total :: nat
  pg_page :: nat
  pg_limit :: nat
  pg_pages :: nat

definition ceil_div :: "nat \<Rightarrow> nat \<Rightarrow> nat" where
  "ceil_div n limit = (n + limit - 1) div limit"

definition list_transfers :: "QueryTransfersDto \<Rightarrow> PaginatedTransfersDto io" where
  "list_transfers query =
     bnd (paginate query) (\<lambda>(items, found).
     ret \<lparr>pg_items = map transfer_response items, pg_total = found, pg_page = qt_page query, pg_limit = qt_limit query,
          pg_pages = (if qt_limit query > 0 then ceil_div found (qt_limit query) else 0)\<rparr>)"

section \<open>Controllers\<close>

text \<open>\<^verbatim>\<open>idempotencyKey?.trim() || undefined\<close>.\<close>

definition header_key :: "string option \<Rightarrow> string option" where
  "header_key header = (case header of None \<Rightarrow> None | Some k \<Rightarrow> if js_trim k = [] then None else Some (js_trim k))"

definition transfers_create ::
  "externals \<Rightarrow> settings \<Rightarrow> CreateTransferDto \<Rightarrow> string option \<Rightarrow> TransferResponseDto io" where
  "transfers_create X C dto header =
     bnd (initiateTransfer X C dto (header_key header)) (\<lambda>t. ret (transfer_response t))"

definition transfers_findOne :: "string \<Rightarrow> TransferResponseDto io" where
  "transfers_findOne reference = bnd (transfers_findByReference reference) (\<lambda>t. ret (transfer_response t))"

definition verifyIntegrity :: "externals \<Rightarrow> node \<Rightarrow> string option \<Rightarrow> string \<Rightarrow> EventChainReport io" where
  "verifyIntegrity X N explorer reference =
     bnd (transfers_findByReference reference) (\<lambda>_. verify X N explorer reference)"

definition events_findChain :: "string \<Rightarrow> TransactionEventResponseDto list io" where
  "events_findChain reference = bnd get_db (\<lambda>d. ret (map event_response (findChain d reference)))"

definition mobile_money_initiate ::
  "externals \<Rightarrow> settings \<Rightarrow> CreateMobileMoneyTransactionDto \<Rightarrow> string option \<Rightarrow> MobileMoneyResponseDto io" where
  "mobile_money_initiate X C dto header =
     bnd (initiate X C dto (header_key header)) (\<lambda>t. lift_result (mobile_money_response t))"

definition mobile_money_findOne :: "string \<Rightarrow> MobileMoneyResponseDto io" where
  "mobile_money_findOne reference = bnd (mm_findByReference reference) (\<lambda>t. lift_result (mobile_money_response t))"

text \<open>A missing signature header is the empty text.\<close>

definition webhook_receive ::
  "externals \<Rightarrow> settings \<Rightarrow> MobileMoneyWebhookDto \<Rightarrow> string option \<Rightarrow> MobileMoneyResponseDto io" where
  "webhook_receive X C payload signature =
     bnd (handle X C payload (case signature of None \<Rightarrow> [] | Some s \<Rightarrow> s)) (\<lambda>t. lift_result (mobile_money_response t))"

definition refunds_request :: "externals \<Rightarrow> string \<Rightarrow> string option \<Rightarrow> RefundResponseDto io" where
  "refunds_request X reference keyId = bnd (requestRefund X reference keyId) (\<lambda>r. ret (refund_response r))"

definition refunds_reopen :: "externals \<Rightarrow> string \<Rightarrow> string option \<Rightarrow> RefundResponseDto io" where
  "refunds_reopen X reference keyId = bnd (reopenRefund X reference keyId) (\<lambda>r. ret (refund_response r))"

definition refunds_findOne :: "string \<Rightarrow> RefundResponseDto io" where
  "refunds_findOne reference = bnd (refunds_findByTransaction reference) (\<lambda>r. ret (refund_response r))"

section \<open>Batches and statistics\<close>

text \<open>\<^verbatim>\<open>Math.min(Number.parseInt(limit ?? '20', 10), 100)\<close>, and 20 for a text that is not a number.\<close>

definition batches_limit :: "string option \<Rightarrow> number" where
  "batches_limit limit =
     (case parseInt (case limit of None \<Rightarrow> ''20'' | Some s \<Rightarrow> s) of
        Fin x \<Rightarrow> Fin (min x 100)
      | _ \<Rightarrow> Fin 20)"

definition anchors_findBatch :: "string \<Rightarrow> AnchorBatch io" where
  "anchors_findBatch batch_id =
     bnd get_db (\<lambda>d.
       case find (\<lambda>b. ab_id b = batch_id) (db_batches d) of
         None \<Rightarrow> throw (HttpException NotFound ''BATCH_NOT_FOUND'')
       | Some b \<Rightarrow> ret b)"

definition anchorNow :: "externals \<Rightarrow> node \<Rightarrow> anchor_settings \<Rightarrow> bool \<Rightarrow> (nat \<times> string option \<times> string option) io" where
  "anchorNow X N A acquired =
     bnd (processPendingBatch X N A acquired) (\<lambda>outcome.
     ret (bo_anchored outcome, map_option ab_id (bo_batch outcome), if truthy (bo_reason outcome) then bo_reason outcome else None))"

text \<open>\<^verbatim>\<open>COUNT(*) .. GROUP BY status\<close>: a status that no row carries has no property in the answer.\<close>

definition count_by_status :: "AnchorStatus list \<Rightarrow> AnchorStatus \<Rightarrow> nat option" where
  "count_by_status statuses s = (let n = count_list statuses s in if n = 0 then None else Some n)"

definition getEventStatistics :: "(AnchorStatus \<Rightarrow> nat option) io" where
  "getEventStatistics = bnd get_db (\<lambda>d. ret (count_by_status (map ev_anchorStatus (db_events d))))"

text \<open>The rows of \<^verbatim>\<open>transactions LEFT JOIN closure\<close>, each with the status of its closing fact, or its own.\<close>

definition case_statuses :: "db \<Rightarrow> AnchorStatus list" where
  "case_statuses d =
     concat (map (\<lambda>t. case filter (\<lambda>e. ev_transactionReference e = tx_reference t \<and> ev_eventType e = CASE_CLOSED) (db_events d) of
                        [] \<Rightarrow> [tx_anchorStatus t]
                      | closures \<Rightarrow> map ev_anchorStatus closures) (db_transactions d))"

definition getStatistics :: "(AnchorStatus \<Rightarrow> nat option) io" where
  "getStatistics = bnd get_db (\<lambda>d. ret (count_by_status (case_statuses d)))"

text \<open>On a sound register the statistics count every case once: no case is lost and none is counted twice.\<close>

theorem statistics_count_each_case:
  assumes "ledger_ok X d"
  shows "length (case_statuses d) = length (db_transactions d) \<and>
    (\<Sum>s \<in> set (case_statuses d). the (count_by_status (case_statuses d) s)) = length (db_transactions d)"
proof -
  have "length (filter (\<lambda>e. ev_transactionReference e = reference \<and> ev_eventType e = CASE_CLOSED) (db_events d)) \<le> 1" for reference
  proof -
    have "closings (findChain d reference) \<le> 1" using assms by (simp add: ledger_ok_def chain_ok_def)
    then show ?thesis by (simp add: closings_def findChain_def filter_sort conj_commute)
  qed
  then have one: "length (case filter (\<lambda>e. ev_transactionReference e = reference \<and> ev_eventType e = CASE_CLOSED) (db_events d) of
      [] \<Rightarrow> [status] | closures \<Rightarrow> map ev_anchorStatus closures) = 1" for reference status
    by (auto split: list.split dest!: meta_spec [of _ reference])
  then have "length (case_statuses d) = length (db_transactions d)"
    by (simp add: case_statuses_def length_concat o_def sum_list_triv)
  moreover have "(\<Sum>s \<in> set xs. the (count_by_status xs s)) = length xs" for xs
  proof -
    have "(\<Sum>s \<in> set xs. the (count_by_status xs s)) = (\<Sum>s \<in> set xs. count_list xs s)"
      by (rule sum.cong) (simp_all add: count_by_status_def Let_def count_list_0_iff)
    then show ?thesis by (simp add: sum_count_set)
  qed
  ultimately show ?thesis by simp
qed

section \<open>What an answer depends on\<close>

text \<open>The rows with what must not leave: account and phone numbers reduced to their masked form, the salts and the keys erased.\<close>

definition blind_transaction :: "Transaction \<Rightarrow> Transaction" where
  "blind_transaction t =
     t\<lparr>tx_idempotencyKey := None, tx_debtorIban := maskIban (tx_debtorIban t), tx_creditorIban := maskIban (tx_creditorIban t),
       tx_payerMsisdn := map_option (\<lambda>m. maskPartial m 3 2) (tx_payerMsisdn t)\<rparr>"

definition blind_event :: "TransactionEvent \<Rightarrow> TransactionEvent" where
  "blind_event e =
     e\<lparr>ev_fingerprintSalt := [], ev_debtorIban := map_option maskIban (ev_debtorIban e),
       ev_creditorIban := map_option maskIban (ev_creditorIban e)\<rparr>"

definition blind_refund :: "Refund \<Rightarrow> Refund" where
  "blind_refund r = r\<lparr>rf_providerIdempotencyKey := []\<rparr>"

definition blind_db :: "db \<Rightarrow> Transaction list \<times> TransactionEvent list \<times> Refund list" where
  "blind_db d = (map blind_transaction (db_transactions d), map blind_event (db_events d), map blind_refund (db_refunds d))"

lemma blind_keeps [simp]:
  "tx_reference (blind_transaction t) = tx_reference t" "tx_status (blind_transaction t) = tx_status t"
  "tx_currency (blind_transaction t) = tx_currency t" "tx_createdAt (blind_transaction t) = tx_createdAt t"
  "tx_paymentChannel (blind_transaction t) = tx_paymentChannel t"
  "ev_transactionReference (blind_event e) = ev_transactionReference e" "ev_sequence (blind_event e) = ev_sequence e"
  "rf_transactionReference (blind_refund r) = rf_transactionReference r"
  by (simp_all add: blind_transaction_def blind_event_def blind_refund_def)

lemma mappers_blind:
  "blind_transaction t = blind_transaction t' \<Longrightarrow> transfer_response t = transfer_response t'"
  "blind_transaction t = blind_transaction t' \<Longrightarrow> mobile_money_response t = mobile_money_response t'"
  "blind_event e = blind_event e' \<Longrightarrow> event_response e = event_response e'"
  "blind_refund r = blind_refund r' \<Longrightarrow> refund_response r = refund_response r'"
     apply (cases t; cases t'; simp add: blind_transaction_def transfer_response_def)
    apply (cases t; cases t'; cases "tx_payerMsisdn t"; cases "tx_payerMsisdn t'"; simp add: blind_transaction_def mobile_money_response_def)
   apply (cases e; cases e'; simp add: blind_event_def event_response_def)
  apply (cases r; cases r'; simp add: blind_refund_def refund_response_def)
  done

lemma map_through: "map b xs = map b ys \<Longrightarrow> (\<And>x y. b x = b y \<Longrightarrow> f x = f y) \<Longrightarrow> map f xs = map f ys"
proof -
  assume f: "\<And>x y. b x = b y \<Longrightarrow> f x = f y" and eq: "map b xs = map b ys"
  have "list_all2 (\<lambda>x y. b x = b y) xs ys" using eq by (auto simp: list_eq_iff_nth_eq list_all2_conv_all_nth)
  then have "list_all2 (\<lambda>x y. f x = f y) xs ys" by (rule list_all2_mono) (rule f)
  then show ?thesis by (auto simp: list_eq_iff_nth_eq list_all2_conv_all_nth)
qed

lemma find_through: "(\<And>x. P (b x) = P x) \<Longrightarrow> find P (map b xs) = map_option b (find P xs)"
  by (induction xs) auto

lemma sort_key_through: "(\<And>x. k (b x) = k x) \<Longrightarrow> map b (sort_key k xs) = sort_key k (map b xs)"
proof (induction xs)
  case (Cons x xs)
  have "map b (insort_key k x ys) = insort_key k (b x) (map b ys)" for ys
    by (induction ys) (simp_all add: Cons.prems)
  then show ?case using Cons by simp
qed simp


definition answers_alike :: "'a io \<Rightarrow> world \<Rightarrow> world \<Rightarrow> bool" where
  "answers_alike h w w' \<longleftrightarrow> fst (h w) = fst (h w')"

lemma find_alike:
  assumes "map b xs = map b ys" "\<And>x. P (b x) = P x" "\<And>x y. b x = b y \<Longrightarrow> f x = f y"
  shows "map_option f (find P xs) = map_option f (find P ys)"
proof -
  have "map_option b (find P xs) = map_option b (find P ys)"
    using find_through [of P b, OF assms(2)] assms(1) by metis
  then show ?thesis by (cases "find P xs"; cases "find P ys") (auto intro: assms(3))
qed

text \<open>A consultation answers from the row it finds, and from nothing else.\<close>

lemma consultation_answers:
  "fst (transfers_findOne reference w) =
     (case map_option transfer_response (find (\<lambda>r. tx_reference r = reference) (db_transactions (wd_db w))) of
        None \<Rightarrow> Inl (HttpException NotFound ''TRANSACTION_NOT_FOUND'') | Some a \<Rightarrow> Inr a)"
  "fst (mobile_money_findOne reference w) =
     (case map_option (\<lambda>t. (tx_paymentChannel t, mobile_money_response t))
        (find (\<lambda>r. tx_reference r = reference) (db_transactions (wd_db w))) of
        None \<Rightarrow> Inl (HttpException NotFound ''MOBILE_MONEY_TRANSACTION_NOT_FOUND'')
      | Some (channel, a) \<Rightarrow> if channel = MOBILE_MONEY then a else Inl (HttpException NotFound ''MOBILE_MONEY_TRANSACTION_NOT_FOUND''))"
  "fst (refunds_findOne reference w) =
     (case map_option refund_response (find (\<lambda>r. rf_transactionReference r = reference) (db_refunds (wd_db w))) of
        None \<Rightarrow> Inl (HttpException NotFound ''REFUND_NOT_FOUND'') | Some a \<Rightarrow> Inr a)"
  "fst (events_findChain reference w) = Inr (map event_response (findChain (wd_db w) reference))"
  "fst (list_transfers query w) =
     (let found = matching query (db_transactions (wd_db w)) in
      Inr \<lparr>pg_items = take (qt_limit query) (drop ((qt_page query - 1) * qt_limit query) (map transfer_response found)),
           pg_total = length (map transfer_response found), pg_page = qt_page query, pg_limit = qt_limit query,
           pg_pages = (if qt_limit query > 0 then ceil_div (length (map transfer_response found)) (qt_limit query) else 0)\<rparr>)"
  by (simp_all add: transfers_findOne_def transfers_findByReference_def mobile_money_findOne_def mm_findByReference_def
      repo_findByReference_def refunds_findOne_def refunds_findByTransaction_def find_refund_def events_findChain_def list_transfers_def
      paginate_def Let_def get_db_def run_bnd run_action take_map drop_map split: option.split)

text \<open>
  C39. Nothing secret leaves by a consultation: two stores that differ only in account numbers of the same masked form, phone
  numbers of the same masked form, salts and idempotency keys give the same answers to every request that reads a transfer, a
  search page, a payment, a refund or the facts of a transfer.
\<close>

theorem consultations_hide_secrets:
  assumes "blind_db (wd_db w) = blind_db (wd_db w')"
  shows "fst (transfers_findOne reference w) = fst (transfers_findOne reference w') \<and>
    fst (list_transfers query w) = fst (list_transfers query w') \<and>
    fst (mobile_money_findOne reference w) = fst (mobile_money_findOne reference w') \<and>
    fst (refunds_findOne reference w) = fst (refunds_findOne reference w') \<and>
    fst (events_findChain reference w) = fst (events_findChain reference w')"
proof -
  have rows: "map blind_transaction (db_transactions (wd_db w)) = map blind_transaction (db_transactions (wd_db w'))"
    "map blind_event (db_events (wd_db w)) = map blind_event (db_events (wd_db w'))"
    "map blind_refund (db_refunds (wd_db w)) = map blind_refund (db_refunds (wd_db w'))"
    using assms by (simp_all add: blind_db_def)
  have transfer: "map_option transfer_response (find (\<lambda>r. tx_reference r = reference) (db_transactions (wd_db w))) =
      map_option transfer_response (find (\<lambda>r. tx_reference r = reference) (db_transactions (wd_db w')))"
    by (rule find_alike [OF rows(1)]) (simp, erule mappers_blind(1))
  have payment: "map_option (\<lambda>t. (tx_paymentChannel t, mobile_money_response t)) (find (\<lambda>r. tx_reference r = reference) (db_transactions (wd_db w))) =
      map_option (\<lambda>t. (tx_paymentChannel t, mobile_money_response t)) (find (\<lambda>r. tx_reference r = reference) (db_transactions (wd_db w')))"
    by (rule find_alike [OF rows(1)]) (simp, metis mappers_blind(2) blind_keeps(5))
  have refund: "map_option refund_response (find (\<lambda>r. rf_transactionReference r = reference) (db_refunds (wd_db w))) =
      map_option refund_response (find (\<lambda>r. rf_transactionReference r = reference) (db_refunds (wd_db w')))"
    by (rule find_alike [OF rows(3)]) (simp, erule mappers_blind(4))
  have "map blind_event (findChain d reference) = sort_key ev_sequence (filter (\<lambda>e. ev_transactionReference e = reference) (map blind_event (db_events d)))" for d
    by (simp add: findChain_def sort_key_through filter_map o_def)
  then have "map blind_event (findChain (wd_db w) reference) = map blind_event (findChain (wd_db w') reference)" using rows(2) by simp
  then have facts: "map event_response (findChain (wd_db w) reference) = map event_response (findChain (wd_db w') reference)"
    by (rule map_through) (rule mappers_blind(3))
  have "map blind_transaction (matching query xs) = matching query (map blind_transaction xs)" for xs
    by (cases "qt_status query") (simp_all add: matching_def sort_key_through filter_map o_def)
  then have "map blind_transaction (matching query (db_transactions (wd_db w))) = map blind_transaction (matching query (db_transactions (wd_db w')))"
    using rows(1) by simp
  then have found: "map transfer_response (matching query (db_transactions (wd_db w))) = map transfer_response (matching query (db_transactions (wd_db w')))"
    by (rule map_through) (rule mappers_blind(1))
  show ?thesis unfolding consultation_answers Let_def transfer payment refund facts found by simp
qed

text \<open>The same transfer with two account numbers of one masked form.\<close>

definition with_iban :: "string \<Rightarrow> world" where
  "with_iban iban = sample_world\<lparr>wd_db := empty_db\<lparr>db_transactions := [sample_transaction\<lparr>tx_debtorIban := iban\<rparr>]\<rparr>\<rparr>"

theorem consultations_hide_secrets_witness:
  "''FR7630006000011234567890189'' \<noteq> ''FR7610107001011234567890189'' \<and>
   fst (transfers_findOne ''MM-1'' (with_iban ''FR7630006000011234567890189'')) =
   fst (transfers_findOne ''MM-1'' (with_iban ''FR7610107001011234567890189''))"
proof -
  have "list_all is_ascii ''FR7630006000011234567890189''" "list_all is_ascii ''FR7610107001011234567890189''"
    by (simp_all add: is_ascii_def)
  then have "maskIban ''FR7630006000011234567890189'' = maskIban ''FR7610107001011234567890189''"
    by (simp add: maskIban_def ascii_remove_spaces ascii_length ascii_slice ascii_last is_space_def is_continuation_def Let_def)
  then have "blind_db (wd_db (with_iban ''FR7630006000011234567890189'')) = blind_db (wd_db (with_iban ''FR7610107001011234567890189''))"
    by (simp add: with_iban_def blind_db_def blind_transaction_def sample_world_def empty_db_def)
  from consultations_hide_secrets [OF this, of "''MM-1''"] show ?thesis by simp
qed

section \<open>Pages\<close>

text \<open>
  The pages of a search, one after the other, give every matching row once and in order, and there are as many as the answer
  announces.
\<close>

lemma pages_concat: "0 < n \<Longrightarrow> concat (map (\<lambda>p. take n (drop (p * n) xs)) [0..<ceil_div (length xs) n]) = xs"
proof -
  assume n: "0 < n"
  have "concat (map (\<lambda>p. take n (drop (p * n) xs)) [0..<k]) = take (k * n) xs" for k
    by (induction k) (simp_all add: take_add add.commute [of n])
  moreover have "length xs \<le> ceil_div (length xs) n * n"
  proof -
    have "(length xs + n - 1) div n * n + (length xs + n - 1) mod n = length xs + n - 1" by simp
    moreover have "(length xs + n - 1) mod n < n" using n by simp
    ultimately show ?thesis unfolding ceil_div_def by linarith
  qed
  ultimately show ?thesis by simp
qed

theorem pages_cover_search:
  assumes "0 < qt_limit query"
  shows "\<exists>pages answer. fst (list_transfers query w) = Inr answer \<and> pg_pages answer = pages \<and>
    concat (map (\<lambda>p. case fst (list_transfers (query\<lparr>qt_page := Suc p\<rparr>) w) of Inl _ \<Rightarrow> [] | Inr a \<Rightarrow> pg_items a) [0..<pages]) =
    map transfer_response (matching query (db_transactions (wd_db w)))"
proof -
  let ?rows = "map transfer_response (matching query (db_transactions (wd_db w)))"
  have same: "matching (query\<lparr>qt_page := p\<rparr>) xs = matching query xs" for p xs by (simp add: matching_def)
  show ?thesis using assms pages_concat [OF assms, of ?rows] by (auto simp: consultation_answers Let_def same)
qed

end
