(* ===== verification/Party_Migration.thy ===== *)
theory Party_Migration
  imports Configuration
begin

text \<open>
  The two migrations that bring the party columns under encryption: \<^verbatim>\<open>2026072510000-EncryptPartyFields.ts\<close> widens them, and
  \<^verbatim>\<open>2026072511000-EnforceEncryptedPartyFields.ts\<close> converts the rows, then lets the tables refuse anything else. A table is its
  rows with what the statements depend on: the widths of the party columns, the \<^verbatim>\<open>CHECK\<close> constraints, the column
  \<^verbatim>\<open>encryption_version\<close> and the append-only trigger. A migration runs in one transaction, so that an exception undoes all of
  it. \<open>ivs table id column\<close> is what \<^verbatim>\<open>randomBytes\<close> answered where that cell was encrypted.
\<close>

section \<open>Tables\<close>

datatype party_table_name = Transactions | Transaction_events

datatype party_column = debtor_iban | debtor_name | creditor_iban | creditor_name

fun table_text :: "party_table_name \<Rightarrow> string" where
  "table_text Transactions = ''transactions''"
| "table_text Transaction_events = ''transaction_events''"

fun column_text :: "party_column \<Rightarrow> string" where
  "column_text debtor_iban = ''debtor_iban''"
| "column_text debtor_name = ''debtor_name''"
| "column_text creditor_iban = ''creditor_iban''"
| "column_text creditor_name = ''creditor_name''"

definition COLUMN_NAMES :: "party_column list" where
  "COLUMN_NAMES = [debtor_iban, debtor_name, creditor_iban, creditor_name]"

definition COLUMNS :: "(party_table_name \<times> party_column) list" where
  "COLUMNS = map (Pair Transactions) COLUMN_NAMES @ map (Pair Transaction_events) COLUMN_NAMES"

record PartyRow =
  pr_id :: string
  pr_cells :: "party_column \<Rightarrow> string option"
  pr_encryption_version :: "nat option"

datatype party_check = Check_encrypted party_column | Check_version

record party_table =
  pt_rows :: "PartyRow list"
  pt_widths :: "party_column \<Rightarrow> nat"
  pt_checks :: "party_check list"
  pt_version_default :: "nat option"
  pt_append_only :: "bool option"

record migration_world =
  mw_tables :: "party_table_name \<Rightarrow> party_table"
  mw_cipher :: FieldCipher

datatype migration_error = Thrown string | Sql_error string

type_synonym 'a migration = "(migration_world, migration_error, 'a) action"

section \<open>Statements\<close>

definition on_table :: "party_table_name \<Rightarrow> (party_table \<Rightarrow> migration_error + party_table) \<Rightarrow> unit migration" where
  "on_table table statement = (\<lambda>w.
     case statement (mw_tables w table) of
       Inl e \<Rightarrow> (Inl e, w)
     | Inr t \<Rightarrow> (Inr (), w\<lparr>mw_tables := (mw_tables w)(table := t)\<rparr>))"

text \<open>\<^verbatim>\<open>^enc\.v1\.[A-Za-z0-9_-]{1,32}\.[A-Za-z0-9_-]+$\<close>, the pattern the migration and the constraints share.\<close>

definition versioned :: "string \<Rightarrow> bool" where
  "versioned s \<longleftrightarrow> match_stored s \<noteq> None"

fun check_holds :: "party_check \<Rightarrow> PartyRow \<Rightarrow> bool" where
  "check_holds (Check_encrypted column) r \<longleftrightarrow> (case pr_cells r column of None \<Rightarrow> True | Some s \<Rightarrow> versioned s)"
| "check_holds Check_version r \<longleftrightarrow> pr_encryption_version r = Some 1"

definition cells_fit :: "(party_column \<Rightarrow> nat) \<Rightarrow> PartyRow \<Rightarrow> bool" where
  "cells_fit widths r \<longleftrightarrow>
     list_all (\<lambda>c. case pr_cells r c of None \<Rightarrow> True | Some s \<Rightarrow> char_length s \<le> widths c) COLUMN_NAMES"

definition row_changed :: "PartyRow \<Rightarrow> PartyRow \<Rightarrow> bool" where
  "row_changed r r' \<longleftrightarrow>
     pr_encryption_version r \<noteq> pr_encryption_version r' \<or> list_ex (\<lambda>c. pr_cells r c \<noteq> pr_cells r' c) COLUMN_NAMES"

text \<open>An \<^verbatim>\<open>UPDATE\<close>: the trigger refuses a changed row first, then the widths and the constraints are checked.\<close>

definition update_rows :: "(PartyRow \<Rightarrow> bool) \<Rightarrow> (PartyRow \<Rightarrow> PartyRow) \<Rightarrow> party_table \<Rightarrow> migration_error + party_table" where
  "update_rows cond f t =
     (let touched = filter cond (pt_rows t) in
      if pt_append_only t = Some True \<and> list_ex (\<lambda>r. row_changed r (f r)) touched then Inl (Sql_error ''23001'')
      else if \<not> list_all (\<lambda>r. cells_fit (pt_widths t) (f r)) touched then Inl (Sql_error ''22001'')
      else if \<not> list_all (\<lambda>r. list_all (\<lambda>k. check_holds k (f r)) (pt_checks t)) touched then Inl (Sql_error ''23514'')
      else Inr (t\<lparr>pt_rows := map (\<lambda>r. if cond r then f r else r) (pt_rows t)\<rparr>))"

definition add_check :: "party_check \<Rightarrow> party_table \<Rightarrow> migration_error + party_table" where
  "add_check k t =
     (if k \<in> set (pt_checks t) then Inl (Sql_error ''42710'')
      else if \<not> list_all (check_holds k) (pt_rows t) then Inl (Sql_error ''23514'')
      else Inr (t\<lparr>pt_checks := pt_checks t @ [k]\<rparr>))"

definition drop_check :: "party_check \<Rightarrow> party_table \<Rightarrow> migration_error + party_table" where
  "drop_check k t =
     (if k \<notin> set (pt_checks t) then Inl (Sql_error ''42704'') else Inr (t\<lparr>pt_checks := removeAll k (pt_checks t)\<rparr>))"

definition add_version_column :: "party_table \<Rightarrow> migration_error + party_table" where
  "add_version_column t =
     (if pt_version_default t \<noteq> None then Inl (Sql_error ''42701'')
      else Inr (t\<lparr>pt_version_default := Some 0, pt_rows := map (\<lambda>r. r\<lparr>pr_encryption_version := Some 0\<rparr>) (pt_rows t)\<rparr>))"

definition set_version_default :: "nat \<Rightarrow> party_table \<Rightarrow> migration_error + party_table" where
  "set_version_default n t =
     (if pt_version_default t = None then Inl (Sql_error ''42703'') else Inr (t\<lparr>pt_version_default := Some n\<rparr>))"

definition drop_version_column :: "party_table \<Rightarrow> migration_error + party_table" where
  "drop_version_column t =
     (if pt_version_default t = None then Inl (Sql_error ''42703'')
      else Inr (t\<lparr>pt_version_default := None, pt_rows := map (\<lambda>r. r\<lparr>pr_encryption_version := None\<rparr>) (pt_rows t),
                  pt_checks := removeAll Check_version (pt_checks t)\<rparr>))"

definition set_trigger :: "bool \<Rightarrow> party_table \<Rightarrow> migration_error + party_table" where
  "set_trigger enabled t =
     (if pt_append_only t = None then Inl (Sql_error ''42704'') else Inr (t\<lparr>pt_append_only := Some enabled\<rparr>))"

definition alter_width :: "party_column \<Rightarrow> nat \<Rightarrow> party_table \<Rightarrow> migration_error + party_table" where
  "alter_width column width t =
     (if \<not> list_all (cells_fit ((pt_widths t)(column := width))) (pt_rows t) then Inl (Sql_error ''22001'')
      else Inr (t\<lparr>pt_widths := (pt_widths t)(column := width)\<rparr>))"

definition steps :: "unit migration list \<Rightarrow> unit migration" where
  "steps ms = for_each ms id"

text \<open>\<^verbatim>\<open>try { m } finally { k }\<close>.\<close>

definition finally_do :: "'a migration \<Rightarrow> (migration_world \<Rightarrow> migration_world) \<Rightarrow> 'a migration" where
  "finally_do m k = (\<lambda>w. case m w of (r, w') \<Rightarrow> (r, k w'))"

definition migrate :: "unit migration \<Rightarrow> unit migration" where
  "migrate m = (\<lambda>w. case m w of
     (Inl e, w') \<Rightarrow> (Inl e, w'\<lparr>mw_tables := mw_tables w\<rparr>)
   | (Inr u, w') \<Rightarrow> (Inr u, w'))"

section \<open>EncryptPartyFields\<close>

definition encrypt_fields_up :: "unit migration" where
  "encrypt_fields_up = for_each COLUMNS (\<lambda>(table, column). on_table table (alter_width column 512))"

definition encrypted_count :: "party_column \<Rightarrow> party_table \<Rightarrow> nat" where
  "encrypted_count column t =
     length (filter (\<lambda>r. case pr_cells r column of None \<Rightarrow> False | Some s \<Rightarrow> take 7 s = ''enc.v1.'') (pt_rows t))"

definition assert_no_cipher :: "party_table_name \<Rightarrow> party_column \<Rightarrow> unit migration" where
  "assert_no_cipher table column =
     bnd (reads (\<lambda>w. encrypted_count column (mw_tables w table))) (\<lambda>count.
       if count > 0
       then throw (Thrown (''Retour arriere refuse : '' @ nat_dec count @ '' valeur(s) chiffree(s) dans '' @ table_text table @ ''.'' @
              column_text column @ ''. Les dechiffrer avant de retrecir la colonne, sinon elles seront tronquees.''))
       else ret ())"

definition original_width :: "party_column \<Rightarrow> nat" where
  "original_width column = (if column = debtor_iban \<or> column = creditor_iban then 34 else 140)"

definition encrypt_fields_down :: "unit migration" where
  "encrypt_fields_down =
     steps [for_each COLUMNS (\<lambda>(table, column). assert_no_cipher table column),
            for_each COLUMNS (\<lambda>(table, column). on_table table (alter_width column (original_width column)))]"

section \<open>EnforceEncryptedPartyFields\<close>

definition LEGACY_LOCAL_SECURITY_MASTER_KEY :: string where
  "LEGACY_LOCAL_SECURITY_MASTER_KEY = ''local-demo-master-key-a-remplacer''"

definition deriveLegacyDataEncryptionKey :: "crypto \<Rightarrow> string \<Rightarrow> string \<Rightarrow> string" where
  "deriveLegacyDataEncryptionKey C legacyMasterKey keySalt = hkdf C legacyMasterKey keySalt ''iban-at-rest'' DATA_KEY_BYTES"

text \<open>The key ring the migration installs, and the key of the values without a key identifier.\<close>

definition installKey :: "crypto \<Rightarrow> env \<Rightarrow> string + (FieldCipher \<times> string)" where
  "installKey C env =
     (let masterKey = env_or env ''SECURITY_MASTER_KEY'' LOCAL_SECURITY_MASTER_KEY;
          keySalt = env_or env ''SECURITY_KEY_SALT'' DEFAULT_SECURITY_KEY_SALT;
          currentKeyId = env_or env ''SECURITY_CURRENT_KEY_ID'' LOCAL_SECURITY_KEY_ID in
      case derive_key C keySalt (currentKeyId, masterKey) of
        Inl e \<Rightarrow> Inl e
      | Inr current \<Rightarrow>
          (case parsePreviousKeys (env_or env ''SECURITY_PREVIOUS_KEYS'' []) of
             Inl e \<Rightarrow> Inl e
           | Inr previous \<Rightarrow>
               (case map_throwing (derive_key C keySalt) previous of
                  Inl e \<Rightarrow> Inl e
                | Inr keys \<Rightarrow>
                    map_sum id
                      (\<lambda>ring. (ring, deriveLegacyDataEncryptionKey C
                         (env_or env ''SECURITY_LEGACY_MASTER_KEY'' (env_or env ''SECURITY_MASTER_KEY'' LEGACY_LOCAL_SECURITY_MASTER_KEY))
                         keySalt))
                      (useKeyRing currentKeyId (fold (\<lambda>(k, v). AList.update k v) (current # keys) [])))))"

definition context_of :: "party_table_name \<Rightarrow> party_column \<Rightarrow> string" where
  "context_of table column = table_text table @ ''.'' @ column_text column"

definition convert_cell ::
  "crypto \<Rightarrow> FieldCipher \<Rightarrow> string \<Rightarrow> string \<Rightarrow> string \<Rightarrow> string option \<Rightarrow> string + string option" where
  "convert_cell C ring legacyDataKey iv aad cell =
     (case cell of
        None \<Rightarrow> Inr None
      | Some s \<Rightarrow>
          if versioned s then Inr (Some s)
          else
            (case (if take 7 s = ''enc.v1.'' then decryptLegacyV1 C s aad legacyDataKey else Inr s) of
               Inl e \<Rightarrow> Inl e
             | Inr clear \<Rightarrow> encrypt C ring iv (Some clear) aad))"

text \<open>The values of the four columns, in the order of \<^verbatim>\<open>COLUMN_NAMES\<close>, become the cells of the row.\<close>

definition set_cells :: "string option list \<Rightarrow> PartyRow \<Rightarrow> PartyRow" where
  "set_cells vs r = r\<lparr>pr_cells := (\<lambda>c. the (map_of (zip COLUMN_NAMES vs) c))\<rparr>"

definition rewrite_row ::
  "party_table_name \<Rightarrow> (PartyRow \<Rightarrow> party_column \<Rightarrow> string + string option) \<Rightarrow> PartyRow \<Rightarrow> unit migration" where
  "rewrite_row table convert row =
     bnd (lift_result (map_sum Thrown id (map_throwing (convert row) COLUMN_NAMES))) (\<lambda>vs.
     on_table table (update_rows (\<lambda>r. pr_id r = pr_id row) (set_cells vs)))"

definition has_party :: "PartyRow \<Rightarrow> bool" where
  "has_party r \<longleftrightarrow> list_ex (\<lambda>c. pr_cells r c \<noteq> None) COLUMN_NAMES"

definition encryptLegacyRows ::
  "crypto \<Rightarrow> (party_table_name \<Rightarrow> string \<Rightarrow> party_column \<Rightarrow> string) \<Rightarrow> string \<Rightarrow> party_table_name \<Rightarrow> unit migration" where
  "encryptLegacyRows C ivs legacyDataKey table =
     bnd (reads mw_cipher) (\<lambda>ring.
     bnd (reads (\<lambda>w. filter has_party (pt_rows (mw_tables w table)))) (\<lambda>rows.
     bnd (for_each rows (rewrite_row table (\<lambda>row c.
            convert_cell C ring legacyDataKey (ivs table (pr_id row) c) (context_of table c) (pr_cells row c)))) (\<lambda>_.
     on_table table (update_rows (\<lambda>_. True) (\<lambda>r. r\<lparr>pr_encryption_version := Some 1\<rparr>)))))"

definition decryptRows :: "crypto \<Rightarrow> party_table_name \<Rightarrow> unit migration" where
  "decryptRows C table =
     bnd (reads mw_cipher) (\<lambda>ring.
     bnd (reads (\<lambda>w. pt_rows (mw_tables w table))) (\<lambda>rows.
     for_each rows (rewrite_row table (\<lambda>row c. decrypt C ring (pr_cells row c) (context_of table c)))))"

definition with_keys :: "crypto \<Rightarrow> env \<Rightarrow> (string \<Rightarrow> unit migration) \<Rightarrow> unit migration" where
  "with_keys C env body =
     bnd (lift_result (map_sum Thrown id (installKey C env))) (\<lambda>(ring, legacyDataKey).
     bnd (modifies (\<lambda>w. w\<lparr>mw_cipher := ring\<rparr>)) (\<lambda>_.
     finally_do (body legacyDataKey) (\<lambda>w. w\<lparr>mw_cipher := forgetKey\<rparr>)))"

definition enforce_up ::
  "crypto \<Rightarrow> (party_table_name \<Rightarrow> string \<Rightarrow> party_column \<Rightarrow> string) \<Rightarrow> env \<Rightarrow> unit migration" where
  "enforce_up C ivs env = with_keys C env (\<lambda>legacyDataKey.
     steps
       [on_table Transactions add_version_column,
        on_table Transaction_events add_version_column,
        encryptLegacyRows C ivs legacyDataKey Transactions,
        on_table Transaction_events (set_trigger False),
        encryptLegacyRows C ivs legacyDataKey Transaction_events,
        on_table Transaction_events (set_trigger True),
        for_each COLUMNS (\<lambda>(table, column). on_table table (add_check (Check_encrypted column))),
        for_each [Transactions, Transaction_events] (\<lambda>table.
          steps [on_table table (set_version_default 1), on_table table (add_check Check_version)])])"

definition enforce_down :: "crypto \<Rightarrow> env \<Rightarrow> unit migration" where
  "enforce_down C env = with_keys C env (\<lambda>_.
     steps
       [for_each [Transaction_events, Transactions] (\<lambda>table. on_table table (drop_check Check_version)),
        for_each (rev COLUMNS) (\<lambda>(table, column). on_table table (drop_check (Check_encrypted column))),
        decryptRows C Transactions,
        on_table Transaction_events (set_trigger False),
        decryptRows C Transaction_events,
        on_table Transaction_events (set_trigger True),
        on_table Transaction_events drop_version_column,
        on_table Transactions drop_version_column])"

section \<open>One loop over the rows\<close>

lemma every_column: "set COLUMN_NAMES = UNIV"
  by (auto simp: COLUMN_NAMES_def) (metis party_column.exhaust)

lemma all_columns [simp]:
  "list_all P COLUMN_NAMES \<longleftrightarrow> (\<forall>c. P c)" "list_ex P COLUMN_NAMES \<longleftrightarrow> (\<exists>c. P c)"
  by (simp_all add: list_all_iff list_ex_iff every_column)

lemma on_table_run: "statement (mw_tables w table) = Inr t \<Longrightarrow>
    on_table table statement w = (Inr (), w\<lparr>mw_tables := (mw_tables w)(table := t)\<rparr>)"
  by (simp add: on_table_def)

lemma set_cells_map: "set_cells (map g COLUMN_NAMES) r = r\<lparr>pr_cells := g\<rparr>"
proof -
  have "the (map_of (zip COLUMN_NAMES (map g COLUMN_NAMES)) c) = g c" for c
    by (cases c) (simp_all add: COLUMN_NAMES_def)
  then show ?thesis by (simp add: set_cells_def)
qed

lemma rewrite_row_run:
  assumes "\<And>c. convert row c = Inr (g c)" "pt_append_only (mw_tables w table) \<noteq> Some True" "pt_checks (mw_tables w table) = []"
    and "row \<in> set (pt_rows (mw_tables w table))" "distinct (map pr_id (pt_rows (mw_tables w table)))"
    and "cells_fit (pt_widths (mw_tables w table)) (row\<lparr>pr_cells := g\<rparr>)"
  shows "rewrite_row table convert row w = (Inr (), w\<lparr>mw_tables := (mw_tables w)(table := (mw_tables w table)\<lparr>pt_rows :=
    map (\<lambda>r. if r = row then r\<lparr>pr_cells := g\<rparr> else r) (pt_rows (mw_tables w table))\<rparr>)\<rparr>)"
proof -
  let ?t = "mw_tables w table"
  have same: "r = row" if "r \<in> set (pt_rows ?t)" "pr_id r = pr_id row" for r
    using assms(4,5) that by (simp add: distinct_map inj_on_def)
  have conv: "map_throwing (convert row) COLUMN_NAMES = Inr (map g COLUMN_NAMES)"
    using assms(1) by (intro map_throwing_all) simp
  have "\<forall>r \<in> set (pt_rows ?t). pr_id r = pr_id row \<longrightarrow> cells_fit (pt_widths ?t) (r\<lparr>pr_cells := g\<rparr>)"
    using same assms(6) by blast
  moreover have "map (\<lambda>r. if pr_id r = pr_id row then r\<lparr>pr_cells := g\<rparr> else r) (pt_rows ?t) =
      map (\<lambda>r. if r = row then r\<lparr>pr_cells := g\<rparr> else r) (pt_rows ?t)"
    using same by auto
  ultimately have "update_rows (\<lambda>r. pr_id r = pr_id row) (set_cells (map g COLUMN_NAMES)) ?t =
      Inr (?t\<lparr>pt_rows := map (\<lambda>r. if r = row then r\<lparr>pr_cells := g\<rparr> else r) (pt_rows ?t)\<rparr>)"
    using assms(2,3) by (simp add: update_rows_def Let_def set_cells_map list_all_iff cong: if_cong)
  then show ?thesis by (simp add: rewrite_row_def bnd_lift_result conv on_table_run)
qed

lemma rewrite_rows_run:
  assumes "\<And>row c. row \<in> set todo \<Longrightarrow> convert row c = Inr (g row c)" "mw_tables w table = t"
    and "pt_append_only t \<noteq> Some True" "pt_checks t = []" "set todo \<subseteq> set (pt_rows t)" "distinct todo" "distinct (map pr_id (pt_rows t))"
    and "\<And>row. row \<in> set todo \<Longrightarrow> cells_fit (pt_widths t) (row\<lparr>pr_cells := g row\<rparr>)"
  shows "for_each todo (rewrite_row table convert) w = (Inr (), w\<lparr>mw_tables := (mw_tables w)(table := t\<lparr>pt_rows :=
    map (\<lambda>r. if r \<in> set todo then r\<lparr>pr_cells := g r\<rparr> else r) (pt_rows t)\<rparr>)\<rparr>)"
  using assms
proof (induction todo arbitrary: w t)
  case Nil
  then show ?case by (auto simp: ret_def fun_upd_idem)
next
  case (Cons row todo)
  let ?f = "\<lambda>r. if r = row then r\<lparr>pr_cells := g row\<rparr> else r"
  let ?t = "t\<lparr>pt_rows := map ?f (pt_rows t)\<rparr>"
  let ?w = "w\<lparr>mw_tables := (mw_tables w)(table := ?t)\<rparr>"
  have ids: "pr_id (?f r) = pr_id r" for r by simp
  have row: "rewrite_row table convert row w = (Inr (), ?w)"
    using rewrite_row_run [of convert row "g row" w table] Cons.prems by simp
  have apart: "pr_id r \<noteq> pr_id row" if "r \<in> set todo" for r
    using that Cons.prems(5,6,7) by (auto simp: distinct_map inj_on_def)
  have sub: "set todo \<subseteq> set (map ?f (pt_rows t))"
    using Cons.prems(5,6) by (force simp: image_iff)
  define rows where "rows = map (\<lambda>r. if r \<in> set (row # todo) then r\<lparr>pr_cells := g r\<rparr> else r) (pt_rows t)"
  have rows: "map (\<lambda>r. if r \<in> set todo then r\<lparr>pr_cells := g r\<rparr> else r) (map ?f (pt_rows t)) = rows"
    unfolding rows_def using apart Cons.prems(6) by fastforce
  have "for_each todo (rewrite_row table convert) ?w = (Inr (), ?w\<lparr>mw_tables := (mw_tables ?w)(table := ?t\<lparr>pt_rows :=
      map (\<lambda>r. if r \<in> set todo then r\<lparr>pr_cells := g r\<rparr> else r) (pt_rows ?t)\<rparr>)\<rparr>)"
    using Cons.prems sub by (intro Cons.IH) (auto simp: o_def ids cong: map_cong)
  then have "for_each todo (rewrite_row table convert) ?w = (Inr (), w\<lparr>mw_tables := (mw_tables w)(table := t\<lparr>pt_rows := rows\<rparr>)\<rparr>)"
    by (simp add: rows del: map_map)
  moreover have "for_each (row # todo) (rewrite_row table convert) w = for_each todo (rewrite_row table convert) ?w"
    by (simp add: run_bnd row)
  ultimately show ?case unfolding rows_def by (simp only:)
qed

section \<open>What a cell says\<close>

text \<open>The text a cell stands for before the migration: encrypted under the ring, encrypted without a key identifier, or in clear.\<close>

definition logical_value :: "crypto \<Rightarrow> FieldCipher \<Rightarrow> string \<Rightarrow> string \<Rightarrow> string option \<Rightarrow> string + string option" where
  "logical_value C ring legacyDataKey aad cell =
     (case cell of
        None \<Rightarrow> Inr None
      | Some s \<Rightarrow>
          if versioned s then decrypt C ring cell aad
          else if take 7 s = ''enc.v1.'' then map_sum id Some (decryptLegacyV1 C s aad legacyDataKey)
          else Inr (Some s))"

text \<open>Counter mode: a ciphertext is as long as its text. A text of at most 326 bytes then fits 512 characters under any key identifier.\<close>

definition gcm_sizes :: "crypto \<Rightarrow> bool" where
  "gcm_sizes C \<longleftrightarrow> (\<forall>key iv aad plain. length (fst (gcm_seal C key iv aad plain)) = length plain)"

definition readable_cell :: "crypto \<Rightarrow> FieldCipher \<Rightarrow> string \<Rightarrow> string \<Rightarrow> string option \<Rightarrow> bool" where
  "readable_cell C ring legacyDataKey aad cell \<longleftrightarrow>
     (case logical_value C ring legacyDataKey aad cell of
        Inl e \<Rightarrow> False
      | Inr p \<Rightarrow> (case p of None \<Rightarrow> True | Some t \<Rightarrow> length t \<le> 326)) \<and>
     (case cell of None \<Rightarrow> True | Some s \<Rightarrow> char_length s \<le> 512)"

lemma b64url_length: "length (b64url s) = (4 * length s + 2) div 3"
  by (induction s rule: b64url.induct) simp_all

lemma b64url_ascii: "is_b64url c \<Longrightarrow> is_ascii c" "is_ascii CHR ''.''" "list_all is_ascii PREFIX"
  by (auto simp: is_b64url_def PREFIX_def dest: plain_ascii) (simp_all add: is_ascii_def)

lemma encrypted_text:
  assumes "gcm_ok C" "gcm_sizes C" "useKeyRing cur keys = Inr ring" "length iv = IV_BYTES"
  shows "\<exists>s. encrypt C ring iv (Some plain) aad = Inr (Some s) \<and> versioned s \<and> decrypt C ring (Some s) aad = Inr (Some plain) \<and>
    length s = 8 + length cur + (4 * length plain + 114) div 3 \<and> list_all is_ascii s"
proof -
  note R = ring_installed [OF assms(3)]
  obtain key where key: "map_of keys cur = Some key" using R(3) by blast
  obtain c tag where seal: "gcm_seal C key iv aad plain = (c, tag)" by (cases "gcm_seal C key iv aad plain")
  define s where "s = PREFIX @ ''.'' @ cur @ ''.'' @ b64url (iv @ tag @ c)"
  note form = stored_form [OF assms(1,3) key seal assms(4) s_def]
  have open_ok: "gcm_open C key iv aad tag c = Some plain" using assms(1) seal by (simp add: gcm_ok_def)
  have "length tag = 16" "length c = length plain"
    using assms(1,2) seal unfolding gcm_ok_def gcm_sizes_def by (metis snd_conv, metis fst_conv)
  then have "length s = 8 + length cur + (4 * length plain + 114) div 3"
    using assms(4) by (simp add: s_def PREFIX_def b64url_length IV_BYTES_def)
  moreover have "list_all is_ascii cur" "list_all is_ascii (b64url (iv @ tag @ c))"
    using R(2) b64url_class(1) [of "iv @ tag @ c"] by (auto simp: KEY_ID_PATTERN_def list_all_iff b64url_ascii(1))
  then have "list_all is_ascii s" using b64url_ascii(2,3) by (simp add: s_def)
  moreover have "decrypt C ring (Some s) aad = Inr (Some plain)"
    using form(3) [OF assms(3) key, of aad] open_ok by simp
  ultimately show ?thesis using form(1,2) by (auto simp: versioned_def)
qed

lemma converted_cell:
  assumes "gcm_ok C" "gcm_sizes C" "useKeyRing cur keys = Inr ring" "length iv = IV_BYTES" "readable_cell C ring legacyDataKey aad cell"
  shows "\<exists>v. convert_cell C ring legacyDataKey iv aad cell = Inr v \<and> decrypt C ring v aad = logical_value C ring legacyDataKey aad cell \<and>
    (case v of None \<Rightarrow> cell = None | Some s \<Rightarrow> cell \<noteq> None \<and> versioned s \<and> char_length s \<le> 512)"
proof (cases cell)
  case None
  then show ?thesis by (simp add: convert_cell_def logical_value_def decrypt_def)
next
  case (Some s)
  show ?thesis
  proof (cases "versioned s")
    case True
    then show ?thesis using Some assms(5) by (simp add: convert_cell_def logical_value_def readable_cell_def)
  next
    case False
    then obtain clear where clear: "(if take 7 s = ''enc.v1.'' then decryptLegacyV1 C s aad legacyDataKey else Inr s) = Inr clear"
      "logical_value C ring legacyDataKey aad cell = Inr (Some clear)" "length clear \<le> 326"
      using Some assms(5)
      by (cases "decryptLegacyV1 C s aad legacyDataKey") (auto simp: readable_cell_def logical_value_def split: if_splits)
    obtain e where e: "encrypt C ring iv (Some clear) aad = Inr (Some e)" "versioned e" "decrypt C ring (Some e) aad = Inr (Some clear)"
      "length e = 8 + length cur + (4 * length clear + 114) div 3"
      using encrypted_text [OF assms(1-4)] by blast
    have "length cur \<le> 32" using ring_installed(2) [OF assms(3)] by (simp add: KEY_ID_PATTERN_def)
    then have "char_length e \<le> 512" using e(4) clear(3) char_length_le [of e] by linarith
    then show ?thesis using e clear False Some by (simp add: convert_cell_def)
  qed
qed

section \<open>Whole tables\<close>

definition readable_row :: "crypto \<Rightarrow> FieldCipher \<Rightarrow> string \<Rightarrow> party_table_name \<Rightarrow> PartyRow \<Rightarrow> bool" where
  "readable_row C ring legacyDataKey table r \<longleftrightarrow>
     list_all (\<lambda>c. readable_cell C ring legacyDataKey (context_of table c) (pr_cells r c)) COLUMN_NAMES"

definition logical_cells :: "crypto \<Rightarrow> FieldCipher \<Rightarrow> string \<Rightarrow> party_table_name \<Rightarrow> PartyRow \<Rightarrow> party_column \<Rightarrow> string option" where
  "logical_cells C ring legacyDataKey table r c = projr (logical_value C ring legacyDataKey (context_of table c) (pr_cells r c))"

text \<open>The cells after the conversion.\<close>

definition converted_cells ::
  "crypto \<Rightarrow> FieldCipher \<Rightarrow> (party_table_name \<Rightarrow> string \<Rightarrow> party_column \<Rightarrow> string) \<Rightarrow> string \<Rightarrow> party_table_name \<Rightarrow> PartyRow \<Rightarrow>
   party_column \<Rightarrow> string option" where
  "converted_cells C ring ivs legacyDataKey table r c =
     projr (convert_cell C ring legacyDataKey (ivs table (pr_id r) c) (context_of table c) (pr_cells r c))"

lemma cells_fitI: "(\<And>c s. pr_cells r c = Some s \<Longrightarrow> char_length s \<le> widths c) \<Longrightarrow> cells_fit widths r"
  by (auto simp: cells_fit_def split: option.splits)

lemma cells_of_version [simp]:
  "converted_cells C ring ivs k table (r\<lparr>pr_encryption_version := v\<rparr>) = converted_cells C ring ivs k table r"
  "logical_cells C ring k table (r\<lparr>pr_encryption_version := v\<rparr>) = logical_cells C ring k table r"
  "readable_row C ring k table (r\<lparr>pr_encryption_version := v\<rparr>) = readable_row C ring k table r"
  "cells_fit widths (r\<lparr>pr_encryption_version := v\<rparr>) = cells_fit widths r"
  by (auto simp: converted_cells_def logical_cells_def readable_row_def cells_fit_def fun_eq_iff)

lemma converted_row:
  assumes "gcm_ok C" "gcm_sizes C" "useKeyRing cur keys = Inr ring" "\<And>t i c. length (ivs t i c) = IV_BYTES"
    and "readable_row C ring k table r"
  shows "convert_cell C ring k (ivs table (pr_id r) c) (context_of table c) (pr_cells r c) = Inr (converted_cells C ring ivs k table r c)"
    "decrypt C ring (converted_cells C ring ivs k table r c) (context_of table c) = Inr (logical_cells C ring k table r c)"
    "pr_cells r c = None \<longleftrightarrow> converted_cells C ring ivs k table r c = None"
    "check_holds (Check_encrypted c) (r\<lparr>pr_cells := converted_cells C ring ivs k table r\<rparr>)"
    "cells_fit (\<lambda>_. 512) (r\<lparr>pr_cells := converted_cells C ring ivs k table r\<rparr>)"
    "cells_fit (\<lambda>_. 512) (r\<lparr>pr_cells := logical_cells C ring k table r\<rparr>)"
    "logical_value C ring k (context_of table c) (pr_cells r c) = Inr (logical_cells C ring k table r c)"
proof -
  have cell: "readable_cell C ring k (context_of table c) (pr_cells r c)" for c using assms(5) by (simp add: readable_row_def)
  have logical: "logical_value C ring k (context_of table c) (pr_cells r c) = Inr (logical_cells C ring k table r c)"
    "case logical_cells C ring k table r c of None \<Rightarrow> True | Some t \<Rightarrow> length t \<le> 326" for c
    using cell [of c] by (auto simp: readable_cell_def logical_cells_def split: sum.splits)
  show "logical_value C ring k (context_of table c) (pr_cells r c) = Inr (logical_cells C ring k table r c)" by (rule logical(1))
  have step: "convert_cell C ring k (ivs table (pr_id r) c) (context_of table c) (pr_cells r c) = Inr (converted_cells C ring ivs k table r c) \<and>
    decrypt C ring (converted_cells C ring ivs k table r c) (context_of table c) = Inr (logical_cells C ring k table r c) \<and>
    (case converted_cells C ring ivs k table r c of None \<Rightarrow> pr_cells r c = None
      | Some s \<Rightarrow> pr_cells r c \<noteq> None \<and> versioned s \<and> char_length s \<le> 512)" for c
    using converted_cell [OF assms(1-4) cell [of c], of table "pr_id r" c] unfolding logical(1) by (auto simp: converted_cells_def)
  show "convert_cell C ring k (ivs table (pr_id r) c) (context_of table c) (pr_cells r c) = Inr (converted_cells C ring ivs k table r c)"
    "decrypt C ring (converted_cells C ring ivs k table r c) (context_of table c) = Inr (logical_cells C ring k table r c)"
    using step by blast+
  show "pr_cells r c = None \<longleftrightarrow> converted_cells C ring ivs k table r c = None"
    "check_holds (Check_encrypted c) (r\<lparr>pr_cells := converted_cells C ring ivs k table r\<rparr>)"
    using step [of c] by (auto split: option.splits)
  show "cells_fit (\<lambda>_. 512) (r\<lparr>pr_cells := converted_cells C ring ivs k table r\<rparr>)"
  proof (rule cells_fitI)
    fix c s assume "pr_cells (r\<lparr>pr_cells := converted_cells C ring ivs k table r\<rparr>) c = Some s"
    then show "char_length s \<le> 512" using step [of c] by simp
  qed
  show "cells_fit (\<lambda>_. 512) (r\<lparr>pr_cells := logical_cells C ring k table r\<rparr>)"
  proof (rule cells_fitI)
    fix c s assume "pr_cells (r\<lparr>pr_cells := logical_cells C ring k table r\<rparr>) c = Some s"
    then show "char_length s \<le> 512" using logical(2) [of c] char_length_le [of s] by simp
  qed
qed

lemma encrypt_table_run:
  assumes "gcm_ok C" "gcm_sizes C" "useKeyRing cur keys = Inr ring" "\<And>t i c. length (ivs t i c) = IV_BYTES"
    and "mw_tables w table = t" "mw_cipher w = ring" "pt_append_only t \<noteq> Some True" "pt_checks t = []" "pt_widths t = (\<lambda>_. 512)"
    and "distinct (map pr_id (pt_rows t))" "\<And>r. r \<in> set (pt_rows t) \<Longrightarrow> readable_row C ring k table r"
  shows "encryptLegacyRows C ivs k table w = (Inr (), w\<lparr>mw_tables := (mw_tables w)(table := t\<lparr>pt_rows :=
    map (\<lambda>r. r\<lparr>pr_cells := converted_cells C ring ivs k table r, pr_encryption_version := Some 1\<rparr>) (pt_rows t)\<rparr>)\<rparr>)"
proof -
  let ?g = "converted_cells C ring ivs k table" and ?todo = "filter has_party (pt_rows t)"
  note row = converted_row [OF assms(1-4) assms(11)]
  let ?rows = "map (\<lambda>r. r\<lparr>pr_cells := ?g r\<rparr>) (pt_rows t)"
  let ?w = "w\<lparr>mw_tables := (mw_tables w)(table := t\<lparr>pt_rows := ?rows\<rparr>)\<rparr>"
  have "for_each ?todo (rewrite_row table (\<lambda>row c. convert_cell C ring k (ivs table (pr_id row) c) (context_of table c) (pr_cells row c))) w =
    (Inr (), w\<lparr>mw_tables := (mw_tables w)(table := t\<lparr>pt_rows := map (\<lambda>r. if r \<in> set ?todo then r\<lparr>pr_cells := ?g r\<rparr> else r) (pt_rows t)\<rparr>)\<rparr>)"
    using assms(5,7-10) row(1,5) by (intro rewrite_rows_run) (auto simp: distinct_map)
  moreover have "map (\<lambda>r. if r \<in> set ?todo then r\<lparr>pr_cells := ?g r\<rparr> else r) (pt_rows t) = ?rows"
  proof (rule map_cong [OF refl])
    fix r assume r: "r \<in> set (pt_rows t)"
    have "?g r = pr_cells r" if "\<not> has_party r" using row(3) [OF r] that by (auto simp: has_party_def fun_eq_iff)
    then show "(if r \<in> set ?todo then r\<lparr>pr_cells := ?g r\<rparr> else r) = r\<lparr>pr_cells := ?g r\<rparr>" using r by simp
  qed
  ultimately have loop: "for_each ?todo (rewrite_row table (\<lambda>row c.
      convert_cell C ring k (ivs table (pr_id row) c) (context_of table c) (pr_cells row c))) w = (Inr (), ?w)" by (simp only:)
  have "update_rows (\<lambda>_. True) (\<lambda>r. r\<lparr>pr_encryption_version := Some 1\<rparr>) (t\<lparr>pt_rows := ?rows\<rparr>) =
      Inr (t\<lparr>pt_rows := map (\<lambda>r. r\<lparr>pr_encryption_version := Some 1\<rparr>) ?rows\<rparr>)"
    using assms(7-9) row(5) by (simp add: update_rows_def list_all_iff)
  then have "on_table table (update_rows (\<lambda>_. True) (\<lambda>r. r\<lparr>pr_encryption_version := Some 1\<rparr>)) ?w =
      (Inr (), ?w\<lparr>mw_tables := (mw_tables ?w)(table := t\<lparr>pt_rows := map (\<lambda>r. r\<lparr>pr_encryption_version := Some 1\<rparr>) ?rows\<rparr>)\<rparr>)"
    by (intro on_table_run) simp
  then show ?thesis using assms(5,6) loop by (simp add: encryptLegacyRows_def run_bnd run_action o_def)
qed

lemma decrypt_table_run:
  assumes "\<And>r c. r \<in> set (pt_rows t) \<Longrightarrow> decrypt C ring (pr_cells r c) (context_of table c) = Inr (g r c)"
    and "mw_tables w table = t" "mw_cipher w = ring" "pt_append_only t \<noteq> Some True" "pt_checks t = []" "distinct (map pr_id (pt_rows t))"
    and "\<And>r. r \<in> set (pt_rows t) \<Longrightarrow> cells_fit (pt_widths t) (r\<lparr>pr_cells := g r\<rparr>)"
  shows "decryptRows C table w = (Inr (), w\<lparr>mw_tables := (mw_tables w)(table := t\<lparr>pt_rows :=
    map (\<lambda>r. r\<lparr>pr_cells := g r\<rparr>) (pt_rows t)\<rparr>)\<rparr>)"
proof -
  have "for_each (pt_rows t) (rewrite_row table (\<lambda>row c. decrypt C ring (pr_cells row c) (context_of table c))) w =
    (Inr (), w\<lparr>mw_tables := (mw_tables w)(table := t\<lparr>pt_rows :=
      map (\<lambda>r. if r \<in> set (pt_rows t) then r\<lparr>pr_cells := g r\<rparr> else r) (pt_rows t)\<rparr>)\<rparr>)"
    using assms by (intro rewrite_rows_run) (auto simp: distinct_map)
  moreover have "map (\<lambda>r. if r \<in> set (pt_rows t) then r\<lparr>pr_cells := g r\<rparr> else r) (pt_rows t) = map (\<lambda>r. r\<lparr>pr_cells := g r\<rparr>) (pt_rows t)"
    by simp
  ultimately show ?thesis using assms(2,3) by (simp add: decryptRows_def run_bnd run_action)
qed

section \<open>The two tables\<close>

definition world_of :: "party_table \<Rightarrow> party_table \<Rightarrow> FieldCipher \<Rightarrow> migration_world" where
  "world_of A B ring = \<lparr>mw_tables = case_party_table_name A B, mw_cipher = ring\<rparr>"

lemma world_eta: "w = world_of (mw_tables w Transactions) (mw_tables w Transaction_events) (mw_cipher w)"
proof -
  have "mw_tables w = case_party_table_name (mw_tables w Transactions) (mw_tables w Transaction_events)"
    by (rule ext) (simp split: party_table_name.split)
  then show ?thesis by (simp add: world_of_def)
qed

lemma world_of_simps [simp]:
  "mw_tables (world_of A B ring) Transactions = A" "mw_tables (world_of A B ring) Transaction_events = B"
  "mw_cipher (world_of A B ring) = ring"
  "world_of A B ring\<lparr>mw_tables := (mw_tables (world_of A B ring))(Transactions := A')\<rparr> = world_of A' B ring"
  "world_of A B ring\<lparr>mw_tables := (mw_tables (world_of A B ring))(Transaction_events := B')\<rparr> = world_of A B' ring"
  "world_of A B ring\<lparr>mw_cipher := ring'\<rparr> = world_of A B ring'"
proof -
  have "(case_party_table_name A B)(Transactions := A') = case_party_table_name A' B"
    "(case_party_table_name A B)(Transaction_events := B') = case_party_table_name A B'"
    by (auto simp: fun_eq_iff split: party_table_name.split)
  then show "world_of A B ring\<lparr>mw_tables := (mw_tables (world_of A B ring))(Transactions := A')\<rparr> = world_of A' B ring"
    "world_of A B ring\<lparr>mw_tables := (mw_tables (world_of A B ring))(Transaction_events := B')\<rparr> = world_of A B' ring"
    by (simp_all add: world_of_def)
qed (simp_all add: world_of_def)

lemma on_table_world [simp]:
  "on_table Transactions st (world_of A B ring) = (case st A of Inl e \<Rightarrow> (Inl e, world_of A B ring) | Inr A' \<Rightarrow> (Inr (), world_of A' B ring))"
  "on_table Transaction_events st (world_of A B ring) = (case st B of Inl e \<Rightarrow> (Inl e, world_of A B ring) | Inr B' \<Rightarrow> (Inr (), world_of A B' ring))"
  by (simp_all add: on_table_def split: sum.split)

lemma steps_run: "steps [] w = (Inr (), w)" "m w = (Inr (), w') \<Longrightarrow> steps (m # ms) w = steps ms w'"
  by (simp_all add: steps_def run_bnd run_action)

lemma for_each_run: "for_each [] f w = (Inr (), w)" "f x w = (Inr (), w') \<Longrightarrow> for_each (x # xs) f w = for_each xs f w'"
  by (simp_all add: run_bnd run_action)

lemma add_checks_run:
  assumes "\<And>c. list_all (check_holds (Check_encrypted c)) (pt_rows A)" "\<And>c. list_all (check_holds (Check_encrypted c)) (pt_rows B)"
    and "pt_checks A = []" "pt_checks B = []"
  shows "for_each COLUMNS (\<lambda>(table, column). on_table table (add_check (Check_encrypted column))) (world_of A B ring) =
    (Inr (), world_of (A\<lparr>pt_checks := map Check_encrypted COLUMN_NAMES\<rparr>) (B\<lparr>pt_checks := map Check_encrypted COLUMN_NAMES\<rparr>) ring)"
  unfolding COLUMNS_def using assms
  by (simp add: COLUMN_NAMES_def for_each_run add_check_def del: for_each.simps check_holds.simps)

lemma drop_checks_run:
  assumes "pt_checks A = map Check_encrypted COLUMN_NAMES" "pt_checks B = map Check_encrypted COLUMN_NAMES"
  shows "for_each (rev COLUMNS) (\<lambda>(table, column). on_table table (drop_check (Check_encrypted column))) (world_of A B ring) =
    (Inr (), world_of (A\<lparr>pt_checks := []\<rparr>) (B\<lparr>pt_checks := []\<rparr>) ring)"
  unfolding COLUMNS_def using assms by (simp add: COLUMN_NAMES_def for_each_run drop_check_def del: for_each.simps)

lemma map_sum_Inr: "map_sum id f x = Inr y \<Longrightarrow> \<exists>z. x = Inr z \<and> y = f z"
  by (cases x) auto

lemma installed_ring:
  assumes "installKey C env = Inr (ring, k)"
  shows "\<exists>cur keys. useKeyRing cur keys = Inr ring" "\<exists>S. security_config env = Inr S \<and> install_key_ring C S = Inr ring"
proof -
  let ?salt = "env_or env ''SECURITY_KEY_SALT'' DEFAULT_SECURITY_KEY_SALT"
  let ?cur = "env_or env ''SECURITY_CURRENT_KEY_ID'' LOCAL_SECURITY_KEY_ID"
  obtain current previous keys where *: "derive_key C ?salt (?cur, env_or env ''SECURITY_MASTER_KEY'' LOCAL_SECURITY_MASTER_KEY) = Inr current"
    "parsePreviousKeys (env_or env ''SECURITY_PREVIOUS_KEYS'' []) = Inr previous"
    "map_throwing (derive_key C ?salt) previous = Inr keys" "useKeyRing ?cur (fold (\<lambda>(k, v). AList.update k v) (current # keys) []) = Inr ring"
    using assms by (auto simp: installKey_def Let_def split: sum.splits dest!: map_sum_Inr)
  then show "\<exists>cur keys. useKeyRing cur keys = Inr ring" by blast
  show "\<exists>S. security_config env = Inr S \<and> install_key_ring C S = Inr ring"
    using * by (simp add: security_config_def install_key_ring_def getDataEncryptionKeyRing_def)
qed

section \<open>Properties\<close>

text \<open>
  The tables as the first migration leaves them: the columns widened, no constraint on the cells, no column
  \<^verbatim>\<open>encryption_version\<close>, and the register append-only.
\<close>

definition before_encryption :: "(party_table_name \<Rightarrow> party_table) \<Rightarrow> bool" where
  "before_encryption T \<longleftrightarrow> pt_append_only (T Transactions) = None \<and> pt_append_only (T Transaction_events) = Some True \<and>
     (\<forall>t. pt_checks (T t) = [] \<and> pt_version_default (T t) = None \<and> pt_widths (T t) = (\<lambda>_. 512) \<and> distinct (map pr_id (pt_rows (T t))) \<and>
        (\<forall>r \<in> set (pt_rows (T t)). pr_encryption_version r = None))"

lemma all_tables: "(\<forall>t. P t) \<longleftrightarrow> P Transactions \<and> P Transaction_events"
  by (metis party_table_name.exhaust)

lemma before_tables:
  assumes "before_encryption (case_party_table_name A B)"
  shows "pt_append_only A = None" "pt_append_only B = Some True"
    "pt_checks A = []" "pt_version_default A = None" "pt_widths A = (\<lambda>_. 512)" "distinct (map pr_id (pt_rows A))"
    "pt_checks B = []" "pt_version_default B = None" "pt_widths B = (\<lambda>_. 512)" "distinct (map pr_id (pt_rows B))"
    "\<forall>r \<in> set (pt_rows A). pr_encryption_version r = None" "\<forall>r \<in> set (pt_rows B). pr_encryption_version r = None"
  using assms by (simp_all add: before_encryption_def all_tables)

definition enforced_table ::
  "crypto \<Rightarrow> FieldCipher \<Rightarrow> (party_table_name \<Rightarrow> string \<Rightarrow> party_column \<Rightarrow> string) \<Rightarrow> string \<Rightarrow> party_table_name \<Rightarrow> party_table \<Rightarrow> party_table" where
  "enforced_table C ring ivs k table t = t\<lparr>
     pt_rows := map (\<lambda>r. r\<lparr>pr_cells := converted_cells C ring ivs k table r, pr_encryption_version := Some 1\<rparr>) (pt_rows t),
     pt_checks := map Check_encrypted COLUMN_NAMES @ [Check_version], pt_version_default := Some 1\<rparr>"

lemma with_keys_run:
  assumes "installKey C env = Inr (ring, k)" "body k (world_of A B ring) = (Inr (), world_of A' B' ring)"
  shows "with_keys C env body (world_of A B ring0) = (Inr (), world_of A' B' forgetKey)"
  using assms by (simp add: with_keys_def run_bnd run_action finally_do_def)

lemma enforce_up_run:
  assumes "gcm_ok C" "gcm_sizes C" "installKey C env = Inr (ring, k)" "\<And>t i c. length (ivs t i c) = IV_BYTES"
    and "before_encryption (case_party_table_name A B)"
    and "\<And>r. r \<in> set (pt_rows A) \<Longrightarrow> readable_row C ring k Transactions r"
    and "\<And>r. r \<in> set (pt_rows B) \<Longrightarrow> readable_row C ring k Transaction_events r"
  shows "enforce_up C ivs env (world_of A B ring0) =
    (Inr (), world_of (enforced_table C ring ivs k Transactions A) (enforced_table C ring ivs k Transaction_events B) forgetKey)"
proof -
  obtain cur keys where ring: "useKeyRing cur keys = Inr ring" using installed_ring(1) [OF assms(3)] by blast
  note before = before_tables(1,2) [OF assms(5)] and schema = before_tables(3-12) [OF assms(5)]
  let ?v = "\<lambda>t. t\<lparr>pt_version_default := Some 0, pt_rows := map (\<lambda>r. r\<lparr>pr_encryption_version := Some 0\<rparr>) (pt_rows t)\<rparr>"
  let ?e = "\<lambda>table t. t\<lparr>pt_rows := map (\<lambda>r. r\<lparr>pr_cells := converted_cells C ring ivs k table r, pr_encryption_version := Some 1\<rparr>) (pt_rows t)\<rparr>"
  let ?B = "(?v B)\<lparr>pt_append_only := Some False\<rparr>" and ?A = "?v A"
  have encA: "encryptLegacyRows C ivs k Transactions (world_of ?A (?v B) ring) = (Inr (), world_of (?e Transactions ?A) (?v B) ring)"
    by (rule encrypt_table_run [OF assms(1,2) ring assms(4), of "world_of ?A (?v B) ring" Transactions ?A k, unfolded world_of_simps])
      (use schema before(1) assms(6) in \<open>auto simp: o_def\<close>)
  have encB: "encryptLegacyRows C ivs k Transaction_events (world_of A' ?B ring) = (Inr (), world_of A' (?e Transaction_events ?B) ring)" for A'
    by (rule encrypt_table_run [OF assms(1,2) ring assms(4), of "world_of A' ?B ring" Transaction_events ?B k, unfolded world_of_simps])
      (use schema assms(7) in \<open>auto simp: o_def\<close>)
  let ?A3 = "?e Transactions ?A" and ?B3 = "(?e Transaction_events ?B)\<lparr>pt_append_only := Some True\<rparr>"
  have holds: "list_all (check_holds (Check_encrypted c)) (pt_rows ?A3)" "list_all (check_holds (Check_encrypted c)) (pt_rows ?B3)" for c
    using converted_row(4) [OF assms(1,2) ring assms(4)] assms(6,7) by (auto simp: list_all_iff)
  have checks: "for_each COLUMNS (\<lambda>(table, column). on_table table (add_check (Check_encrypted column))) (world_of ?A3 ?B3 ring) =
    (Inr (), world_of (?A3\<lparr>pt_checks := map Check_encrypted COLUMN_NAMES\<rparr>) (?B3\<lparr>pt_checks := map Check_encrypted COLUMN_NAMES\<rparr>) ring)"
    by (rule add_checks_run) (use holds schema in simp_all)
  let ?A4 = "?A3\<lparr>pt_checks := map Check_encrypted COLUMN_NAMES\<rparr>" and ?B4 = "?B3\<lparr>pt_checks := map Check_encrypted COLUMN_NAMES\<rparr>"
  have versions: "for_each [Transactions, Transaction_events] (\<lambda>table.
      steps [on_table table (set_version_default 1), on_table table (add_check Check_version)]) (world_of ?A4 ?B4 ring) =
    (Inr (), world_of (enforced_table C ring ivs k Transactions A) (enforced_table C ring ivs k Transaction_events B) ring)"
    using before(2) by (cases A; cases B)
      (simp add: for_each_run steps_run set_version_default_def add_check_def list_all_iff enforced_table_def o_def image_iff del: for_each.simps)
  have columns: "on_table Transactions add_version_column (world_of A B ring) = (Inr (), world_of ?A B ring)"
    "on_table Transaction_events add_version_column (world_of ?A B ring) = (Inr (), world_of ?A (?v B) ring)"
    using schema by (simp_all add: add_version_column_def)
  have triggers: "on_table Transaction_events (set_trigger False) (world_of ?A3 (?v B) ring) = (Inr (), world_of ?A3 ?B ring)"
    "on_table Transaction_events (set_trigger True) (world_of ?A3 (?e Transaction_events ?B) ring) = (Inr (), world_of ?A3 ?B3 ring)"
    using before by (simp_all add: set_trigger_def)
  have "steps
       [on_table Transactions add_version_column, on_table Transaction_events add_version_column,
        encryptLegacyRows C ivs k Transactions, on_table Transaction_events (set_trigger False),
        encryptLegacyRows C ivs k Transaction_events, on_table Transaction_events (set_trigger True),
        for_each COLUMNS (\<lambda>(table, column). on_table table (add_check (Check_encrypted column))),
        for_each [Transactions, Transaction_events] (\<lambda>table.
          steps [on_table table (set_version_default 1), on_table table (add_check Check_version)])] (world_of A B ring) =
    (Inr (), world_of (enforced_table C ring ivs k Transactions A) (enforced_table C ring ivs k Transaction_events B) ring)"
    by (simp only: steps_run columns triggers encA encB checks versions)
  then show ?thesis unfolding enforce_up_def by (rule with_keys_run [OF assms(3)])
qed

definition cleared_table :: "crypto \<Rightarrow> FieldCipher \<Rightarrow> string \<Rightarrow> party_table_name \<Rightarrow> party_table \<Rightarrow> party_table" where
  "cleared_table C ring k table t =
     t\<lparr>pt_rows := map (\<lambda>r. r\<lparr>pr_cells := logical_cells C ring k table r\<rparr>) (pt_rows t)\<rparr>"

lemma decrypt_enforced:
  assumes "gcm_ok C" "gcm_sizes C" "useKeyRing cur keys = Inr ring" "\<And>t i c. length (ivs t i c) = IV_BYTES"
    and "\<And>r. r \<in> set (pt_rows t) \<Longrightarrow> readable_row C ring k table r" "pt_widths t = (\<lambda>_. 512)" "distinct (map pr_id (pt_rows t))"
    and "pt_append_only t' \<noteq> Some True" "pt_checks t' = []" "pt_widths t' = pt_widths t"
    and "pt_rows t' = map (\<lambda>r. r\<lparr>pr_cells := converted_cells C ring ivs k table r, pr_encryption_version := Some 1\<rparr>) (pt_rows t)"
    and "mw_tables w table = t'" "mw_cipher w = ring"
  shows "decryptRows C table w = (Inr (), w\<lparr>mw_tables := (mw_tables w)(table := t'\<lparr>pt_rows :=
    map (\<lambda>r. r\<lparr>pr_cells := logical_cells C ring k table r, pr_encryption_version := Some 1\<rparr>) (pt_rows t)\<rparr>)\<rparr>)"
proof -
  let ?g = "\<lambda>r c. projr (decrypt C ring (pr_cells r c) (context_of table c))"
  note row = converted_row [OF assms(1-4) assms(5)]
  have g: "?g (r\<lparr>pr_cells := converted_cells C ring ivs k table r, pr_encryption_version := Some 1\<rparr>) = logical_cells C ring k table r"
    if "r \<in> set (pt_rows t)" for r using row(2) [OF that] by simp
  have "decryptRows C table w = (Inr (), w\<lparr>mw_tables := (mw_tables w)(table := t'\<lparr>pt_rows := map (\<lambda>r. r\<lparr>pr_cells := ?g r\<rparr>) (pt_rows t')\<rparr>)\<rparr>)"
    by (rule decrypt_table_run [where ring = ring])
      (use assms(6-13) row(2,6) in \<open>auto simp: o_def cells_fit_def\<close>)
  moreover have "map (\<lambda>r. r\<lparr>pr_cells := ?g r\<rparr>) (pt_rows t') =
      map (\<lambda>r. r\<lparr>pr_cells := logical_cells C ring k table r, pr_encryption_version := Some 1\<rparr>) (pt_rows t)"
    using g unfolding assms(11) by simp
  ultimately show ?thesis by simp
qed

lemma enforce_down_run:
  assumes "gcm_ok C" "gcm_sizes C" "installKey C env = Inr (ring, k)" "\<And>t i c. length (ivs t i c) = IV_BYTES"
    and "before_encryption (case_party_table_name A B)"
    and "\<And>r. r \<in> set (pt_rows A) \<Longrightarrow> readable_row C ring k Transactions r"
    and "\<And>r. r \<in> set (pt_rows B) \<Longrightarrow> readable_row C ring k Transaction_events r"
  shows "enforce_down C env (world_of (enforced_table C ring ivs k Transactions A) (enforced_table C ring ivs k Transaction_events B) ring0) =
    (Inr (), world_of (cleared_table C ring k Transactions A) (cleared_table C ring k Transaction_events B) forgetKey)"
proof -
  obtain cur keys where ring: "useKeyRing cur keys = Inr ring" using installed_ring(1) [OF assms(3)] by blast
  note before = before_tables(1,2) [OF assms(5)] and schema = before_tables(3-12) [OF assms(5)]
  let ?A = "enforced_table C ring ivs k Transactions A" and ?B = "enforced_table C ring ivs k Transaction_events B"
  let ?enc = "map Check_encrypted COLUMN_NAMES"
  let ?l = "\<lambda>table t t'. t'\<lparr>pt_rows := map (\<lambda>r. r\<lparr>pr_cells := logical_cells C ring k table r, pr_encryption_version := Some 1\<rparr>) (pt_rows t)\<rparr>"
  have versions: "for_each [Transaction_events, Transactions] (\<lambda>table. on_table table (drop_check Check_version)) (world_of ?A ?B ring) =
      (Inr (), world_of (?A\<lparr>pt_checks := ?enc\<rparr>) (?B\<lparr>pt_checks := ?enc\<rparr>) ring)"
    by (simp add: for_each_run drop_check_def enforced_table_def removeAll_id image_iff del: for_each.simps)
  let ?A1 = "?A\<lparr>pt_checks := []\<rparr>" and ?B1 = "?B\<lparr>pt_checks := []\<rparr>"
  have checks: "for_each (rev COLUMNS) (\<lambda>(table, column). on_table table (drop_check (Check_encrypted column)))
      (world_of (?A\<lparr>pt_checks := ?enc\<rparr>) (?B\<lparr>pt_checks := ?enc\<rparr>) ring) = (Inr (), world_of ?A1 ?B1 ring)"
    by (subst drop_checks_run) simp_all
  let ?B2 = "?B1\<lparr>pt_append_only := Some False\<rparr>" and ?A3 = "?l Transactions A ?A1"
  have decA: "decryptRows C Transactions (world_of ?A1 ?B1 ring) = (Inr (), world_of ?A3 ?B1 ring)"
    by (rule decrypt_enforced [where t = A and t' = ?A1 and ivs = ivs and w = "world_of ?A1 ?B1 ring", OF assms(1,2) ring assms(4,6) schema(3,4), unfolded world_of_simps])
      (use before schema in \<open>simp_all add: enforced_table_def\<close>)
  have decB: "decryptRows C Transaction_events (world_of ?A3 ?B2 ring) = (Inr (), world_of ?A3 (?l Transaction_events B ?B2) ring)"
    by (rule decrypt_enforced [where t = B and t' = ?B2 and ivs = ivs and w = "world_of ?A3 ?B2 ring", OF assms(1,2) ring assms(4,7) schema(7,8), unfolded world_of_simps])
      (use before schema in \<open>simp_all add: enforced_table_def\<close>)
  let ?B4 = "(?l Transaction_events B ?B2)\<lparr>pt_append_only := Some True\<rparr>"
  have triggers: "on_table Transaction_events (set_trigger False) (world_of ?A3 ?B1 ring) = (Inr (), world_of ?A3 ?B2 ring)"
    "on_table Transaction_events (set_trigger True) (world_of ?A3 (?l Transaction_events B ?B2) ring) = (Inr (), world_of ?A3 ?B4 ring)"
    using before by (simp_all add: set_trigger_def enforced_table_def)
  have rows: "map (\<lambda>r. r\<lparr>pr_cells := logical_cells C ring k table r, pr_encryption_version := None\<rparr>) (pt_rows t) =
      map (\<lambda>r. r\<lparr>pr_cells := logical_cells C ring k table r\<rparr>) (pt_rows t)"
    if "\<forall>r \<in> set (pt_rows t). pr_encryption_version r = None" for table t
    using that by (auto intro!: PartyRow.equality)
  have columns: "on_table Transaction_events drop_version_column (world_of ?A3 ?B4 ring) = (Inr (), world_of ?A3 (cleared_table C ring k Transaction_events B) ring)"
    "on_table Transactions drop_version_column (world_of ?A3 B' ring) = (Inr (), world_of (cleared_table C ring k Transactions A) B' ring)" for B'
    using before schema rows [OF schema(9)] rows [OF schema(10)]
    by (auto simp: drop_version_column_def enforced_table_def cleared_table_def o_def intro!: party_table.equality arg_cong2 [where f = "\<lambda>a b. world_of a b ring"])
  have "steps
       [for_each [Transaction_events, Transactions] (\<lambda>table. on_table table (drop_check Check_version)),
        for_each (rev COLUMNS) (\<lambda>(table, column). on_table table (drop_check (Check_encrypted column))),
        decryptRows C Transactions, on_table Transaction_events (set_trigger False),
        decryptRows C Transaction_events, on_table Transaction_events (set_trigger True),
        on_table Transaction_events drop_version_column, on_table Transactions drop_version_column] (world_of ?A ?B ring) =
    (Inr (), world_of (cleared_table C ring k Transactions A) (cleared_table C ring k Transaction_events B) ring)"
    by (simp only: steps_run versions checks decA decB triggers columns)
  then show ?thesis unfolding enforce_down_def by (rule with_keys_run [OF assms(3)])
qed

text \<open>
  C33. From tables whose cells can all be read, the migration succeeds: it keeps the rows and their order, leaves every cell
  encrypted under a key identifier as the new constraints ask, saying under the application's own key ring what it said before,
  re-enables the append-only trigger and forgets the keys. Reverting it gives the tables back with every cell in clear.
\<close>

theorem party_migration_roundtrip:
  assumes "gcm_ok C" "gcm_sizes C" "installKey C env = Inr (ring, k)" "\<forall>t i c. length (ivs t i c) = IV_BYTES"
    and "before_encryption (mw_tables w)" "\<forall>t. list_all (readable_row C ring k t) (pt_rows (mw_tables w t))"
  shows "\<exists>w1 w2 S. migrate (enforce_up C ivs env) w = (Inr (), w1) \<and> migrate (enforce_down C env) w1 = (Inr (), w2) \<and>
    security_config env = Inr S \<and> install_key_ring C S = Inr ring \<and> mw_cipher w1 = forgetKey \<and>
    (\<forall>t. map pr_id (pt_rows (mw_tables w1 t)) = map pr_id (pt_rows (mw_tables w t)) \<and>
       pt_append_only (mw_tables w1 t) = pt_append_only (mw_tables w t) \<and>
       set (pt_checks (mw_tables w1 t)) = insert Check_version (range Check_encrypted) \<and>
       list_all (\<lambda>r. list_all (\<lambda>q. check_holds q r) (pt_checks (mw_tables w1 t))) (pt_rows (mw_tables w1 t)) \<and>
       map (\<lambda>r c. decrypt C ring (pr_cells r c) (context_of t c)) (pt_rows (mw_tables w1 t)) =
         map (\<lambda>r c. logical_value C ring k (context_of t c) (pr_cells r c)) (pt_rows (mw_tables w t)) \<and>
       mw_tables w2 t = (mw_tables w t)\<lparr>pt_rows := map (\<lambda>r. r\<lparr>pr_cells := logical_cells C ring k t r\<rparr>) (pt_rows (mw_tables w t))\<rparr>)"
proof -
  define A B where "A = mw_tables w Transactions" and "B = mw_tables w Transaction_events"
  have w: "w = world_of A B (mw_cipher w)" unfolding A_def B_def by (rule world_eta)
  have tables: "mw_tables w = case_party_table_name A B" by (subst w) (simp add: world_of_def)
  let ?T = "\<lambda>t. enforced_table C ring ivs k t (mw_tables w t)" and ?R = "\<lambda>t. cleared_table C ring k t (mw_tables w t)"
  let ?w1 = "world_of (?T Transactions) (?T Transaction_events) forgetKey" and ?w2 = "world_of (?R Transactions) (?R Transaction_events) forgetKey"
  have readable: "readable_row C ring k t r" if "r \<in> set (pt_rows (mw_tables w t))" for t r
    using assms(6) that by (simp add: list_all_iff)
  have iv: "length (ivs t i c) = IV_BYTES" for t i c using assms(4) by blast
  obtain cur keys S where ring: "useKeyRing cur keys = Inr ring" "security_config env = Inr S" "install_key_ring C S = Inr ring"
    using installed_ring [OF assms(3)] by blast
  have up: "enforce_up C ivs env w = (Inr (), ?w1)"
    using enforce_up_run [where ivs = ivs and A = A and B = B and ?ring0.0 = "mw_cipher w", OF assms(1-3) iv] assms(5) readable w by (simp add: tables flip: w)
  have down: "enforce_down C env ?w1 = (Inr (), ?w2)"
    using enforce_down_run [where ivs = ivs and A = A and B = B and ?ring0.0 = forgetKey, OF assms(1-3) iv] assms(5) readable by (simp add: tables)
  have at: "mw_tables ?w1 t = ?T t"
    "mw_tables ?w2 t = (mw_tables w t)\<lparr>pt_rows := map (\<lambda>r. r\<lparr>pr_cells := logical_cells C ring k t r\<rparr>) (pt_rows (mw_tables w t))\<rparr>" for t
    by (cases t; simp add: cleared_table_def)+
  have row: "check_holds (Check_encrypted c) (r\<lparr>pr_cells := converted_cells C ring ivs k t r\<rparr>)"
    "decrypt C ring (converted_cells C ring ivs k t r c) (context_of t c) = logical_value C ring k (context_of t c) (pr_cells r c)"
    if "r \<in> set (pt_rows (mw_tables w t))" for t r c
    using converted_row(2,4,7) [where ivs = ivs, OF assms(1,2) ring(1) iv readable [OF that]] by simp_all
  have "map pr_id (pt_rows (?T t)) = map pr_id (pt_rows (mw_tables w t)) \<and> pt_append_only (?T t) = pt_append_only (mw_tables w t) \<and>
      set (pt_checks (?T t)) = insert Check_version (range Check_encrypted) \<and>
      list_all (\<lambda>r. list_all (\<lambda>q. check_holds q r) (pt_checks (?T t))) (pt_rows (?T t)) \<and>
      map (\<lambda>r c. decrypt C ring (pr_cells r c) (context_of t c)) (pt_rows (?T t)) =
        map (\<lambda>r c. logical_value C ring k (context_of t c) (pr_cells r c)) (pt_rows (mw_tables w t))" for t
    using row [of _ t] by (auto simp: enforced_table_def list_all_iff every_column)
  with ring(2,3) show ?thesis
    by - (rule exI [of _ ?w1], rule exI [of _ ?w2], rule exI [of _ S], simp add: migrate_def up down at)
qed

text \<open>One transfer: a clear account number, no debtor name, an account number encrypted without a key identifier, a clear name.\<close>

definition sample_payload :: string where
  "sample_payload = b64url (replicate 12 CHR ''i'' @ ''transactions.cre'' @ ''DE89'')"

definition sample_cells :: "party_column \<Rightarrow> string option" where
  "sample_cells c = (case c of
     debtor_iban \<Rightarrow> Some ''FR76''
   | debtor_name \<Rightarrow> None
   | creditor_iban \<Rightarrow> Some (''enc.v1.'' @ sample_payload)
   | creditor_name \<Rightarrow> Some ''ACME'')"

definition sample_party_world :: migration_world where
  "sample_party_world =
     world_of
       \<lparr>pt_rows = [\<lparr>pr_id = ''t1'', pr_cells = sample_cells, pr_encryption_version = None\<rparr>], pt_widths = (\<lambda>_. 512), pt_checks = [],
        pt_version_default = None, pt_append_only = None\<rparr>
       \<lparr>pt_rows = [], pt_widths = (\<lambda>_. 512), pt_checks = [], pt_version_default = None, pt_append_only = Some True\<rparr> forgetKey"

definition sample_ring :: FieldCipher where
  "sample_ring = \<lparr>fc_currentKeyId = Some ''k1'', fc_keys = [(''k1'', ''0123456789abcdef0123456789abcdef'')]\<rparr>"

abbreviation "sample_legacy_key \<equiv> ''MDEyMzQ1Njc4OWFiY2RlZjAxMjM0NTY3''"

text \<open>A value without a key identifier has the old form, and only that form.\<close>

lemma legacy_form:
  assumes "payload \<noteq> []" "list_all is_b64url payload"
  shows "match_stored (''enc.v1.'' @ payload) = None" "match_legacy (''enc.v1.'' @ payload) = Some payload"
proof -
  have "takeWhile is_b64url payload = payload" using assms(2) by (simp add: takeWhile_eq_all_conv list_all_iff)
  then show "match_stored (''enc.v1.'' @ payload) = None" "match_legacy (''enc.v1.'' @ payload) = Some payload"
    using assms by (simp_all add: match_stored_def match_legacy_def Let_def PREFIX_def del: takeWhile_eq_all_conv)
qed

lemma sample_cipher: "gcm_ok sample_crypto" "gcm_sizes sample_crypto"
  by (auto simp: gcm_ok_def gcm_sizes_def sample_crypto_def)

lemma sample_payload_reads:
  "match_stored (''enc.v1.'' @ sample_payload) = None" "match_legacy (''enc.v1.'' @ sample_payload) = Some sample_payload"
  "open_payload sample_crypto k sample_payload ''transactions.creditor_iban'' = Inr ''DE89''"
  "char_length (''enc.v1.'' @ sample_payload) \<le> 512"
proof -
  have "sample_payload \<noteq> []" "list_all is_b64url sample_payload" using b64url_class by (simp_all add: sample_payload_def)
  from legacy_form [OF this] show "match_stored (''enc.v1.'' @ sample_payload) = None" "match_legacy (''enc.v1.'' @ sample_payload) = Some sample_payload" .
  show "open_payload sample_crypto k sample_payload ''transactions.creditor_iban'' = Inr ''DE89''"
    using open_written [OF sample_cipher(1), of "replicate 12 CHR ''i''" k "''transactions.creditor_iban''" "''DE89''" "''DE89''" "''transactions.cre''"
      "''transactions.creditor_iban''"] by (simp add: IV_BYTES_def sample_crypto_def sample_payload_def)
  have "length (''enc.v1.'' @ sample_payload) \<le> 512" by (simp add: sample_payload_def b64url_length)
  then show "char_length (''enc.v1.'' @ sample_payload) \<le> 512" by (rule order_trans [OF char_length_le])
qed

lemma clear_text: "take 7 s \<noteq> ''enc.v1.'' \<Longrightarrow> match_stored s = None"
  by (simp add: match_stored_def Let_def PREFIX_def)

lemma sample_decoded:
  "decodeMasterKey ''MDEyMzQ1Njc4OWFiY2RlZjAxMjM0NTY3ODlhYmNkZWY='' = Inr ''0123456789abcdef0123456789abcdef'' \<and>
   parsePreviousKeys [] = Inr [] \<and> KEY_ID_PATTERN ''k1''"
  by code_simp

lemma sample_install: "installKey sample_crypto sample_env = Inr (sample_ring, sample_legacy_key)"
  using sample_decoded
  by (simp add: installKey_def Let_def derive_key_def env_or_def sample_env_def sample_variables_def deriveDataEncryptionKey_def
      deriveLegacyDataEncryptionKey_def sample_crypto_def DATA_KEY_BYTES_def useKeyRing_def check_key_def List.map_filter_simps sample_ring_def)

lemma sample_logical:
  "logical_value sample_crypto sample_ring sample_legacy_key (context_of Transactions debtor_iban) (sample_cells debtor_iban) = Inr (Some ''FR76'')"
  "logical_value sample_crypto sample_ring sample_legacy_key (context_of Transactions debtor_name) (sample_cells debtor_name) = Inr None"
  "logical_value sample_crypto sample_ring sample_legacy_key (context_of Transactions creditor_iban) (sample_cells creditor_iban) = Inr (Some ''DE89'')"
  "logical_value sample_crypto sample_ring sample_legacy_key (context_of Transactions creditor_name) (sample_cells creditor_name) = Inr (Some ''ACME'')"
  by (simp_all add: logical_value_def sample_cells_def versioned_def decryptLegacyV1_def context_of_def sample_payload_reads [simplified] clear_text)

lemma sample_readable: "readable_cell sample_crypto sample_ring sample_legacy_key (context_of Transactions c) (sample_cells c)"
  using sample_payload_reads(4) [simplified]
  by (cases c) (simp_all add: readable_cell_def sample_logical, simp_all add: sample_cells_def order_trans [OF char_length_le])

theorem party_migration_roundtrip_witness:
  "\<exists>w1 w2. migrate (enforce_up sample_crypto (\<lambda>_ _ _. replicate 12 CHR ''i'') sample_env) sample_party_world = (Inr (), w1) \<and>
     migrate (enforce_down sample_crypto sample_env) w1 = (Inr (), w2) \<and>
     map (\<lambda>r. map (pr_cells r) COLUMN_NAMES) (pt_rows (mw_tables w2 Transactions)) = [[Some ''FR76'', None, Some ''DE89'', Some ''ACME'']]"
proof -
  have iv: "\<forall>t i c. length ((\<lambda>_ _ _. replicate 12 CHR ''i'') t i c) = IV_BYTES" by (simp add: IV_BYTES_def)
  have schema: "before_encryption (mw_tables sample_party_world)"
    by (simp add: before_encryption_def all_tables sample_party_world_def)
  have readable: "\<forall>t. list_all (readable_row sample_crypto sample_ring sample_legacy_key t) (pt_rows (mw_tables sample_party_world t))"
    using sample_readable by (simp add: all_tables sample_party_world_def readable_row_def)
  have cells: "map (logical_cells sample_crypto sample_ring sample_legacy_key Transactions \<lparr>pr_id = ''t1'', pr_cells = sample_cells, pr_encryption_version = None\<rparr>)
      COLUMN_NAMES = [Some ''FR76'', None, Some ''DE89'', Some ''ACME'']"
    using sample_logical by (simp add: logical_cells_def COLUMN_NAMES_def)
  from party_migration_roundtrip [OF sample_cipher sample_install iv schema readable]
  show ?thesis using cells by (elim exE conjE) (auto simp: sample_party_world_def)
qed

section \<open>Widths\<close>

text \<open>
  How long a stored value is: a text of at most 326 bytes always fits the 512 characters of the column, one of 350 bytes or more
  never does. The names of the classic transfers are ASCII and fit; the name of a mobile money creditor may be any 140
  characters, 420 bytes in UTF-8 for most scripts.
\<close>

theorem stored_width:
  assumes "gcm_ok C" "gcm_sizes C" "useKeyRing cur keys = Inr ring" "length iv = IV_BYTES"
  shows "\<exists>s. encrypt C ring iv (Some plain) aad = Inr (Some s) \<and>
    (length plain \<le> 326 \<longrightarrow> char_length s \<le> 512) \<and> (350 \<le> length plain \<longrightarrow> 512 < char_length s)"
proof -
  obtain s where s: "encrypt C ring iv (Some plain) aad = Inr (Some s)" "length s = 8 + length cur + (4 * length plain + 114) div 3"
    "list_all is_ascii s" using encrypted_text [OF assms] by blast
  have "1 \<le> length cur" "length cur \<le> 32" using ring_installed(2) [OF assms(3)] by (simp_all add: KEY_ID_PATTERN_def)
  then have "(length plain \<le> 326 \<longrightarrow> length s \<le> 512) \<and> (350 \<le> length plain \<longrightarrow> 512 < length s)" using s(2) by linarith
  then show ?thesis using s(1) ascii_length [OF s(3)] by auto
qed

text \<open>A name of 140 characters of three bytes: the insertion of its row is refused by PostgreSQL.\<close>

definition wide_name :: string where
  "wide_name = concat (replicate 140 [char_of (230 :: nat), char_of (151 :: nat), char_of (165 :: nat)])"

theorem wide_name_does_not_fit:
  assumes "gcm_ok C" "gcm_sizes C" "useKeyRing cur keys = Inr ring" "length iv = IV_BYTES"
  shows "char_length wide_name = 140 \<and> (\<exists>s. encrypt C ring iv (Some wide_name) aad = Inr (Some s) \<and> 512 < char_length s)"
proof -
  have "char_length (concat (replicate n [char_of (230 :: nat), char_of (151 :: nat), char_of (165 :: nat)])) = n" for n
    by (induction n) (simp_all add: char_length_def is_continuation_def of_char_of)
  moreover have "length wide_name = 420" by (simp add: wide_name_def length_concat sum_list_replicate)
  ultimately show ?thesis using stored_width [OF assms, of wide_name aad] by (auto simp: wide_name_def)
qed

text \<open>
  Reverting the first migration refuses to narrow a column while a value is encrypted: nothing is cut.
\<close>

lemma narrowing_refused:
  assumes "\<exists>r \<in> set (pt_rows (mw_tables w Transactions)). \<exists>s. pr_cells r debtor_iban = Some s \<and> take 7 s = ''enc.v1.''"
  shows "\<exists>m. migrate encrypt_fields_down w = (Inl (Thrown m), w)"
proof -
  let ?t = "mw_tables w Transactions"
  have "0 < encrypted_count debtor_iban ?t"
    using assms by (force simp: encrypted_count_def filter_empty_conv)
  then have "\<exists>m. assert_no_cipher Transactions debtor_iban w = (Inl (Thrown m), w)"
    by (simp add: assert_no_cipher_def run_bnd run_action)
  then show ?thesis
    by (auto simp: encrypt_fields_down_def steps_def migrate_def COLUMNS_def COLUMN_NAMES_def run_bnd)
qed

end
