(* ===== verification/Requests.thy ===== *)
theory Requests
  imports Api_Views Iban Party_Migration
begin

text \<open>
  What the validation pipe lets in: the transformations and the constraints of the request classes
  (\<^verbatim>\<open>transactions/dto\<close>, \<^verbatim>\<open>mobile-money/dto\<close>), read from the JSON body of a request, with the options of \<^verbatim>\<open>main.ts\<close>: a property
  that the class does not declare refuses the request. A refused request is the list of the properties at fault. The check of
  ISO 8601 dates belongs to class-validator and is an argument.
\<close>

type_synonym json_body = "(string \<times> js) list"

definition body_field :: "json_body \<Rightarrow> string \<Rightarrow> js" where
  "body_field body name = (case map_of body name of None \<Rightarrow> JUndefined | Some v \<Rightarrow> v)"

section \<open>Transformations\<close>

definition Trim :: "js \<Rightarrow> js" where
  "Trim v = (case v of JString s \<Rightarrow> JString (js_trim s) | _ \<Rightarrow> v)"

definition TrimUpper :: "js \<Rightarrow> js" where
  "TrimUpper v = (case v of JString s \<Rightarrow> JString (wide_upper (js_trim s)) | _ \<Rightarrow> v)"

definition NormalizeIban :: "js \<Rightarrow> js" where
  "NormalizeIban v = (case v of JString s \<Rightarrow> JString (normalizeIban s) | _ \<Rightarrow> v)"

section \<open>Constraints\<close>

text \<open>The characters of \<^verbatim>\<open>[A-Za-z0-9/\-?:().,'+ ]\<close>.\<close>

definition sepa_char :: "char \<Rightarrow> bool" where
  "sepa_char c \<longleftrightarrow> is_upper c \<or> is_lower c \<or> is_digit c \<or> c \<in> set ''/-?:().,+ '' \<or> c = CHR 0x27"

definition SEPA_LABEL :: "string \<Rightarrow> bool" where
  "SEPA_LABEL s \<longleftrightarrow> s \<noteq> [] \<and> list_all sepa_char s"

text \<open>\<^verbatim>\<open>/^[A-Z]{3}$/\<close> and \<^verbatim>\<open>/^\+[1-9]\d{7,14}$/\<close>.\<close>

definition currency_code :: "string \<Rightarrow> bool" where
  "currency_code s \<longleftrightarrow> length s = 3 \<and> list_all is_upper s"

definition e164 :: "string \<Rightarrow> bool" where
  "e164 s \<longleftrightarrow> take 1 s = ''+'' \<and> list_all is_digit (drop 1 s) \<and> take 1 (drop 1 s) \<noteq> ''0'' \<and> 9 \<le> length s \<and> length s \<le> 16"

definition on_string :: "(string \<Rightarrow> bool) \<Rightarrow> js \<Rightarrow> bool" where
  "on_string P v = (case v of JString s \<Rightarrow> P s | _ \<Rightarrow> False)"

definition Length :: "nat \<Rightarrow> nat \<Rightarrow> js \<Rightarrow> bool" where
  "Length least most = on_string (\<lambda>s. least \<le> char_length s \<and> char_length s \<le> most)"

definition absent :: "js \<Rightarrow> bool" where
  "absent v \<longleftrightarrow> v = JUndefined \<or> v = JNull"

definition amount_of :: "js \<Rightarrow> number option" where
  "amount_of v = (case v of JNumber t \<Rightarrow> Some (parseFloat t) | _ \<Rightarrow> None)"

definition IsMonetaryAmount :: "js \<Rightarrow> bool" where
  "IsMonetaryAmount v = isMonetaryAmount (amount_of v) 2 (of_cents 1)"

definition text_value :: "js \<Rightarrow> string" where
  "text_value v = (case v of JString s \<Rightarrow> s | _ \<Rightarrow> [])"

definition optional_text :: "js \<Rightarrow> string option" where
  "optional_text v = (case v of JString s \<Rightarrow> Some s | _ \<Rightarrow> None)"

text \<open>The properties at fault: those the class does not declare, then those whose constraints fail.\<close>

definition faults :: "json_body \<Rightarrow> (string \<times> bool) list \<Rightarrow> string list" where
  "faults body checks =
     filter (\<lambda>name. name \<notin> set (map fst checks)) (map fst body) @ map fst (filter (\<lambda>(name, ok). \<not> ok) checks)"

section \<open>The request classes\<close>

definition transfer_checks :: "json_body \<Rightarrow> (string \<times> bool) list" where
  "transfer_checks body =
     (let f = body_field body in
      [(''debtorIban'', isValidIban (NormalizeIban (f ''debtorIban''))),
       (''debtorName'', absent (f ''debtorName'') \<or>
          Length 1 140 (Trim (f ''debtorName'')) \<and> on_string SEPA_LABEL (Trim (f ''debtorName''))),
       (''creditorIban'', isValidIban (NormalizeIban (f ''creditorIban''))),
       (''creditorName'', Length 1 140 (Trim (f ''creditorName'')) \<and> on_string SEPA_LABEL (Trim (f ''creditorName''))),
       (''amount'', IsMonetaryAmount (f ''amount'')),
       (''currency'', on_string currency_code (TrimUpper (f ''currency''))),
       (''endToEndLabel'', absent (f ''endToEndLabel'') \<or>
          Length 0 140 (Trim (f ''endToEndLabel'')) \<and> on_string SEPA_LABEL (Trim (f ''endToEndLabel'')))])"

definition validate_transfer :: "json_body \<Rightarrow> string list + CreateTransferDto" where
  "validate_transfer body =
     (let f = body_field body in
      case faults body (transfer_checks body) of
        [] \<Rightarrow> Inr \<lparr>ct_debtorIban = text_value (NormalizeIban (f ''debtorIban'')), ct_debtorName = optional_text (Trim (f ''debtorName'')),
                    ct_creditorIban = text_value (NormalizeIban (f ''creditorIban'')), ct_creditorName = text_value (Trim (f ''creditorName'')),
                    ct_amount = the (amount_of (f ''amount'')), ct_currency = text_value (TrimUpper (f ''currency'')),
                    ct_endToEndLabel = optional_text (Trim (f ''endToEndLabel''))\<rparr>
      | errors \<Rightarrow> Inl errors)"

definition operator_named :: "string \<Rightarrow> MobileMoneyOperator option" where
  "operator_named s = find (\<lambda>p. text_of_MobileMoneyOperator p = s) [Op_MPESA, Op_AIRTEL_MONEY, Op_ORANGE_MONEY]"

definition payment_checks :: "json_body \<Rightarrow> (string \<times> bool) list" where
  "payment_checks body =
     (let f = body_field body in
      [(''operator'', on_string (\<lambda>s. operator_named s \<noteq> None) (f ''operator'')),
       (''payerMsisdn'', on_string e164 (Trim (f ''payerMsisdn''))),
       (''creditorIban'', isValidIban (NormalizeIban (f ''creditorIban''))),
       (''creditorName'', Length 1 140 (Trim (f ''creditorName''))),
       (''amount'', IsMonetaryAmount (f ''amount'')),
       (''currency'', on_string currency_code (TrimUpper (f ''currency''))),
       (''externalReference'', absent (f ''externalReference'') \<or> Length 0 140 (Trim (f ''externalReference'')))])"

definition validate_payment :: "json_body \<Rightarrow> string list + CreateMobileMoneyTransactionDto" where
  "validate_payment body =
     (let f = body_field body in
      case faults body (payment_checks body) of
        [] \<Rightarrow> Inr \<lparr>mm_operator = the (operator_named (text_value (f ''operator''))), mm_payerMsisdn = text_value (Trim (f ''payerMsisdn'')),
                    mm_creditorIban = text_value (NormalizeIban (f ''creditorIban'')), mm_creditorName = text_value (Trim (f ''creditorName'')),
                    mm_amount = the (amount_of (f ''amount'')), mm_currency = text_value (TrimUpper (f ''currency'')),
                    mm_externalReference = optional_text (Trim (f ''externalReference''))\<rparr>
      | errors \<Rightarrow> Inl errors)"

definition webhook_checks :: "(string \<Rightarrow> bool) \<Rightarrow> json_body \<Rightarrow> (string \<times> bool) list" where
  "webhook_checks isISO8601 body =
     (let f = body_field body in
      [(''eventId'', Length 1 128 (f ''eventId'')),
       (''aggregatorReference'', Length 1 64 (f ''aggregatorReference'')),
       (''status'', on_string (\<lambda>s. s = ''CONFIRMED'' \<or> s = ''FAILED'') (f ''status'')),
       (''amount'', IsMonetaryAmount (f ''amount'')),
       (''currency'', on_string currency_code (TrimUpper (f ''currency''))),
       (''occurredAt'', on_string isISO8601 (f ''occurredAt'')),
       (''failureReason'', absent (f ''failureReason'') \<or> Length 1 512 (f ''failureReason''))])"

definition validate_webhook :: "(string \<Rightarrow> bool) \<Rightarrow> json_body \<Rightarrow> string list + MobileMoneyWebhookDto" where
  "validate_webhook isISO8601 body =
     (let f = body_field body in
      case faults body (webhook_checks isISO8601 body) of
        [] \<Rightarrow> Inr \<lparr>wh_eventId = text_value (f ''eventId''), wh_aggregatorReference = text_value (f ''aggregatorReference''),
                    wh_status = (if text_value (f ''status'') = ''CONFIRMED'' then Webhook_CONFIRMED else Webhook_FAILED),
                    wh_amount = the (amount_of (f ''amount'')), wh_currency = text_value (TrimUpper (f ''currency'')),
                    wh_occurredAt = text_value (f ''occurredAt''), wh_failureReason = optional_text (f ''failureReason'')\<rparr>
      | errors \<Rightarrow> Inl errors)"

definition simulation_checks :: "json_body \<Rightarrow> (string \<times> bool) list" where
  "simulation_checks body =
     (let f = body_field body in
      [(''status'', absent (f ''status'') \<or> on_string (\<lambda>s. s = ''CONFIRMED'' \<or> s = ''FAILED'') (f ''status'')),
       (''amount'', absent (f ''amount'') \<or> IsMonetaryAmount (f ''amount'')),
       (''currency'', absent (f ''currency'') \<or> on_string currency_code (TrimUpper (f ''currency'')))])"

definition validate_simulation :: "json_body \<Rightarrow> string list + SimulateMobileMoneyDto" where
  "validate_simulation body =
     (let f = body_field body in
      case faults body (simulation_checks body) of
        [] \<Rightarrow> Inr \<lparr>sm_status = map_option (\<lambda>s. if s = ''CONFIRMED'' then Webhook_CONFIRMED else Webhook_FAILED) (optional_text (f ''status'')),
                    sm_amount = amount_of (f ''amount''), sm_currency = optional_text (TrimUpper (f ''currency''))\<rparr>
      | errors \<Rightarrow> Inl errors)"

text \<open>\<^verbatim>\<open>/^TRF-\d{8}-[0-9A-HJ-NP-Z]{8}$/\<close>, on the path parameter once trimmed and in capitals.\<close>

definition REFERENCE_PATTERN :: "string \<Rightarrow> bool" where
  "REFERENCE_PATTERN s \<longleftrightarrow>
     length s = 21 \<and> take 4 s = ''TRF-'' \<and> list_all is_digit (take 8 (drop 4 s)) \<and> take 1 (drop 12 s) = ''-'' \<and>
     list_all (\<lambda>c. is_digit c \<or> is_upper c \<and> c \<noteq> CHR ''I'' \<and> c \<noteq> CHR ''O'') (drop 13 s)"

definition validate_reference :: "string \<Rightarrow> string list + string" where
  "validate_reference param =
     (let reference = wide_upper (js_trim param) in
      if REFERENCE_PATTERN reference then Inr reference else Inl [''reference''])"

section \<open>Texts without white space\<close>

text \<open>The bytes that no white space character begins with.\<close>

definition no_space_head :: "char \<Rightarrow> bool" where
  "no_space_head c \<longleftrightarrow> \<not> is_space c \<and> c \<notin> set [CHR 0xC2, CHR 0xE1, CHR 0xE2, CHR 0xE3, CHR 0xEF]"

lemma wide_space_heads: "k \<in> set wide_spaces \<Longrightarrow> hd k \<in> set [CHR 0xE1, CHR 0xE2, CHR 0xE3, CHR 0xEF]"
  by (auto simp: wide_spaces_def)

lemma no_space_width:
  assumes "no_space_head c"
  shows "space_width (c # cs) = 0"
proof -
  have head: "hd (take 3 (c # cs)) = c" by simp
  have "take 3 (c # cs) \<notin> set wide_spaces"
  proof
    assume "take 3 (c # cs) \<in> set wide_spaces"
    from wide_space_heads [OF this] show False using assms unfolding head no_space_head_def by simp
  qed
  moreover have "c \<noteq> CHR 0xC2" and "\<not> is_space c" using assms unfolding no_space_head_def by simp_all
  moreover from this have "take 2 (c # cs) \<noteq> [CHR 0xC2, CHR 0xA0]" by (cases cs) simp_all
  ultimately show ?thesis unfolding space_width_def list.case by (simp only: if_False)
qed

lemma trim_unspaced:
  assumes "list_all no_space_head s"
  shows "js_trim s = s"
proof -
  have "space_width s = 0" using assms by (cases s) (simp_all add: no_space_width, simp add: space_width_def)
  then have "trim_start s = s" by (subst trim_start.simps) simp
  moreover have "trim_end s = s" using assms
  proof (induction s)
    case (Cons c cs)
    then have "remove_spaces (c # cs) \<noteq> []" by (subst remove_spaces.simps) (simp add: no_space_width)
    then show ?case using Cons by simp
  qed simp
  ultimately show ?thesis by (simp add: js_trim_def)
qed

lemma ascii_no_space: "is_ascii c \<Longrightarrow> \<not> is_space c \<Longrightarrow> no_space_head c"
  by (auto simp: no_space_head_def is_ascii_def)

section \<open>What an accepted request satisfies\<close>

lemma no_faults: "faults body checks = [] \<longleftrightarrow> list_all snd checks \<and> fst ` set body \<subseteq> fst ` set checks"
  by (auto simp: faults_def filter_empty_conv list_all_iff)

lemma sepa_ascii: "sepa_char c \<Longrightarrow> is_ascii c"
  by (auto simp: sepa_char_def dest: plain_ascii) (simp_all add: is_ascii_def)

lemma sepa_label: "SEPA_LABEL s \<Longrightarrow> list_all is_ascii s"
  by (auto simp: SEPA_LABEL_def list_all_iff sepa_ascii)

lemma on_string_value: "on_string P v \<Longrightarrow> \<exists>s. v = JString s \<and> P s \<and> text_value v = s \<and> optional_text v = Some s"
  by (auto simp: on_string_def text_value_def optional_text_def split: js.splits)

lemma char_upper_cases: "char_upper c = c \<or> is_upper (char_upper c)"
  by (auto simp: char_upper_def is_upper_def less_eq_char_def of_char_of)

lemma char_upper_again: "char_upper (char_upper c) = char_upper c"
  by (metis char_upper_cases plain_upper(2))

lemma ascii_normalize:
  "list_all is_ascii s \<Longrightarrow> normalizeIban s = map char_upper (filter (\<lambda>c. c \<noteq> CHR ''-'') (filter (\<lambda>c. \<not> is_space c) s))"
  by (simp add: normalizeIban_def ascii_remove_spaces ascii_wide_upper toUpperCase_def list_all_iff)

lemma ascii_normal:
  assumes "list_all is_ascii s"
  shows "list_all is_ascii (normalizeIban s)" "normalizeIban (normalizeIban s) = normalizeIban s"
proof -
  let ?kept = "filter (\<lambda>c. c \<noteq> CHR ''-'') (filter (\<lambda>c. \<not> is_space c) s)"
  note kept = ascii_normalize [OF assms]
  have each: "is_ascii (char_upper c) \<and> \<not> is_space (char_upper c) \<and> char_upper c \<noteq> CHR ''-''" if "c \<in> set ?kept" for c
    using that assms char_upper_cases [of c] by (auto simp: list_all_iff plain_ascii plain_not_space is_upper_def less_eq_char_def)
  show ascii: "list_all is_ascii (normalizeIban s)" using each by (auto simp: kept list_all_iff)
  have "filter (\<lambda>c. c \<noteq> CHR ''-'') (filter (\<lambda>c. \<not> is_space c) (normalizeIban s)) = normalizeIban s"
    unfolding kept using each by (subst filter_True; subst filter_True) auto
  then have "normalizeIban (normalizeIban s) = map char_upper (normalizeIban s)" by (simp only: ascii_normalize [OF ascii])
  then show "normalizeIban (normalizeIban s) = normalizeIban s" by (simp add: kept char_upper_again)
qed

lemma structure_ascii:
  assumes "iban_structure s"
  shows "list_all is_ascii s" "length s \<le> 34"
proof -
  have "list_all is_ascii (take 2 s)" "list_all is_ascii (take 2 (drop 2 s))" "list_all is_ascii (drop 4 s)"
    using assms by (auto simp: iban_structure_def list_all_iff plain_ascii)
  moreover have "s = take 2 s @ take 2 (drop 2 s) @ drop 4 s" by (metis append_take_drop_id drop_drop numeral_Bit0)
  ultimately show "list_all is_ascii s" by (metis list_all_append)
  show "length s \<le> 34" using assms by (simp add: iban_structure_def)
qed

text \<open>An IBAN typed in ASCII, with spaces, hyphens or small letters, is kept in the form the validator judged.\<close>

definition typed_ascii :: "js \<Rightarrow> bool" where
  "typed_ascii v \<longleftrightarrow> (\<forall>s. v = JString s \<longrightarrow> list_all is_ascii s)"

lemma accepted_iban:
  assumes "isValidIban (NormalizeIban v)" "typed_ascii v"
  shows "iban_structure (text_value (NormalizeIban v))" "isValidIban (JString (text_value (NormalizeIban v)))"
proof -
  obtain s where s: "v = JString s" using assms(1) by (auto simp: NormalizeIban_def isValidIban_def split: js.splits)
  have "list_all is_ascii s" using assms(2) s by (simp add: typed_ascii_def)
  note normal = ascii_normal(2) [OF this]
  show "isValidIban (JString (text_value (NormalizeIban v)))" using assms(1) by (simp add: s NormalizeIban_def text_value_def)
  then show "iban_structure (text_value (NormalizeIban v))"
    by (simp add: s NormalizeIban_def text_value_def isValidIban_def normal Let_def split: if_splits)
qed

lemma accepted_label:
  assumes "Length least 140 v" "on_string SEPA_LABEL v"
  shows "list_all is_ascii (text_value v)" "length (text_value v) \<le> 140"
proof -
  obtain s where s: "SEPA_LABEL s" "text_value v = s" "v = JString s" using on_string_value [OF assms(2)] by blast
  show "list_all is_ascii (text_value v)" using sepa_label s by simp
  then show "length (text_value v) \<le> 140" using assms(1) s ascii_length [of s] by (simp add: Length_def on_string_def)
qed

lemma optional_some: "optional_text v = Some s \<Longrightarrow> v = JString s \<and> text_value v = s"
  by (auto simp: optional_text_def text_value_def split: js.splits)

lemma trim_absent: "absent v \<Longrightarrow> optional_text (Trim v) = None"
  by (auto simp: absent_def Trim_def optional_text_def)

lemma validated_transfer:
  assumes "validate_transfer body = Inr dto"
  shows "faults body (transfer_checks body) = []"
    "dto = \<lparr>ct_debtorIban = text_value (NormalizeIban (body_field body ''debtorIban'')),
            ct_debtorName = optional_text (Trim (body_field body ''debtorName'')),
            ct_creditorIban = text_value (NormalizeIban (body_field body ''creditorIban'')),
            ct_creditorName = text_value (Trim (body_field body ''creditorName'')),
            ct_amount = the (amount_of (body_field body ''amount'')), ct_currency = text_value (TrimUpper (body_field body ''currency'')),
            ct_endToEndLabel = optional_text (Trim (body_field body ''endToEndLabel''))\<rparr>"
  using assms by (auto simp: validate_transfer_def Let_def split: list.splits)

lemma transfer_checked:
  assumes "validate_transfer body = Inr dto"
  defines "f \<equiv> body_field body"
  shows "isValidIban (NormalizeIban (f ''debtorIban''))" "isValidIban (NormalizeIban (f ''creditorIban''))"
    "Length 1 140 (Trim (f ''creditorName''))" "on_string SEPA_LABEL (Trim (f ''creditorName''))"
    "absent (f ''debtorName'') \<or> Length 1 140 (Trim (f ''debtorName'')) \<and> on_string SEPA_LABEL (Trim (f ''debtorName''))"
    "IsMonetaryAmount (f ''amount'')" "on_string currency_code (TrimUpper (f ''currency''))"
proof -
  have "list_all snd (transfer_checks body)" using validated_transfer(1) [OF assms(1)] by (simp only: no_faults)
  then show "isValidIban (NormalizeIban (f ''debtorIban''))" "isValidIban (NormalizeIban (f ''creditorIban''))"
    "Length 1 140 (Trim (f ''creditorName''))" "on_string SEPA_LABEL (Trim (f ''creditorName''))"
    "absent (f ''debtorName'') \<or> Length 1 140 (Trim (f ''debtorName'')) \<and> on_string SEPA_LABEL (Trim (f ''debtorName''))"
    "IsMonetaryAmount (f ''amount'')" "on_string currency_code (TrimUpper (f ''currency''))"
    unfolding transfer_checks_def f_def Let_def list.pred_inject snd_conv by blast+
qed

lemma transfer_parties:
  assumes "validate_transfer body = Inr dto" "typed_ascii (body_field body ''debtorIban'')" "typed_ascii (body_field body ''creditorIban'')"
  shows "iban_structure (ct_debtorIban dto)" "isValidIban (JString (ct_debtorIban dto))"
    "iban_structure (ct_creditorIban dto)" "isValidIban (JString (ct_creditorIban dto))"
    "\<And>name. name = ct_creditorName dto \<or> ct_debtorName dto = Some name \<Longrightarrow> list_all is_ascii name \<and> length name \<le> 140"
proof -
  note V = validated_transfer(2) [OF assms(1)] and ok = transfer_checked [OF assms(1)]
  show "iban_structure (ct_debtorIban dto)" "isValidIban (JString (ct_debtorIban dto))"
    "iban_structure (ct_creditorIban dto)" "isValidIban (JString (ct_creditorIban dto))"
    using accepted_iban [OF ok(1) assms(2)] accepted_iban [OF ok(2) assms(3)] V by simp_all
  fix name
  assume "name = ct_creditorName dto \<or> ct_debtorName dto = Some name"
  then show "list_all is_ascii name \<and> length name \<le> 140"
  proof
    assume "name = ct_creditorName dto"
    then show ?thesis using accepted_label [OF ok(3,4)] V by simp
  next
    assume "ct_debtorName dto = Some name"
    then have some: "optional_text (Trim (body_field body ''debtorName'')) = Some name" using V by simp
    then have "\<not> absent (body_field body ''debtorName'')" using trim_absent by fastforce
    then show ?thesis using ok(5) accepted_label optional_some [OF some] by metis
  qed
qed

lemma transfer_sum:
  assumes "validate_transfer body = Inr dto"
  shows "isMonetaryAmount (Some (ct_amount dto)) 2 (of_cents 1)" "currency_code (ct_currency dto)"
  using validated_transfer(2) [OF assms] transfer_checked(6,7) [OF assms]
  by (auto simp: IsMonetaryAmount_def amount_of_def on_string_def text_value_def isMonetaryAmount_def split: js.splits)

section \<open>Accepted requests are stored and read back\<close>

text \<open>
  C34. A transfer that the validation accepts, with IBANs typed in ASCII, carries two valid IBANs, a currency code and an amount of whole
  cents, and every party field of it is encrypted within the 512 characters of its column and read back unchanged.
\<close>

theorem accepted_transfer_is_storable:
  assumes "validate_transfer body = Inr dto" "typed_ascii (body_field body ''debtorIban'')" "typed_ascii (body_field body ''creditorIban'')"
    and "gcm_ok C" "gcm_sizes C" "useKeyRing cur keys = Inr ring" "length iv = IV_BYTES"
  shows "isValidIban (JString (ct_debtorIban dto)) \<and> isValidIban (JString (ct_creditorIban dto)) \<and> currency_code (ct_currency dto) \<and>
    isMonetaryAmount (Some (ct_amount dto)) 2 (of_cents 1) \<and>
    (\<forall>plain \<in> {ct_debtorIban dto, ct_creditorIban dto, ct_creditorName dto} \<union> set_option (ct_debtorName dto).
       \<exists>s. encrypt C ring iv (Some plain) aad = Inr (Some s) \<and> char_length s \<le> 512 \<and> decrypt C ring (Some s) aad = Inr (Some plain))"
proof -
  note P = transfer_parties [OF assms(1-3)] and S = transfer_sum [OF assms(1)]
  have "\<exists>s. encrypt C ring iv (Some plain) aad = Inr (Some s) \<and> char_length s \<le> 512 \<and> decrypt C ring (Some s) aad = Inr (Some plain)"
    if "plain \<in> {ct_debtorIban dto, ct_creditorIban dto, ct_creditorName dto} \<union> set_option (ct_debtorName dto)" for plain
  proof -
    have "length plain \<le> 140" using that P(5) structure_ascii(2) [OF P(1)] structure_ascii(2) [OF P(3)] by (auto simp: elem_set)
    moreover have "length cur \<le> 32" using ring_installed(2) [OF assms(6)] by (simp add: KEY_ID_PATTERN_def)
    moreover obtain s where s: "encrypt C ring iv (Some plain) aad = Inr (Some s)" "decrypt C ring (Some s) aad = Inr (Some plain)"
      "length s = 8 + length cur + (4 * length plain + 114) div 3" using encrypted_text [OF assms(4-7)] by blast
    ultimately have "length s \<le> 512" by linarith
    then show ?thesis using s(1,2) order_trans [OF char_length_le] by blast
  qed
  then show ?thesis using P(2,4) S by blast
qed

definition sample_body :: json_body where
  "sample_body =
     [(''debtorIban'', JString ''fr76 3000-6000 0112 3456 7890 189''), (''creditorIban'', JString ''FR7630006000011234567890189''),
      (''creditorName'', JString ''ACME''), (''amount'', JNumber ''5''), (''currency'', JString ''eur'')]"

lemma sample_body_fields [simp]:
  "body_field sample_body ''debtorIban'' = JString ''fr76 3000-6000 0112 3456 7890 189''"
  "body_field sample_body ''creditorIban'' = JString ''FR7630006000011234567890189''"
  "body_field sample_body ''creditorName'' = JString ''ACME''" "body_field sample_body ''debtorName'' = JUndefined"
  "body_field sample_body ''amount'' = JNumber ''5''" "body_field sample_body ''currency'' = JString ''eur''"
  "body_field sample_body ''endToEndLabel'' = JUndefined"
  by (simp_all add: body_field_def sample_body_def)

lemma sample_iban:
  "normalizeIban ''fr76 3000-6000 0112 3456 7890 189'' = ''FR7630006000011234567890189''"
  "normalizeIban ''FR7630006000011234567890189'' = ''FR7630006000011234567890189''"
  "isValidIban (JString ''FR7630006000011234567890189'')"
proof -
  show "normalizeIban ''fr76 3000-6000 0112 3456 7890 189'' = ''FR7630006000011234567890189''"
    and same: "normalizeIban ''FR7630006000011234567890189'' = ''FR7630006000011234567890189''"
    by (simp_all add: normalizeIban_def ascii_remove_spaces ascii_wide_upper is_ascii_def is_space_def toUpperCase_def char_upper_def
      char_of_def bit_0)
  have "mod97 (numeric_of ''30006000011234567890189FR76'') = 1"
    by (simp add: numeric_of_def is_upper_def nat_dec.simps digit_char_def mod97_def digit_value_def)
  then show "isValidIban (JString ''FR7630006000011234567890189'')"
    by (simp add: isValidIban_def same iban_structure_def is_upper_def is_digit_def IBAN_LENGTH_BY_COUNTRY_def)
qed

lemma body_texts:
  "js_trim ''ACME'' = ''ACME''" "js_trim ''eur'' = ''eur''" "wide_upper ''eur'' = ''EUR''"
proof -
  show "js_trim ''ACME'' = ''ACME''" "js_trim ''eur'' = ''eur''"
    by (rule trim_unspaced, simp add: no_space_head_def is_space_def)+
  show "wide_upper ''eur'' = ''EUR''" by (simp add: ascii_wide_upper is_ascii_def toUpperCase_def char_upper_def char_of_def bit_0)
qed

lemma sample_amount: "parseFloat ''5'' = of_cents 500" "IsMonetaryAmount (JNumber ''5'')"
proof -
  have "trim_start ''5'' = ''5''"
    by (subst trim_start.simps) (simp add: no_space_width no_space_head_def is_space_def)
  moreover have "fl 5 = Fin 5" using fl_of_int [of 5] by simp
  ultimately show five: "parseFloat ''5'' = of_cents 500"
    by (simp add: parseFloat_def drop_sign_def sign_of_def is_digit_def exponent_part_def dec_value_def of_cents_def)
  show "IsMonetaryAmount (JNumber ''5'')" unfolding IsMonetaryAmount_def amount_of_def js.case five
    by (rule isMonetaryAmount_cents) simp_all
qed

lemma sample_faults: "faults sample_body (transfer_checks sample_body) = []"
proof -
  have "list_all snd (transfer_checks sample_body)"
    by (simp add: transfer_checks_def NormalizeIban_def sample_iban Trim_def TrimUpper_def body_texts sample_amount absent_def
      Length_def on_string_def char_length_def is_continuation_def SEPA_LABEL_def sepa_char_def is_upper_def currency_code_def)
  moreover have "fst ` set sample_body \<subseteq> fst ` set (transfer_checks sample_body)" by (simp add: sample_body_def transfer_checks_def Let_def)
  ultimately show ?thesis by (simp only: no_faults)
qed

theorem accepted_transfer_is_storable_witness:
  "\<exists>dto s. validate_transfer sample_body = Inr dto \<and> isValidIban (JString (ct_debtorIban dto)) \<and>
     encrypt sample_crypto sample_ring (replicate 12 CHR ''i'') (Some ''ACME'') ''transactions.creditor_name'' = Inr (Some s) \<and> char_length s \<le> 512"
proof -
  obtain dto where dto: "validate_transfer sample_body = Inr dto" "ct_creditorName dto = ''ACME''"
    by (simp add: validate_transfer_def sample_faults Trim_def body_texts text_value_def Let_def)
  have ring: "useKeyRing ''k1'' [(''k1'', ''0123456789abcdef0123456789abcdef'')] = Inr sample_ring"
    by (simp add: useKeyRing_def check_key_def List.map_filter_simps sample_ring_def KEY_ID_PATTERN_def is_b64url_def is_word_def is_digit_def is_lower_def DATA_KEY_BYTES_def)
  have "typed_ascii (body_field sample_body ''debtorIban'')" "typed_ascii (body_field sample_body ''creditorIban'')"
    by (simp_all add: typed_ascii_def is_ascii_def)
  from accepted_transfer_is_storable [OF dto(1) this sample_cipher ring, of "replicate 12 CHR ''i''" "''transactions.creditor_name''"] dto
  show ?thesis by (auto simp: IV_BYTES_def)
qed

section \<open>A name the column cannot hold\<close>

text \<open>
  The creditor of a mobile money payment has no constraint on its characters: a name of 140 characters of three bytes passes the validation,
  and its ciphertext is longer than the 512 characters of the column, so the insertion of the payment fails.
\<close>

definition wide_body :: json_body where
  "wide_body =
     [(''operator'', JString (text_of_MobileMoneyOperator Op_MPESA)), (''payerMsisdn'', JString ''+243812345678''),
      (''creditorIban'', JString ''FR7630006000011234567890189''), (''creditorName'', JString wide_name), (''amount'', JNumber ''5''),
      (''currency'', JString ''eur'')]"

lemma wide_name_text: "js_trim wide_name = wide_name" "char_length wide_name = 140"
proof -
  have "list_all no_space_head (concat (replicate n [char_of (230 :: nat), char_of (151 :: nat), char_of (165 :: nat)]))" for n
    by (induction n) (simp_all add: no_space_head_def is_space_def char_of_def bit_0)
  then show "js_trim wide_name = wide_name" unfolding wide_name_def by (rule trim_unspaced)
  have "char_length (concat (replicate n [char_of (230 :: nat), char_of (151 :: nat), char_of (165 :: nat)])) = n" for n
    by (induction n) (simp_all add: char_length_def is_continuation_def of_char_of)
  then show "char_length wide_name = 140" by (simp add: wide_name_def)
qed

lemma wide_body_fields [simp]:
  "body_field wide_body ''operator'' = JString (text_of_MobileMoneyOperator Op_MPESA)"
  "body_field wide_body ''payerMsisdn'' = JString ''+243812345678''"
  "body_field wide_body ''creditorIban'' = JString ''FR7630006000011234567890189''"
  "body_field wide_body ''creditorName'' = JString wide_name" "body_field wide_body ''amount'' = JNumber ''5''"
  "body_field wide_body ''currency'' = JString ''eur''" "body_field wide_body ''externalReference'' = JUndefined"
  by (simp_all add: body_field_def wide_body_def)

lemma wide_faults: "faults wide_body (payment_checks wide_body) = []"
proof -
  have "js_trim ''+243812345678'' = ''+243812345678''" by (rule trim_unspaced) (simp add: no_space_head_def is_space_def)
  then have "list_all snd (payment_checks wide_body)"
    by (simp add: payment_checks_def NormalizeIban_def sample_iban Trim_def TrimUpper_def body_texts sample_amount absent_def
      Length_def on_string_def wide_name_text operator_named_def e164_def is_digit_def is_upper_def currency_code_def)
  moreover have "fst ` set wide_body \<subseteq> fst ` set (payment_checks wide_body)" by (simp add: wide_body_def payment_checks_def Let_def)
  ultimately show ?thesis by (simp only: no_faults)
qed

theorem accepted_payment_overflows:
  assumes "gcm_ok C" "gcm_sizes C" "useKeyRing cur keys = Inr ring" "length iv = IV_BYTES"
  shows "\<exists>dto s. validate_payment wide_body = Inr dto \<and> encrypt C ring iv (Some (mm_creditorName dto)) aad = Inr (Some s) \<and> 512 < char_length s"
proof -
  obtain dto where "validate_payment wide_body = Inr dto" "mm_creditorName dto = wide_name"
    by (simp add: validate_payment_def wide_faults Trim_def wide_name_text text_value_def Let_def)
  moreover have "length wide_name = 420" by (simp add: wide_name_def length_concat sum_list_replicate)
  ultimately show ?thesis using stored_width [OF assms, of wide_name aad] by auto
qed

section \<open>Generated references\<close>

lemma nat_dec_length: "0 < k \<Longrightarrow> n < 10 ^ k \<Longrightarrow> length (nat_dec n) \<le> k"
proof (induction k arbitrary: n)
  case (Suc k)
  show ?case
  proof (cases "n < 10")
    case False
    then have "0 < k" using Suc.prems by (cases k) simp_all
    moreover have "n div 10 < 10 ^ k" using Suc.prems by (simp add: less_mult_imp_div_less mult.commute)
    ultimately show ?thesis using False Suc.IH [of "n div 10"] by (subst nat_dec.simps) simp
  qed (subst nat_dec.simps, simp)
qed simp

lemma padded_numeral:
  assumes "0 \<le> i" "i < 10 ^ k" "0 < k"
  shows "length (dec_pad k i) = k" "list_all is_digit (dec_pad k i)"
proof -
  have "nat i < 10 ^ k" using assms by (simp add: nat_less_iff)
  from nat_dec_length [OF assms(3) this] show "length (dec_pad k i) = k" by (simp add: dec_pad_def padStart_def)
  show "list_all is_digit (dec_pad k i)" using nat_dec_digits by (auto simp: dec_pad_def padStart_def list_all_iff is_digit_def)
qed

text \<open>Coarse bounds of the civil date, enough for its width: the day and the month have at most two digits.\<close>

lemma civil_width:
  assumes "0 \<le> days" "days \<le> 2400000" "civil_of_days days = (y, m, d)"
  shows "0 \<le> y \<and> y < 10 ^ 4" "0 \<le> m \<and> m < 10 ^ 2" "0 \<le> d \<and> d < 10 ^ 2"
proof -
  define z era doe yoe doy mp where "z = days + 719468" and "era = z div 146097" and "doe = z mod 146097"
    and "yoe = (doe - doe div 1460 + doe div 36524 - doe div 146096) div 365"
    and "doy = doe - (365 * yoe + yoe div 4 - yoe div 100)" and "mp = (5 * doy + 2) div 153"
  have "civil_of_days days = (let m = (if mp < 10 then mp + 3 else mp - 9) in
      (yoe + era * 400 + (if m \<le> 2 then 1 else 0), m, doy - (153 * mp + 2) div 5 + 1))"
    unfolding civil_of_days_def Let_def mp_def doy_def yoe_def doe_def era_def z_def by (rule refl)
  then have civil: "m = (if mp < 10 then mp + 3 else mp - 9)" "y = yoe + era * 400 + (if m \<le> 2 then 1 else 0)"
    "d = doy - (153 * mp + 2) div 5 + 1" unfolding assms(3) Let_def prod.inject by blast+
  have doe: "0 \<le> doe" "doe < 146097" by (simp_all add: doe_def)
  have era: "4 \<le> era" "era \<le> 21" using assms(1,2) unfolding era_def z_def by linarith+
  have yoe: "- 1 \<le> yoe" "yoe \<le> 401" using doe unfolding yoe_def by linarith+
  define a b c q r where "a = doe div 1460" and "b = doe div 36524" and "c = doe div 146096" and "q = yoe div 4" and "r = yoe div 100"
  have "1460 * a \<le> doe" "doe \<le> 1460 * a + 1459" "36524 * b \<le> doe" "doe \<le> 36524 * b + 36523" "0 \<le> c" "c \<le> 1"
    "4 * q \<le> yoe" "yoe \<le> 4 * q + 3" "100 * r \<le> yoe" "yoe \<le> 100 * r + 99"
    using doe unfolding a_def b_def c_def q_def r_def by linarith+
  moreover have "365 * yoe \<le> doe - a + b - c" "doe - a + b - c \<le> 365 * yoe + 364" unfolding yoe_def a_def b_def c_def by linarith+
  moreover have "doy = doe - 365 * yoe - q + r" unfolding doy_def q_def r_def by simp
  ultimately have doy: "- 10 \<le> doy" "doy \<le> 380" using doe by linarith+
  then have mp: "- 1 \<le> mp" "mp \<le> 12" unfolding mp_def by linarith+
  show "0 \<le> y \<and> y < 10 ^ 4" using civil(2) era yoe by simp
  show "0 \<le> m \<and> m < 10 ^ 2" using civil(1) mp by auto
  show "0 \<le> d \<and> d < 10 ^ 2" using civil(3) doy unfolding mp_def by simp
qed

lemma yyyymmdd_form:
  assumes "0 \<le> t" "t \<le> 200000000000000"
  shows "length (yyyymmdd t) = 8" "list_all is_digit (yyyymmdd t)"
proof -
  obtain y m d where civil: "civil_of_days (t div 86400000) = (y, m, d)" by (cases "civil_of_days (t div 86400000)")
  have "0 \<le> t div 86400000" "t div 86400000 \<le> 2400000" using assms by linarith+
  note width = civil_width [OF this civil]
  show "length (yyyymmdd t) = 8" "list_all is_digit (yyyymmdd t)"
    using padded_numeral [of y 4] padded_numeral [of m 2] padded_numeral [of d 2] width by (simp_all add: yyyymmdd_def civil)
qed

lemma alphabet_chars: "k < 32 \<Longrightarrow> is_digit (ALPHABET ! k) \<or> is_upper (ALPHABET ! k) \<and> ALPHABET ! k \<noteq> CHR ''I'' \<and> ALPHABET ! k \<noteq> CHR ''O''"
proof -
  assume "k < 32"
  moreover have "length ALPHABET = 32" by (simp add: ALPHABET_def)
  ultimately have "ALPHABET ! k \<in> set ALPHABET" by simp
  moreover have "list_all (\<lambda>c. is_digit c \<or> is_upper c \<and> c \<noteq> CHR ''I'' \<and> c \<noteq> CHR ''O'') ALPHABET"
    by (simp add: ALPHABET_def is_digit_def is_upper_def)
  ultimately show ?thesis by (simp add: list_all_iff)
qed

text \<open>
  A reference drawn before the year 8307 passes the check of the path parameter and is not changed by it, so a payment can always be
  consulted under the reference it was given.
\<close>

theorem generated_reference_is_accepted:
  assumes "0 \<le> clock X (wd_draws w)" "clock X (wd_draws w) \<le> 200000000000000" "length (random_bytes X (Suc (wd_draws w)) 8) = 8"
  shows "\<exists>reference w'. generate_reference X w = (Inr reference, w') \<and> validate_reference reference = Inr reference"
proof -
  let ?r = "''TRF-'' @ yyyymmdd (clock X (wd_draws w)) @ ''-'' @ randomSuffix (random_bytes X (Suc (wd_draws w)) 8)"
  note date = yyyymmdd_form [OF assms(1,2)]
  have suffix: "length (randomSuffix bytes) = length bytes"
    "list_all (\<lambda>c. is_digit c \<or> is_upper c \<and> c \<noteq> CHR ''I'' \<and> c \<noteq> CHR ''O'') (randomSuffix bytes)" for bytes
    using alphabet_chars by (auto simp: randomSuffix_def list_all_iff)
  have plain: "list_all (\<lambda>c. is_ascii c \<and> \<not> is_space c \<and> char_upper c = c) ?r"
  proof -
    have "list_all (\<lambda>c. is_ascii c \<and> \<not> is_space c \<and> char_upper c = c) s" if "list_all (\<lambda>c. is_digit c \<or> is_upper c) s" for s
      using that by (auto simp: list_all_iff plain_ascii plain_not_space plain_upper)
    moreover have "list_all (\<lambda>c. is_digit c \<or> is_upper c) (yyyymmdd (clock X (wd_draws w)))"
      "list_all (\<lambda>c. is_digit c \<or> is_upper c) (randomSuffix (random_bytes X (Suc (wd_draws w)) 8))"
      using date(2) suffix(2) by (auto simp: list_all_iff)
    ultimately show ?thesis by (simp add: is_ascii_def is_space_def char_upper_def char_of_def bit_0)
  qed
  have "js_trim ?r = ?r" by (rule trim_unspaced) (use plain in \<open>auto simp: list_all_iff intro: ascii_no_space\<close>)
  moreover have "wide_upper ?r = ?r"
    using plain by (subst ascii_wide_upper) (auto simp: list_all_iff toUpperCase_def intro: map_idI)
  moreover have "REFERENCE_PATTERN ?r" using date suffix assms(3) by (simp add: REFERENCE_PATTERN_def numeral_eq_Suc)
  ultimately have "validate_reference ?r = Inr ?r" by (simp add: validate_reference_def Let_def)
  then show ?thesis by (simp add: generate_reference_def run_bnd draw_def ret_def)
qed

end
