(* ===== verification/Spec2Isabelle.thy ===== *)
theory Spec2Isabelle
  imports Ledger_Refinement Simulators Configuration Iban Http_Layer Audit_Trail Schema_History Requests
begin

text \<open>
  Verification of a payment gateway: an HTTP service that collects mobile money, instructs a bank through SOAP, refunds the payer
  when the bank refuses, and keeps of every payment a register of facts that is sealed, chained, accounted for in double
  entry and anchored on a chain. The sources are under \<^verbatim>\<open>src/src\<close>; the contract is \<^verbatim>\<open>src/contracts/AuditAnchor.sol\<close>.

  \<^bold>\<open>How the parts interact.\<close> A payment is a row of \<^verbatim>\<open>transactions\<close>. Every handler changes it in an SQL transaction that asks the state
  machine whether the move is lawful and records a fact; recording seals the fact, links it to the last one of its reference and
  posts a journal entry. A signed callback confirms or refuses the collection; a conforming confirmation queues an instruction
  that a worker takes to the bank. A refusal or a mismatch opens a debt that the refund service extinguishes. Closed
  registers are gathered into batches whose Merkle root is published; the verification reads the register, the rows and
  the chain again. Treasury moves what was collected.

  \<^bold>\<open>How the sources are modelled.\<close> A service is a function over a \<open>world\<close> (theory Database) in the state and error monad of theory
  Prelude: \<open>io\<close> actions return \<open>Inr\<close> a value or \<open>Inl\<close> the exception thrown, with the world as it was left. \<open>transaction\<close> takes
  the store back when its body throws and runs the deferred trigger of the journal. Time, identifiers, random bytes and the answers of remote
  services are drawn from the record \<open>externals\<close>, indexed by the number of draws made, so every sequence of answers is covered.
  Numbers are IEEE doubles as rationals with rounding, texts are UTF-8 byte sequences, words of the contract are machine words.

  \<^bold>\<open>Theories, in the order of the dependencies.\<close>
  \<^item> Prelude: the monad, the predicates \<open>keeps\<close> and \<open>throws\<close> with their rules, text helpers. Js_Text: values of unknown type, characters,
    white space, words, JSON. Js_Number: binary64 arithmetic, decimal texts, \<^verbatim>\<open>numeric(18,2)\<close>.
  \<^item> Domain (the enums), State_Machine (\<^verbatim>\<open>transactions/state\<close>, and the CHECK constraints of \<^verbatim>\<open>transaction.entity.ts\<close>): the machine accepts
    exactly the lawful moves; reached states are safe; settled values do not change, except through null.
  \<^item> Money (\<^verbatim>\<open>amount.util.ts\<close>, \<^verbatim>\<open>is-monetary-amount.validator.ts\<close>): comparison, rounding and storage are exact in cents.
  \<^item> Merkle (\<^verbatim>\<open>merkle.util.ts\<close>, \<^verbatim>\<open>fingerprint.util.ts\<close>), Contract (\<^verbatim>\<open>AuditAnchor.sol\<close>): leaves have proofs, proofs show membership or a
    collision, on and off the chain alike; anchored batches never change.
  \<^item> Entities (the rows), Event_Xml (\<^verbatim>\<open>transaction-event-xml.builder.ts\<close>), Database (the store and its constraints, \<^verbatim>\<open>transactions.repository.ts\<close>),
    Posting (\<^verbatim>\<open>accounting\<close>): posting rules balance, lifecycles extinguish debts, the trial balance closes.
  \<^item> Event_Ledger (\<^verbatim>\<open>transaction-events.service.ts\<close>): recording keeps the chains despite concurrent commits and succeeds when the fact is
    lawful; closing commits to the history. Anchor_Client (\<^verbatim>\<open>evm-anchor.client.ts\<close>), Chain_Verification
    (\<^verbatim>\<open>event-chain-verification.service.ts\<close>): what each verdict means.
  \<^item> Register_Contract: the locales \<open>store_contract\<close> and \<open>register_contract\<close>, what a handler must keep, interpreted on the chains, the
    journal and the rows. Effects: what the shared steps of the handlers leave alone.
  \<^item> Mobile_Money, Webhook, Bank_Worker (\<^verbatim>\<open>mobile-money\<close>), Refunds (\<^verbatim>\<open>refunds\<close>), Treasury (\<^verbatim>\<open>treasury\<close>), Transfers (\<^verbatim>\<open>transactions\<close>), Anchoring
    (\<^verbatim>\<open>anchor.service.ts\<close>): the handlers, each within the locales, with their own properties.
  \<^item> Gateway: all operations in any order, as an inductive reachability relation. Observability (\<^verbatim>\<open>observability\<close>, \<^verbatim>\<open>health\<close>).
    Ledger_Refinement: every history of the gateway refines an abstract append-only ledger.
  \<^item> Soap (\<^verbatim>\<open>soap\<close>), Http_Layer (\<^verbatim>\<open>common/filters\<close>, \<^verbatim>\<open>common/middleware\<close>, \<^verbatim>\<open>common/interceptors\<close>), Access (\<^verbatim>\<open>auth\<close>), Iban, Masking (\<^verbatim>\<open>common\<close>),
    Field_Cipher (\<^verbatim>\<open>security\<close>), Configuration (\<^verbatim>\<open>config\<close>), Audit_Trail (\<^verbatim>\<open>audit\<close>), Simulators: the edges of the service.
  \<^item> Requests (the classes of \<^verbatim>\<open>dto\<close> that a body is read into, with the options of the validation pipe): what an accepted request satisfies, that
    it can be stored, and that generated references are accepted. Api_Views (controllers, the mapping of rows to responses, pages and
    statistics): the consultations answer alike over stores that differ only in what must stay hidden; pages cover a search.
  \<^item> Schema_Guards (the triggers of the register and of the journal, their installers, the take-over of old rows): whatever statements are sent, recorded facts
    and entries stay and the entries stay balanced; what the program posts is admitted. Schema_History (\<^verbatim>\<open>AddStateInvariants\<close>,
    \<^verbatim>\<open>AddEventActorsAndRefundActors\<close>): constraints are installed exactly when the rows allow it, identities are never lost. Party_Migration (\<^verbatim>\<open>EncryptPartyFields\<close> and
    \<^verbatim>\<open>EnforceEncryptedPartyFields\<close>): the parties of old rows are encrypted, can be read with the ring of the program, and come back when the migration is undone.

  \<^bold>\<open>Bounds and fuel.\<close> Every loop is structural or has a termination proof. Loops that the sources bound carry the bound as their first argument:
  the retries of a fact that loses its rank (\<open>MAX_SEQUENCE_ATTEMPTS\<close>), of a drawn reference (\<open>MAX_REFERENCE_ATTEMPTS\<close>),
  of a SOAP call (\<open>max_attempts\<close>) and the drain (its limit); the case of an exhausted bound is the one of the source. The search of
  the shortest decimal of a double has fuel for 1075 decimals after the point, which \<open>shortest_decimal_fl\<close> shows to be enough. Concurrent
  commits are an explicit list given to \<open>record_event\<close>.

  \<^bold>\<open>What is assumed.\<close> Of keccak-256 that texts in hexadecimal are hashed by the bytes they denote and that the contract computes the same function (\<open>ethers_ok\<close>,
  \<open>evm_agrees\<close>); no hash is assumed injective: the conclusions exhibit a collision instead. Of AES-256-GCM that it opens exactly what was
  sealed (\<open>gcm_ok\<close>) and, where widths matter, that a ciphertext is as long as its text (\<open>gcm_sizes\<close>); of HKDF the length of its output. Initialisation vectors
  are arguments of twelve bytes. The answers of PostgreSQL to the statements of an installer are an argument: any of them may fail.

  \<^bold>\<open>Not modelled.\<close> Routing, decorators, Swagger, module wiring and bootstrap, which have no logic of their own; schedulers, which only call the
  operations; logs, counters and histograms; the statements of the migrations that only declare tables, columns, types and indexes, whose result is
  the store of theory Database; the conversion of query strings to numbers, the ISO 8601 check, node-soap, xml2js, ethers, libxml, the URL parser
  and PostgreSQL itself, which are code of others and arguments of the model where the program depends on them.
\<close>

end
